(* ===== verification/Prelude.thy ===== *)
theory Prelude
  imports Main "HOL-Library.Word"
begin

text \<open>
  Shared vocabulary of the development.

  A C++ byte string (\<open>std::string\<close>, \<open>std::vector<char>\<close>, a pointer range) is a list of
  \<open>char\<close>; HOL's \<open>char\<close> has exactly 256 values. The functions below are the parts of the
  C and C++ standard library the sources call on such strings: \<open>std::find\<close>,
  \<open>std::search\<close>, \<open>std::string::find\<close>, \<open>substr\<close>, \<open>compare\<close>, \<open>tolower\<close>,
  \<open>isspace\<close>, \<open>strtoull\<close> and the decimal conversion of \<open>printf\<close> and streams.
  A call that throws \<open>std::out_of_range\<close> returns the left side of a sum.
\<close>

type_synonym bytes = "char list"

text \<open>Rewrite rules that compute the contents of the byte buffers of the development.\<close>
named_theorems buf_simps

text \<open>Definitions of one-line accessors and setters, unfolded together.\<close>
named_theorems acc_defs

text \<open>Errors a standard-library call can raise.\<close>
datatype exn = OutOfRange

abbreviation CR :: char where "CR \<equiv> CHR 0x0D"
abbreviation LF :: char where "LF \<equiv> CHR 0x0A"
abbreviation NUL :: char where "NUL \<equiv> CHR 0x00"
abbreviation QUOTE :: char where "QUOTE \<equiv> CHR 0x22"

definition CRLF :: bytes where
  "CRLF = [CR, LF]"

lemma length_CRLF [simp]: "length CRLF = 2"
  by (simp add: CRLF_def)

lemma CRLF_not_Nil [simp]: "CRLF \<noteq> []"
  by (simp add: CRLF_def)

subsection \<open>Searching\<close>

text \<open>\<open>std::find(first, last, c)\<close>: the offset of the first \<open>c\<close>, or of \<open>last\<close>.\<close>

fun find_char :: "char \<Rightarrow> bytes \<Rightarrow> nat" where
  "find_char c [] = 0"
| "find_char c (x # xs) = (if x = c then 0 else Suc (find_char c xs))"

lemma find_char_le [simp]: "find_char c xs \<le> length xs"
  by (induction xs) auto

lemma find_char_eq_length: "find_char c xs = length xs \<longleftrightarrow> c \<notin> set xs"
  by (induction xs) auto

lemma find_char_less: "find_char c xs < length xs \<longleftrightarrow> c \<in> set xs"
  by (induction xs) auto

lemma find_char_nth: "c \<in> set xs \<Longrightarrow> xs ! find_char c xs = c"
  by (induction xs) auto

lemma find_char_take: "c \<notin> set (take (find_char c xs) xs)"
  by (induction xs) auto

lemma find_char_append:
  "find_char c (xs @ ys) = (if c \<in> set xs then find_char c xs else length xs + find_char c ys)"
  by (induction xs) auto

lemma find_char_split: "c \<notin> set xs \<Longrightarrow> find_char c (xs @ c # ys) = length xs"
  by (simp add: find_char_append)

text \<open>\<open>std::search(first, last, pat)\<close>: offset of the first occurrence, None for \<open>last\<close>.\<close>

fun find_sub :: "bytes \<Rightarrow> bytes \<Rightarrow> nat option" where
  "find_sub pat [] = (if pat = [] then Some 0 else None)"
| "find_sub pat (x # xs) =
     (if take (length pat) (x # xs) = pat then Some 0 else map_option Suc (find_sub pat xs))"

lemma find_sub_Some:
  "find_sub pat xs = Some n \<Longrightarrow> n + length pat \<le> length xs \<and> take (length pat) (drop n xs) = pat"
proof (induction pat xs arbitrary: n rule: find_sub.induct)
  case (1 pat)
  then show ?case by (auto split: if_splits)
next
  case (2 pat x xs)
  show ?case
  proof (cases "take (length pat) (x # xs) = pat")
    case True
    then have "length pat \<le> length (x # xs)"
      by (metis length_take min.absorb_iff2 min.commute)
    with True 2 show ?thesis by simp
  next
    case False
    with 2 show ?thesis by fastforce
  qed
qed

lemmas find_sub_bound = find_sub_Some [THEN conjunct1]
lemmas find_sub_match = find_sub_Some [THEN conjunct2]

lemma find_sub_append: "find_sub pat xs = Some n \<Longrightarrow> find_sub pat (xs @ ys) = Some n"
proof (induction pat xs arbitrary: n rule: find_sub.induct)
  case (1 pat)
  then show ?case by (cases ys) (auto split: if_splits)
next
  case (2 pat x xs)
  show ?case
  proof (cases "take (length pat) (x # xs) = pat")
    case True
    then have "length pat \<le> Suc (length xs)"
      by (metis length_Cons length_take min.cobounded1 min.commute)
    with True have "take (length pat) (x # xs @ ys) = pat"
      by (metis append_Cons take_all_iff length_Cons take_append diff_is_0_eq append_Nil2 take0)
    with True 2(2) show ?thesis by simp
  next
    case False
    with 2 obtain m where m: "find_sub pat xs = Some m" "n = Suc m" by auto
    have "take (length pat) (x # xs @ ys) \<noteq> pat"
    proof
      assume "take (length pat) (x # xs @ ys) = pat"
      moreover have "length pat \<le> length xs"
        using find_sub_bound [OF m(1)] by simp
      ultimately show False using False by (cases pat) auto
    qed
    with 2 m show ?thesis using False by simp
  qed
qed

text \<open>An occurrence that appears only after an extension ends inside the extension.\<close>

lemma find_sub_extend:
  "find_sub pat xs = None \<Longrightarrow> find_sub pat (xs @ ys) = Some n \<Longrightarrow> length xs < n + length pat"
proof (induction pat xs arbitrary: n rule: find_sub.induct)
  case (1 pat)
  then show ?case by (cases pat) auto
next
  case (2 pat x xs)
  show ?case
  proof (cases "take (length pat) (x # xs @ ys) = pat")
    case True
    have "\<not> length pat \<le> length (x # xs)"
    proof
      assume "length pat \<le> length (x # xs)"
      then have "take (length pat) (x # xs) = pat" using True
        by (metis append_Cons append_Nil2 diff_is_0_eq take0 take_append)
      with 2(2) show False by simp
    qed
    then show ?thesis by simp
  next
    case False
    with 2(3) obtain m where m: "find_sub pat (xs @ ys) = Some m" "n = Suc m" by auto
    moreover have ne: "take (length pat) (x # xs) \<noteq> pat"
      using 2(2) by (auto split: if_splits)
    moreover have "find_sub pat xs = None"
      using 2(2) ne by (auto split: if_splits)
    ultimately show ?thesis using 2(1) [of m] by simp
  qed
qed

text \<open>The occurrence found is the first one.\<close>

lemma find_sub_least:
  "find_sub pat xs = Some n \<Longrightarrow> m < n \<Longrightarrow> take (length pat) (drop m xs) \<noteq> pat"
proof (induction pat xs arbitrary: n m rule: find_sub.induct)
  case (1 pat)
  then show ?case by (auto split: if_splits)
next
  case (2 pat x xs)
  then show ?case
    by (cases m) (auto split: if_splits)
qed

lemma find_sub_None:
  "find_sub pat xs = None \<Longrightarrow> take (length pat) (drop m xs) = pat \<Longrightarrow> False"
proof (induction pat xs arbitrary: m rule: find_sub.induct)
  case (1 pat)
  then show ?case by (auto split: if_splits)
next
  case (2 pat x xs)
  then show ?case by (cases m) (auto split: if_splits)
qed

lemma find_sub_here: "find_sub pat (pat @ ys) = Some 0"
proof (cases "pat @ ys")
  case Nil
  then show ?thesis by simp
next
  case (Cons a zs)
  have "take (length pat) (pat @ ys) = pat" by simp
  then show ?thesis unfolding Cons by simp
qed

lemma find_sub_empty_hay: "pat \<noteq> [] \<Longrightarrow> find_sub pat [] = None"
  by simp

text \<open>
  A pattern that does not overlap what precedes it is found where it was put: if no position of
  \<open>xs\<close> starts an occurrence in \<open>xs @ pat @ ys\<close>.
\<close>

lemma find_sub_at:
  assumes "\<And>m. m < length xs \<Longrightarrow> take (length pat) (drop m (xs @ pat @ ys)) \<noteq> pat"
  shows "find_sub pat (xs @ pat @ ys) = Some (length xs)"
  using assms
proof (induction xs)
  case Nil
  then show ?case by (simp add: find_sub_here)
next
  case (Cons x xs)
  from Cons.prems [of 0] have "take (length pat) (x # xs @ pat @ ys) \<noteq> pat" by simp
  moreover have "find_sub pat (xs @ pat @ ys) = Some (length xs)"
    using Cons.prems [of "Suc _"] by (intro Cons.IH) force
  ultimately show ?case by simp
qed

lemma find_sub_absent_head:
  assumes "c \<notin> set xs" "pat = c # p"
  shows "find_sub pat (xs @ pat @ ys) = Some (length xs)"
proof (rule find_sub_at)
  fix m assume m: "m < length xs"
  then have "drop m (xs @ pat @ ys) = xs ! m # drop (Suc m) (xs @ pat @ ys)"
    by (simp add: Cons_nth_drop_Suc [symmetric] nth_append)
  moreover have "xs ! m \<noteq> c" using assms(1) m by (metis nth_mem)
  ultimately show "take (length pat) (drop m (xs @ pat @ ys)) \<noteq> pat"
    using assms(2) by simp
qed

text \<open>\<open>std::string::find(pat, pos)\<close>; None is \<open>npos\<close>.\<close>

definition str_find :: "bytes \<Rightarrow> bytes \<Rightarrow> nat \<Rightarrow> nat option" where
  "str_find s pat pos =
     (if length s < pos then None else map_option (\<lambda>i. pos + i) (find_sub pat (drop pos s)))"

lemma str_find_bound: "str_find s pat pos = Some n \<Longrightarrow> pos \<le> n \<and> n + length pat \<le> length s"
  by (auto simp: str_find_def split: if_splits dest: find_sub_bound)

text \<open>\<open>std::string::substr(pos, n)\<close> and \<open>compare(pos, n, t) == 0\<close>: both throw past the end.\<close>

definition substr :: "bytes \<Rightarrow> nat \<Rightarrow> nat \<Rightarrow> exn + bytes" where
  "substr s pos n = (if length s < pos then Inl OutOfRange else Inr (take n (drop pos s)))"

definition compare_at :: "bytes \<Rightarrow> nat \<Rightarrow> nat \<Rightarrow> bytes \<Rightarrow> exn + bool" where
  "compare_at s pos n t =
     (if length s < pos then Inl OutOfRange else Inr (take n (drop pos s) = t))"

text \<open>Sequencing of calls that may throw.\<close>

definition tryE :: "'e + 'a \<Rightarrow> ('a \<Rightarrow> 'e + 'b) \<Rightarrow> 'e + 'b" where
  "tryE r k = (case r of Inl e \<Rightarrow> Inl e | Inr v \<Rightarrow> k v)"

lemma tryE_simps [simp]: "tryE (Inl e) k = Inl e" "tryE (Inr v) k = k v"
  by (simp_all add: tryE_def)

text \<open>A call that succeeded has not left by any of its early exits.\<close>

lemma success_elims:
  "tryE r k = Inr y \<Longrightarrow> (\<And>v. k v = Inr y \<Longrightarrow> P) \<Longrightarrow> P"
  "(if b then Inl e else x) = Inr y \<Longrightarrow> (\<not> b \<Longrightarrow> x = Inr y \<Longrightarrow> P) \<Longrightarrow> P"
  "(if b then Inr None else x') = Inr (Some z) \<Longrightarrow> (\<not> b \<Longrightarrow> x' = Inr (Some z) \<Longrightarrow> P) \<Longrightarrow> P"
  "(case m of None \<Rightarrow> Inl e | Some t \<Rightarrow> f t) = Inr y \<Longrightarrow> (\<And>t. m = Some t \<Longrightarrow> f t = Inr y \<Longrightarrow> P) \<Longrightarrow> P"
  by (auto simp: tryE_def split: sum.splits if_splits option.splits)

lemma substr_Inr [simp]: "pos \<le> length s \<Longrightarrow> substr s pos n = Inr (take n (drop pos s))"
  by (simp add: substr_def)

lemma compare_at_Inr [simp]:
  "pos \<le> length s \<Longrightarrow> compare_at s pos n t = Inr (take n (drop pos s) = t)"
  by (simp add: compare_at_def)

subsection \<open>Characters\<close>

text \<open>\<open>std::tolower\<close> and \<open>isspace\<close> in the C locale.\<close>

definition tolower_char :: "char \<Rightarrow> char" where
  "tolower_char c = (let n = of_char c :: nat in if 65 \<le> n \<and> n \<le> 90 then char_of (n + 32) else c)"

definition to_lower :: "bytes \<Rightarrow> bytes" where
  "to_lower s = map tolower_char s"

definition isspace :: "char \<Rightarrow> bool" where
  "isspace c \<longleftrightarrow> c = CHR '' '' \<or> c = CHR 0x09 \<or> c = LF \<or> c = CHR 0x0B \<or> c = CHR 0x0C \<or> c = CR"

lemma tolower_char_idem [simp]: "tolower_char (tolower_char c) = tolower_char c"
proof (cases "65 \<le> (of_char c :: nat) \<and> (of_char c :: nat) \<le> 90")
  case True
  then have "(of_char (char_of ((of_char c :: nat) + 32) :: char) :: nat) = of_char c + 32"
    by (simp add: of_char_of)
  with True show ?thesis by (simp add: tolower_char_def Let_def)
next
  case False
  then have "tolower_char c = c" by (auto simp: tolower_char_def Let_def)
  then show ?thesis by simp
qed

lemma to_lower_idem [simp]: "to_lower (to_lower s) = to_lower s"
  by (simp add: to_lower_def)

lemma length_to_lower [simp]: "length (to_lower s) = length s"
  by (simp add: to_lower_def)

subsection \<open>Decimal numbers\<close>

definition digit_char :: "nat \<Rightarrow> char" where
  "digit_char d = char_of (48 + d)"

fun show_nat :: "nat \<Rightarrow> bytes" where
  "show_nat n = (if n < 10 then [digit_char n] else show_nat (n div 10) @ [digit_char (n mod 10)])"

declare show_nat.simps [simp del]

definition show_int :: "int \<Rightarrow> bytes" where
  "show_int i = (if i < 0 then CHR ''-'' # show_nat (nat (- i)) else show_nat (nat i))"

definition is_digit :: "char \<Rightarrow> bool" where
  "is_digit c \<longleftrightarrow> (let n = of_char c :: nat in 48 \<le> n \<and> n \<le> 57)"

definition digit_val :: "char \<Rightarrow> nat" where
  "digit_val c = of_char c - 48"

fun read_digits :: "nat \<Rightarrow> bytes \<Rightarrow> nat" where
  "read_digits acc [] = acc"
| "read_digits acc (c # cs) = read_digits (10 * acc + digit_val c) cs"

lemma of_digit_char: "d < 10 \<Longrightarrow> (of_char (digit_char d) :: nat) = 48 + d"
  by (simp add: digit_char_def of_char_of)

lemma is_digit_char [simp]: "d < 10 \<Longrightarrow> is_digit (digit_char d)"
  by (simp add: is_digit_def of_digit_char Let_def)

lemma digit_val_char [simp]: "d < 10 \<Longrightarrow> digit_val (digit_char d) = d"
  by (simp add: digit_val_def of_digit_char)

lemma show_nat_digits: "\<forall>c\<in>set (show_nat n). is_digit c"
proof (induction n rule: show_nat.induct)
  case (1 n)
  then show ?case by (subst show_nat.simps) auto
qed

lemma show_nat_not_Nil [simp]: "show_nat n \<noteq> []"
  by (subst show_nat.simps) simp

lemma read_digits_append: "read_digits a (xs @ ys) = read_digits (read_digits a xs) ys"
  by (induction xs arbitrary: a) auto

lemma read_show_nat [simp]: "read_digits 0 (show_nat n) = n"
proof (induction n rule: show_nat.induct)
  case (1 n)
  show ?case
  proof (cases "n < 10")
    case True
    then show ?thesis by (simp add: show_nat.simps)
  next
    case False
    with 1 have "read_digits 0 (show_nat (n div 10)) = n div 10" by simp
    with False show ?thesis by (simp add: show_nat.simps [of n] read_digits_append)
  qed
qed

lemma show_nat_inj: "show_nat m = show_nat n \<longleftrightarrow> m = n"
  by (metis read_show_nat)

lemma length_show_nat: "n < 10 ^ k \<Longrightarrow> 0 < k \<Longrightarrow> length (show_nat n) \<le> k"
proof (induction n arbitrary: k rule: show_nat.induct)
  case (1 n)
  show ?case
  proof (cases "n < 10")
    case True
    with 1 show ?thesis by (simp add: show_nat.simps)
  next
    case False
    with 1(2) have k: "1 < k"
      by (cases k; cases "k - 1") auto
    then obtain j where j: "k = Suc j" "0 < j" by (cases k) auto
    with 1(2) have "n div 10 < 10 ^ j" by (simp add: less_mult_imp_div_less mult.commute)
    with 1(1) [of j] False j have "length (show_nat (n div 10)) \<le> j" by simp
    with False j show ?thesis by (simp add: show_nat.simps [of n])
  qed
qed

subsection \<open>C strings and \<open>strtoull\<close>\<close>

text \<open>\<open>std::string::c_str()\<close> as a C function reads it: up to the first NUL.\<close>

definition c_str :: "bytes \<Rightarrow> bytes" where
  "c_str s = takeWhile (\<lambda>c. c \<noteq> NUL) s"

definition ULLONG_MAX :: nat where
  "ULLONG_MAX = 2 ^ 64 - 1"

text \<open>
  \<open>std::strtoull(s, &end, 10)\<close>: the value, the offset of \<open>end\<close> and whether \<open>errno\<close> became
  \<open>ERANGE\<close>. Leading white space and a sign are accepted; a minus sign negates modulo \<open>2^64\<close>.
\<close>

definition strtoull10 :: "bytes \<Rightarrow> nat \<times> nat \<times> bool" where
  "strtoull10 s =
     (let ws = length (takeWhile isspace s);
          s1 = drop ws s;
          neg = (s1 \<noteq> [] \<and> hd s1 = CHR ''-'');
          sgn = (s1 \<noteq> [] \<and> (hd s1 = CHR ''-'' \<or> hd s1 = CHR ''+''));
          s2 = (if sgn then tl s1 else s1);
          ds = takeWhile is_digit s2;
          v = read_digits 0 ds;
          e = ws + (if sgn then 1 else 0) + length ds
      in if ds = [] then (0, 0, False)
         else if ULLONG_MAX < v then (ULLONG_MAX, e, True)
         else if neg then ((2 ^ 64 - v) mod 2 ^ 64, e, False)
         else (v, e, False))"

lemma strtoull10_bound: "fst (strtoull10 s) \<le> ULLONG_MAX"
proof -
  have "(2 ^ 64 - v) mod 2 ^ 64 \<le> ULLONG_MAX" for v :: nat
  proof -
    have "(2 ^ 64 - v) mod 2 ^ 64 < (2 ^ 64 :: nat)" by (rule mod_less_divisor) simp
    then show ?thesis by (simp add: ULLONG_MAX_def)
  qed
  then show ?thesis by (auto simp: strtoull10_def Let_def)
qed

lemma strtoull10_end: "fst (snd (strtoull10 s)) \<le> length s"
proof -
  let ?n = "length (takeWhile isspace s)"
  have "?n \<le> length s" by (rule length_takeWhile_le)
  moreover have "length (takeWhile is_digit t) \<le> length t" for t by (rule length_takeWhile_le)
  from this [of "tl (drop ?n s)"] this [of "drop ?n s"]
  have "length (takeWhile is_digit (tl (drop ?n s))) \<le> length s - ?n - 1"
    "length (takeWhile is_digit (drop ?n s)) \<le> length s - ?n"
    by simp_all
  moreover have "drop ?n s \<noteq> [] \<Longrightarrow> ?n < length s" by simp
  ultimately show ?thesis by (auto simp: strtoull10_def Let_def)
qed

lemma digit_not_space: "is_digit c \<Longrightarrow> \<not> isspace c"
  by (auto simp: is_digit_def isspace_def)

lemma digit_not_special: "is_digit c \<Longrightarrow> c \<noteq> CHR ''-'' \<and> c \<noteq> CHR ''+'' \<and> c \<noteq> NUL \<and> c \<noteq> CR \<and> c \<noteq> LF"
  by (auto simp: is_digit_def)

lemma strtoull10_digits:
  assumes "ds \<noteq> []" "\<forall>c\<in>set ds. is_digit c"
  shows "strtoull10 ds = (if ULLONG_MAX < read_digits 0 ds then (ULLONG_MAX, length ds, True)
                          else (read_digits 0 ds, length ds, False))"
proof -
  from assms obtain d ds' where ds: "ds = d # ds'" "is_digit d" by (cases ds) auto
  have "takeWhile isspace ds = []" using ds digit_not_space by simp
  moreover have "hd ds \<noteq> CHR ''-''" "hd ds \<noteq> CHR ''+''" using ds digit_not_special by auto
  moreover have "takeWhile is_digit ds = ds" using assms(2) by (simp add: takeWhile_eq_all_conv)
  ultimately show ?thesis
    using assms(1) by (simp add: strtoull10_def Let_def del: takeWhile_eq_all_conv)
qed

lemma c_str_digits: "\<forall>c\<in>set ds. is_digit c \<Longrightarrow> c_str ds = ds"
  unfolding c_str_def by (rule takeWhile_eq_all_conv [THEN iffD2]) (use digit_not_special in blast)

end
