(* ===== verification/Net_Buffer.thy ===== *)
theory Net_Buffer
  imports Prelude
begin

text \<open>
  \<open>src/src/muduo_core/Buffer.h\<close> and \<open>Buffer.cc\<close>: the byte buffer between a socket and the
  protocol code, with its prepend area, its reader and writer indices, compaction and growth.
  The abstraction \<open>content\<close> is the readable byte string; the locale \<open>byte_queue\<close> is the
  contract the connection and the parser rely on.

  Indices are \<open>size_t\<close> in the code and \<open>nat\<close> here; under \<open>buf_ok\<close> no subtraction of the code
  goes below zero. The kernel's answer to \<open>readv\<close> and \<open>write\<close> is an argument.
\<close>

definition kCheapPrepend :: nat where
  "kCheapPrepend = 8"

definition kInitialSize :: nat where
  "kInitialSize = 1024 * 1024"

record buffer =
  buf_fd :: "int option"
  buf_data :: bytes
  readerIndex :: nat
  writerIndex :: nat

text \<open>The constructor. The member \<open>fd_\<close> is left uninitialised: None.\<close>

definition buffer_new :: "nat \<Rightarrow> buffer" where
  "buffer_new initialSize =
     \<lparr>buf_fd = None, buf_data = replicate (kCheapPrepend + initialSize) NUL,
      readerIndex = kCheapPrepend, writerIndex = kCheapPrepend\<rparr>"

definition readableBytes :: "buffer \<Rightarrow> nat" where
  "readableBytes b = writerIndex b - readerIndex b"

definition writableBytes :: "buffer \<Rightarrow> nat" where
  "writableBytes b = length (buf_data b) - writerIndex b"

definition prependableBytes :: "buffer \<Rightarrow> nat" where
  "prependableBytes b = readerIndex b"

text \<open>The readable range \<open>[peek(), beginWrite())\<close> as a byte string.\<close>

definition content :: "buffer \<Rightarrow> bytes" where
  "content b = take (writerIndex b - readerIndex b) (drop (readerIndex b) (buf_data b))"

definition retrieveAll :: "buffer \<Rightarrow> buffer" where
  "retrieveAll b = b\<lparr>readerIndex := kCheapPrepend, writerIndex := kCheapPrepend\<rparr>"

definition retrieve :: "nat \<Rightarrow> buffer \<Rightarrow> buffer" where
  "retrieve len b =
     (if len < readableBytes b then b\<lparr>readerIndex := readerIndex b + len\<rparr> else retrieveAll b)"

text \<open>\<open>retrieveUntil(end)\<close>, with the pointer given as an offset from \<open>peek()\<close>.\<close>

definition retrieveUntil :: "nat \<Rightarrow> buffer \<Rightarrow> buffer" where
  "retrieveUntil endp b = retrieve endp b"

definition retrieveAsString :: "nat \<Rightarrow> buffer \<Rightarrow> bytes \<times> buffer" where
  "retrieveAsString len b =
     (let len = (if readableBytes b < len then readableBytes b else len);
          result = take len (drop (readerIndex b) (buf_data b))
      in (result, retrieve len b))"

definition retrieveAllAsString :: "buffer \<Rightarrow> bytes \<times> buffer" where
  "retrieveAllAsString b = retrieveAsString (readableBytes b) b"

text \<open>\<open>vector::resize\<close> and \<open>std::copy\<close> into the vector.\<close>

definition resize :: "bytes \<Rightarrow> nat \<Rightarrow> bytes" where
  "resize xs n = take n xs @ replicate (n - length xs) NUL"

definition write_at :: "bytes \<Rightarrow> nat \<Rightarrow> bytes \<Rightarrow> bytes" where
  "write_at xs i s = take i xs @ s @ drop (i + length s) xs"

definition makeSpace :: "nat \<Rightarrow> buffer \<Rightarrow> buffer" where
  "makeSpace len b =
     (if writableBytes b + prependableBytes b < len + kCheapPrepend
      then b\<lparr>buf_data := resize (buf_data b) (writerIndex b + len)\<rparr>
      else (let readable = readableBytes b
            in b\<lparr>buf_data := write_at (buf_data b) kCheapPrepend (content b),
                 readerIndex := kCheapPrepend, writerIndex := kCheapPrepend + readable\<rparr>))"

definition ensureWriteableBytes :: "nat \<Rightarrow> buffer \<Rightarrow> buffer" where
  "ensureWriteableBytes len b = (if writableBytes b < len then makeSpace len b else b)"

definition append :: "bytes \<Rightarrow> buffer \<Rightarrow> buffer" where
  "append s b =
     (let b = ensureWriteableBytes (length s) b
      in b\<lparr>buf_data := write_at (buf_data b) (writerIndex b) s,
           writerIndex := writerIndex b + length s\<rparr>)"

definition findCRLF :: "buffer \<Rightarrow> nat option" where
  "findCRLF b = find_sub CRLF (content b)"

text \<open>
  \<open>readFd\<close>. The kernel's answer is an error number or the bytes it scattered over the two
  \<open>iovec\<close>s: first the writable area, then the 64K stack array when there is a second one.
\<close>

definition extrabuf_size :: nat where
  "extrabuf_size = 65536"

definition readv_capacity :: "buffer \<Rightarrow> nat" where
  "readv_capacity b =
     (let writable = writableBytes b
      in if writable < extrabuf_size then writable + extrabuf_size else writable)"

definition readFd :: "int \<Rightarrow> int + bytes \<Rightarrow> buffer \<Rightarrow> (int + nat) \<times> buffer" where
  "readFd fd res b0 =
     (let b = (if buf_fd b0 \<noteq> Some fd then b0\<lparr>buf_fd := Some fd\<rparr> else b0);
          writable = writableBytes b
      in case res of
           Inl err \<Rightarrow> (Inl err, b)
         | Inr s \<Rightarrow>
             (let n = length s;
                  b1 = b\<lparr>buf_data := write_at (buf_data b) (writerIndex b) (take writable s)\<rparr>
              in if n \<le> writable then (Inr n, b1\<lparr>writerIndex := writerIndex b1 + n\<rparr>)
                 else (Inr n, append (drop writable s) (b1\<lparr>writerIndex := length (buf_data b1)\<rparr>))))"

text \<open>\<open>writeFd\<close> offers the readable bytes to the kernel, which takes a prefix or fails; the
  buffer itself is not changed.\<close>

definition writeFd :: "int + nat \<Rightarrow> buffer \<Rightarrow> (int + nat) \<times> bytes" where
  "writeFd res b =
     (case res of Inl err \<Rightarrow> (Inl err, []) | Inr n \<Rightarrow> (Inr n, take n (content b)))"

subsection \<open>The buffer invariant and the contents\<close>

definition buf_ok :: "buffer \<Rightarrow> bool" where
  "buf_ok b \<longleftrightarrow> kCheapPrepend \<le> readerIndex b \<and> readerIndex b \<le> writerIndex b
     \<and> writerIndex b \<le> length (buf_data b)"

lemmas buf_defs = readableBytes_def writableBytes_def prependableBytes_def content_def
  retrieveAll_def retrieve_def buf_ok_def

lemma length_resize [simp]: "length (resize xs n) = n"
  by (simp add: resize_def)

lemma length_write_at: "i + length s \<le> length xs \<Longrightarrow> length (write_at xs i s) = length xs"
  by (simp add: write_at_def)

lemma length_content: "buf_ok b \<Longrightarrow> length (content b) = readableBytes b"
  by (auto simp: buf_defs min_def)

lemma buf_ok_new [simp]: "buf_ok (buffer_new n)"
  by (simp add: buf_ok_def buffer_new_def)

lemma content_new [simp]: "content (buffer_new n) = []"
  by (simp add: content_def buffer_new_def)

lemma buf_ok_retrieve: "buf_ok b \<Longrightarrow> buf_ok (retrieve n b)"
  by (auto simp: buf_defs)

lemma content_retrieve: "buf_ok b \<Longrightarrow> content (retrieve n b) = drop n (content b)"
  by (auto simp: buf_defs drop_take add.commute)

lemma content_retrieve_le: "length (content (retrieve n b)) \<le> length (content b)"
  by (auto simp: buf_defs)

lemma retrieveAsString_eq:
  assumes "buf_ok b"
  shows "retrieveAsString n b = (take n (content b), retrieve (min n (readableBytes b)) b)"
  using assms by (auto simp: retrieveAsString_def buf_defs Let_def min_def)

lemma buf_ok_makeSpace:
  "buf_ok b \<Longrightarrow> writableBytes b < n \<Longrightarrow> buf_ok (makeSpace n b) \<and> n \<le> writableBytes (makeSpace n b)"
  by (auto simp: makeSpace_def buf_defs write_at_def Let_def)

lemma content_makeSpace:
  assumes "buf_ok b" "writableBytes b < n"
  shows "content (makeSpace n b) = content b"
proof (cases "writableBytes b + prependableBytes b < n + kCheapPrepend")
  case True
  with assms show ?thesis by (auto simp: makeSpace_def resize_def buf_defs)
next
  case False
  moreover have "length (content b) = readableBytes b"
    using assms by (simp add: length_content)
  moreover have "kCheapPrepend \<le> length (buf_data b)"
    using assms by (simp add: buf_ok_def)
  ultimately show ?thesis
    by (simp add: makeSpace_def Let_def content_def [of "_\<lparr>buf_data := _, readerIndex := _, writerIndex := _\<rparr>"]
        write_at_def)
qed

lemma ensureWriteableBytes_ok:
  assumes "buf_ok b"
  shows "buf_ok (ensureWriteableBytes n b)" "content (ensureWriteableBytes n b) = content b"
    "n \<le> writableBytes (ensureWriteableBytes n b)"
  using assms buf_ok_makeSpace [OF assms] content_makeSpace [OF assms]
  by (auto simp: ensureWriteableBytes_def)

lemma write_tail_ok:
  assumes "buf_ok b" "length s \<le> writableBytes b"
  shows "buf_ok (b\<lparr>buf_data := write_at (buf_data b) (writerIndex b) s, writerIndex := writerIndex b + length s\<rparr>)"
    "content (b\<lparr>buf_data := write_at (buf_data b) (writerIndex b) s, writerIndex := writerIndex b + length s\<rparr>)
       = content b @ s"
proof -
  let ?w = "writerIndex b" and ?r = "readerIndex b"
  from assms have r: "?r \<le> ?w" and w: "?w + length s \<le> length (buf_data b)" and k: "kCheapPrepend \<le> ?r"
    by (auto simp: buf_defs)
  then show "buf_ok (b\<lparr>buf_data := write_at (buf_data b) ?w s, writerIndex := ?w + length s\<rparr>)"
    by (simp add: buf_ok_def write_at_def)
  have "?w + length s - ?r = (?w - ?r) + length s" using r by simp
  with r w show "content (b\<lparr>buf_data := write_at (buf_data b) ?w s, writerIndex := ?w + length s\<rparr>)
       = content b @ s"
    by (simp add: content_def write_at_def drop_take)
qed

lemma buf_ok_append: "buf_ok b \<Longrightarrow> buf_ok (append s b)"
  using ensureWriteableBytes_ok [of b "length s"] write_tail_ok(1) [of "ensureWriteableBytes (length s) b" s]
  by (simp add: append_def Let_def)

lemma content_append: "buf_ok b \<Longrightarrow> content (append s b) = content b @ s"
  using ensureWriteableBytes_ok [of b "length s"] write_tail_ok(2) [of "ensureWriteableBytes (length s) b" s]
  by (simp add: append_def Let_def)

lemma buf_ok_fd: "buf_ok (b\<lparr>buf_fd := f\<rparr>) = buf_ok b" "content (b\<lparr>buf_fd := f\<rparr>) = content b"
  "writableBytes (b\<lparr>buf_fd := f\<rparr>) = writableBytes b"
  by (simp_all add: buf_defs)

lemma readFd_full:
  assumes "buf_ok b" "writableBytes b < length s"
  defines "b1 \<equiv> b\<lparr>buf_data := write_at (buf_data b) (writerIndex b) (take (writableBytes b) s),
                  writerIndex := length (buf_data b)\<rparr>"
  shows "buf_ok b1" "content b1 = content b @ take (writableBytes b) s"
    "length (buf_data b1) = length (buf_data b)"
proof -
  let ?t = "take (writableBytes b) s"
  have w: "writerIndex b + length ?t = length (buf_data b)"
    using assms(1,2) by (simp add: buf_defs)
  have l: "length ?t \<le> writableBytes b" by simp
  show "buf_ok b1" "content b1 = content b @ take (writableBytes b) s"
    using write_tail_ok [OF assms(1) l] unfolding w b1_def by simp_all
  show "length (buf_data b1) = length (buf_data b)"
    using w by (simp add: b1_def length_write_at)
qed

lemma readFd_Inl: "readFd fd (Inl e) b = (Inl e, b\<lparr>buf_fd := Some fd\<rparr>)"
  by (cases "buf_fd b = Some fd") (auto simp: readFd_def Let_def)

lemma readFd_Inr:
  assumes "buf_ok b"
  shows "fst (readFd fd (Inr s) b) = Inr (length s)" "buf_ok (snd (readFd fd (Inr s) b))"
    "content (snd (readFd fd (Inr s) b)) = content b @ s"
proof -
  define b0 where "b0 = (if buf_fd b \<noteq> Some fd then b\<lparr>buf_fd := Some fd\<rparr> else b)"
  have ok0: "buf_ok b0" and c0: "content b0 = content b"
    using assms by (simp_all add: b0_def buf_ok_fd)
  have "fst (readFd fd (Inr s) b) = Inr (length s) \<and> buf_ok (snd (readFd fd (Inr s) b))
    \<and> content (snd (readFd fd (Inr s) b)) = content b0 @ s"
  proof (cases "length s \<le> writableBytes b0")
    case True
    with write_tail_ok [OF ok0 True] show ?thesis
      by (simp add: readFd_def b0_def [symmetric] Let_def)
  next
    case False
    then have lt: "writableBytes b0 < length s" by simp
    note f = readFd_full [OF ok0 lt]
    have len: "length (write_at (buf_data b0) (writerIndex b0) (take (writableBytes b0) s)) = length (buf_data b0)"
      using f(3) by simp
    from False buf_ok_append [OF f(1)] content_append [OF f(1)] f(2) show ?thesis
      by (simp add: readFd_def b0_def [symmetric] Let_def len)
  qed
  with c0 show "fst (readFd fd (Inr s) b) = Inr (length s)" "buf_ok (snd (readFd fd (Inr s) b))"
    "content (snd (readFd fd (Inr s) b)) = content b @ s" by simp_all
qed

lemmas [buf_simps] = content_retrieve buf_ok_retrieve content_append
  buf_ok_append retrieveAsString_eq readFd_Inl readFd_Inr length_content

subsection \<open>The byte queue contract\<close>

text \<open>
  What the connection and the parser use of a buffer: bytes go in at the end and come out at the
  front. \<open>cont\<close> is the abstract state, \<open>ok\<close> the representation invariant.
\<close>

datatype queue_op = Put bytes | Get nat

fun queue_run :: "(bytes \<Rightarrow> 'q \<Rightarrow> 'q) \<Rightarrow> (nat \<Rightarrow> 'q \<Rightarrow> 'q) \<Rightarrow> queue_op list \<Rightarrow> 'q \<Rightarrow> 'q" where
  "queue_run put get [] q = q"
| "queue_run put get (Put s # ops) q = queue_run put get ops (put s q)"
| "queue_run put get (Get n # ops) q = queue_run put get ops (get n q)"

fun queue_taken :: "('q \<Rightarrow> bytes) \<Rightarrow> (bytes \<Rightarrow> 'q \<Rightarrow> 'q) \<Rightarrow> (nat \<Rightarrow> 'q \<Rightarrow> 'q) \<Rightarrow> queue_op list \<Rightarrow> 'q \<Rightarrow> bytes" where
  "queue_taken cont put get [] q = []"
| "queue_taken cont put get (Put s # ops) q = queue_taken cont put get ops (put s q)"
| "queue_taken cont put get (Get n # ops) q = take n (cont q) @ queue_taken cont put get ops (get n q)"

fun queue_given :: "queue_op list \<Rightarrow> bytes" where
  "queue_given [] = []"
| "queue_given (Put s # ops) = s @ queue_given ops"
| "queue_given (Get n # ops) = queue_given ops"

locale byte_queue =
  fixes cont :: "'q \<Rightarrow> bytes"
    and ok :: "'q \<Rightarrow> bool"
    and put :: "bytes \<Rightarrow> 'q \<Rightarrow> 'q"
    and get :: "nat \<Rightarrow> 'q \<Rightarrow> 'q"
  assumes ok_put: "ok q \<Longrightarrow> ok (put s q)"
    and ok_get: "ok q \<Longrightarrow> ok (get n q)"
    and cont_put: "ok q \<Longrightarrow> cont (put s q) = cont q @ s"
    and cont_get: "ok q \<Longrightarrow> cont (get n q) = drop n (cont q)"
begin

lemma ok_run: "ok q \<Longrightarrow> ok (queue_run put get ops q)"
proof (induction ops arbitrary: q)
  case (Cons a ops)
  then show ?case by (cases a) (simp_all add: ok_put ok_get)
qed simp

lemma stream: "ok q \<Longrightarrow> queue_taken cont put get ops q @ cont (queue_run put get ops q) = cont q @ queue_given ops"
proof (induction ops arbitrary: q)
  case (Cons a ops)
  show ?case
  proof (cases a)
    case (Put s)
    with Cons.IH [OF ok_put [OF Cons.prems]] show ?thesis by (simp add: cont_put Cons.prems)
  next
    case (Get n)
    from Cons.IH [OF ok_get [OF Cons.prems], of n] have
      "take n (cont q) @ queue_taken cont put get ops (get n q) @ cont (queue_run put get ops (get n q))
        = take n (cont q) @ drop n (cont q) @ queue_given ops"
      by (simp add: cont_get Cons.prems)
    with Get show ?thesis by simp
  qed
qed simp

lemma get_after_put: "ok q \<Longrightarrow> n \<le> length (cont q) \<Longrightarrow> cont (get n (put s q)) = drop n (cont q) @ s"
  by (simp add: ok_put cont_put cont_get)

lemma get_all: "ok q \<Longrightarrow> length (cont q) \<le> n \<Longrightarrow> cont (get n q) = []"
  by (simp add: cont_get)

lemma get_get: "ok q \<Longrightarrow> cont (get m (get n q)) = cont (get (n + m) q)"
  by (simp add: ok_get cont_get add.commute)

end

interpretation nb: byte_queue content buf_ok append retrieve
  by unfold_locales (simp_all add: buf_simps)

text \<open>\<open>readFd\<close> is another way in: the buffer after reading is a byte queue too.\<close>

interpretation nbr: byte_queue content buf_ok "\<lambda>s b. snd (readFd fd (Inr s) b)" retrieve for fd
  by unfold_locales (simp_all add: buf_simps)

text \<open>
  Property C14. A buffer is a first-in first-out byte stream: after any sequence of \<open>append\<close> and
  \<open>retrieve\<close> calls on a fresh buffer, whatever growth and compaction \<open>makeSpace\<close> performed, the
  bytes taken out followed by the readable bytes are exactly the bytes appended, in order.
\<close>

theorem buffer_stream:
  "queue_taken content append retrieve ops (buffer_new n)
     @ content (queue_run append retrieve ops (buffer_new n)) = queue_given ops"
  using nb.stream [of "buffer_new n" ops] by simp

end
