(* ===== verification/Time_Stamp.thy ===== *)
theory Time_Stamp
  imports Complex_Main Prelude
begin

text \<open>
  \<open>src/src/base/Timestamp.h\<close> and \<open>Timestamp.cc\<close>: a signed 64-bit tick count, its order, its
  arithmetic and its text form. The clock (\<open>time(NULL)\<close>) and \<open>localtime\<close> are inputs. A
  \<open>double\<close> number of seconds is a rational: every double is one, and the product with \<open>10^6\<close>
  is taken exactly.
\<close>

datatype timestamp = Timestamp (microSecondsSinceEpoch: "64 word")

definition kMicroSecondsPerSecond :: int where
  "kMicroSecondsPerSecond = 1000 * 1000"

text \<open>Signed division of C++: it truncates towards zero.\<close>

definition c_div :: "int \<Rightarrow> int \<Rightarrow> int" where
  "c_div a b = sgn a * sgn b * (\<bar>a\<bar> div \<bar>b\<bar>)"

definition c_mod :: "int \<Rightarrow> int \<Rightarrow> int" where
  "c_mod a b = a - c_div a b * b"

lemma c_div_nonneg: "0 \<le> a \<Longrightarrow> 0 < b \<Longrightarrow> c_div a b = a div b"
  by (cases "a = 0") (simp_all add: c_div_def)

lemma c_mod_nonneg: "0 \<le> a \<Longrightarrow> 0 < b \<Longrightarrow> c_mod a b = a mod b"
  by (simp add: c_mod_def c_div_nonneg minus_div_mult_eq_mod)

definition timestamp_default :: timestamp where
  "timestamp_default = Timestamp 0"

definition ts_invalid :: timestamp where
  "ts_invalid = timestamp_default"

definition ts_value :: "timestamp \<Rightarrow> int" where
  "ts_value t = sint (microSecondsSinceEpoch t)"

definition secondsSinceEpoch :: "timestamp \<Rightarrow> int" where
  "secondsSinceEpoch t = c_div (ts_value t) kMicroSecondsPerSecond"

text \<open>\<open>Timestamp::now()\<close> stores what \<open>time(NULL)\<close> returned, which counts seconds.\<close>

definition ts_now :: "64 word \<Rightarrow> timestamp" where
  "ts_now clock = Timestamp clock"

definition ts_less :: "timestamp \<Rightarrow> timestamp \<Rightarrow> bool" where
  "ts_less l r \<longleftrightarrow> ts_value l < ts_value r"

definition ts_equal :: "timestamp \<Rightarrow> timestamp \<Rightarrow> bool" where
  "ts_equal l r \<longleftrightarrow> ts_value l = ts_value r"

text \<open>\<open>static_cast<int64_t>(seconds * kMicroSecondsPerSecond)\<close>: truncation towards zero.\<close>

definition trunc_rat :: "rat \<Rightarrow> int" where
  "trunc_rat r = (if 0 \<le> r then \<lfloor>r\<rfloor> else \<lceil>r\<rceil>)"

definition addTime :: "timestamp \<Rightarrow> rat \<Rightarrow> timestamp" where
  "addTime t seconds =
     (let delta = word_of_int (trunc_rat (seconds * of_int kMicroSecondsPerSecond))
      in Timestamp (microSecondsSinceEpoch t + delta))"

lemma ts_value_inj [simp]: "ts_value a = ts_value b \<longleftrightarrow> a = b"
  by (cases a; cases b) (auto simp: ts_value_def intro: signed_word_eqI)

lemma ts_equal_iff: "ts_equal a b \<longleftrightarrow> a = b"
  by (simp add: ts_equal_def)

text \<open>The overloaded \<open><\<close> and \<open>==\<close> order the timestamps linearly.\<close>

instantiation timestamp :: linorder
begin

definition less_eq_timestamp :: "timestamp \<Rightarrow> timestamp \<Rightarrow> bool" where
  "a \<le> b \<longleftrightarrow> \<not> ts_less b a"

definition less_timestamp :: "timestamp \<Rightarrow> timestamp \<Rightarrow> bool" where
  "a < b \<longleftrightarrow> ts_less a b"

instance
  by standard (auto simp: less_eq_timestamp_def less_timestamp_def ts_less_def simp flip: ts_value_inj)

end

lemma ts_less_iff: "ts_less a b \<longleftrightarrow> a < b"
  by (simp add: less_timestamp_def)

lemma less_value: "a < b \<longleftrightarrow> ts_value a < ts_value b"
  by (simp add: less_timestamp_def ts_less_def)

lemma less_eq_value: "a \<le> b \<longleftrightarrow> ts_value a \<le> ts_value b"
  by (auto simp: less_eq_timestamp_def ts_less_def)

text \<open>Without overflow, \<open>addTime\<close> adds the truncated number of microseconds.\<close>

lemma ts_value_addTime:
  fixes s :: rat
  defines "d \<equiv> trunc_rat (s * of_int kMicroSecondsPerSecond)"
  assumes "- (2 ^ 63) \<le> ts_value t + d" "ts_value t + d < 2 ^ 63"
  shows "ts_value (addTime t s) = ts_value t + d"
proof -
  have "microSecondsSinceEpoch t + word_of_int d = (word_of_int (ts_value t + d) :: 64 word)"
    by (simp add: ts_value_def)
  then have "ts_value (addTime t s) = sint (word_of_int (ts_value t + d) :: 64 word)"
    by (simp add: ts_value_def addTime_def Let_def d_def)
  also have "\<dots> = signed_take_bit 63 (ts_value t + d)"
    by (simp add: sint_sbintrunc' del: of_int_add)
  also have "\<dots> = ts_value t + d"
    using assms(2,3) by (intro signed_take_bit_int_eq_self) (simp_all)
  finally show ?thesis .
qed

subsection \<open>Calendar text\<close>

text \<open>The fields of \<open>struct tm\<close> the formats print.\<close>

record tm =
  tm_year :: int
  tm_mon :: int
  tm_mday :: int
  tm_hour :: int
  tm_min :: int
  tm_sec :: int

text \<open>The conversions \<open>%<w>d\<close> and \<open>%0<w>d\<close>: padded on the left with blanks, or with zeros
  after the sign.\<close>

definition fmt_d :: "nat \<Rightarrow> int \<Rightarrow> bytes" where
  "fmt_d w i = (let s = show_int i in replicate (w - length s) (CHR '' '') @ s)"

definition fmt_0d :: "nat \<Rightarrow> int \<Rightarrow> bytes" where
  "fmt_0d w i =
     (if i < 0 then (let s = show_nat (nat (- i)) in CHR ''-'' # replicate (w - 1 - length s) (CHR ''0'') @ s)
      else (let s = show_nat (nat i) in replicate (w - length s) (CHR ''0'') @ s))"

text \<open>\<open>snprintf(buf, size, ...)\<close> keeps at most \<open>size - 1\<close> characters.\<close>

definition snprintf :: "nat \<Rightarrow> bytes \<Rightarrow> bytes" where
  "snprintf n s = take (n - 1) s"

definition fmt_tm :: "tm \<Rightarrow> bytes" where
  "fmt_tm t = fmt_d 4 (tm_year t + 1900) @ ''/'' @ fmt_0d 2 (tm_mon t + 1) @ ''/'' @ fmt_0d 2 (tm_mday t)
     @ '' '' @ fmt_0d 2 (tm_hour t) @ '':'' @ fmt_0d 2 (tm_min t) @ '':'' @ fmt_0d 2 (tm_sec t)"

text \<open>\<open>toString\<close> hands the tick count itself to \<open>localtime\<close>.\<close>

definition ts_toString :: "(int \<Rightarrow> tm) \<Rightarrow> timestamp \<Rightarrow> bytes" where
  "ts_toString localtime t = snprintf 128 (fmt_tm (localtime (ts_value t)))"

definition toFormattedString :: "(int \<Rightarrow> tm) \<Rightarrow> timestamp \<Rightarrow> bool \<Rightarrow> bytes" where
  "toFormattedString localtime t showMicroseconds =
     (let seconds = c_div (ts_value t) kMicroSecondsPerSecond;
          tm_time = localtime seconds
      in if showMicroseconds
         then (let microseconds = c_mod (ts_value t) kMicroSecondsPerSecond
               in snprintf 64 (fmt_tm tm_time @ ''.'' @ fmt_0d 6 microseconds))
         else snprintf 64 (fmt_tm tm_time))"

text \<open>A broken-down time as \<open>localtime\<close> produces it for the years 0 to 9999.\<close>

definition tm_ok :: "tm \<Rightarrow> bool" where
  "tm_ok t \<longleftrightarrow> 0 \<le> tm_year t + 1900 \<and> tm_year t + 1900 < 10000 \<and> 0 \<le> tm_mon t \<and> tm_mon t \<le> 11
     \<and> 1 \<le> tm_mday t \<and> tm_mday t \<le> 31 \<and> 0 \<le> tm_hour t \<and> tm_hour t \<le> 23
     \<and> 0 \<le> tm_min t \<and> tm_min t \<le> 59 \<and> 0 \<le> tm_sec t \<and> tm_sec t \<le> 60"

lemma length_fmt_0d: "0 \<le> i \<Longrightarrow> i < 10 ^ w \<Longrightarrow> 0 < w \<Longrightarrow> length (fmt_0d w i) = w"
  using length_show_nat [of "nat i" w] by (simp add: fmt_0d_def Let_def nat_less_iff)

lemma length_fmt_d: "0 \<le> i \<Longrightarrow> i < 10 ^ w \<Longrightarrow> 0 < w \<Longrightarrow> length (fmt_d w i) = w"
  using length_show_nat [of "nat i" w] by (simp add: fmt_d_def show_int_def Let_def nat_less_iff)

lemma length_fmt_tm: "tm_ok t \<Longrightarrow> length (fmt_tm t) = 19"
  by (simp add: fmt_tm_def tm_ok_def length_fmt_0d length_fmt_d)

end
