(* ===== verification/Http_Request.thy ===== *)
theory Http_Request
  imports Time_Stamp
begin

text \<open>
  \<open>src/src/http/HttpRequest.h\<close>: a parsed request. The two \<open>unordered_map\<close>s are only looked
  up and overwritten by the code that uses a request, so they are maps; header names are folded
  to lower case on both sides, form field names are not.
\<close>

record uploaded_file =
  uf_fieldName :: bytes
  uf_fileName :: bytes
  uf_contentType :: bytes
  uf_content :: bytes

datatype http_method = kInvalid | kGet | kPost | kHead | kPut | kDelete

datatype http_version = kUnknown | kHttp10 | kHttp11

record http_request =
  req_method :: http_method
  req_version :: http_version
  req_path :: bytes
  req_query :: bytes
  req_receiveTime :: timestamp
  req_headers :: "bytes \<rightharpoonup> bytes"
  req_bodyform :: "bytes \<rightharpoonup> bytes"
  req_files :: "uploaded_file list"
  req_body :: bytes

definition http_request_new :: http_request where
  "http_request_new = \<lparr>req_method = kInvalid, req_version = kUnknown, req_path = [], req_query = [],
     req_receiveTime = timestamp_default, req_headers = Map.empty, req_bodyform = Map.empty,
     req_files = [], req_body = []\<rparr>"

definition setVersion :: "http_version \<Rightarrow> http_request \<Rightarrow> http_request" where
  "setVersion v r = r\<lparr>req_version := v\<rparr>"

definition method_of :: "bytes \<Rightarrow> http_method" where
  "method_of m =
     (if m = ''GET'' then kGet
      else if m = ''POST'' then kPost
      else if m = ''HEAD'' then kHead
      else if m = ''PUT'' then kPut
      else if m = ''DELETE'' then kDelete
      else kInvalid)"

definition setMethod :: "bytes \<Rightarrow> http_request \<Rightarrow> bool \<times> http_request" where
  "setMethod m r = (let r = r\<lparr>req_method := method_of m\<rparr> in (req_method r \<noteq> kInvalid, r))"

fun methodString :: "http_method \<Rightarrow> bytes" where
  "methodString kGet = ''GET''"
| "methodString kPost = ''POST''"
| "methodString kHead = ''HEAD''"
| "methodString kPut = ''PUT''"
| "methodString kDelete = ''DELETE''"
| "methodString kInvalid = ''UNKNOWN''"

definition setPath :: "bytes \<Rightarrow> http_request \<Rightarrow> http_request" where
  "setPath p r = r\<lparr>req_path := p\<rparr>"

definition setQuery :: "bytes \<Rightarrow> http_request \<Rightarrow> http_request" where
  "setQuery q r = r\<lparr>req_query := q\<rparr>"

definition setReceiveTime :: "timestamp \<Rightarrow> http_request \<Rightarrow> http_request" where
  "setReceiveTime t r = r\<lparr>req_receiveTime := t\<rparr>"

text \<open>\<open>while (!value.empty() && isspace(value[value.size()-1])) value.resize(...)\<close>.\<close>

definition drop_trailing :: "(char \<Rightarrow> bool) \<Rightarrow> bytes \<Rightarrow> bytes" where
  "drop_trailing p s = rev (dropWhile p (rev s))"

text \<open>\<open>addHeader(start, colon, end)\<close>: the line and the offset of its colon.\<close>

definition addHeader :: "bytes \<Rightarrow> nat \<Rightarrow> http_request \<Rightarrow> http_request" where
  "addHeader line colon r =
     (let field = to_lower (take colon line);
          value = drop_trailing isspace (dropWhile isspace (drop (Suc colon) line))
      in r\<lparr>req_headers := (req_headers r)(field \<mapsto> value)\<rparr>)"

definition addBodyForm :: "bytes \<Rightarrow> bytes \<Rightarrow> http_request \<Rightarrow> http_request" where
  "addBodyForm field value r = r\<lparr>req_bodyform := (req_bodyform r)(field \<mapsto> value)\<rparr>"

definition getHeader :: "bytes \<Rightarrow> http_request \<Rightarrow> bytes" where
  "getHeader field r = (case req_headers r (to_lower field) of Some v \<Rightarrow> v | None \<Rightarrow> [])"

definition getBodyForm :: "bytes \<Rightarrow> http_request \<Rightarrow> bytes" where
  "getBodyForm field r = (case req_bodyform r field of Some v \<Rightarrow> v | None \<Rightarrow> [])"

definition addFile :: "uploaded_file \<Rightarrow> http_request \<Rightarrow> http_request" where
  "addFile f r = r\<lparr>req_files := req_files r @ [f]\<rparr>"

definition setBody :: "bytes \<Rightarrow> http_request \<Rightarrow> http_request" where
  "setBody s r = r\<lparr>req_body := s\<rparr>"

text \<open>\<open>swap\<close> exchanges the members one by one; the result is the pair (this, rhs).\<close>

definition request_swap :: "http_request \<Rightarrow> http_request \<Rightarrow> http_request \<times> http_request" where
  "request_swap a b =
     (a\<lparr>req_method := req_method b, req_version := req_version b, req_path := req_path b,
        req_query := req_query b, req_receiveTime := req_receiveTime b, req_headers := req_headers b,
        req_bodyform := req_bodyform b, req_files := req_files b, req_body := req_body b\<rparr>,
      b\<lparr>req_method := req_method a, req_version := req_version a, req_path := req_path a,
        req_query := req_query a, req_receiveTime := req_receiveTime a, req_headers := req_headers a,
        req_bodyform := req_bodyform a, req_files := req_files a, req_body := req_body a\<rparr>)"

lemmas [acc_defs] = setVersion_def setPath_def setQuery_def setReceiveTime_def addBodyForm_def
  addFile_def setBody_def

lemma request_swap_eq: "request_swap a b = (b, a)"
  by (simp add: request_swap_def)

lemma method_of_methodString: "m \<noteq> kInvalid \<Longrightarrow> method_of (methodString m) = m"
  by (cases m) (simp_all add: method_of_def)

lemma setMethod_string: "m \<noteq> kInvalid \<Longrightarrow> setMethod (methodString m) r = (True, r\<lparr>req_method := m\<rparr>)"
  by (simp add: setMethod_def method_of_methodString)

lemma drop_trailing_idem [simp]: "drop_trailing p (drop_trailing p s) = drop_trailing p s"
  by (simp add: drop_trailing_def)

text \<open>A value that starts and ends with a visible character is stored as it is.\<close>

definition clean_value :: "bytes \<Rightarrow> bool" where
  "clean_value v \<longleftrightarrow> v = [] \<or> (\<not> isspace (hd v) \<and> \<not> isspace (last v))"

lemma strip_clean:
  "clean_value v \<Longrightarrow> drop_trailing isspace (dropWhile isspace v) = v"
proof (cases v)
  case (Cons a u)
  assume "clean_value v"
  with Cons have a: "\<not> isspace a" "\<not> isspace (last (a # u))" by (auto simp: clean_value_def)
  then have "dropWhile isspace v = v" using Cons by simp
  moreover have "dropWhile isspace (rev v) = rev v"
    using a(2) Cons by (cases "rev v") (auto simp: last_rev [symmetric] simp del: last.simps, metis last_rev list.sel(1) rev_rev_ident rev.simps(2))
  ultimately show ?thesis by (simp add: drop_trailing_def)
qed (simp add: drop_trailing_def)

lemma getHeader_addHeader:
  assumes "CHR '':'' \<notin> set field" "clean_value v"
  shows "getHeader f (addHeader (field @ '': '' @ v) (length field) r)
    = (if to_lower f = to_lower field then v else getHeader f r)"
proof -
  have "dropWhile isspace ('' '' @ v) = dropWhile isspace v" by (simp add: isspace_def)
  with strip_clean [OF assms(2)] show ?thesis
    by (simp add: addHeader_def getHeader_def Let_def)
qed

end
