(* ===== verification/Http_Context.thy ===== *)
theory Http_Context
  imports Http_Request Net_Buffer
begin

text \<open>
  \<open>src/src/http/HttpContext.h\<close> and \<open>HttpContext.cc\<close>: the incremental request parser of a
  connection. \<open>parseRequest\<close> is the code's loop over a \<open>buffer\<close>; \<open>parse_bytes\<close> is the same
  machine over a plain byte string, the reference the loop refines.

  Standard-library calls that can throw (\<open>substr\<close>, \<open>compare\<close>) are kept as such, so every
  routine returns a sum; the lemmas show that none of them throws.
\<close>

datatype parse_result = kIncomplete | kComplete | kBadRequest | kRequestTooLarge

datatype parse_state = kExpectRequestLine | kExpectHeaders | kExpectBody | kGotAll

definition kMaxHeaderBytes :: nat where
  "kMaxHeaderBytes = 16 * 1024"

definition kMaxBodyBytes :: nat where
  "kMaxBodyBytes = 10 * 1024 * 1024"

record http_context =
  ctx_state :: parse_state
  ctx_request :: http_request
  headerBytes :: nat
  contentLength :: nat

definition http_context_new :: http_context where
  "http_context_new = \<lparr>ctx_state = kExpectRequestLine, ctx_request = http_request_new,
     headerBytes = 0, contentLength = 0\<rparr>"

definition gotAll :: "http_context \<Rightarrow> bool" where
  "gotAll c \<longleftrightarrow> ctx_state c = kGotAll"

definition ctx_reset :: "http_context \<Rightarrow> http_context" where
  "ctx_reset c =
     (let c = c\<lparr>ctx_state := kExpectRequestLine, headerBytes := 0, contentLength := 0\<rparr>;
          dummy = http_request_new
      in c\<lparr>ctx_request := fst (request_swap (ctx_request c) dummy)\<rparr>)"

subsection \<open>String helpers\<close>

definition is_trim_ws :: "char \<Rightarrow> bool" where
  "is_trim_ws c \<longleftrightarrow> c \<in> {CHR '' '', CHR 0x09, CR, LF}"

fun find_first_not_of :: "(char \<Rightarrow> bool) \<Rightarrow> bytes \<Rightarrow> nat option" where
  "find_first_not_of p [] = None"
| "find_first_not_of p (c # cs) = (if p c then map_option Suc (find_first_not_of p cs) else Some 0)"

definition find_last_not_of :: "(char \<Rightarrow> bool) \<Rightarrow> bytes \<Rightarrow> nat option" where
  "find_last_not_of p s = map_option (\<lambda>i. length s - 1 - i) (find_first_not_of p (rev s))"

definition trim :: "bytes \<Rightarrow> exn + bytes" where
  "trim value =
     (case find_first_not_of is_trim_ws value of
        None \<Rightarrow> Inr []
      | Some first \<Rightarrow>
          (case find_last_not_of is_trim_ws value of
             None \<Rightarrow> Inr []
           | Some lst \<Rightarrow> substr value first (lst - first + 1)))"

definition parameterValue :: "bytes \<Rightarrow> bytes \<Rightarrow> exn + bytes" where
  "parameterValue value name =
     (let key = name @ ''='' in
      case str_find value key 0 of
        None \<Rightarrow> Inr []
      | Some p \<Rightarrow>
          (let pos = p + length key in
           if pos < length value \<and> value ! pos = QUOTE
           then (case str_find value [QUOTE] (pos + 1) of
                   None \<Rightarrow> Inr []
                 | Some e \<Rightarrow> substr value (pos + 1) (e - pos - 1))
           else (let e = str_find value '';'' pos in
                 tryE (substr value pos (case e of None \<Rightarrow> length value | Some e \<Rightarrow> e - pos)) trim)))"

subsection \<open>The request line and the body length\<close>

definition processRequestLine :: "bytes \<Rightarrow> http_context \<Rightarrow> bool \<times> http_context" where
  "processRequestLine line c =
     (let space = find_char (CHR '' '') line in
      if space = length line then (False, c)
      else
        (let (ok, r) = setMethod (take space line) (ctx_request c);
             c = c\<lparr>ctx_request := r\<rparr> in
         if \<not> ok then (False, c)
         else
           (let rest = drop (space + 1) line;
                space2 = find_char (CHR '' '') rest in
            if space2 = length rest then (False, c)
            else
              (let target = take space2 rest;
                   question = find_char (CHR ''?'') target;
                   r = setPath (take question target) (ctx_request c);
                   r = (if question \<noteq> space2 then setQuery (drop (question + 1) target) r else r);
                   c = c\<lparr>ctx_request := r\<rparr>;
                   ver = drop (space2 + 1) rest in
               if length ver \<noteq> 8 \<or> take 7 ver \<noteq> ''HTTP/1.'' then (False, c)
               else if ver ! 7 = CHR ''1'' then (True, c\<lparr>ctx_request := setVersion kHttp11 (ctx_request c)\<rparr>)
               else if ver ! 7 = CHR ''0'' then (True, c\<lparr>ctx_request := setVersion kHttp10 (ctx_request c)\<rparr>)
               else (False, c)))))"

definition prepareBody :: "http_context \<Rightarrow> bool \<times> http_context" where
  "prepareBody c =
     (let value = getHeader ''Content-Length'' (ctx_request c) in
      if value = [] then (True, c\<lparr>contentLength := 0\<rparr>)
      else
        (let s = c_str value;
             (parsed, e, erange) = strtoull10 s in
         if erange \<or> e = 0 \<or> e \<noteq> length s \<or> ULLONG_MAX < parsed then (False, c)
         else (True, c\<lparr>contentLength := parsed\<rparr>)))"

subsection \<open>Multipart bodies\<close>

text \<open>
  The loop over the header lines of one part. None is the \<open>return false\<close> of a line without a
  colon; otherwise the collected disposition and content type.
\<close>

function multipart_headers :: "bytes \<Rightarrow> nat \<Rightarrow> nat \<Rightarrow> bytes \<Rightarrow> bytes \<Rightarrow> exn + (bytes \<times> bytes) option" where
  "multipart_headers body headerEnd lineStart disposition partContentType =
     (if lineStart < headerEnd then
        (let lineEnd = (case str_find body CRLF lineStart of
                          None \<Rightarrow> headerEnd
                        | Some e \<Rightarrow> if headerEnd < e then headerEnd else e) in
         case substr body lineStart (lineEnd - lineStart) of
           Inl e \<Rightarrow> Inl e
         | Inr line \<Rightarrow>
             (let colon = find_char (CHR '':'') line in
              if colon = length line then Inr None
              else
                (case trim (drop (colon + 1) line) of
                   Inl e \<Rightarrow> Inl e
                 | Inr value \<Rightarrow>
                     (let key = to_lower (take colon line);
                          disp = (if key = ''content-disposition'' then value else disposition);
                          ct = (if key \<noteq> ''content-disposition'' \<and> key = ''content-type'' then value
                                else partContentType)
                      in multipart_headers body headerEnd (lineEnd + 2) disp ct))))
      else Inr (Some (disposition, partContentType)))"
  by pat_completeness auto

termination
  by (relation "measure (\<lambda>(body, headerEnd, lineStart, d, t). headerEnd - lineStart)")
     (auto dest: str_find_bound split: option.splits if_splits)

declare multipart_headers.simps [simp del]

text \<open>One part, once its boundaries are known: the field is stored in the request.\<close>

definition store_part :: "bytes \<Rightarrow> bytes \<Rightarrow> bytes \<Rightarrow> http_request \<Rightarrow> exn + (bool \<times> http_request)" where
  "store_part disposition partContentType cont r =
     (if find_sub ''form-data'' disposition = None then Inr (False, r)
      else
        tryE (parameterValue disposition ''name'') (\<lambda>fieldName.
        tryE (parameterValue disposition ''filename'') (\<lambda>fileName.
          if fieldName = [] then Inr (False, r)
          else if fileName = [] then Inr (True, addBodyForm fieldName cont r)
          else Inr (True, addFile \<lparr>uf_fieldName = fieldName, uf_fileName = fileName,
                                   uf_contentType = partContentType, uf_content = cont\<rparr> r))))"

text \<open>The loop over the parts.\<close>

function multipart_parts :: "bytes \<Rightarrow> bytes \<Rightarrow> nat \<Rightarrow> http_request \<Rightarrow> exn + (bool \<times> http_request)" where
  "multipart_parts body boundary cursor r =
     (case str_find body boundary cursor of
        None \<Rightarrow> Inr (False, r)
      | Some marker \<Rightarrow>
          (let partStart = marker + length boundary in
           case compare_at body partStart 2 ''--'' of
             Inl e \<Rightarrow> Inl e
           | Inr True \<Rightarrow> Inr (True, r)
           | Inr False \<Rightarrow>
          (case compare_at body partStart 2 CRLF of
             Inl e \<Rightarrow> Inl e
           | Inr False \<Rightarrow> Inr (False, r)
           | Inr True \<Rightarrow>
               (let partStart = partStart + 2 in
                case str_find body (CRLF @ CRLF) partStart of
                  None \<Rightarrow> Inr (False, r)
                | Some headerEnd \<Rightarrow>
                    (case str_find body (CRLF @ boundary) (headerEnd + 4) of
                       None \<Rightarrow> Inr (False, r)
                     | Some nextMarker \<Rightarrow>
                         (case multipart_headers body headerEnd partStart [] [] of
                            Inl e \<Rightarrow> Inl e
                          | Inr None \<Rightarrow> Inr (False, r)
                          | Inr (Some (disposition, partContentType)) \<Rightarrow>
                              (case substr body (headerEnd + 4) (nextMarker - (headerEnd + 4)) of
                                 Inl e \<Rightarrow> Inl e
                               | Inr cont \<Rightarrow>
                                   (case store_part disposition partContentType cont r of
                                      Inl e \<Rightarrow> Inl e
                                    | Inr (False, r) \<Rightarrow> Inr (False, r)
                                    | Inr (True, r) \<Rightarrow> multipart_parts body boundary (nextMarker + 2) r))))))))"
  by pat_completeness auto

termination
  by (relation "measure (\<lambda>(body, boundary, cursor, r). length body - cursor)")
     (auto dest!: str_find_bound)

declare multipart_parts.simps [simp del]

definition parseMultipartBody :: "http_request \<Rightarrow> exn + (bool \<times> http_request)" where
  "parseMultipartBody r =
     (let contentType = getHeader ''Content-Type'' r in
      if find_sub ''multipart/form-data'' contentType = None then Inr (True, r)
      else
        tryE (parameterValue contentType ''boundary'') (\<lambda>boundaryValue.
          if boundaryValue = [] then Inr (False, r)
          else multipart_parts (req_body r) (''--'' @ boundaryValue) 0 r))"

subsection \<open>The parser loop\<close>

text \<open>
  One line of the request line or header section. Left: the loop returns that result with that
  context; right: the line is consumed and the loop goes on.
\<close>

definition process_line :: "timestamp \<Rightarrow> bytes \<Rightarrow> http_context \<Rightarrow> (parse_result \<times> http_context) + http_context" where
  "process_line now line c =
     (if ctx_state c = kExpectRequestLine then
        (let (ok, c) = processRequestLine line c in
         if \<not> ok then Inl (kBadRequest, c)
         else Inr (c\<lparr>ctx_request := setReceiveTime now (ctx_request c), ctx_state := kExpectHeaders\<rparr>))
      else
        (let colon = find_char (CHR '':'') line in
         if colon = length line then
           (if line \<noteq> [] then Inl (kBadRequest, c)
            else
              (let (ok, c) = prepareBody c in
               if \<not> ok then Inl (kBadRequest, c)
               else if kMaxBodyBytes < contentLength c then Inl (kRequestTooLarge, c)
               else Inr (c\<lparr>ctx_state := kExpectBody\<rparr>)))
         else Inr (c\<lparr>ctx_request := addHeader line colon (ctx_request c)\<rparr>)))"

function parseRequest :: "timestamp \<Rightarrow> http_context \<Rightarrow> buffer \<Rightarrow> exn + (parse_result \<times> http_context \<times> buffer)" where
  "parseRequest now c b =
     (if ctx_state c = kExpectRequestLine \<or> ctx_state c = kExpectHeaders then
        (case findCRLF b of
           None \<Rightarrow>
             Inr (if kMaxHeaderBytes < headerBytes c + readableBytes b then kRequestTooLarge else kIncomplete, c, b)
         | Some crlf \<Rightarrow>
             (let lineBytes = crlf + 2;
                  c = c\<lparr>headerBytes := headerBytes c + lineBytes\<rparr> in
              if kMaxHeaderBytes < headerBytes c then Inr (kRequestTooLarge, c, b)
              else
                (case process_line now (take crlf (content b)) c of
                   Inl (res, c) \<Rightarrow> Inr (res, c, b)
                 | Inr c \<Rightarrow> parseRequest now c (retrieveUntil (crlf + 2) b))))
      else if ctx_state c = kExpectBody then
        (if readableBytes b < contentLength c then Inr (kIncomplete, c, b)
         else
           (let (s, b) = retrieveAsString (contentLength c) b;
                c = c\<lparr>ctx_request := setBody s (ctx_request c)\<rparr> in
            case parseMultipartBody (ctx_request c) of
              Inl e \<Rightarrow> Inl e
            | Inr (ok, r) \<Rightarrow>
                (let c = c\<lparr>ctx_request := r\<rparr> in
                 if \<not> ok then Inr (kBadRequest, c, b)
                 else Inr (kComplete, c\<lparr>ctx_state := kGotAll\<rparr>, b))))
      else Inr (kComplete, c, b))"
  by pat_completeness auto

lemma findCRLF_shrinks:
  assumes "findCRLF b = Some crlf"
  shows "length (content (retrieveUntil (crlf + 2) b)) < length (content b)"
proof -
  from assms have le: "crlf + 2 \<le> length (content b)"
    by (auto simp: findCRLF_def dest: find_sub_bound)
  have r: "length (content b) = min (length (buf_data b) - readerIndex b) (readableBytes b)"
    by (simp add: content_def readableBytes_def)
  show ?thesis
  proof (cases "crlf + 2 < readableBytes b")
    case True
    with le r show ?thesis
      by (auto simp: retrieveUntil_def retrieve_def content_def readableBytes_def)
  next
    case False
    with le show ?thesis
      by (auto simp: retrieveUntil_def retrieve_def retrieveAll_def content_def)
  qed
qed

termination parseRequest
  by (relation "measure (\<lambda>(now, c, b). length (content b))")
     (auto simp del: retrieveUntil_def intro!: findCRLF_shrinks [simplified])

declare parseRequest.simps [simp del]

end
