(* ===== verification/Http_Parser_Props.thy ===== *)
theory Http_Parser_Props
  imports Http_Context
begin

text \<open>
  Properties of the request parser: it never throws, it refines the machine over plain byte
  strings, it does not depend on how the network fragments a request, and it bounds what it
  accepts.
\<close>

subsection \<open>No standard-library call throws\<close>

lemma find_first_not_of_bound: "find_first_not_of p s = Some n \<Longrightarrow> n < length s \<and> \<not> p (s ! n)"
  by (induction p s arbitrary: n rule: find_first_not_of.induct) (auto split: if_splits)

lemma find_first_not_of_least: "find_first_not_of p s = Some n \<Longrightarrow> \<forall>i<n. p (s ! i)"
proof (induction p s arbitrary: n rule: find_first_not_of.induct)
  case (2 p c cs)
  then show ?case by (auto simp: less_Suc_eq_0_disj split: if_splits)
qed simp

lemma trim_Inr: "\<exists>v. trim s = Inr v"
  by (auto simp: trim_def substr_def split: option.splits dest!: find_first_not_of_bound)

lemma parameterValue_Inr: "\<exists>v. parameterValue s n = Inr v"
proof -
  have "tryE (Inr x) trim = Inr y \<or> (\<exists>v. tryE (Inr x) trim = Inr v)" for x y
    using trim_Inr by auto
  then show ?thesis using trim_Inr
    by (auto simp: parameterValue_def Let_def substr_def split: option.splits dest!: str_find_bound)
qed

lemma multipart_headers_Inr:
  "headerEnd \<le> length body \<Longrightarrow> \<exists>v. multipart_headers body headerEnd lineStart d t = Inr v"
proof (induction body headerEnd lineStart d t rule: multipart_headers.induct)
  case (1 body headerEnd lineStart d t)
  show ?case
  proof (cases "lineStart < headerEnd")
    case True
    define le where "le = (case str_find body CRLF lineStart of None \<Rightarrow> headerEnd
        | Some e \<Rightarrow> if headerEnd < e then headerEnd else e)"
    let ?line = "take (le - lineStart) (drop lineStart body)"
    let ?colon = "find_char (CHR '':'') ?line"
    have s: "substr body lineStart (le - lineStart) = Inr ?line" using True "1.prems" by simp
    obtain v where v: "trim (drop (?colon + 1) ?line) = Inr v" using trim_Inr by blast
    show ?thesis
      using True "1.prems" s v
        "1.IH" [OF True le_def s refl, of v, OF _ v refl refl refl]
      by (subst multipart_headers.simps) (auto simp: le_def [symmetric] Let_def)
  qed (simp add: multipart_headers.simps)
qed

lemma not_isl_Inr: "\<not> isl x \<longleftrightarrow> (\<exists>v. x = Inr v)"
  by (cases x) simp_all

lemma store_part_Inr: "\<not> isl (store_part d t c r)"
proof -
  obtain a b where "parameterValue d ''name'' = Inr a" "parameterValue d ''filename'' = Inr b"
    using parameterValue_Inr by blast
  then show ?thesis by (simp add: store_part_def)
qed

text \<open>A round of the multipart loop ends the parsing, or stores a part and goes on behind it.\<close>

lemma multipart_round:
  obtains (stop) b where "multipart_parts body boundary cursor r = Inr (b, r)"
  | (part) d t cont cursor' where "length body - cursor' < length body - cursor"
      "multipart_parts body boundary cursor r =
        (case store_part d t cont r of Inl e \<Rightarrow> Inl e | Inr (False, r) \<Rightarrow> Inr (False, r)
         | Inr (True, r) \<Rightarrow> multipart_parts body boundary cursor' r)"
proof (cases "str_find body boundary cursor")
  case None
  then show ?thesis by (intro stop [of False]) (simp add: multipart_parts.simps)
next
  case m: (Some marker)
  define ps where "ps = marker + length boundary"
  have ps: "ps \<le> length body" "cursor \<le> ps" using str_find_bound [OF m] by (simp_all add: ps_def)
  have dashes: "CRLF \<noteq> ''--''" by (simp add: CRLF_def)
  note unf = multipart_parts.simps [of body boundary cursor r] m Let_def ps_def [symmetric] dashes
  consider (final) "take 2 (drop ps body) = ''--''" | (junk) "take 2 (drop ps body) \<noteq> ''--''" "take 2 (drop ps body) \<noteq> CRLF"
    | (line) "take 2 (drop ps body) = CRLF" by blast
  then show ?thesis
  proof cases
    case line
    have b: "compare_at body ps 2 ''--'' = Inr False" "compare_at body ps 2 CRLF = Inr True" using line ps dashes by simp_all
    show ?thesis
    proof (cases "str_find body (CRLF @ CRLF) (ps + 2)")
      case he: (Some headerEnd)
      have hl: "headerEnd + 4 \<le> length body" "ps + 2 \<le> headerEnd" using str_find_bound [OF he] by simp_all
      obtain h where h: "multipart_headers body headerEnd (ps + 2) [] [] = Inr h"
        using multipart_headers_Inr hl(1) by (metis add_leD1)
      show ?thesis
      proof (cases "str_find body (CRLF @ boundary) (headerEnd + 4) = None \<or> h = None")
        case True
        then show ?thesis using b he h by (intro stop [of False]) (auto simp: unf split: option.split)
      next
        case False
        then obtain nextMarker d t where n: "str_find body (CRLF @ boundary) (headerEnd + 4) = Some nextMarker" "h = Some (d, t)" by auto
        then have "length body - (nextMarker + 2) < length body - cursor"
          using str_find_bound [OF n(1)] hl ps(2) by (intro diff_less_mono2) auto
        with n b he h hl(1) show ?thesis
          by (intro part [of "nextMarker + 2" d t "take (nextMarker - (headerEnd + 4)) (drop (headerEnd + 4) body)"]) (simp_all add: unf)
      qed
    qed (use b in \<open>intro stop [of False], simp add: unf\<close>)
  qed (use ps in \<open>auto intro!: stop simp: unf\<close>)
qed

lemma multipart_parts_Inr: "\<not> isl (multipart_parts body boundary cursor r)"
proof (induction "length body - cursor" arbitrary: cursor r rule: less_induct)
  case less
  show ?case
  proof (cases rule: multipart_round [of body boundary cursor r])
    case (part d t cont cursor')
    obtain ok r' where "store_part d t cont r = Inr (ok, r')" using store_part_Inr not_isl_Inr by (metis surj_pair)
    with part less [OF part(1)] show ?thesis by (cases ok) simp_all
  qed simp
qed

lemma parseMultipartBody_Inr: "\<exists>ok r'. parseMultipartBody r = Inr (ok, r')"
proof -
  obtain v where "parameterValue (getHeader ''Content-Type'' r) ''boundary'' = Inr v"
    using parameterValue_Inr by blast
  with multipart_parts_Inr have "\<not> isl (parseMultipartBody r)"
    by (simp add: parseMultipartBody_def Let_def)
  then show ?thesis by (auto simp: not_isl_Inr)
qed

subsection \<open>The reference machine over byte strings\<close>

function parse_bytes :: "timestamp \<Rightarrow> http_context \<Rightarrow> bytes \<Rightarrow> parse_result \<times> http_context \<times> bytes" where
  "parse_bytes now c s =
     (case ctx_state c of
        kGotAll \<Rightarrow> (kComplete, c, s)
      | kExpectBody \<Rightarrow>
          (if length s < contentLength c then (kIncomplete, c, s)
           else
             (let (ok, r) = projr (parseMultipartBody (setBody (take (contentLength c) s) (ctx_request c)));
                  c = c\<lparr>ctx_request := r\<rparr>; s = drop (contentLength c) s in
              if ok then (kComplete, c\<lparr>ctx_state := kGotAll\<rparr>, s) else (kBadRequest, c, s)))
      | _ \<Rightarrow>
          (case find_sub CRLF s of
             None \<Rightarrow> (if kMaxHeaderBytes < headerBytes c + length s then kRequestTooLarge else kIncomplete, c, s)
           | Some n \<Rightarrow>
               (let c = c\<lparr>headerBytes := headerBytes c + (n + 2)\<rparr> in
                if kMaxHeaderBytes < headerBytes c then (kRequestTooLarge, c, s)
                else
                  (case process_line now (take n s) c of
                     Inl (res, c) \<Rightarrow> (res, c, s)
                   | Inr c \<Rightarrow> parse_bytes now c (drop (n + 2) s)))))"
  by pat_completeness auto

termination
  by (relation "measure (\<lambda>(now, c, s). length s)") (auto dest!: find_sub_bound)

declare parse_bytes.simps [simp del]

text \<open>Its equations by state, and its induction rule with one case per outcome of a step.\<close>

abbreviation in_lines :: "http_context \<Rightarrow> bool" where
  "in_lines c \<equiv> ctx_state c = kExpectRequestLine \<or> ctx_state c = kExpectHeaders"

abbreviation count_line :: "nat \<Rightarrow> http_context \<Rightarrow> http_context" where
  "count_line n c \<equiv> c\<lparr>headerBytes := headerBytes c + (n + 2)\<rparr>"

lemma parse_bytes_line:
  assumes "in_lines c"
  shows "parse_bytes now c s =
      (case find_sub CRLF s of
         None \<Rightarrow> (if kMaxHeaderBytes < headerBytes c + length s then kRequestTooLarge else kIncomplete, c, s)
       | Some n \<Rightarrow>
           if kMaxHeaderBytes < headerBytes (count_line n c) then (kRequestTooLarge, count_line n c, s)
           else (case process_line now (take n s) (count_line n c) of Inl (res, c) \<Rightarrow> (res, c, s)
                 | Inr c \<Rightarrow> parse_bytes now c (drop (n + 2) s)))"
  using assms unfolding parse_bytes.simps [of now c s] Let_def by auto

lemma parse_bytes_body:
  assumes "ctx_state c = kExpectBody" "parseMultipartBody (setBody (take (contentLength c) s) (ctx_request c)) = Inr (ok, r)"
  shows "parse_bytes now c s =
      (if length s < contentLength c then (kIncomplete, c, s)
       else if ok then (kComplete, c\<lparr>ctx_request := r, ctx_state := kGotAll\<rparr>, drop (contentLength c) s)
       else (kBadRequest, c\<lparr>ctx_request := r\<rparr>, drop (contentLength c) s))"
  using assms by (subst parse_bytes.simps) (simp add: Let_def)

lemma parse_bytes_done: "ctx_state c = kGotAll \<Longrightarrow> parse_bytes now c s = (kComplete, c, s)"
  by (subst parse_bytes.simps) simp

lemma process_line_Inl: "process_line now line c = Inl (res, c') \<Longrightarrow> res = kBadRequest \<or> res = kRequestTooLarge"
  by (auto simp: process_line_def Let_def split: if_splits prod.splits)

lemma parse_bytes_rule [case_names no_line too_large refused line short body all]:
  assumes no_line: "\<And>c s. in_lines c \<Longrightarrow> find_sub CRLF s = None \<Longrightarrow>
      P c s (if kMaxHeaderBytes < headerBytes c + length s then kRequestTooLarge else kIncomplete, c, s)"
    and too_large: "\<And>c s n. in_lines c \<Longrightarrow> find_sub CRLF s = Some n \<Longrightarrow> kMaxHeaderBytes < headerBytes (count_line n c) \<Longrightarrow>
      P c s (kRequestTooLarge, count_line n c, s)"
    and refused: "\<And>c s n res c'. in_lines c \<Longrightarrow> find_sub CRLF s = Some n \<Longrightarrow> headerBytes (count_line n c) \<le> kMaxHeaderBytes \<Longrightarrow>
      process_line now (take n s) (count_line n c) = Inl (res, c') \<Longrightarrow> res = kBadRequest \<or> res = kRequestTooLarge \<Longrightarrow> P c s (res, c', s)"
    and line: "\<And>c s n c'. in_lines c \<Longrightarrow> find_sub CRLF s = Some n \<Longrightarrow> headerBytes (count_line n c) \<le> kMaxHeaderBytes \<Longrightarrow>
      process_line now (take n s) (count_line n c) = Inr c' \<Longrightarrow> P c' (drop (n + 2) s) (parse_bytes now c' (drop (n + 2) s)) \<Longrightarrow>
      P c s (parse_bytes now c' (drop (n + 2) s))"
    and short: "\<And>c s. ctx_state c = kExpectBody \<Longrightarrow> length s < contentLength c \<Longrightarrow> P c s (kIncomplete, c, s)"
    and body: "\<And>c s ok r. ctx_state c = kExpectBody \<Longrightarrow> contentLength c \<le> length s \<Longrightarrow>
      parseMultipartBody (setBody (take (contentLength c) s) (ctx_request c)) = Inr (ok, r) \<Longrightarrow>
      P c s (if ok then (kComplete, c\<lparr>ctx_request := r, ctx_state := kGotAll\<rparr>, drop (contentLength c) s)
             else (kBadRequest, c\<lparr>ctx_request := r\<rparr>, drop (contentLength c) s))"
    and all: "\<And>c s. ctx_state c = kGotAll \<Longrightarrow> P c s (kComplete, c, s)"
  shows "P c s (parse_bytes now c s)"
proof (induction "length s" arbitrary: c s rule: less_induct)
  case less
  obtain ok r where m: "parseMultipartBody (setBody (take (contentLength c) s) (ctx_request c)) = Inr (ok, r)"
    using parseMultipartBody_Inr by blast
  consider (line) "in_lines c" | (body) "ctx_state c = kExpectBody" | (all) "ctx_state c = kGotAll" by (cases "ctx_state c") auto
  then show ?case
  proof cases
    case line
    show ?thesis
    proof (cases "find_sub CRLF s")
      case (Some n)
      then have "P c' (drop (n + 2) s) (parse_bytes now c' (drop (n + 2) s))" for c'
        using find_sub_bound [OF Some] by (intro less) simp
      with line Some assms(2,3) assms(4) [OF line Some] show ?thesis
        by (auto simp: parse_bytes_line [OF line] not_less process_line_Inl split: sum.split)
    qed (use line no_line in \<open>simp add: parse_bytes_line [OF line]\<close>)
  qed (use short assms(6) [OF _ _ m] all in \<open>simp_all add: parse_bytes_body [OF _ m] parse_bytes_done not_less\<close>)
qed

text \<open>The loop over a buffer refines it, and keeps the buffer well formed.\<close>

definition refined_by :: "timestamp \<Rightarrow> http_context \<Rightarrow> bytes \<Rightarrow> (parse_result \<times> http_context \<times> bytes) \<Rightarrow> bool" where
  "refined_by now c s out \<longleftrightarrow> (\<forall>b. buf_ok b \<and> content b = s \<longrightarrow>
     (\<exists>res c' b'. parseRequest now c b = Inr (res, c', b') \<and> buf_ok b' \<and> out = (res, c', content b')))"

lemma parse_refined_by: "refined_by now c s (parse_bytes now c s)"
proof (induction c s rule: parse_bytes_rule [where now = now])
  case (no_line c s)
  then show ?case
    by (auto simp: refined_by_def parseRequest.simps [of now c] length_content findCRLF_def)
next
  case (too_large c s n)
  then show ?case by (auto simp: refined_by_def parseRequest.simps [of now c] findCRLF_def Let_def)
next
  case (refused c s n res c')
  then show ?case by (auto simp: refined_by_def parseRequest.simps [of now c] findCRLF_def Let_def)
next
  case (line c s n c')
  have "parseRequest now c b = parseRequest now c' (retrieveUntil (n + 2) b)" if "content b = s" for b
    using line(1-4) that by (simp add: parseRequest.simps [of now c b] findCRLF_def Let_def)
  moreover have "buf_ok (retrieveUntil (n + 2) b) \<and> content (retrieveUntil (n + 2) b) = drop (n + 2) (content b)" if "buf_ok b" for b
    using that by (simp add: retrieveUntil_def buf_simps)
  ultimately show ?case using line(5) by (auto simp: refined_by_def)
next
  case (short c s)
  then show ?case by (auto simp: refined_by_def parseRequest.simps [of now c] length_content)
next
  case (body c s ok r)
  show ?case unfolding refined_by_def
  proof (intro allI impI, elim conjE)
    fix b assume b: "buf_ok b" "content b = s"
    then show "\<exists>res c' b'. parseRequest now c b = Inr (res, c', b') \<and> buf_ok b' \<and>
        (if ok then (kComplete, c\<lparr>ctx_request := r, ctx_state := kGotAll\<rparr>, drop (contentLength c) s)
         else (kBadRequest, c\<lparr>ctx_request := r\<rparr>, drop (contentLength c) s)) = (res, c', content b')"
      using body content_retrieve [OF b(1), of "contentLength c"] length_content [OF b(1)]
      by (simp add: parseRequest.simps [of now c b] retrieveAsString_eq Let_def buf_ok_retrieve)
  qed
next
  case (all c s)
  then show ?case by (auto simp: refined_by_def parseRequest.simps [of now c])
qed

lemma parse_refines:
  assumes "buf_ok b"
  shows "\<exists>res c' b'. parseRequest now c b = Inr (res, c', b') \<and> buf_ok b' \<and> parse_bytes now c (content b) = (res, c', content b')"
  using parse_refined_by [of now c "content b"] assms by (auto simp: refined_by_def)

subsection \<open>Fragmentation\<close>

text \<open>Adding input to a result that is not final gives the same as adding it before.\<close>

definition extends :: "bytes \<Rightarrow> (parse_result \<times> http_context \<times> bytes) \<Rightarrow> timestamp \<Rightarrow> (parse_result \<times> http_context \<times> bytes) \<Rightarrow> bool" where
  "extends t whole now part \<longleftrightarrow> (case part of (res, c', s') \<Rightarrow>
     (case res of kIncomplete \<Rightarrow> whole = parse_bytes now c' (s' @ t)
      | kRequestTooLarge \<Rightarrow> fst whole = kRequestTooLarge
      | _ \<Rightarrow> whole = (res, c', s' @ t)))"

lemma parse_extends: "extends t (parse_bytes now c (s @ t)) now (parse_bytes now c s)"
proof (induction c s rule: parse_bytes_rule [where now = now])
  case (no_line c s)
  show ?case
  proof (cases "kMaxHeaderBytes < headerBytes c + length s")
    case True
    have "fst (parse_bytes now c (s @ t)) = kRequestTooLarge"
      using True find_sub_extend [OF no_line(2), of t]
      by (cases "find_sub CRLF (s @ t)") (auto simp: parse_bytes_line [OF no_line(1)])
    with True show ?thesis by (simp add: extends_def)
  qed (simp add: extends_def)
next
  case (too_large c s n)
  then show ?case using find_sub_append [OF too_large(2), of t] by (simp add: extends_def parse_bytes_line)
next
  case (refused c s n res c')
  have "parse_bytes now c (s @ t) = (res, c', s @ t)"
    using refused find_sub_append [OF refused(2), of t] find_sub_bound [OF refused(2)] by (simp add: parse_bytes_line)
  with refused(5) show ?case by (auto simp: extends_def)
next
  case (line c s n c')
  have "parse_bytes now c (s @ t) = parse_bytes now c' (drop (n + 2) s @ t)"
    using line(1-4) find_sub_append [OF line(2), of t] find_sub_bound [OF line(2)] by (simp add: parse_bytes_line)
  with line(5) show ?case by simp
next
  case (short c s)
  then show ?case by (simp add: extends_def)
next
  case (body c s ok r)
  then show ?case using parse_bytes_body [OF body(1), of "s @ t"] by (simp add: extends_def)
next
  case (all c s)
  then show ?case by (simp add: extends_def parse_bytes_done)
qed

lemma parse_split:
  assumes "parse_bytes now c s = (res, c', s')"
  shows "case res of kIncomplete \<Rightarrow> parse_bytes now c (s @ t) = parse_bytes now c' (s' @ t)
       | kRequestTooLarge \<Rightarrow> fst (parse_bytes now c (s @ t)) = kRequestTooLarge
       | _ \<Rightarrow> parse_bytes now c (s @ t) = (res, c', s' @ t)"
  using parse_extends [of t now c s] unfolding assms extends_def by simp

text \<open>
  What a connection does with a request that arrives in pieces: each piece is appended to the
  input buffer and the parser is called; once it has a result, later pieces only pile up.
\<close>

fun feed :: "timestamp \<Rightarrow> http_context \<Rightarrow> buffer \<Rightarrow> bytes list \<Rightarrow> exn + (parse_result \<times> http_context \<times> buffer)" where
  "feed now c b [] = Inr (kIncomplete, c, b)"
| "feed now c b (f # fs) =
     (case parseRequest now c (append f b) of
        Inl e \<Rightarrow> Inl e
      | Inr (res, c, b) \<Rightarrow> if res = kIncomplete then feed now c b fs else Inr (res, c, fold append fs b))"

lemma fold_append_ok: "buf_ok b \<Longrightarrow> buf_ok (fold append fs b) \<and> content (fold append fs b) = content b @ concat fs"
  by (induction fs arbitrary: b) (simp_all add: buf_simps)

lemma feed_parse:
  assumes "buf_ok b" "fs \<noteq> []"
  shows "\<exists>res c1 b1 c2 s2. feed now c b fs = Inr (res, c1, b1) \<and> buf_ok b1
    \<and> parse_bytes now c (content b @ concat fs) = (res, c2, s2)
    \<and> (res \<noteq> kRequestTooLarge \<longrightarrow> c1 = c2 \<and> content b1 = s2)"
  using assms
proof (induction fs arbitrary: c b)
  case (Cons f fs)
  from Cons.prems(1) have ok: "buf_ok (append f b)" by (rule buf_ok_append)
  obtain res c' b' where p: "parseRequest now c (append f b) = Inr (res, c', b')" "buf_ok b'"
    "parse_bytes now c (content b @ f) = (res, c', content b')"
    using parse_refines [OF ok, of now c] by (auto simp: content_append Cons.prems(1))
  note split = parse_split [OF p(3), of "concat fs"]
  note fa = fold_append_ok [OF p(2), of fs]
  show ?case
  proof (cases res)
    case kIncomplete
    with split have s: "parse_bytes now c (content b @ f @ concat fs) = parse_bytes now c' (content b' @ concat fs)"
      by simp
    show ?thesis
    proof (cases "fs = []")
      case True
      with p kIncomplete show ?thesis by simp
    next
      case False
      from Cons.IH [OF p(2) this, of c'] kIncomplete p(1) s show ?thesis by auto
    qed
  next
    case kRequestTooLarge
    with split have "fst (parse_bytes now c (content b @ f @ concat fs)) = kRequestTooLarge" by simp
    with kRequestTooLarge p fa show ?thesis
      by (cases "parse_bytes now c (content b @ f @ concat fs)") auto
  qed (use split p fa in auto)
qed simp

text \<open>
  Property C2. The parser does not depend on fragmentation: feeding a request in any number of
  pieces gives the same result as presenting the concatenation at once, and, unless the request
  is rejected as too large, the same parsed request and the same unread bytes (so a pipelined
  request that follows is not lost either). The parser never throws.
\<close>

theorem parse_fragments:
  assumes "buf_ok b" "fs \<noteq> []"
  shows "\<exists>res c1 b1 c2 b2. feed now c b fs = Inr (res, c1, b1)
    \<and> parseRequest now c (append (concat fs) b) = Inr (res, c2, b2)
    \<and> (res \<noteq> kRequestTooLarge \<longrightarrow> c1 = c2 \<and> content b1 = content b2)"
proof -
  obtain res c1 b1 c2 s2 where f: "feed now c b fs = Inr (res, c1, b1)"
    "parse_bytes now c (content b @ concat fs) = (res, c2, s2)"
    "res \<noteq> kRequestTooLarge \<longrightarrow> c1 = c2 \<and> content b1 = s2"
    using feed_parse [OF assms] by blast
  obtain res' c' b' where p: "parseRequest now c (append (concat fs) b) = Inr (res', c', b')"
    "parse_bytes now c (content (append (concat fs) b)) = (res', c', content b')"
    using parse_refines [OF buf_ok_append [OF assms(1)]] by blast
  from p(2) f(2) assms(1) have "res' = res" "c' = c2" "content b' = s2"
    by (simp_all add: content_append)
  with p(1) f show ?thesis by auto
qed

text \<open>The two pieces of a request line are fed to a fresh parser.\<close>

lemma parse_fragments_witness:
  "\<exists>res c1 b1 c2 b2. feed timestamp_default http_context_new (buffer_new 32) [''GET / HT'', ''TP/1.1'' @ CRLF] = Inr (res, c1, b1)
    \<and> parseRequest timestamp_default http_context_new (append (concat [''GET / HT'', ''TP/1.1'' @ CRLF]) (buffer_new 32)) = Inr (res, c2, b2)
    \<and> (res \<noteq> kRequestTooLarge \<longrightarrow> c1 = c2 \<and> content b1 = content b2)"
  by (rule parse_fragments) simp_all

subsection \<open>Bounds\<close>

text \<open>What the limits guarantee of a context between two calls.\<close>

definition ctx_ok :: "http_context \<Rightarrow> bool" where
  "ctx_ok c \<longleftrightarrow> headerBytes c \<le> kMaxHeaderBytes
     \<and> (ctx_state c = kExpectBody \<longrightarrow> contentLength c \<le> kMaxBodyBytes)
     \<and> (ctx_state c = kGotAll \<longrightarrow> length (req_body (ctx_request c)) = contentLength c
                                  \<and> contentLength c \<le> kMaxBodyBytes)"

lemma ctx_ok_new [simp]: "ctx_ok http_context_new"
  by (simp add: ctx_ok_def http_context_new_def)

lemma ctx_reset_eq: "ctx_reset c = http_context_new"
  by (simp add: ctx_reset_def http_context_new_def request_swap_eq Let_def)

lemma store_part_body: "store_part d t ct r = Inr (ok, r') \<Longrightarrow> req_body r' = req_body r"
  by (auto simp: store_part_def tryE_def acc_defs split: sum.splits if_splits)

lemma multipart_parts_body:
  "multipart_parts body boundary cursor r = Inr (ok, r') \<Longrightarrow> req_body r' = req_body r"
proof (induction body boundary cursor r arbitrary: ok r' rule: multipart_parts.induct)
  case (1 body boundary cursor r)
  from "1.prems" show ?case
    by (subst (asm) multipart_parts.simps)
       (auto simp: Let_def dest!: "1.IH" dest: store_part_body split: option.splits sum.splits bool.splits prod.splits)
qed

lemma parseMultipartBody_body: "parseMultipartBody r = Inr (ok, r') \<Longrightarrow> req_body r' = req_body r"
  by (auto simp: parseMultipartBody_def Let_def tryE_def dest!: multipart_parts_body
      split: sum.splits if_splits)

lemma prepareBody_frame: "prepareBody c = (ok, c') \<Longrightarrow> ctx_state c' = ctx_state c \<and> headerBytes c' = headerBytes c \<and> ctx_request c' = ctx_request c"
  by (auto simp: prepareBody_def Let_def split: if_splits prod.splits)

text \<open>\<open>processRequestLine\<close> touches nothing of the context but the request.\<close>

definition only_request :: "http_context \<Rightarrow> bool \<times> http_context \<Rightarrow> bool" where
  "only_request c out \<longleftrightarrow> (\<exists>r. snd out = c\<lparr>ctx_request := r\<rparr>)"

lemma only_requestI:
  "only_request c (b, c)" "only_request c (b, c\<lparr>ctx_request := r\<rparr>)" "only_request c (b, c\<lparr>ctx_request := r, ctx_request := r'\<rparr>)"
  "only_request c (b, c\<lparr>ctx_request := r, ctx_request := r', ctx_request := r''\<rparr>)"
  "only_request c x \<Longrightarrow> only_request c y \<Longrightarrow> only_request c (if q then x else y)"
  "(\<And>u v. only_request c (f u v)) \<Longrightarrow> only_request c (case p of (u, v) \<Rightarrow> f u v)"
  "only_request c (g z) \<Longrightarrow> only_request c (Let z g)"
proof -
  show "only_request c (b, c)" unfolding only_request_def by (intro exI [of _ "ctx_request c"]) simp
qed (auto simp: only_request_def split: prod.split)

lemma processRequestLine_frame:
  assumes "processRequestLine line c = (ok, c')"
  shows "ctx_state c' = ctx_state c \<and> headerBytes c' = headerBytes c \<and> contentLength c' = contentLength c"
proof -
  have "only_request c (processRequestLine line c)" unfolding processRequestLine_def by (intro only_requestI)
  then show ?thesis using assms by (auto simp: only_request_def)
qed

lemma process_line_ok:
  assumes "process_line now line c = Inr c'" "headerBytes c \<le> kMaxHeaderBytes"
    "ctx_state c = kExpectRequestLine \<or> ctx_state c = kExpectHeaders"
  shows "ctx_ok c'"
  using assms
  by (auto simp: process_line_def Let_def ctx_ok_def dest: prepareBody_frame processRequestLine_frame
      split: if_splits prod.splits)

text \<open>What a completed request and a request that needs more input look like.\<close>

definition within_limits :: "(parse_result \<times> http_context \<times> bytes) \<Rightarrow> bool" where
  "within_limits out \<longleftrightarrow> (case out of (res, c', s') \<Rightarrow>
     (res = kComplete \<longrightarrow> ctx_state c' = kGotAll \<and> ctx_ok c')
     \<and> (res = kIncomplete \<longrightarrow> ctx_ok c' \<and> ctx_state c' \<noteq> kGotAll \<and> length s' < kMaxBodyBytes
         \<and> (ctx_state c' \<noteq> kExpectBody \<longrightarrow> length s' + headerBytes c' \<le> kMaxHeaderBytes)))"

lemma parse_within_limits: "ctx_ok c \<longrightarrow> within_limits (parse_bytes now c s)"
proof (induction c s rule: parse_bytes_rule [where now = now])
  case (no_line c s)
  then show ?case by (auto simp: within_limits_def ctx_ok_def kMaxHeaderBytes_def kMaxBodyBytes_def)
next
  case (line c s n c')
  then show ?case using process_line_ok [OF line(4)] by simp
next
  case (body c s ok r)
  have "length (req_body r) = contentLength c" using parseMultipartBody_body [OF body(3)] body(2) by (simp add: acc_defs)
  with body show ?case by (auto simp: within_limits_def ctx_ok_def)
qed (auto simp: within_limits_def ctx_ok_def)

lemma parse_bytes_bounds:
  assumes "ctx_ok c" "parse_bytes now c s = (res, c', s')"
  shows "(res = kComplete \<longrightarrow> ctx_state c' = kGotAll \<and> ctx_ok c')
    \<and> (res = kIncomplete \<longrightarrow> ctx_ok c' \<and> ctx_state c' \<noteq> kGotAll \<and> length s' < kMaxBodyBytes
         \<and> (ctx_state c' \<noteq> kExpectBody \<longrightarrow> length s' + headerBytes c' \<le> kMaxHeaderBytes))"
  using parse_within_limits [of c now s] assms by (simp add: within_limits_def)

text \<open>
  Property C27. What the parser accepts and what it keeps waiting are bounded: from a context
  within the limits, a completed request has a body of exactly the announced length, at most
  10 MiB, behind at most 16 KiB of header; and when it asks for more input, fewer than
  10 MiB are waiting in the buffer, and in the header phase at most 16 KiB.
\<close>

theorem parse_bounds:
  assumes "buf_ok b" "ctx_ok c" "parseRequest now c b = Inr (res, c', b')"
  shows "(res = kComplete \<longrightarrow> gotAll c' \<and> length (req_body (ctx_request c')) = contentLength c'
            \<and> contentLength c' \<le> kMaxBodyBytes \<and> headerBytes c' \<le> kMaxHeaderBytes)
    \<and> (res = kIncomplete \<longrightarrow> ctx_ok c' \<and> readableBytes b' < kMaxBodyBytes
         \<and> (ctx_state c' \<noteq> kExpectBody \<longrightarrow> readableBytes b' + headerBytes c' \<le> kMaxHeaderBytes))"
proof -
  from parse_refines [OF assms(1), of now c] assms(3)
  have "buf_ok b'" "parse_bytes now c (content b) = (res, c', content b')" by auto
  with parse_bytes_bounds [OF assms(2) this(2)] length_content [of b'] show ?thesis
    by (auto simp: gotAll_def ctx_ok_def)
qed

lemma parse_bounds_witness:
  "\<exists>c' b'. parseRequest timestamp_default http_context_new (append ''GET /'' (buffer_new 32)) = Inr (kIncomplete, c', b')
     \<and> readableBytes b' < kMaxBodyBytes"
proof -
  let ?b = "append ''GET /'' (buffer_new 32)"
  have ok: "buf_ok ?b" by (simp add: buf_simps)
  have "parse_bytes timestamp_default http_context_new (content ?b) = (kIncomplete, http_context_new, ''GET /'')"
    by (simp add: buf_simps parse_bytes.simps http_context_new_def kMaxHeaderBytes_def CRLF_def)
  with parse_refines [OF ok, of timestamp_default http_context_new] obtain c' b'
    where p: "parseRequest timestamp_default http_context_new ?b = Inr (kIncomplete, c', b')" by auto
  with parse_bounds [OF ok ctx_ok_new p] show ?thesis by blast
qed

end
