(* ===== verification/Http_Multipart.thy ===== *)
theory Http_Multipart
  imports Http_Parser_Props
begin

text \<open>
  What a form a client sends becomes: a specification of the wire format of multipart/form-data
  (\<open>render_form\<close>, it models no code) and the proof that \<open>multipart_parts\<close>, the loop of
  \<open>HttpContext::parseMultipartBody\<close>, stores exactly the fields and files that were put in.
\<close>

subsection \<open>The wire format\<close>

text \<open>A field of a form: a text field, or a file with its name and content type (empty: none given).\<close>

record form_part =
  fp_name :: bytes
  fp_file :: "(bytes \<times> bytes) option"
  fp_content :: bytes

definition render_disposition :: "form_part \<Rightarrow> bytes" where
  "render_disposition p = ''form-data; name='' @ [QUOTE] @ fp_name p @ [QUOTE]
     @ (case fp_file p of None \<Rightarrow> [] | Some (f, t) \<Rightarrow> ''; filename='' @ [QUOTE] @ f @ [QUOTE])"

definition render_part_head :: "form_part \<Rightarrow> bytes" where
  "render_part_head p = ''Content-Disposition: '' @ render_disposition p
     @ (case fp_file p of None \<Rightarrow> [] | Some (f, t) \<Rightarrow> if t = [] then [] else CRLF @ ''Content-Type: '' @ t)"

definition render_part :: "bytes \<Rightarrow> form_part \<Rightarrow> bytes" where
  "render_part B p = ''--'' @ B @ CRLF @ render_part_head p @ (CRLF @ CRLF) @ fp_content p @ CRLF"

fun render_form :: "bytes \<Rightarrow> form_part list \<Rightarrow> bytes" where
  "render_form B [] = ''--'' @ B @ ''--'' @ CRLF"
| "render_form B (p # ps) = render_part B p @ render_form B ps"

text \<open>
  A field a client may put in: a name that is not empty, names without quote and carriage return, no
  equals sign in the field's name, and a content in which the boundary line does not occur.
\<close>

definition part_ok :: "bytes \<Rightarrow> form_part \<Rightarrow> bool" where
  "part_ok B p \<longleftrightarrow> fp_name p \<noteq> [] \<and> CR \<notin> set (fp_name p) \<and> QUOTE \<notin> set (fp_name p) \<and> CHR ''='' \<notin> set (fp_name p)
     \<and> find_sub (CRLF @ ''--'' @ B) (fp_content p) = None
     \<and> (case fp_file p of None \<Rightarrow> True
        | Some (f, t) \<Rightarrow> f \<noteq> [] \<and> CR \<notin> set f \<and> QUOTE \<notin> set f \<and> CR \<notin> set t \<and> clean_value t)"

definition boundary_ok :: "bytes \<Rightarrow> bool" where
  "boundary_ok B \<longleftrightarrow> B \<noteq> [] \<and> list_all (\<lambda>c. c \<notin> {CR, LF, CHR '' '', CHR 0x09, CHR '';'', QUOTE}) B"

text \<open>What the form means: the last text field of a name, and the files in order.\<close>

fun form_fields :: "(bytes \<rightharpoonup> bytes) \<Rightarrow> form_part list \<Rightarrow> (bytes \<rightharpoonup> bytes)" where
  "form_fields m [] = m"
| "form_fields m (p # ps) = form_fields (if fp_file p = None then m(fp_name p \<mapsto> fp_content p) else m) ps"

fun form_files :: "form_part list \<Rightarrow> uploaded_file list" where
  "form_files [] = []"
| "form_files (p # ps) = (case fp_file p of None \<Rightarrow> []
     | Some (f, t) \<Rightarrow> [\<lparr>uf_fieldName = fp_name p, uf_fileName = f, uf_contentType = t, uf_content = fp_content p\<rparr>])
     @ form_files ps"

subsection \<open>Searching\<close>

lemma find_sub_skip: "c \<notin> set xs \<Longrightarrow> find_sub (c # p) (xs @ ys) = map_option (\<lambda>i. length xs + i) (find_sub (c # p) ys)"
proof (induction xs)
  case Nil
  then show ?case by (cases "find_sub (c # p) ys") simp_all
next
  case (Cons x xs)
  then have "x \<noteq> c" by auto
  with Cons show ?case by (cases "find_sub (c # p) ys") simp_all
qed

text \<open>A delimiter whose first character occurs only there is found behind a text it does not occur in.\<close>

lemma find_sub_delimiter:
  assumes "c \<notin> set p" "find_sub (c # p) xs = None"
  shows "find_sub (c # p) (xs @ (c # p) @ ys) = Some (length xs)"
proof (rule find_sub_at)
  fix m assume m: "m < length xs"
  let ?pat = "c # p"
  show "take (length ?pat) (drop m (xs @ ?pat @ ys)) \<noteq> ?pat"
  proof (cases "m + length ?pat \<le> length xs")
    case True
    then have "take (length ?pat) (drop m (xs @ ?pat @ ys)) = take (length ?pat) (drop m xs)" by simp
    then show ?thesis using find_sub_None [OF assms(2), of m] by auto
  next
    case False
    define k where "k = length xs - m"
    have k: "0 < k" "k < length ?pat" "m + k = length xs" using False m by (auto simp: k_def)
    show ?thesis
    proof
      assume eq: "take (length ?pat) (drop m (xs @ ?pat @ ys)) = ?pat"
      have "?pat ! k = take (length ?pat) (drop m (xs @ ?pat @ ys)) ! k" using eq by simp
      also have "\<dots> = drop m (xs @ ?pat @ ys) ! k" using k(2) by (rule nth_take)
      also have "\<dots> = (xs @ ?pat @ ys) ! (m + k)" using m by (intro nth_drop) simp
      also have "\<dots> = c" by (simp add: k(3) nth_append)
      finally have "?pat ! k = c" .
      moreover have "?pat ! k \<in> set p" using k by (cases k) auto
      ultimately show False using assms(1) by simp
    qed
  qed
qed

lemma drop_prefix: "drop (length xs) (xs @ ys) = ys"
  by simp

lemma drop_more: "drop n s = xs @ ys \<Longrightarrow> drop (n + length xs) s = ys"
  by (metis add.commute drop_drop drop_prefix)

lemma str_find_drop: "drop n s = ys \<Longrightarrow> n \<le> length s \<Longrightarrow> str_find s pat n = map_option (\<lambda>i. n + i) (find_sub pat ys)"
  by (simp add: str_find_def)

subsection \<open>Parameters\<close>

text \<open>A value between visible characters is what trimming leaves of it.\<close>

lemma find_first_not_of_here: "xs \<noteq> [] \<Longrightarrow> \<not> p (hd xs) \<Longrightarrow> find_first_not_of p xs = Some 0"
  by (cases xs) simp_all

lemma trim_value:
  assumes "v \<noteq> []" "\<not> is_trim_ws (hd v)" "\<not> is_trim_ws (last v)"
  shows "trim v = Inr v" "trim ('' '' @ v) = Inr v"
proof -
  have r: "find_first_not_of is_trim_ws (rev v) = Some 0"
    using assms by (intro find_first_not_of_here) (simp_all add: hd_rev)
  have r': "find_first_not_of is_trim_ws (rev v @ '' '') = Some 0"
    using assms by (intro find_first_not_of_here) (simp_all add: hd_rev)
  have f: "find_first_not_of is_trim_ws v = Some 0"
    using assms by (intro find_first_not_of_here)
  have s: "is_trim_ws (CHR '' '')" by (simp add: is_trim_ws_def)
  show "trim v = Inr v"
    using f r assms(1) by (simp add: trim_def find_last_not_of_def substr_def)
  show "trim ('' '' @ v) = Inr v"
    using f r' s assms(1) by (simp add: trim_def find_last_not_of_def substr_def)
qed

lemma trim_ws_space: "is_trim_ws c \<Longrightarrow> isspace c"
  by (auto simp: is_trim_ws_def isspace_def)

text \<open>A quoted parameter is the text between the quotes.\<close>

lemma parameterValue_quoted:
  assumes "find_sub (name @ ''='') value = Some n" "drop (n + length name + 1) value = QUOTE # v @ QUOTE # rest" "QUOTE \<notin> set v"
  shows "parameterValue value name = Inr v"
proof -
  let ?pos = "n + length name + 1"
  have f: "str_find value (name @ ''='') 0 = Some n" using assms(1) by (simp add: str_find_def)
  have len: "?pos < length value" "value ! ?pos = QUOTE"
    using assms(2) by (cases "?pos < length value"; simp add: Cons_nth_drop_Suc [symmetric])+
  have d: "drop (?pos + 1) value = v @ [QUOTE] @ rest"
    using arg_cong [OF assms(2), of tl] by (simp add: drop_Suc [symmetric] tl_drop)
  have q: "str_find value [QUOTE] (?pos + 1) = Some (?pos + 1 + length v)"
    using str_find_drop [OF d, of "[QUOTE]"] len(1) find_sub_absent_head [OF assms(3), of "[QUOTE]" "[]" rest] by simp
  have "take (length v) (drop (?pos + 1) value) = v" using d by simp
  then show ?thesis using f len q by (simp add: parameterValue_def Let_def)
qed

lemma boundary_chars:
  assumes "boundary_ok B"
  shows "CR \<notin> set (''--'' @ B)" "CR \<notin> set (LF # ''--'' @ B)"
  using assms by (auto simp: boundary_ok_def list_all_iff)

text \<open>The boundary, given bare or quoted in the Content-Type of the request.\<close>

definition form_types :: "bytes \<Rightarrow> bytes list" where
  "form_types B = [''multipart/form-data; boundary='' @ B, ''multipart/form-data; boundary='' @ [QUOTE] @ B @ [QUOTE]]"

lemma form_types_boundary:
  assumes "boundary_ok B" "t \<in> set (form_types B)"
  shows "find_sub ''multipart/form-data'' t \<noteq> None" "parameterValue t ''boundary'' = Inr B"
proof -
  let ?pre = "''multipart/form-data; ''" and ?key = "''boundary=''"
  obtain s where t: "t = ?pre @ ?key @ s" "s = B \<or> s = QUOTE # B @ [QUOTE]"
    using assms(2) by (auto simp: form_types_def)
  have "t = ''multipart/form-data'' @ ''; '' @ ?key @ s" using t(1) by simp
  then show "find_sub ''multipart/form-data'' t \<noteq> None" by (simp only: find_sub_here) simp
  have f: "find_sub ?key t = Some 21"
    using find_sub_absent_head [of "CHR ''b''" ?pre ?key "''oundary=''" s] t(1) by simp
  have d: "drop 30 t = s" using t(1) by simp
  from t(2) show "parameterValue t ''boundary'' = Inr B"
  proof
    assume "s = QUOTE # B @ [QUOTE]"
    moreover have "QUOTE \<notin> set B" using assms(1) by (auto simp: boundary_ok_def list_all_iff)
    ultimately show ?thesis using f d by (intro parameterValue_quoted [of "''boundary''" t 21 B "[]"]) simp_all
  next
    assume s: "s = B"
    have B: "B \<noteq> []" "hd B \<in> set B" "last B \<in> set B" using assms(1) by (simp_all add: boundary_ok_def)
    then have tb: "trim B = Inr B"
      using assms(1) by (intro trim_value) (auto simp: boundary_ok_def list_all_iff is_trim_ws_def)
    have len: "length t = 30 + length B" using t(1) s by simp
    then have nth: "30 < length t" "t ! 30 = hd B"
      using d s B(1) by (auto simp: hd_drop_conv_nth [symmetric])
    have nq: "hd B \<noteq> QUOTE" using B(2) assms(1) by (auto simp: boundary_ok_def list_all_iff)
    have "CHR '';'' \<notin> set B" using assms(1) by (auto simp: boundary_ok_def list_all_iff)
    then have "find_sub '';'' B = None" using find_sub_skip [of "CHR '';''" B "[]" "[]"] by simp
    then have semi: "str_find t '';'' 30 = None" using str_find_drop [OF d [unfolded s], of "'';''"] len by simp
    have "str_find t ''boundary='' 0 = Some 21" using f by (simp add: str_find_def)
    then show ?thesis using nth nq semi d s tb len by (simp add: parameterValue_def Let_def)
  qed
qed

text \<open>The parameters of a part's disposition.\<close>

lemma disposition_name:
  assumes "QUOTE \<notin> set (fp_name p)"
  shows "parameterValue (render_disposition p) ''name'' = Inr (fp_name p)"
proof -
  let ?rest = "case fp_file p of None \<Rightarrow> [] | Some (f, t) \<Rightarrow> ''; filename='' @ [QUOTE] @ f @ [QUOTE]"
  have r: "render_disposition p = ''form-data; '' @ ''name='' @ QUOTE # fp_name p @ QUOTE # ?rest"
    by (simp add: render_disposition_def)
  then have "find_sub (''name'' @ ''='') (render_disposition p) = Some 11"
    using find_sub_absent_head [of "CHR ''n''" "''form-data; ''" "''name=''" "''ame=''"] by simp
  then show ?thesis using r assms by (intro parameterValue_quoted [of "''name''" _ 11 _ ?rest]) simp_all
qed

lemma find_sub_by_end:
  assumes "e \<notin> set xs" "e \<notin> set p"
  shows "find_sub (p @ [e]) (xs @ (p @ [e]) @ ys) = Some (length xs)"
proof (rule find_sub_at)
  fix m assume m: "m < length xs"
  let ?s = "xs @ (p @ [e]) @ ys"
  show "take (length (p @ [e])) (drop m ?s) \<noteq> p @ [e]"
  proof
    assume eq: "take (length (p @ [e])) (drop m ?s) = p @ [e]"
    have "e = (p @ [e]) ! length p" by simp
    also have "\<dots> = take (length (p @ [e])) (drop m ?s) ! length p" using eq by simp
    also have "\<dots> = drop m ?s ! length p" by (rule nth_take) simp
    also have "\<dots> = ?s ! (m + length p)" using m by (intro nth_drop) simp
    also have "\<dots> = ((xs @ p) @ [e] @ ys) ! (m + length p)" by simp
    also have "\<dots> = (xs @ p) ! (m + length p)" using m by (subst nth_append) simp
    also have "\<dots> \<in> set (xs @ p)" using m by (intro nth_mem) simp
    finally show False using assms by simp
  qed
qed

lemma find_sub_no_end:
  assumes "e \<notin> set xs"
  shows "find_sub (p @ [e]) xs = None"
proof (rule ccontr)
  assume "find_sub (p @ [e]) xs \<noteq> None"
  then obtain n where "find_sub (p @ [e]) xs = Some n" by auto
  from find_sub_match [OF this] have "e \<in> set (take (length (p @ [e])) (drop n xs))" by simp
  with assms show False by (meson in_set_dropD in_set_takeD)
qed

lemma disposition_filename:
  assumes "part_ok B p"
  shows "parameterValue (render_disposition p) ''filename'' = Inr (case fp_file p of None \<Rightarrow> [] | Some (f, t) \<Rightarrow> f)"
proof -
  let ?key = "''filename''"
  have skip: "find_sub (?key @ ''='') (''form-data; name='' @ w) = map_option (\<lambda>i. 16 + i) (find_sub (?key @ ''='') w)" for w
    by (cases "find_sub (?key @ ''='') w") simp_all
  have q: "CHR ''='' \<notin> set (QUOTE # fp_name p @ [QUOTE])" "CHR ''='' \<notin> set (QUOTE # fp_name p @ QUOTE # ''; '')"
    using assms by (simp_all add: part_ok_def)
  show ?thesis
  proof (cases "fp_file p")
    case None
    then have "render_disposition p = ''form-data; name='' @ QUOTE # fp_name p @ [QUOTE]" by (simp add: render_disposition_def)
    then have "find_sub (?key @ ''='') (render_disposition p) = None"
      using skip [of "QUOTE # fp_name p @ [QUOTE]"] find_sub_no_end [OF q(1), of ?key] by simp
    then show ?thesis using None by (simp add: parameterValue_def str_find_def)
  next
    case (Some ft)
    obtain f t where ft: "ft = (f, t)" by (cases ft)
    let ?w = "QUOTE # fp_name p @ QUOTE # ''; ''"
    have r: "render_disposition p = ''form-data; name='' @ ?w @ (?key @ ''='') @ QUOTE # f @ [QUOTE]"
      using Some ft by (simp add: render_disposition_def)
    have "CHR ''='' \<notin> set ?key" by simp
    with find_sub_by_end [OF q(2) this, of "QUOTE # f @ [QUOTE]"] skip [of "?w @ (?key @ ''='') @ QUOTE # f @ [QUOTE]"]
    have "find_sub (?key @ ''='') (render_disposition p) = Some (16 + length ?w)" unfolding r by simp
    moreover have "drop (16 + length ?w + length ?key + 1) (render_disposition p) = QUOTE # f @ QUOTE # []"
    proof -
      let ?A = "''form-data; name='' @ ?w @ ?key @ ''=''"
      have "render_disposition p = ?A @ QUOTE # f @ QUOTE # []" using r by simp
      moreover have "16 + length ?w + length ?key + 1 = length ?A" by simp
      ultimately show ?thesis by (simp only: drop_prefix)
    qed
    moreover have "QUOTE \<notin> set f" using assms Some ft by (simp add: part_ok_def)
    ultimately have "parameterValue (render_disposition p) ?key = Inr f" by (rule parameterValue_quoted)
    then show ?thesis using Some ft by simp
  qed
qed

subsection \<open>One part\<close>

definition put_part :: "form_part \<Rightarrow> http_request \<Rightarrow> http_request" where
  "put_part p r = (case fp_file p of None \<Rightarrow> addBodyForm (fp_name p) (fp_content p) r
     | Some (f, t) \<Rightarrow> addFile \<lparr>uf_fieldName = fp_name p, uf_fileName = f, uf_contentType = t, uf_content = fp_content p\<rparr> r)"

definition part_type :: "form_part \<Rightarrow> bytes" where
  "part_type p = (case fp_file p of None \<Rightarrow> [] | Some (f, t) \<Rightarrow> t)"

lemma store_part_render:
  assumes "part_ok B p"
  shows "store_part (render_disposition p) (part_type p) (fp_content p) r = Inr (True, put_part p r)"
proof -
  have n: "parameterValue (render_disposition p) ''name'' = Inr (fp_name p)"
    using assms by (intro disposition_name) (simp add: part_ok_def)
  have "find_sub ''form-data'' (render_disposition p) \<noteq> None"
    unfolding render_disposition_def by simp
  with n disposition_filename [OF assms] show ?thesis
    using assms by (auto simp: store_part_def put_part_def part_type_def part_ok_def split: option.splits)
qed

text \<open>The loop over the header lines takes one line that ends before the blank line.\<close>

lemma multipart_headers_line:
  assumes "drop ls body = (k @ '': '' @ v) @ CRLF @ rest" "CR \<notin> set (k @ '': '' @ v)" "CHR '':'' \<notin> set k"
    "ls + length (k @ '': '' @ v) \<le> he" "trim ('' '' @ v) = Inr v"
  shows "multipart_headers body he ls d t = multipart_headers body he (ls + length (k @ '': '' @ v) + 2)
    (if to_lower k = ''content-disposition'' then v else d)
    (if to_lower k \<noteq> ''content-disposition'' \<and> to_lower k = ''content-type'' then v else t)"
proof -
  let ?line = "k @ '': '' @ v"
  have lt: "ls < length body"
  proof (rule ccontr)
    assume "\<not> ls < length body"
    then have "drop ls body = []" by simp
    with assms(1) show False by simp
  qed
  have "find_sub CRLF (?line @ CRLF @ rest) = Some (length ?line)"
    using assms(2) by (intro find_sub_absent_head) (simp_all add: CRLF_def)
  then have f: "str_find body CRLF ls = Some (ls + length ?line)"
    using str_find_drop [OF assms(1), of CRLF] lt by simp
  have s: "substr body ls (ls + length ?line - ls) = Inr ?line"
    using lt assms(1) by simp
  have c: "find_char (CHR '':'') ?line = length k" "length k \<noteq> length ?line"
    using assms(3) by (simp_all add: find_char_append)
  have d: "drop (length k + 1) ?line = '' '' @ v" "take (length k) ?line = k" by simp_all
  have "ls < he" "\<not> he < ls + length ?line" using assms(4) by simp_all
  then show ?thesis
    by (subst multipart_headers.simps) (simp only: f s c d assms(5) if_True if_False Let_def option.case sum.case refl not_False_eq_True)
qed

lemma multipart_headers_end: "he \<le> ls \<Longrightarrow> multipart_headers body he ls d t = Inr (Some (d, t))"
  by (subst multipart_headers.simps) simp

lemma part_head_chars:
  assumes "part_ok B p"
  shows "CR \<notin> set (render_disposition p)" "CHR '':'' \<notin> set ''Content-Disposition''" "CHR '':'' \<notin> set ''Content-Type''"
    "render_disposition p \<noteq> []" "\<not> is_trim_ws (hd (render_disposition p))" "\<not> is_trim_ws (last (render_disposition p))"
  using assms by (auto simp: part_ok_def render_disposition_def is_trim_ws_def split: option.splits)

lemma type_value:
  assumes "clean_value t" "t \<noteq> []"
  shows "trim ('' '' @ t) = Inr t"
  using assms trim_ws_space by (intro trim_value(2)) (auto simp: clean_value_def)

lemma lower_part_names: "to_lower ''Content-Disposition'' = ''content-disposition''" "to_lower ''Content-Type'' = ''content-type''"
  by code_simp+

lemma multipart_headers_render:
  assumes "part_ok B p" "drop ls body = render_part_head p @ (CRLF @ CRLF) @ rest" "he = ls + length (render_part_head p)"
  shows "multipart_headers body he ls [] [] = Inr (Some (render_disposition p, part_type p))"
proof -
  note ch = part_head_chars [OF assms(1)]
  let ?l = "''Content-Disposition'' @ '': '' @ render_disposition p"
  have cr: "CR \<notin> set ?l" using ch(1) by simp
  note first = multipart_headers_line [OF _ cr ch(2) _ trim_value(2) [OF ch(4-6)], unfolded lower_part_names]
  show ?thesis
  proof (cases "part_type p = []")
    case True
    then have h: "render_part_head p = ?l" by (auto simp: render_part_head_def part_type_def split: option.splits)
    have "multipart_headers body he ls [] [] = multipart_headers body he (ls + length ?l + 2) (render_disposition p) []"
      using first [of ls body "CRLF @ rest" he "[]" "[]"] assms(2,3) h by simp
    then show ?thesis using True h assms(3) by (simp add: multipart_headers_end)
  next
    case False
    then obtain f t where t: "fp_file p = Some (f, t)" "t \<noteq> []" "part_type p = t"
      by (auto simp: part_type_def split: option.splits)
    let ?m = "''Content-Type'' @ '': '' @ t"
    have h: "render_part_head p = ?l @ CRLF @ ?m" using t by (simp add: render_part_head_def)
    have ok: "CR \<notin> set ?m" "clean_value t" using assms(1) t(1) by (simp_all add: part_ok_def)
    note second = multipart_headers_line [OF _ ok(1) ch(3) _ type_value [OF ok(2) t(2)], unfolded lower_part_names]
    have d1: "drop ls body = ?l @ CRLF @ ?m @ CRLF @ CRLF @ rest" using assms(2) h by simp
    have d2: "drop (ls + length ?l + 2) body = ?m @ CRLF @ CRLF @ rest"
      using drop_more [OF drop_more [OF d1]] by simp
    have "multipart_headers body he ls [] [] = multipart_headers body he (ls + length ?l + 2) (render_disposition p) []"
      using first [OF d1, of he "[]" "[]"] assms(3) h by simp
    also have "\<dots> = multipart_headers body he (ls + length ?l + 2 + length ?m + 2) (render_disposition p) t"
      using second [OF d2, of he "render_disposition p" "[]"] assms(3) h by simp
    finally show ?thesis using t(3) h assms(3) by (simp add: multipart_headers_end)
  qed
qed

text \<open>The blank line behind the header lines is the first one.\<close>

lemma blank_line_after_head:
  assumes "part_ok B p"
  shows "find_sub (CRLF @ CRLF) (render_part_head p @ (CRLF @ CRLF) @ rest) = Some (length (render_part_head p))"
proof -
  let ?l = "''Content-Disposition: '' @ render_disposition p" and ?pat = "CRLF @ CRLF"
  have cr: "CR \<notin> set ?l" using part_head_chars(1) [OF assms] by simp
  have pat: "?pat = CR # LF # CRLF" by (simp add: CRLF_def)
  show ?thesis
  proof (cases "part_type p = []")
    case True
    then have h: "render_part_head p = ?l" by (auto simp: render_part_head_def part_type_def split: option.splits)
    then show ?thesis unfolding h using find_sub_absent_head [OF cr pat] by simp
  next
    case False
    then obtain f t where t: "fp_file p = Some (f, t)" "t \<noteq> []" by (auto simp: part_type_def split: option.splits)
    let ?m = "''Content-Type: '' @ t"
    have h: "render_part_head p = ?l @ CRLF @ ?m" using t by (simp add: render_part_head_def)
    have "CR \<notin> set ?m" using assms t(1) by (simp add: part_ok_def)
    then have "find_sub ?pat (?m @ ?pat @ rest) = Some (length ?m)" using pat by (rule find_sub_absent_head)
    then have "find_sub ?pat (CRLF @ ?m @ ?pat @ rest) = Some (2 + length ?m)" by (simp add: CRLF_def)
    then have "find_sub ?pat (?l @ CRLF @ ?m @ ?pat @ rest) = Some (length ?l + (2 + length ?m))"
      unfolding pat by (subst find_sub_skip [OF cr]) simp
    then show ?thesis unfolding h by simp
  qed
qed

text \<open>A round of the loop that starts at a boundary stores the part and is at the next boundary.\<close>

lemma multipart_parts_part:
  assumes B: "boundary_ok B" and p: "part_ok B p" and d: "drop n body = render_part B p @ ''--'' @ B @ rest"
  shows "multipart_parts body (''--'' @ B) n r = multipart_parts body (''--'' @ B) (n + length (render_part B p)) (put_part p r)"
proof -
  let ?D = "''--'' @ B" and ?h = "render_part_head p" and ?c = "fp_content p"
  let ?s = "n + length ?D"
  let ?he = "?s + 2 + length ?h"
  have d0: "drop n body = ?D @ CRLF @ ?h @ (CRLF @ CRLF) @ ?c @ (CRLF @ ?D) @ rest"
    using d by (simp add: render_part_def)
  have d1: "drop ?s body = CRLF @ ?h @ (CRLF @ CRLF) @ ?c @ (CRLF @ ?D) @ rest"
    using drop_more [OF d0] .
  have d2: "drop (?s + 2) body = ?h @ (CRLF @ CRLF) @ ?c @ (CRLF @ ?D) @ rest"
    using drop_more [OF d1] by simp
  have d3: "drop (?he + 4) body = ?c @ (CRLF @ ?D) @ rest"
    using drop_more [OF drop_more [OF d2]] by (simp add: add.assoc)
  have len: "?he + 4 \<le> length body"
  proof (rule ccontr)
    assume "\<not> ?he + 4 \<le> length body"
    then have "drop (?he + 4) body = []" by simp
    then show False unfolding d3 by simp
  qed
  have f0: "str_find body ?D n = Some n"
    using str_find_drop [OF d0, of ?D] len find_sub_here [of ?D] by simp
  have c1: "compare_at body ?s 2 ''--'' = Inr False" "compare_at body ?s 2 CRLF = Inr True"
  proof -
    have "?s \<le> length body" using len by simp
    then show "compare_at body ?s 2 ''--'' = Inr False" "compare_at body ?s 2 CRLF = Inr True"
      unfolding compare_at_Inr [OF \<open>?s \<le> length body\<close>] d1 by (simp_all add: CRLF_def)
  qed
  have f1: "str_find body (CRLF @ CRLF) (?s + 2) = Some ?he"
    using str_find_drop [OF d2, of "CRLF @ CRLF"] len blank_line_after_head [OF p] by simp
  have pat: "CRLF @ ?D = CR # LF # ?D" by (simp add: CRLF_def)
  have "find_sub (CRLF @ ?D) ?c = None" using p by (simp add: part_ok_def)
  then have "find_sub (CRLF @ ?D) (?c @ (CRLF @ ?D) @ rest) = Some (length ?c)"
    unfolding pat using boundary_chars(2) [OF B] by (intro find_sub_delimiter)
  then have f2: "str_find body (CRLF @ ?D) (?he + 4) = Some (?he + 4 + length ?c)"
    using str_find_drop [OF d3, of "CRLF @ ?D"] len by simp
  have h: "multipart_headers body ?he (?s + 2) [] [] = Inr (Some (render_disposition p, part_type p))"
    using p d2 by (intro multipart_headers_render) simp_all
  have s: "substr body (?he + 4) (?he + 4 + length ?c - (?he + 4)) = Inr ?c"
    unfolding substr_Inr [OF len] d3 by simp
  have e: "?he + 4 + length ?c + 2 = n + length (render_part B p)" by (simp add: render_part_def)
  show ?thesis
    by (subst multipart_parts.simps)
      (simp only: f0 c1 f1 f2 h s e store_part_render [OF p] Let_def option.case sum.case bool.case prod.case)
qed

lemma multipart_parts_end:
  assumes "drop n body = ''--'' @ B @ ''--'' @ rest"
  shows "multipart_parts body (''--'' @ B) n r = Inr (True, r)"
proof -
  let ?D = "''--'' @ B"
  have d1: "drop (n + length ?D) body = ''--'' @ rest" using drop_more [of n body ?D "''--'' @ rest"] assms by simp
  have len: "n + length ?D \<le> length body"
  proof (rule ccontr)
    assume "\<not> n + length ?D \<le> length body"
    then have "drop (n + length ?D) body = []" by simp
    then show False unfolding d1 by simp
  qed
  have "str_find body ?D n = Some n"
    using str_find_drop [OF assms, of ?D] len find_sub_here [of ?D "''--'' @ rest"] by simp
  moreover have "compare_at body (n + length ?D) 2 ''--'' = Inr True" unfolding compare_at_Inr [OF len] d1 by simp
  ultimately show ?thesis by (subst multipart_parts.simps) (simp only: Let_def option.case sum.case bool.case)
qed

lemma render_form_starts: "\<exists>rest. render_form B ps = ''--'' @ B @ rest"
  by (cases ps) (auto simp: render_part_def)

text \<open>The whole form: every part is stored, in order.\<close>

lemma multipart_parts_form:
  assumes "boundary_ok B" "list_all (part_ok B) ps" "drop n body = render_form B ps"
  shows "multipart_parts body (''--'' @ B) n r = Inr (True, fold put_part ps r)"
  using assms(2,3)
proof (induction ps arbitrary: n r)
  case Nil
  then show ?case using multipart_parts_end [of n body B CRLF r] by simp
next
  case (Cons p ps)
  obtain rest where rest: "render_form B ps = ''--'' @ B @ rest" using render_form_starts by blast
  have d: "drop n body = render_part B p @ render_form B ps" using Cons.prems(2) by simp
  have "multipart_parts body (''--'' @ B) n r = multipart_parts body (''--'' @ B) (n + length (render_part B p)) (put_part p r)"
    using Cons.prems(1) d by (intro multipart_parts_part [OF assms(1)]) (simp_all add: rest)
  then show ?case using Cons.IH [OF _ drop_more [OF d]] Cons.prems(1) by simp
qed

lemma fold_put_part:
  "fold put_part ps r = r\<lparr>req_bodyform := form_fields (req_bodyform r) ps, req_files := req_files r @ form_files ps\<rparr>"
  by (induction ps arbitrary: r) (auto simp: put_part_def acc_defs split: option.splits)

lemma parseMultipartBody_form:
  assumes "boundary_ok B" "list_all (part_ok B) ps" "getHeader ''Content-Type'' r \<in> set (form_types B)"
    "req_body r = render_form B ps"
  shows "parseMultipartBody r = Inr (True, r\<lparr>req_bodyform := form_fields (req_bodyform r) ps, req_files := req_files r @ form_files ps\<rparr>)"
proof -
  have "multipart_parts (req_body r) (''--'' @ B) 0 r = Inr (True, fold put_part ps r)"
    using assms by (intro multipart_parts_form) simp_all
  moreover have "B \<noteq> []" using assms(1) by (simp add: boundary_ok_def)
  ultimately show ?thesis
    using form_types_boundary [OF assms(1,3)] by (auto simp add: parseMultipartBody_def Let_def fold_put_part)
qed

subsection \<open>The payload of a request\<close>

text \<open>What a request carries behind its header: bytes, or a form with its boundary.\<close>

datatype payload = Plain bytes | Form bytes "form_part list"

fun payload_bytes :: "payload \<Rightarrow> bytes" where
  "payload_bytes (Plain s) = s"
| "payload_bytes (Form B ps) = render_form B ps"

text \<open>The Content-Type that goes with it: none of the multipart type for bytes, the boundary for a form.\<close>

fun payload_ok :: "bytes option \<Rightarrow> payload \<Rightarrow> bool" where
  "payload_ok ct (Plain s) \<longleftrightarrow> (case ct of None \<Rightarrow> True | Some t \<Rightarrow> find_sub ''multipart/form-data'' t = None)"
| "payload_ok ct (Form B ps) \<longleftrightarrow> boundary_ok B \<and> list_all (part_ok B) ps
     \<and> (case ct of None \<Rightarrow> False | Some t \<Rightarrow> t \<in> set (form_types B))"

fun payload_fields :: "payload \<Rightarrow> (bytes \<rightharpoonup> bytes)" where
  "payload_fields (Plain s) = Map.empty"
| "payload_fields (Form B ps) = form_fields Map.empty ps"

fun payload_files :: "payload \<Rightarrow> uploaded_file list" where
  "payload_files (Plain s) = []"
| "payload_files (Form B ps) = form_files ps"

lemma parseMultipartBody_payload:
  assumes "payload_ok (req_headers r ''content-type'') d" "req_body r = payload_bytes d"
    "req_bodyform r = Map.empty" "req_files r = []"
  shows "parseMultipartBody r = Inr (True, r\<lparr>req_bodyform := payload_fields d, req_files := payload_files d\<rparr>)"
proof (cases d)
  case (Plain s)
  then have "find_sub ''multipart/form-data'' (getHeader ''Content-Type'' r) = None"
    using assms(1) by (auto simp: getHeader_def lower_part_names split: option.splits)
  then show ?thesis using assms(3,4) Plain by (simp add: parseMultipartBody_def)
next
  case (Form B ps)
  then have "getHeader ''Content-Type'' r \<in> set (form_types B)"
    using assms(1) by (simp add: getHeader_def lower_part_names split: option.splits)
  then show ?thesis using parseMultipartBody_form [of B ps r] assms Form by simp
qed

end
