(* ===== verification/Http_Roundtrip.thy ===== *)
theory Http_Roundtrip
  imports Http_Multipart
begin

text \<open>
  What a client writes is what the server reads: rendering a request and parsing the bytes gives
  the request back. \<open>render_request\<close> is the specification of the wire format (it models no
  code); the theorem is about the parser.
\<close>

fun versionString :: "http_version \<Rightarrow> bytes" where
  "versionString kHttp10 = ''HTTP/1.0''"
| "versionString kHttp11 = ''HTTP/1.1''"
| "versionString kUnknown = ''''"

definition render_target :: "bytes \<Rightarrow> bytes option \<Rightarrow> bytes" where
  "render_target p q = (case q of None \<Rightarrow> p | Some s \<Rightarrow> p @ ''?'' @ s)"

definition render_line :: "http_method \<Rightarrow> bytes \<Rightarrow> bytes option \<Rightarrow> http_version \<Rightarrow> bytes" where
  "render_line m p q v = methodString m @ '' '' @ render_target p q @ '' '' @ versionString v"

fun render_headers :: "(bytes \<times> bytes) list \<Rightarrow> bytes" where
  "render_headers [] = []"
| "render_headers ((k, v) # hs) = k @ '': '' @ v @ CRLF @ render_headers hs"

definition render_head :: "http_method \<Rightarrow> bytes \<Rightarrow> bytes option \<Rightarrow> http_version \<Rightarrow> (bytes \<times> bytes) list \<Rightarrow> bytes" where
  "render_head m p q v hs = render_line m p q v @ CRLF @ render_headers hs @ CRLF"

fun header_map :: "(bytes \<rightharpoonup> bytes) \<Rightarrow> (bytes \<times> bytes) list \<Rightarrow> (bytes \<rightharpoonup> bytes)" where
  "header_map m [] = m"
| "header_map m ((k, v) # hs) = header_map (m(to_lower k \<mapsto> v)) hs"

definition plain_header :: "bytes \<times> bytes \<Rightarrow> bool" where
  "plain_header kv \<longleftrightarrow> CHR '':'' \<notin> set (fst kv) \<and> CR \<notin> set (fst kv) \<and> CR \<notin> set (snd kv) \<and> clean_value (snd kv)"

definition plain_target :: "bytes \<Rightarrow> bytes option \<Rightarrow> bool" where
  "plain_target p q \<longleftrightarrow> CHR '' '' \<notin> set p \<and> CHR ''?'' \<notin> set p \<and> CR \<notin> set p
     \<and> (case q of None \<Rightarrow> True | Some s \<Rightarrow> CHR '' '' \<notin> set s \<and> CR \<notin> set s)"

lemma find_CRLF_line: "CR \<notin> set line \<Longrightarrow> find_sub CRLF (line @ CRLF @ rest) = Some (length line)"
  by (rule find_sub_absent_head) (simp_all add: CRLF_def)

lemma method_chars: "CHR '' '' \<notin> set (methodString m)" "CR \<notin> set (methodString m)"
  by (cases m; simp)+

lemma version_chars: "CR \<notin> set (versionString v)"
  by (cases v) simp_all

lemma target_chars: "plain_target p q \<Longrightarrow> CHR '' '' \<notin> set (render_target p q) \<and> CR \<notin> set (render_target p q)"
  by (auto simp: plain_target_def render_target_def split: option.splits)

lemma version_parts:
  "v \<noteq> kUnknown \<Longrightarrow> length (versionString v) = 8 \<and> take 7 (versionString v) = ''HTTP/1.''
     \<and> (versionString v ! 7 = (if v = kHttp11 then CHR ''1'' else CHR ''0''))"
  by (cases v) simp_all

lemma processRequestLine_render:
  assumes "m \<noteq> kInvalid" "v \<noteq> kUnknown" "plain_target p q"
  shows "processRequestLine (render_line m p q v) c =
    (True, c\<lparr>ctx_request := (ctx_request c)\<lparr>req_method := m, req_path := p,
       req_query := (case q of None \<Rightarrow> req_query (ctx_request c) | Some s \<Rightarrow> s), req_version := v\<rparr>\<rparr>)"
proof -
  let ?rest = "render_target p q @ '' '' @ versionString v"
  have f1: "find_char (CHR '' '') (render_line m p q v) = length (methodString m)"
    using method_chars(1) by (simp add: render_line_def find_char_append)
  have f2: "find_char (CHR '' '') ?rest = length (render_target p q)"
    using target_chars [OF assms(3)] by (simp add: find_char_append)
  have d1: "take (length (methodString m)) (render_line m p q v) = methodString m"
    "drop (length (methodString m) + 1) (render_line m p q v) = ?rest"
    "length (methodString m) \<noteq> length (render_line m p q v)"
    by (simp_all add: render_line_def)
  have d2: "take (length (render_target p q)) ?rest = render_target p q"
    "drop (length (render_target p q) + 1) ?rest = versionString v"
    "length (render_target p q) \<noteq> length ?rest"
    by simp_all
  have tgt: "take (find_char (CHR ''?'') (render_target p q)) (render_target p q) = p"
    "find_char (CHR ''?'') (render_target p q) = length (render_target p q) \<longleftrightarrow> q = None"
    "q = Some s \<Longrightarrow> drop (find_char (CHR ''?'') (render_target p q) + 1) (render_target p q) = s" for s
    using assms(3) by (auto simp: plain_target_def render_target_def find_char_append find_char_eq_length [THEN iffD2] split: option.splits)
  note ver = version_parts [OF assms(2)]
  show ?thesis
    unfolding processRequestLine_def Let_def f1 d1(1) setMethod_string [OF assms(1)] d1(2) f2 d2(1,2) tgt(1)
    using d1(3) d2(3) ver assms(2) tgt(2,3)
    by (cases q; cases v) (simp_all add: acc_defs)
qed

lemma process_line_header:
  assumes "ctx_state c = kExpectHeaders" "plain_header (k, v)"
  shows "process_line now (k @ '': '' @ v) c =
    Inr (c\<lparr>ctx_request := (ctx_request c)\<lparr>req_headers := (req_headers (ctx_request c))(to_lower k \<mapsto> v)\<rparr>\<rparr>)"
proof -
  define line where "line = k @ '': '' @ v"
  have colon: "find_char (CHR '':'') line = length k" "length k \<noteq> length line"
    using assms(2) by (simp_all add: line_def plain_header_def find_char_append)
  have "dropWhile isspace ('' '' @ v) = dropWhile isspace v" by (simp add: isspace_def)
  then have "addHeader line (length k) r = r\<lparr>req_headers := (req_headers r)(to_lower k \<mapsto> v)\<rparr>" for r
    using strip_clean [of v] assms(2) by (simp add: line_def plain_header_def addHeader_def Let_def)
  with colon assms(1) show ?thesis
    unfolding line_def [symmetric] by (simp add: process_line_def Let_def)
qed

lemma parse_header_line:
  assumes "ctx_state c = kExpectHeaders" "CR \<notin> set line"
    "headerBytes c + (length line + 2) \<le> kMaxHeaderBytes"
    "process_line now line (c\<lparr>headerBytes := headerBytes c + (length line + 2)\<rparr>) = Inr c'"
  shows "parse_bytes now c (line @ CRLF @ rest) = parse_bytes now c' rest"
  using assms by (simp add: parse_bytes_line find_CRLF_line Let_def)

lemma parse_headers:
  assumes "ctx_state c = kExpectHeaders" "\<forall>kv\<in>set hs. plain_header kv"
    "headerBytes c + length (render_headers hs) \<le> kMaxHeaderBytes"
  shows "parse_bytes now c (render_headers hs @ rest) =
    parse_bytes now (c\<lparr>headerBytes := headerBytes c + length (render_headers hs),
      ctx_request := (ctx_request c)\<lparr>req_headers := header_map (req_headers (ctx_request c)) hs\<rparr>\<rparr>) rest"
  using assms
proof (induction hs arbitrary: c)
  case (Cons h hs)
  obtain k v where h: "h = (k, v)" by (cases h)
  let ?line = "k @ '': '' @ v"
  let ?c = "c\<lparr>headerBytes := headerBytes c + (length ?line + 2)\<rparr>"
  let ?c' = "?c\<lparr>ctx_request := (ctx_request c)\<lparr>req_headers := (req_headers (ctx_request c))(to_lower k \<mapsto> v)\<rparr>\<rparr>"
  have ph: "plain_header (k, v)" using Cons.prems(2) by (simp add: h)
  have pl: "process_line now ?line ?c = Inr ?c'"
    using process_line_header [OF _ ph, of ?c now] Cons.prems(1) by simp
  have "parse_bytes now c (?line @ CRLF @ render_headers hs @ rest) = parse_bytes now ?c' (render_headers hs @ rest)"
    using Cons.prems ph by (intro parse_header_line [OF _ _ _ pl]) (simp_all add: h plain_header_def)
  also have "\<dots> = parse_bytes now (?c'\<lparr>headerBytes := headerBytes ?c' + length (render_headers hs),
      ctx_request := (ctx_request ?c')\<lparr>req_headers := header_map (req_headers (ctx_request ?c')) hs\<rparr>\<rparr>) rest"
    using Cons.prems by (intro Cons.IH) (simp_all add: h)
  finally show ?case by (simp add: h add.assoc)
qed simp

text \<open>The body length the headers announce, and what the context is after the blank line.\<close>

lemma prepareBody_announced:
  assumes "getHeader ''Content-Length'' (ctx_request c) = show_nat n" "n \<le> kMaxBodyBytes"
  shows "prepareBody c = (True, c\<lparr>contentLength := n\<rparr>)"
proof -
  have n: "\<not> ULLONG_MAX < n" using assms(2) by (simp add: ULLONG_MAX_def kMaxBodyBytes_def)
  have "strtoull10 (show_nat n) = (n, length (show_nat n), False)"
    using strtoull10_digits [OF show_nat_not_Nil show_nat_digits] n by simp
  with n assms(1) show ?thesis
    by (simp add: prepareBody_def c_str_digits show_nat_digits Let_def)
qed

lemma prepareBody_absent:
  "getHeader ''Content-Length'' (ctx_request c) = [] \<Longrightarrow> prepareBody c = (True, c\<lparr>contentLength := 0\<rparr>)"
  by (simp add: prepareBody_def)

lemma parse_blank_line:
  assumes "ctx_state c = kExpectHeaders" "headerBytes c + 2 \<le> kMaxHeaderBytes"
    "prepareBody (c\<lparr>headerBytes := headerBytes c + 2\<rparr>) = (True, c')" "contentLength c' \<le> kMaxBodyBytes"
  shows "parse_bytes now c (CRLF @ rest) = parse_bytes now (c'\<lparr>ctx_state := kExpectBody\<rparr>) rest"
  using assms parse_header_line [of c "[]" now _ rest]
  by (simp add: process_line_def Let_def)

lemma parse_body:
  assumes "ctx_state c = kExpectBody" "contentLength c = length (payload_bytes d)"
    "payload_ok (req_headers (ctx_request c) ''content-type'') d"
    "req_bodyform (ctx_request c) = Map.empty" "req_files (ctx_request c) = []"
  shows "parse_bytes now c (payload_bytes d @ rest) =
    (kComplete, c\<lparr>ctx_request := (ctx_request c)\<lparr>req_bodyform := payload_fields d,
       req_files := payload_files d, req_body := payload_bytes d\<rparr>, ctx_state := kGotAll\<rparr>, rest)"
proof -
  have "parseMultipartBody (setBody (payload_bytes d) (ctx_request c)) =
      Inr (True, (setBody (payload_bytes d) (ctx_request c))\<lparr>req_bodyform := payload_fields d, req_files := payload_files d\<rparr>)"
    using assms(3-5) by (intro parseMultipartBody_payload) (simp_all add: acc_defs)
  then show ?thesis using assms(1,2) by (simp add: parse_bytes.simps [of now c] acc_defs Let_def)
qed

text \<open>The request the bytes stand for, its headers in the order they were sent.\<close>

definition request_of :: "timestamp \<Rightarrow> http_method \<Rightarrow> bytes \<Rightarrow> bytes option \<Rightarrow> http_version
    \<Rightarrow> (bytes \<times> bytes) list \<Rightarrow> payload \<Rightarrow> http_request" where
  "request_of now m p q v hs d = http_request_new\<lparr>req_method := m, req_path := p,
     req_query := (case q of None \<Rightarrow> [] | Some s \<Rightarrow> s), req_version := v, req_receiveTime := now,
     req_headers := header_map Map.empty hs, req_bodyform := payload_fields d, req_files := payload_files d,
     req_body := payload_bytes d\<rparr>"

text \<open>Conditions on a request a client may send: the announced length is the body's, the
  header section keeps the limit, and the Content-Type goes with the payload.\<close>

definition sendable :: "http_method \<Rightarrow> bytes \<Rightarrow> bytes option \<Rightarrow> http_version \<Rightarrow> (bytes \<times> bytes) list \<Rightarrow> payload \<Rightarrow> bool" where
  "sendable m p q v hs d \<longleftrightarrow> m \<noteq> kInvalid \<and> v \<noteq> kUnknown \<and> plain_target p q
     \<and> list_all plain_header hs \<and> length (render_head m p q v hs) \<le> kMaxHeaderBytes
     \<and> length (payload_bytes d) \<le> kMaxBodyBytes
     \<and> (case header_map Map.empty hs ''content-length'' of
          None \<Rightarrow> payload_bytes d = [] | Some l \<Rightarrow> l = show_nat (length (payload_bytes d)))
     \<and> payload_ok (header_map Map.empty hs ''content-type'') d"

lemma lower_names: "to_lower ''Content-Length'' = ''content-length''"
  by code_simp

lemma parse_rendered:
  assumes s: "sendable m p q v hs d"
  shows "\<exists>c. parse_bytes now http_context_new (render_head m p q v hs @ payload_bytes d @ rest) = (kComplete, c, rest)
    \<and> ctx_request c = request_of now m p q v hs d \<and> gotAll c"
proof -
  let ?line = "render_line m p q v"
  let ?R = "request_of now m p q v [] (Plain [])"
  let ?RH = "request_of now m p q v hs (Plain [])"
  let ?c1 = "http_context_new\<lparr>headerBytes := length ?line + 2, ctx_request := ?R, ctx_state := kExpectHeaders\<rparr>"
  let ?h = "length ?line + 2 + length (render_headers hs)"
  let ?c2 = "http_context_new\<lparr>headerBytes := ?h, ctx_request := ?RH, ctx_state := kExpectHeaders\<rparr>"
  let ?c3 = "?c2\<lparr>headerBytes := ?h + 2, contentLength := length (payload_bytes d)\<rparr>"
  have len: "length (render_head m p q v hs) = ?h + 2" by (simp add: render_head_def)
  have hb: "?h + 2 \<le> kMaxHeaderBytes" using s len by (simp add: sendable_def)
  have mv: "m \<noteq> kInvalid" "v \<noteq> kUnknown" "plain_target p q" using s by (simp_all add: sendable_def)
  have cr: "CR \<notin> set ?line"
    using method_chars(2) version_chars target_chars [OF mv(3)] by (simp add: render_line_def)
  have "process_line now ?line (http_context_new\<lparr>headerBytes := length ?line + 2\<rparr>) = Inr ?c1"
    using processRequestLine_render [OF mv, of "http_context_new\<lparr>headerBytes := length ?line + 2\<rparr>"]
    by (cases q) (simp_all add: process_line_def Let_def http_context_new_def http_request_new_def request_of_def acc_defs)
  then have "parse_bytes now http_context_new (?line @ CRLF @ render_headers hs @ CRLF @ payload_bytes d @ rest)
      = parse_bytes now ?c1 (render_headers hs @ CRLF @ payload_bytes d @ rest)"
    using hb cr by (simp add: parse_bytes_line find_CRLF_line Let_def http_context_new_def)
  also have "\<dots> = parse_bytes now ?c2 (CRLF @ payload_bytes d @ rest)"
    using parse_headers [of ?c1 hs now "CRLF @ payload_bytes d @ rest"] hb s
    by (simp add: sendable_def list_all_iff request_of_def http_request_new_def http_context_new_def)
  also have "\<dots> = parse_bytes now (?c3\<lparr>ctx_state := kExpectBody\<rparr>) (payload_bytes d @ rest)"
  proof (rule parse_blank_line)
    show "prepareBody (?c2\<lparr>headerBytes := headerBytes ?c2 + 2\<rparr>) = (True, ?c3)"
    proof (cases "header_map Map.empty hs ''content-length''")
      case None
      then show ?thesis using s prepareBody_absent [of "?c2\<lparr>headerBytes := ?h + 2\<rparr>"]
        by (simp add: sendable_def getHeader_def lower_names request_of_def)
    next
      case (Some l)
      then show ?thesis using s prepareBody_announced [of "?c2\<lparr>headerBytes := ?h + 2\<rparr>" "length (payload_bytes d)"]
        by (simp add: sendable_def getHeader_def lower_names request_of_def)
    qed
    show "contentLength ?c3 \<le> kMaxBodyBytes" using s by (simp add: sendable_def)
  qed (use hb in simp_all)
  also have "\<dots> = (kComplete, ?c3\<lparr>ctx_request := request_of now m p q v hs d, ctx_state := kGotAll\<rparr>, rest)"
    using s by (subst parse_body)
      (auto simp: sendable_def request_of_def http_request_new_def)
  finally show ?thesis by (simp add: render_head_def gotAll_def)
qed

text \<open>
  Property C11. What a client sends is what the handler gets: the bytes of a \<open>sendable\<close> request and any
  bytes behind it are parsed completely, the request has exactly its parts (of headers or text fields of one name the last
  counts), and the further bytes stay in the buffer. Sendable: a method of the five; version 1.0 or 1.1; path and query
  without space and CR, path without ?; header names (folded to lower case) without colon and CR, values without CR and
  without white space at the ends; head at most 16 KiB, body at most 10 MiB; Content-Length the body's decimal length, or
  absent and no body. The payload is bytes (Content-Type without multipart/form-data) or a form (Content-Type exactly
  multipart/form-data; boundary=B, B bare or quoted, nonempty, without CR, LF, space, tab, semicolon, quote). A form has
  text fields and files: field names nonempty, without CR, quote, equals sign; file names nonempty, without CR and quote,
  types without CR and white space at the ends; contents without CRLF--B.
\<close>

theorem request_roundtrip:
  assumes "sendable m p q v hs d" "buf_ok b" "content b = render_head m p q v hs @ payload_bytes d @ rest"
  shows "\<exists>c b'. parseRequest now http_context_new b = Inr (kComplete, c, b') \<and> content b' = rest
    \<and> ctx_request c = request_of now m p q v hs d \<and> gotAll c"
  using parse_refines [OF assms(2), of now http_context_new] parse_rendered [OF assms(1), of now rest] assms(3)
  by fastforce

text \<open>A form with a text field and a file, as a client of the inference service sends it.\<close>

definition sample_form :: payload where
  "sample_form = Form ''xYz''
     [\<lparr>fp_name = ''model'', fp_file = None, fp_content = ''yolo''\<rparr>,
      \<lparr>fp_name = ''image'', fp_file = Some (''a.png'', ''image/png''), fp_content = ''PNG'' @ CRLF @ ''--x''\<rparr>]"

definition sample_headers :: "(bytes \<times> bytes) list" where
  "sample_headers = [(''Content-Type'', ''multipart/form-data; boundary=xYz''), (''Content-Length'', ''178'')]"

lemma sample_length: "length (payload_bytes sample_form) = 178"
  by (simp add: sample_form_def render_part_def render_part_head_def render_disposition_def CRLF_def)

lemma sample_boundary: "payload_ok (header_map Map.empty sample_headers ''content-type'') sample_form"
proof -
  have h: "header_map Map.empty sample_headers ''content-type'' = Some ''multipart/form-data; boundary=xYz''"
    by code_simp
  have "boundary_ok ''xYz''" "''multipart/form-data; boundary=xYz'' \<in> set (form_types ''xYz'')"
    by (simp_all add: boundary_ok_def form_types_def)
  moreover have "find_sub (CRLF @ ''--xYz'') ''yolo'' = None" "find_sub (CRLF @ ''--xYz'') (''PNG'' @ CRLF @ ''--x'') = None"
    by (simp_all add: CRLF_def)
  ultimately show ?thesis unfolding h sample_form_def
    by (simp add: part_ok_def clean_value_def isspace_def)
qed

lemma sample_sendable: "sendable kPost ''/v1/infer'' (Some ''k=v'') kHttp11 sample_headers sample_form"
proof -
  have l: "header_map Map.empty sample_headers ''content-length'' = Some ''178''" by code_simp
  have "digit_char (Suc 0) = CHR ''1''" "digit_char 7 = CHR ''7''" "digit_char 8 = CHR ''8''" by code_simp+
  then have n: "show_nat 178 = ''178''" by (simp add: show_nat.simps)
  have "plain_target ''/v1/infer'' (Some ''k=v'')" by (simp add: plain_target_def)
  moreover have "list_all plain_header sample_headers"
    by (simp add: sample_headers_def plain_header_def clean_value_def isspace_def)
  moreover have "length (render_head kPost ''/v1/infer'' (Some ''k=v'') kHttp11 sample_headers) \<le> kMaxHeaderBytes"
    by (simp add: render_head_def render_line_def render_target_def kMaxHeaderBytes_def CRLF_def sample_headers_def)
  moreover have "length (payload_bytes sample_form) \<le> kMaxBodyBytes"
    by (simp add: sample_length kMaxBodyBytes_def)
  ultimately show ?thesis
    using sample_boundary by (simp add: sendable_def l n sample_length)
qed

lemma request_roundtrip_witness:
  "\<exists>c b'. parseRequest timestamp_default http_context_new
      (append (render_head kPost ''/v1/infer'' (Some ''k=v'') kHttp11 sample_headers @ payload_bytes sample_form @ ''GET'') (buffer_new 16))
      = Inr (kComplete, c, b') \<and> content b' = ''GET''
    \<and> ctx_request c = request_of timestamp_default kPost ''/v1/infer'' (Some ''k=v'') kHttp11 sample_headers sample_form \<and> gotAll c"
proof (rule request_roundtrip)
  show "sendable kPost ''/v1/infer'' (Some ''k=v'') kHttp11 sample_headers sample_form"
    by (rule sample_sendable)
qed (simp_all add: buf_simps)

end
