(* ===== verification/Http_Response.thy ===== *)
theory Http_Response
  imports Net_Buffer Http_Roundtrip
begin

text \<open>
  \<open>src/src/http/HttpResponse.h\<close> and \<open>HttpResponse.cc\<close>: a response and its wire format. The header map is an
  \<open>unordered_map\<close>, whose iteration order is not specified, so \<open>appendToBuffer\<close> takes the order as an
  argument: a list of the map's entries. \<open>client_response\<close> is the reference client (it models no
  code): it reads lines up to the blank one and as many body bytes as the header announces.
\<close>

datatype http_status =
    kUnknownStatus | k200Ok | k301MovedPermanently | k400BadRequest | k404NotFound | k405MethodNotAllowed
  | k413PayloadTooLarge | k415UnsupportedMediaType | k422UnprocessableEntity | k500InternalServerError
  | k501NotImplemented | k503ServiceUnavailable

fun status_value :: "http_status \<Rightarrow> nat" where
  "status_value kUnknownStatus = 0"
| "status_value k200Ok = 200"
| "status_value k301MovedPermanently = 301"
| "status_value k400BadRequest = 400"
| "status_value k404NotFound = 404"
| "status_value k405MethodNotAllowed = 405"
| "status_value k413PayloadTooLarge = 413"
| "status_value k415UnsupportedMediaType = 415"
| "status_value k422UnprocessableEntity = 422"
| "status_value k500InternalServerError = 500"
| "status_value k501NotImplemented = 501"
| "status_value k503ServiceUnavailable = 503"

record http_response =
  rsp_headers :: "bytes \<rightharpoonup> bytes"
  othermessage :: "bytes \<rightharpoonup> bytes"
  rsp_status :: http_status
  rsp_message :: bytes
  closeConnection :: bool
  rsp_body :: bytes

definition http_response_new :: "bool \<Rightarrow> http_response" where
  "http_response_new close = \<lparr>rsp_headers = Map.empty, othermessage = Map.empty, rsp_status = kUnknownStatus,
     rsp_message = [], closeConnection = close, rsp_body = []\<rparr>"

definition setStatusCode :: "http_status \<Rightarrow> http_response \<Rightarrow> http_response" where
  "setStatusCode code r = r\<lparr>rsp_status := code\<rparr>"

definition setStatusMessage :: "bytes \<Rightarrow> http_response \<Rightarrow> http_response" where
  "setStatusMessage m r = r\<lparr>rsp_message := m\<rparr>"

definition setCloseConnection :: "bool \<Rightarrow> http_response \<Rightarrow> http_response" where
  "setCloseConnection on r = r\<lparr>closeConnection := on\<rparr>"

definition rsp_addHeader :: "bytes \<Rightarrow> bytes \<Rightarrow> http_response \<Rightarrow> http_response" where
  "rsp_addHeader key value r = r\<lparr>rsp_headers := (rsp_headers r)(key \<mapsto> value)\<rparr>"

definition rsp_getHeader :: "bytes \<Rightarrow> http_response \<Rightarrow> bytes" where
  "rsp_getHeader key r = (case rsp_headers r key of None \<Rightarrow> [] | Some v \<Rightarrow> v)"

definition setContentType :: "bytes \<Rightarrow> http_response \<Rightarrow> http_response" where
  "setContentType t r = rsp_addHeader ''Content-Type'' t r"

definition addothermessage :: "bytes \<Rightarrow> bytes \<Rightarrow> http_response \<Rightarrow> http_response" where
  "addothermessage key value r = r\<lparr>othermessage := (othermessage r)(key \<mapsto> value)\<rparr>"

definition rsp_setBody :: "bytes \<Rightarrow> http_response \<Rightarrow> http_response" where
  "rsp_setBody b r = r\<lparr>rsp_body := b\<rparr>"

lemmas [acc_defs] = setStatusCode_def setStatusMessage_def setCloseConnection_def rsp_addHeader_def
  rsp_getHeader_def setContentType_def addothermessage_def rsp_setBody_def

text \<open>\<open>for (const auto& header : headers_)\<close> over the entries in the given order.\<close>

fun append_headers :: "(bytes \<times> bytes) list \<Rightarrow> buffer \<Rightarrow> buffer" where
  "append_headers [] b = b"
| "append_headers ((k, v) # hs) b =
     (let b = append k b; b = append '': '' b; b = append v b; b = append CRLF b in append_headers hs b)"

definition appendToBuffer :: "(bytes \<times> bytes) list \<Rightarrow> http_response \<Rightarrow> buffer \<Rightarrow> buffer" where
  "appendToBuffer order r b =
     (let buf = snprintf 32 (''HTTP/1.1 '' @ show_nat (status_value (rsp_status r)) @ '' '');
          b = append buf b;
          b = append (rsp_message r) b;
          b = append CRLF b;
          b = (if closeConnection r then append (''Connection: close'' @ CRLF) b
               else append (''Connection: Keep-Alive'' @ CRLF) b);
          buf = snprintf 32 (''Content-Length: '' @ show_nat (length (rsp_body r)) @ CRLF);
          b = append buf b;
          b = append_headers order b;
          b = append CRLF b
      in append (rsp_body r) b)"

text \<open>A list that enumerates the header map.\<close>

definition enumerates :: "(bytes \<times> bytes) list \<Rightarrow> http_response \<Rightarrow> bool" where
  "enumerates order r \<longleftrightarrow> distinct (map fst order) \<and> map_of order = rsp_headers r"

subsection \<open>The bytes\<close>

definition response_bytes :: "(bytes \<times> bytes) list \<Rightarrow> http_response \<Rightarrow> bytes" where
  "response_bytes order r =
     ''HTTP/1.1 '' @ show_nat (status_value (rsp_status r)) @ '' '' @ rsp_message r @ CRLF
     @ render_headers ((''Connection'', if closeConnection r then ''close'' else ''Keep-Alive'')
         # (''Content-Length'', show_nat (length (rsp_body r))) # order) @ CRLF @ rsp_body r"

lemma append_headers_ok:
  "buf_ok b \<Longrightarrow> buf_ok (append_headers hs b) \<and> content (append_headers hs b) = content b @ render_headers hs"
  by (induction hs b rule: append_headers.induct) (simp_all add: buf_simps Let_def)

lemma status_len: "length (show_nat (status_value c)) \<le> 3"
  by (rule length_show_nat) (cases c; simp)+

lemma appendToBuffer_ok:
  assumes "buf_ok b" "length (rsp_body r) < 10 ^ 13"
  shows "buf_ok (appendToBuffer order r b)" "content (appendToBuffer order r b) = content b @ response_bytes order r"
proof -
  have s1: "snprintf 32 (''HTTP/1.1 '' @ show_nat (status_value (rsp_status r)) @ '' '')
      = ''HTTP/1.1 '' @ show_nat (status_value (rsp_status r)) @ '' ''"
    using status_len [of "rsp_status r"] by (simp add: snprintf_def)
  have "length (show_nat (length (rsp_body r))) \<le> 13" by (rule length_show_nat [OF assms(2)]) simp
  then have s2: "snprintf 32 (''Content-Length: '' @ show_nat (length (rsp_body r)) @ CRLF)
      = ''Content-Length: '' @ show_nat (length (rsp_body r)) @ CRLF"
    by (simp add: snprintf_def)
  show "buf_ok (appendToBuffer order r b)" "content (appendToBuffer order r b) = content b @ response_bytes order r"
    unfolding appendToBuffer_def Let_def s1 s2
    using assms(1) append_headers_ok
    by (simp_all add: buf_simps response_bytes_def)
qed

subsection \<open>A reference client\<close>

function client_lines :: "bytes \<Rightarrow> (bytes list \<times> bytes) option" where
  "client_lines s =
     (case find_sub CRLF s of
        None \<Rightarrow> None
      | Some n \<Rightarrow>
          (if n = 0 then Some ([], drop 2 s)
           else map_option (\<lambda>(ls, rest). (take n s # ls, rest)) (client_lines (drop (n + 2) s))))"
  by pat_completeness auto
termination by (relation "measure length") (auto dest: find_sub_bound)

declare client_lines.simps [simp del]

definition header_pair :: "bytes \<Rightarrow> bytes \<times> bytes" where
  "header_pair l = (let c = find_char (CHR '':'') l in (take c l, drop (c + 2) l))"

definition client_response :: "bytes \<Rightarrow> (bytes \<times> (bytes \<times> bytes) list \<times> bytes \<times> bytes) option" where
  "client_response s =
     (case client_lines s of
        Some (l # hs, rest) \<Rightarrow>
          (case map_of (map header_pair hs) ''Content-Length'' of
             None \<Rightarrow> None
           | Some d \<Rightarrow> (let n = read_digits 0 d in
               if length rest < n then None else Some (l, map header_pair hs, take n rest, drop n rest)))
      | _ \<Rightarrow> None)"

definition header_line :: "bytes \<times> bytes \<Rightarrow> bytes" where
  "header_line kv = fst kv @ '': '' @ snd kv"

lemma header_pair_line: "CHR '':'' \<notin> set (fst kv) \<Longrightarrow> header_pair (header_line kv) = kv"
  by (cases kv) (simp add: header_pair_def header_line_def find_char_append Let_def)

lemma client_lines_line:
  "CR \<notin> set l \<Longrightarrow> l \<noteq> [] \<Longrightarrow> client_lines (l @ CRLF @ s) = map_option (\<lambda>(ls, rest). (l # ls, rest)) (client_lines s)"
  by (subst client_lines.simps) (simp add: find_CRLF_line)

lemma client_lines_headers:
  "\<forall>kv\<in>set hs. CR \<notin> set (fst kv) \<and> CR \<notin> set (snd kv) \<Longrightarrow>
   client_lines (render_headers hs @ CRLF @ s) = Some (map header_line hs, s)"
proof (induction hs)
  case Nil
  then show ?case using find_CRLF_line [of "[]" s] by (simp add: client_lines.simps)
next
  case (Cons kv hs)
  have "render_headers (kv # hs) @ CRLF @ s = header_line kv @ CRLF @ render_headers hs @ CRLF @ s"
    by (cases kv) (simp add: header_line_def)
  moreover have "CR \<notin> set (header_line kv)" "header_line kv \<noteq> []"
    using Cons.prems by (simp_all add: header_line_def)
  ultimately show ?case using Cons client_lines_line by simp
qed

text \<open>A header that survives the wire.\<close>

definition wire_header :: "bytes \<times> bytes \<Rightarrow> bool" where
  "wire_header kv \<longleftrightarrow> CHR '':'' \<notin> set (fst kv) \<and> CR \<notin> set (fst kv) \<and> CR \<notin> set (snd kv)"

lemma show_nat_no_CR: "CR \<notin> set (show_nat n)"
  using show_nat_digits [of n] digit_not_special by blast

text \<open>
  Property C16. The response format is self-delimiting: \<open>appendToBuffer\<close> keeps what the buffer held before, and a client that
  reads the bytes it adds behind that, whatever follows them, gets back the status line, the connection choice, the headers
  in the order in which the header map was iterated and exactly the body, and its next read starts right after the body.
  Conditions: no header name has a colon or a CR, no header value and no status message has a CR (nothing in the code keeps a
  handler from setting such ones), and the body is shorter than 10^13 bytes.
\<close>

theorem response_roundtrip:
  assumes "buf_ok b" "length (rsp_body r) < 10 ^ 13" "list_all wire_header order" "CR \<notin> set (rsp_message r)"
  shows "take (length (content b)) (content (appendToBuffer order r b)) = content b
    \<and> client_response (drop (length (content b)) (content (appendToBuffer order r b)) @ rest) =
    Some (''HTTP/1.1 '' @ show_nat (status_value (rsp_status r)) @ '' '' @ rsp_message r,
      (''Connection'', if closeConnection r then ''close'' else ''Keep-Alive'')
        # (''Content-Length'', show_nat (length (rsp_body r))) # order, rsp_body r, rest)"
proof -
  let ?l = "''HTTP/1.1 '' @ show_nat (status_value (rsp_status r)) @ '' '' @ rsp_message r"
  let ?hs = "(''Connection'', if closeConnection r then ''close'' else ''Keep-Alive'') # (''Content-Length'', show_nat (length (rsp_body r))) # order"
  have held: "content (appendToBuffer order r b) = content b @ response_bytes order r"
    by (rule appendToBuffer_ok(2) [OF assms(1,2)])
  then have bytes: "drop (length (content b)) (content (appendToBuffer order r b)) @ rest = ?l @ CRLF @ render_headers ?hs @ CRLF @ rsp_body r @ rest"
    by (simp add: response_bytes_def)
  have w: "list_all wire_header ?hs"
    using assms(3) show_nat_no_CR by (simp add: wire_header_def)
  have "client_lines (render_headers ?hs @ CRLF @ rsp_body r @ rest) = Some (map header_line ?hs, rsp_body r @ rest)"
    using w by (intro client_lines_headers) (auto simp: list_all_iff wire_header_def)
  moreover have "CR \<notin> set ?l" using assms(4) show_nat_no_CR by simp
  ultimately have "client_lines (?l @ CRLF @ render_headers ?hs @ CRLF @ rsp_body r @ rest) = Some (?l # map header_line ?hs, rsp_body r @ rest)"
    by (subst client_lines_line) simp_all
  moreover have "map header_pair (map header_line ?hs) = ?hs"
    using w by (auto simp: list_all_iff wire_header_def intro!: map_idI header_pair_line)
  ultimately have "client_response (drop (length (content b)) (content (appendToBuffer order r b)) @ rest) = Some (?l, ?hs, rsp_body r, rest)"
    by (simp only: bytes client_response_def option.case list.case prod.case) simp
  then show ?thesis using held by simp
qed

lemma response_roundtrip_witness:
  "client_response (drop 3 (content (appendToBuffer [(''Allow'', ''POST'')]
       (rsp_setBody ''no'' (rsp_addHeader ''Allow'' ''POST'' (setStatusMessage ''Method Not Allowed'' (setStatusCode k405MethodNotAllowed (http_response_new True)))))
       (append ''old'' (buffer_new 16)))) @ ''HTTP'') =
    Some (''HTTP/1.1 405 Method Not Allowed'', [(''Connection'', ''close''), (''Content-Length'', ''2''), (''Allow'', ''POST'')], ''no'', ''HTTP'')"
proof -
  have d: "show_nat 405 = ''405''" "show_nat (Suc (Suc 0)) = ''2''" by code_simp+
  have b: "buf_ok (append ''old'' (buffer_new 16))" "content (append ''old'' (buffer_new 16)) = ''old''" by (simp_all add: buf_simps)
  let ?r = "rsp_setBody ''no'' (rsp_addHeader ''Allow'' ''POST'' (setStatusMessage ''Method Not Allowed'' (setStatusCode k405MethodNotAllowed (http_response_new True))))"
  have "length (rsp_body ?r) < 10 ^ 13" "list_all wire_header [(''Allow'', ''POST'')]" "CR \<notin> set (rsp_message ?r)"
    by (simp_all add: acc_defs http_response_new_def wire_header_def)
  from response_roundtrip [OF b(1) this, of "''HTTP''"] show ?thesis
    by (simp add: acc_defs http_response_new_def b(2) d numeral_3_eq_3)
qed

end
