(* ===== verification/Reactor.thy ===== *)
theory Reactor
  imports Time_Stamp
begin

text \<open>
  \<open>src/src/muduo_core/Channel\<close>, \<open>Poller\<close>, \<open>EPollPoller\<close> and \<open>DefaultPoller.cc\<close>: a channel
  is a file descriptor with its interest mask; the poller keeps the channels of one loop and turns
  every change of interest into an \<open>epoll_ctl\<close> call.

  The kernel is not modelled. The poller records the \<open>epoll_ctl\<close> requests it issued
  (\<open>ep_requests\<close>) and asks a function for the kernel's answer (\<open>ep_kernel\<close>: the earlier
  requests and the new one to success or failure). \<open>interest\<close> and \<open>acceptable\<close> state what
  epoll_ctl(2) documents: ADD of a registered descriptor fails with EEXIST, MOD and DEL of an
  unregistered one with ENOENT. The locale \<open>io_multiplexer\<close> is what the event loop relies on.
\<close>

unbundle bit_operations_syntax

subsection \<open>Channel\<close>

definition EPOLLIN :: "32 word" where "EPOLLIN = 0x001"
definition EPOLLPRI :: "32 word" where "EPOLLPRI = 0x002"
definition EPOLLOUT :: "32 word" where "EPOLLOUT = 0x004"
definition EPOLLERR :: "32 word" where "EPOLLERR = 0x008"
definition EPOLLHUP :: "32 word" where "EPOLLHUP = 0x010"
definition EPOLLRDHUP :: "32 word" where "EPOLLRDHUP = 0x2000"

lemmas epoll_bits = EPOLLIN_def EPOLLPRI_def EPOLLOUT_def EPOLLERR_def EPOLLHUP_def EPOLLRDHUP_def

definition kNoneEvent :: "32 word" where "kNoneEvent = 0"
definition kReadEvent :: "32 word" where "kReadEvent = EPOLLIN OR EPOLLPRI"
definition kWriteEvent :: "32 word" where "kWriteEvent = EPOLLOUT"

lemmas event_defs = kNoneEvent_def kReadEvent_def kWriteEvent_def

text \<open>\<open>ch_addr\<close> is the object's address, \<open>ch_tie\<close> the object the \<open>weak_ptr\<close> refers to.\<close>

record channel =
  ch_addr :: nat
  ch_fd :: int
  ch_events :: "32 word"
  ch_revents :: "32 word"
  ch_index :: int
  ch_tied :: bool
  ch_tie :: "nat option"

definition kNew :: int where "kNew = -1"
definition kAdded :: int where "kAdded = 1"
definition kDeleted :: int where "kDeleted = 2"

lemmas index_defs = kNew_def kAdded_def kDeleted_def

definition channel_new :: "nat \<Rightarrow> int \<Rightarrow> channel" where
  "channel_new addr fd = \<lparr>ch_addr = addr, ch_fd = fd, ch_events = 0, ch_revents = 0, ch_index = -1,
     ch_tied = False, ch_tie = None\<rparr>"

definition tie :: "nat \<Rightarrow> channel \<Rightarrow> channel" where
  "tie obj c = c\<lparr>ch_tie := Some obj, ch_tied := True\<rparr>"

definition set_revents :: "32 word \<Rightarrow> channel \<Rightarrow> channel" where
  "set_revents r c = c\<lparr>ch_revents := r\<rparr>"

definition set_index :: "int \<Rightarrow> channel \<Rightarrow> channel" where
  "set_index i c = c\<lparr>ch_index := i\<rparr>"

definition isNoneEvent :: "channel \<Rightarrow> bool" where
  "isNoneEvent c \<longleftrightarrow> ch_events c = kNoneEvent"

definition isWriting :: "channel \<Rightarrow> bool" where
  "isWriting c \<longleftrightarrow> ch_events c AND kWriteEvent \<noteq> 0"

definition isReading :: "channel \<Rightarrow> bool" where
  "isReading c \<longleftrightarrow> ch_events c AND kReadEvent \<noteq> 0"

definition reventsToString :: "channel \<Rightarrow> bytes" where
  "reventsToString c =
     (if ch_revents c AND EPOLLHUP \<noteq> 0 then ''EPOLLHUP''
      else if ch_revents c AND EPOLLIN \<noteq> 0 then ''EPOLLIN''
      else if ch_revents c AND EPOLLPRI \<noteq> 0 then ''EPOLLPRI''
      else if ch_revents c AND EPOLLOUT \<noteq> 0 then ''EPOLLOUT''
      else if ch_revents c AND EPOLLRDHUP \<noteq> 0 then ''EPOLLRDHUP''
      else if ch_revents c AND EPOLLERR \<noteq> 0 then ''EPOLLERR''
      else ''unknown event'')"

text \<open>The four callbacks, acting on a state of type \<open>'s\<close>; an empty \<open>std::function\<close> is None.\<close>

record 's callbacks =
  readCallback :: "(timestamp \<Rightarrow> 's \<Rightarrow> 's) option"
  writeCallback :: "('s \<Rightarrow> 's) option"
  closeCallback :: "('s \<Rightarrow> 's) option"
  errorCallback :: "('s \<Rightarrow> 's) option"

definition run_cb :: "('s \<Rightarrow> 's) option \<Rightarrow> 's \<Rightarrow> 's" where
  "run_cb cb s = (case cb of None \<Rightarrow> s | Some f \<Rightarrow> f s)"

definition handleEventWithGuard :: "'s callbacks \<Rightarrow> 32 word \<Rightarrow> timestamp \<Rightarrow> 's \<Rightarrow> 's" where
  "handleEventWithGuard cbs revents receiveTime s =
     (let s = (if revents AND EPOLLHUP \<noteq> 0 \<and> revents AND EPOLLIN = 0 then run_cb (closeCallback cbs) s else s);
          s = (if revents AND EPOLLERR \<noteq> 0 then run_cb (errorCallback cbs) s else s);
          s = (if revents AND (EPOLLIN OR EPOLLPRI) \<noteq> 0
               then run_cb (map_option (\<lambda>f. f receiveTime) (readCallback cbs)) s else s);
          s = (if revents AND EPOLLOUT \<noteq> 0 then run_cb (writeCallback cbs) s else s)
      in s)"

text \<open>\<open>alive\<close> tells whether \<open>tie_.lock()\<close> succeeds.\<close>

definition handleEvent :: "(nat \<Rightarrow> bool) \<Rightarrow> 's callbacks \<Rightarrow> channel \<Rightarrow> timestamp \<Rightarrow> 's \<Rightarrow> 's" where
  "handleEvent alive cbs c receiveTime s =
     (if ch_tied c
      then (if (case ch_tie c of None \<Rightarrow> False | Some obj \<Rightarrow> alive obj)
            then handleEventWithGuard cbs (ch_revents c) receiveTime s else s)
      else handleEventWithGuard cbs (ch_revents c) receiveTime s)"

subsection \<open>The epoll poller\<close>

datatype ctl_op = EPOLL_CTL_ADD | EPOLL_CTL_MOD | EPOLL_CTL_DEL

record epoll_request =
  rq_op :: ctl_op
  rq_fd :: int
  rq_events :: "32 word"
  rq_ptr :: nat

record poller =
  chan_map :: "int \<rightharpoonup> nat"
  ep_events_size :: nat
  ep_requests :: "epoll_request list"
  ep_kernel :: "epoll_request list \<Rightarrow> epoll_request \<Rightarrow> bool"
  ep_exited :: bool

definition kInitEventListSize :: nat where
  "kInitEventListSize = 16"

definition epoll_poller_new :: "(epoll_request list \<Rightarrow> epoll_request \<Rightarrow> bool) \<Rightarrow> poller" where
  "epoll_poller_new answers = \<lparr>chan_map = Map.empty, ep_events_size = kInitEventListSize,
     ep_requests = [], ep_kernel = answers, ep_exited = False\<rparr>"

text \<open>\<open>newDefaultPoller\<close> has no poll(2) implementation to return.\<close>

definition newDefaultPoller :: "bool \<Rightarrow> (epoll_request list \<Rightarrow> epoll_request \<Rightarrow> bool) \<Rightarrow> poller option" where
  "newDefaultPoller muduo_use_poll answers =
     (if muduo_use_poll then None else Some (epoll_poller_new answers))"

definition hasChannel :: "channel \<Rightarrow> poller \<Rightarrow> bool" where
  "hasChannel c p \<longleftrightarrow> (case chan_map p (ch_fd c) of None \<Rightarrow> False | Some a \<Rightarrow> a = ch_addr c)"

text \<open>\<open>update\<close>. A failing DEL is logged, a failing ADD or MOD ends the process.\<close>

definition ep_update :: "ctl_op \<Rightarrow> channel \<Rightarrow> poller \<Rightarrow> poller" where
  "ep_update oper c p =
     (let event = \<lparr>rq_op = oper, rq_fd = ch_fd c, rq_events = ch_events c, rq_ptr = ch_addr c\<rparr>;
          ok = ep_kernel p (ep_requests p) event;
          p = p\<lparr>ep_requests := ep_requests p @ [event]\<rparr>
      in if ok \<or> oper = EPOLL_CTL_DEL then p else p\<lparr>ep_exited := True\<rparr>)"

definition updateChannel :: "channel \<Rightarrow> poller \<Rightarrow> channel \<times> poller" where
  "updateChannel c p =
     (let index = ch_index c in
      if index = kNew \<or> index = kDeleted
      then (let p = (if index = kNew then p\<lparr>chan_map := (chan_map p)(ch_fd c \<mapsto> ch_addr c)\<rparr> else p);
                c = set_index kAdded c
            in (c, ep_update EPOLL_CTL_ADD c p))
      else if isNoneEvent c
           then (let p = ep_update EPOLL_CTL_DEL c p in (set_index kDeleted c, p))
           else (c, ep_update EPOLL_CTL_MOD c p))"

definition removeChannel :: "channel \<Rightarrow> poller \<Rightarrow> channel \<times> poller" where
  "removeChannel c p =
     (let p = p\<lparr>chan_map := (chan_map p)(ch_fd c := None)\<rparr>;
          index = ch_index c;
          p = (if index = kAdded then ep_update EPOLL_CTL_DEL c p else p)
      in (set_index kNew c, p))"

text \<open>The members of \<open>Channel\<close> that change the interest mask and tell the poller.\<close>

definition enableReading :: "channel \<Rightarrow> poller \<Rightarrow> channel \<times> poller" where
  "enableReading c p = updateChannel (c\<lparr>ch_events := ch_events c OR kReadEvent\<rparr>) p"

definition disableReading :: "channel \<Rightarrow> poller \<Rightarrow> channel \<times> poller" where
  "disableReading c p = updateChannel (c\<lparr>ch_events := ch_events c AND NOT kReadEvent\<rparr>) p"

definition enableWriting :: "channel \<Rightarrow> poller \<Rightarrow> channel \<times> poller" where
  "enableWriting c p = updateChannel (c\<lparr>ch_events := ch_events c OR kWriteEvent\<rparr>) p"

definition disableWriting :: "channel \<Rightarrow> poller \<Rightarrow> channel \<times> poller" where
  "disableWriting c p = updateChannel (c\<lparr>ch_events := ch_events c AND NOT kWriteEvent\<rparr>) p"

definition disableAll :: "channel \<Rightarrow> poller \<Rightarrow> channel \<times> poller" where
  "disableAll c p = updateChannel (c\<lparr>ch_events := kNoneEvent\<rparr>) p"

text \<open>
  \<open>fillActiveChannels\<close> and \<open>poll\<close>. The kernel's answer is the list of (address, event mask)
  pairs it wrote to the event array, or an error; the channels are an address-indexed store.
\<close>

fun fillActiveChannels :: "(nat \<times> 32 word) list \<Rightarrow> (nat \<Rightarrow> channel) \<Rightarrow> nat list \<Rightarrow> (nat \<Rightarrow> channel) \<times> nat list" where
  "fillActiveChannels [] store active = (store, active)"
| "fillActiveChannels ((a, r) # evs) store active =
     fillActiveChannels evs (store(a := set_revents r (store a))) (active @ [a])"

definition poll :: "int + (nat \<times> 32 word) list \<Rightarrow> 64 word \<Rightarrow> (nat \<Rightarrow> channel) \<Rightarrow> nat list \<Rightarrow> poller
    \<Rightarrow> timestamp \<times> (nat \<Rightarrow> channel) \<times> nat list \<times> poller" where
  "poll answer clock store active p =
     (let now = ts_now clock in
      case answer of
        Inl err \<Rightarrow> (now, store, active, p)
      | Inr evs \<Rightarrow>
          (if evs = [] then (now, store, active, p)
           else
             (let (store, active) = fillActiveChannels evs store active;
                  p = (if length evs = ep_events_size p then p\<lparr>ep_events_size := ep_events_size p * 2\<rparr> else p)
              in (now, store, active, p))))"

subsection \<open>What epoll documents\<close>

text \<open>The interest list after a sequence of requests, and which requests are accepted.\<close>

fun interest_step :: "epoll_request \<Rightarrow> (int \<rightharpoonup> (32 word \<times> nat)) \<Rightarrow> (int \<rightharpoonup> (32 word \<times> nat))" where
  "interest_step r m =
     (case rq_op r of
        EPOLL_CTL_DEL \<Rightarrow> m(rq_fd r := None)
      | _ \<Rightarrow> m(rq_fd r \<mapsto> (rq_events r, rq_ptr r)))"

definition interest :: "epoll_request list \<Rightarrow> (int \<rightharpoonup> (32 word \<times> nat))" where
  "interest rs = fold interest_step rs Map.empty"

definition acceptable :: "epoll_request list \<Rightarrow> epoll_request \<Rightarrow> bool" where
  "acceptable rs r \<longleftrightarrow>
     (if rq_op r = EPOLL_CTL_ADD then interest rs (rq_fd r) = None else interest rs (rq_fd r) \<noteq> None)"

text \<open>Every request of a log was acceptable when it was issued (latest request first).\<close>

fun legal_rev :: "epoll_request list \<Rightarrow> bool" where
  "legal_rev [] \<longleftrightarrow> True"
| "legal_rev (r # rs) \<longleftrightarrow> acceptable (rev rs) r \<and> legal_rev rs"

definition legal_log :: "epoll_request list \<Rightarrow> bool" where
  "legal_log rs \<longleftrightarrow> legal_rev (rev rs)"

text \<open>The documented kernel: it accepts every acceptable request.\<close>

definition epoll_doc :: "(epoll_request list \<Rightarrow> epoll_request \<Rightarrow> bool) \<Rightarrow> bool" where
  "epoll_doc answers \<longleftrightarrow> (\<forall>rs r. acceptable rs r \<longrightarrow> answers rs r)"

lemma interest_Nil [simp]: "interest [] = Map.empty"
  by (simp add: interest_def)

lemma interest_snoc [simp]: "interest (rs @ [r]) = interest_step r (interest rs)"
  by (simp add: interest_def)

lemma legal_Nil [simp]: "legal_log []"
  by (simp add: legal_log_def)

lemma legal_snoc [simp]: "legal_log (rs @ [r]) \<longleftrightarrow> acceptable rs r \<and> legal_log rs"
  by (simp add: legal_log_def)

subsection \<open>The registration invariant\<close>

text \<open>
  A channel is registered consistently: its index says what the kernel and \<open>channels_\<close> hold
  for its descriptor, and a registered channel's mask is the kernel's.
\<close>

definition registered :: "channel \<Rightarrow> poller \<Rightarrow> bool" where
  "registered c p \<longleftrightarrow>
     (if ch_index c = kNew then interest (ep_requests p) (ch_fd c) = None \<and> chan_map p (ch_fd c) = None
      else if ch_index c = kAdded
           then interest (ep_requests p) (ch_fd c) = Some (ch_events c, ch_addr c) \<and> chan_map p (ch_fd c) = Some (ch_addr c)
      else ch_index c = kDeleted \<and> interest (ep_requests p) (ch_fd c) = None
           \<and> chan_map p (ch_fd c) = Some (ch_addr c) \<and> ch_events c = kNoneEvent)"

definition poller_ok :: "poller \<Rightarrow> bool" where
  "poller_ok p \<longleftrightarrow> legal_log (ep_requests p) \<and> epoll_doc (ep_kernel p) \<and> \<not> ep_exited p"

text \<open>Two channels that a poller can keep apart.\<close>

definition apart :: "channel \<Rightarrow> channel \<Rightarrow> bool" where
  "apart c d \<longleftrightarrow> ch_fd c \<noteq> ch_fd d"

definition same_object :: "channel \<Rightarrow> channel \<Rightarrow> bool" where
  "same_object c d \<longleftrightarrow> ch_fd c = ch_fd d \<and> ch_addr c = ch_addr d"

definition with_events :: "32 word \<Rightarrow> channel \<Rightarrow> channel" where
  "with_events w c = c\<lparr>ch_events := w\<rparr>"

lemma poller_ok_new: "epoll_doc k \<Longrightarrow> poller_ok (epoll_poller_new k)"
  by (simp add: poller_ok_def epoll_poller_new_def)

lemma registered_new: "registered (channel_new a fd) (epoll_poller_new k)"
  by (simp add: registered_def channel_new_def epoll_poller_new_def index_defs)

lemma ep_update_ok:
  assumes "poller_ok p" "acceptable (ep_requests p) \<lparr>rq_op = oper, rq_fd = ch_fd c, rq_events = ch_events c, rq_ptr = ch_addr c\<rparr>"
  shows "poller_ok (ep_update oper c p)"
  using assms by (auto simp: poller_ok_def ep_update_def epoll_doc_def Let_def)

lemma ep_update_frame [simp]:
  "chan_map (ep_update oper c p) = chan_map p" "ep_kernel (ep_update oper c p) = ep_kernel p"
  "ep_requests (ep_update oper c p) = ep_requests p @ [\<lparr>rq_op = oper, rq_fd = ch_fd c, rq_events = ch_events c, rq_ptr = ch_addr c\<rparr>]"
  by (simp_all add: ep_update_def Let_def)

lemma channels_irrelevant: "poller_ok (p\<lparr>chan_map := m\<rparr>) = poller_ok p"
  by (simp add: poller_ok_def)

lemma updateChannel_ok:
  fixes w :: "32 word"
  assumes "poller_ok p" "registered c p"
  defines "r \<equiv> updateChannel (with_events w c) p"
  shows "poller_ok (snd r)" "registered (fst r) (snd r)" "same_object c (fst r)" "ch_events (fst r) = w"
    "ch_tie (fst r) = ch_tie c" "ch_tied (fst r) = ch_tied c" "hasChannel (fst r) (snd r)"
proof -
  consider "ch_index c = kNew" | "ch_index c = kAdded" | "ch_index c = kDeleted"
    using assms(2) by (auto simp: registered_def split: if_splits)
  then have "poller_ok (snd r) \<and> registered (fst r) (snd r) \<and> same_object c (fst r) \<and> ch_events (fst r) = w
     \<and> ch_tie (fst r) = ch_tie c \<and> ch_tied (fst r) = ch_tied c \<and> hasChannel (fst r) (snd r)"
    by cases
      (use assms(1,2) in \<open>auto simp: r_def registered_def updateChannel_def with_events_def index_defs set_index_def
         isNoneEvent_def same_object_def acceptable_def channels_irrelevant hasChannel_def Let_def intro!: ep_update_ok\<close>)
  then show "poller_ok (snd r)" "registered (fst r) (snd r)" "same_object c (fst r)" "ch_events (fst r) = w"
    "ch_tie (fst r) = ch_tie c" "ch_tied (fst r) = ch_tied c" "hasChannel (fst r) (snd r)" by blast+
qed

lemma updateChannel_frame:
  assumes "registered d p" "apart c d"
  shows "registered d (snd (updateChannel (with_events w c) p))"
  using assms by (auto simp: registered_def updateChannel_def with_events_def apart_def set_index_def Let_def)

lemma removeChannel_ok:
  assumes "poller_ok p" "registered c p"
  defines "r \<equiv> removeChannel c p"
  shows "poller_ok (snd r)" "ch_index (fst r) = kNew" "registered (fst r) (snd r)" "same_object c (fst r)"
    "\<not> hasChannel (fst r) (snd r)" "interest (ep_requests (snd r)) (ch_fd c) = None"
proof -
  consider "ch_index c = kNew" | "ch_index c = kAdded" | "ch_index c = kDeleted"
    using assms(2) by (auto simp: registered_def split: if_splits)
  then have "poller_ok (snd r) \<and> ch_index (fst r) = kNew \<and> registered (fst r) (snd r) \<and> same_object c (fst r)
    \<and> \<not> hasChannel (fst r) (snd r) \<and> interest (ep_requests (snd r)) (ch_fd c) = None"
    by cases
      (use assms(1,2) in \<open>auto simp: r_def registered_def removeChannel_def index_defs set_index_def same_object_def
         hasChannel_def acceptable_def channels_irrelevant Let_def intro!: ep_update_ok\<close>)
  then show "poller_ok (snd r)" "ch_index (fst r) = kNew" "registered (fst r) (snd r)" "same_object c (fst r)"
    "\<not> hasChannel (fst r) (snd r)" "interest (ep_requests (snd r)) (ch_fd c) = None" by blast+
qed

lemma removeChannel_frame:
  assumes "registered d p" "apart c d"
  shows "registered d (snd (removeChannel c p))"
  using assms by (auto simp: registered_def removeChannel_def apart_def set_index_def Let_def)

subsection \<open>The contract with the event loop\<close>

text \<open>The operations of a channel as data, and one of them carried out.\<close>

datatype chan_op = EnableReading | DisableReading | EnableWriting | DisableWriting | DisableAll | RemoveChan

fun chan_act :: "chan_op \<Rightarrow> channel \<Rightarrow> poller \<Rightarrow> channel \<times> poller" where
  "chan_act EnableReading c p = enableReading c p"
| "chan_act DisableReading c p = disableReading c p"
| "chan_act EnableWriting c p = enableWriting c p"
| "chan_act DisableWriting c p = disableWriting c p"
| "chan_act DisableAll c p = disableAll c p"
| "chan_act RemoveChan c p = removeChannel c p"

lemmas mask_defs = enableReading_def disableReading_def enableWriting_def disableWriting_def disableAll_def

lemma chan_act_cases:
  obtains w where "chan_act a c p = updateChannel (with_events w c) p" | "chan_act a c p = removeChannel c p"
  by (cases a) (simp_all add: mask_defs with_events_def [symmetric])

text \<open>Any number of channels, acted on in any order.\<close>

fun table_run :: "('op \<Rightarrow> channel \<Rightarrow> 'p \<Rightarrow> channel \<times> 'p) \<Rightarrow> (nat \<times> 'op) list \<Rightarrow> channel list \<Rightarrow> 'p \<Rightarrow> channel list \<times> 'p" where
  "table_run act [] cs p = (cs, p)"
| "table_run act ((i, a) # ops) cs p =
     (if i < length cs then (let (c, p) = act a (cs ! i) p in table_run act ops (cs[i := c]) p)
      else table_run act ops cs p)"

text \<open>
  The demultiplexer's contract: an operation on a registered channel keeps it the same object,
  registered, in a good poller, and leaves every channel with another descriptor registered.
\<close>

locale io_multiplexer =
  fixes act :: "'op \<Rightarrow> channel \<Rightarrow> 'p \<Rightarrow> channel \<times> 'p"
    and reg :: "channel \<Rightarrow> 'p \<Rightarrow> bool"
    and ok :: "'p \<Rightarrow> bool"
  assumes act_ok: "ok p \<Longrightarrow> reg c p \<Longrightarrow> ok (snd (act a c p))"
    and act_reg: "ok p \<Longrightarrow> reg c p \<Longrightarrow> reg (fst (act a c p)) (snd (act a c p))"
    and act_same: "ok p \<Longrightarrow> reg c p \<Longrightarrow> same_object c (fst (act a c p))"
    and act_frame: "reg d p \<Longrightarrow> apart c d \<Longrightarrow> reg d (snd (act a c p))"
begin

definition table_ok :: "channel list \<Rightarrow> 'p \<Rightarrow> bool" where
  "table_ok cs p \<longleftrightarrow> ok p \<and> distinct (map ch_fd cs) \<and> (\<forall>c\<in>set cs. reg c p)"

lemma table_step:
  assumes "table_ok cs p" "i < length cs" "act a (cs ! i) p = (c, p')"
  shows "table_ok (cs[i := c]) p' \<and> map ch_fd (cs[i := c]) = map ch_fd cs \<and> map ch_addr (cs[i := c]) = map ch_addr cs"
proof -
  have o: "ok p" "reg (cs ! i) p" using assms by (simp_all add: table_ok_def)
  note facts = act_ok [OF o, of a] act_reg [OF o, of a] act_same [OF o, of a]
  have same: "ch_fd c = ch_fd (cs ! i)" "ch_addr c = ch_addr (cs ! i)"
    using facts(3) assms(3) by (simp_all add: same_object_def)
  have fds: "map ch_fd (cs[i := c]) = map ch_fd cs" "map ch_addr (cs[i := c]) = map ch_addr cs"
    using same by (simp_all add: map_update list_update_same_conv assms(2))
  have "reg d p'" if "d \<in> set (cs[i := c])" for d
  proof -
    from that obtain j where j: "j < length cs" "d = cs[i := c] ! j" by (auto simp: in_set_conv_nth)
    show ?thesis
    proof (cases "j = i")
      case True
      with j facts(2) assms(3) show ?thesis by simp
    next
      case False
      have "map ch_fd cs ! j \<noteq> map ch_fd cs ! i"
        using assms(1,2) j(1) False by (subst nth_eq_iff_index_eq) (auto simp: table_ok_def)
      with j assms(2) False have "apart (cs ! i) d" by (simp add: apart_def)
      moreover have "reg d p" using j False assms(1) by (simp add: table_ok_def)
      ultimately show ?thesis using act_frame [of d p "cs ! i" a] assms(3) by simp
    qed
  qed
  with facts(1) assms(1,3) fds show ?thesis by (simp add: table_ok_def)
qed

lemma table_run_ok:
  "table_ok cs p \<Longrightarrow> table_run act ops cs p = (cs', p') \<Longrightarrow>
   table_ok cs' p' \<and> map ch_fd cs' = map ch_fd cs \<and> map ch_addr cs' = map ch_addr cs"
proof (induction ops arbitrary: cs p)
  case (Cons x ops)
  obtain i a where x: "x = (i, a)" by (cases x)
  obtain c q where act: "act a (cs ! i) p = (c, q)" by (cases "act a (cs ! i) p")
  show ?case
  proof (cases "i < length cs")
    case True
    with Cons.prems(2) x act have run: "table_run act ops (cs[i := c]) q = (cs', p')" by simp
    from table_step [OF Cons.prems(1) True act] Cons.IH [OF _ run] show ?thesis by simp
  next
    case False
    with Cons x show ?thesis by simp
  qed
qed simp

end

interpretation ep: io_multiplexer chan_act registered poller_ok
proof
  fix c d :: channel and p :: poller and a :: chan_op
  show "poller_ok p \<Longrightarrow> registered c p \<Longrightarrow> poller_ok (snd (chan_act a c p))"
    and "poller_ok p \<Longrightarrow> registered c p \<Longrightarrow> registered (fst (chan_act a c p)) (snd (chan_act a c p))"
    and "poller_ok p \<Longrightarrow> registered c p \<Longrightarrow> same_object c (fst (chan_act a c p))"
    by (cases rule: chan_act_cases [of a c p]; simp add: updateChannel_ok removeChannel_ok)+
  show "registered d p \<Longrightarrow> apart c d \<Longrightarrow> registered d (snd (chan_act a c p))"
    by (cases rule: chan_act_cases [of a c p]) (simp_all add: updateChannel_frame removeChannel_frame)
qed

text \<open>
  Property C9. The channels and the kernel never disagree: starting from new channels with
  distinct descriptors on a fresh epoll poller, after any sequence of mask changes and removals
  on them, no \<open>epoll_ctl\<close> call was one the kernel documents to fail, the fatal exit was not taken, and
  for every channel the kernel watches its descriptor, with exactly the channel's mask and address, if the
  index is \<open>kAdded\<close>, and not at all otherwise; a channel that is \<open>kDeleted\<close> asks for no event.
\<close>

theorem reactor_consistent:
  assumes "epoll_doc answers" "distinct (map snd objs)"
    "table_run chan_act ops (map (\<lambda>(a, fd). channel_new a fd) objs) (epoll_poller_new answers) = (cs, p)"
  shows "legal_log (ep_requests p) \<and> \<not> ep_exited p
    \<and> (\<forall>c\<in>set cs. (ch_fd c \<in> snd ` set objs)
         \<and> interest (ep_requests p) (ch_fd c) = (if ch_index c = kAdded then Some (ch_events c, ch_addr c) else None)
         \<and> hasChannel c p = (ch_index c \<noteq> kNew) \<and> (ch_index c = kDeleted \<longrightarrow> isNoneEvent c))"
proof -
  let ?cs = "map (\<lambda>(a, fd). channel_new a fd) objs"
  have fd: "map ch_fd ?cs = map snd objs" by (auto simp: channel_new_def)
  have "ep.table_ok ?cs (epoll_poller_new answers)"
    using assms(1,2) unfolding ep.table_ok_def fd by (auto simp: poller_ok_new registered_new)
  from ep.table_run_ok [OF this assms(3)]
  have t: "poller_ok p" "\<forall>c\<in>set cs. registered c p" "map ch_fd cs = map snd objs"
    using fd by (simp_all add: ep.table_ok_def)
  have "ch_fd c \<in> snd ` set objs" if "c \<in> set cs" for c
    using that t(3) by (metis image_eqI list.set_map)
  moreover have "interest (ep_requests p) (ch_fd c) = (if ch_index c = kAdded then Some (ch_events c, ch_addr c) else None)
      \<and> hasChannel c p = (ch_index c \<noteq> kNew) \<and> (ch_index c = kDeleted \<longrightarrow> isNoneEvent c)" if "c \<in> set cs" for c
    using bspec [OF t(2) that] by (cases "ch_index c = kNew"; cases "ch_index c = kAdded")
      (simp_all add: registered_def hasChannel_def isNoneEvent_def index_defs)
  ultimately show ?thesis using t(1) by (auto simp: poller_ok_def)
qed

lemma reactor_consistent_witness:
  "let (cs, p) = table_run chan_act [(0, EnableReading), (0, EnableWriting), (0, DisableAll), (0, EnableReading), (1, EnableReading), (1, RemoveChan)]
        (map (\<lambda>(a, fd). channel_new a fd) [(100, 5), (200, 6)]) (epoll_poller_new acceptable)
   in legal_log (ep_requests p) \<and> \<not> ep_exited p \<and> (\<forall>c\<in>set cs. ch_fd c \<in> snd ` set [(100::nat, 5::int), (200, 6)]
         \<and> interest (ep_requests p) (ch_fd c) = (if ch_index c = kAdded then Some (ch_events c, ch_addr c) else None)
         \<and> hasChannel c p = (ch_index c \<noteq> kNew) \<and> (ch_index c = kDeleted \<longrightarrow> isNoneEvent c))"
proof -
  obtain cs p where r: "table_run chan_act [(0, EnableReading), (0, EnableWriting), (0, DisableAll), (0, EnableReading), (1, EnableReading), (1, RemoveChan)]
        (map (\<lambda>(a, fd). channel_new a fd) [(100, 5), (200, 6)]) (epoll_poller_new acceptable) = (cs, p)"
    by (rule prod.exhaust)
  have "epoll_doc acceptable" by (simp add: epoll_doc_def)
  from reactor_consistent [OF this _ r] r show ?thesis by simp
qed

subsection \<open>Interest masks\<close>

text \<open>The masks a channel of this program can have.\<close>

definition mask_ok :: "32 word \<Rightarrow> bool" where
  "mask_ok w \<longleftrightarrow> w = 0 \<or> w = 3 \<or> w = 4 \<or> w = 7"

definition reads :: "32 word \<Rightarrow> bool" where
  "reads w \<longleftrightarrow> w AND kReadEvent \<noteq> 0"

definition writes :: "32 word \<Rightarrow> bool" where
  "writes w \<longleftrightarrow> w AND kWriteEvent \<noteq> 0"

lemma masks:
  assumes "mask_ok w"
  shows "mask_ok (w OR kReadEvent)" "mask_ok (w OR kWriteEvent)" "mask_ok (w AND NOT kReadEvent)" "mask_ok (w AND NOT kWriteEvent)"
    "reads (w OR kReadEvent)" "reads (w OR kWriteEvent) = reads w" "\<not> reads (w AND NOT kReadEvent)" "reads (w AND NOT kWriteEvent) = reads w"
    "writes (w OR kReadEvent) = writes w" "writes (w OR kWriteEvent)" "writes (w AND NOT kReadEvent) = writes w" "\<not> writes (w AND NOT kWriteEvent)"
    "w = 0 \<longleftrightarrow> \<not> reads w \<and> \<not> writes w"
  using assms unfolding mask_ok_def
  by (elim disjE; simp add: reads_def writes_def event_defs epoll_bits; fail)+

lemma mask_none: "mask_ok 0" "\<not> reads 0" "\<not> writes 0"
  by (simp_all add: mask_ok_def reads_def writes_def)

text \<open>Dispatch, with callbacks that note which of them ran.\<close>

datatype chan_event = Closed | Failed | Readable timestamp | Writable

definition noting :: "chan_event list callbacks" where
  "noting = \<lparr>readCallback = Some (\<lambda>t s. s @ [Readable t]), writeCallback = Some (\<lambda>s. s @ [Writable]),
     closeCallback = Some (\<lambda>s. s @ [Closed]), errorCallback = Some (\<lambda>s. s @ [Failed])\<rparr>"

text \<open>
  Event dispatch: a tied channel whose owner is gone runs no callback; otherwise the close callback
  runs exactly for a hang-up without readable data (so data that arrived before the hang-up is read first), and it
  runs before all others; each callback runs at most once per event and reading comes before writing.
\<close>

theorem dispatch_order:
  "handleEvent alive noting c t [] =
     (if ch_tied c \<and> (case ch_tie c of None \<Rightarrow> True | Some obj \<Rightarrow> \<not> alive obj) then []
      else (let r = ch_revents c in
        [e \<leftarrow> [Closed, Failed, Readable t, Writable].
          (case e of Closed \<Rightarrow> r AND EPOLLHUP \<noteq> 0 \<and> r AND EPOLLIN = 0
           | Failed \<Rightarrow> r AND EPOLLERR \<noteq> 0
           | Readable _ \<Rightarrow> r AND kReadEvent \<noteq> 0
           | Writable \<Rightarrow> r AND EPOLLOUT \<noteq> 0)]))"
proof -
  have bits: "r AND (EPOLLIN OR EPOLLPRI) = 0 \<longleftrightarrow> r AND EPOLLIN = 0 \<and> r AND EPOLLPRI = 0" for r :: "32 word"
    unfolding bit.conj_disj_distrib by (rule or_eq_0_iff)
  show ?thesis
    by (simp add: kReadEvent_def bits [of "ch_revents c"] handleEvent_def handleEventWithGuard_def noting_def run_cb_def
      Let_def split: option.split)
qed

end
