(* ===== verification/Event_Loop.thy ===== *)
theory Event_Loop
  imports Reactor
begin

text \<open>
  \<open>src/src/muduo_core/EventLoop.h\<close> and \<open>EventLoop.cc\<close>: one loop per thread. It waits in the
  poller, dispatches the active channels and then runs the functors other threads and callbacks queued.
  Sequential code is a function on the loop state, paired with the state \<open>'s\<close> the callbacks act
  on; \<open>cur\<close> is \<open>CurrentThread::tid()\<close> of the caller. The interleaving of the loop thread with
  other threads is the step relation \<open>ev_step\<close>, whose steps are the pieces of these functions
  between which another thread can run.

  \<open>wakeups\<close> counts the \<open>write\<close>s to the eventfd that no \<open>read\<close> has consumed; eventfd(2)
  documents that the descriptor is readable exactly when it is positive and that a read resets it.
\<close>

datatype crash = NullPointer | FatalExit

record 'f event_loop =
  looping :: bool
  quit_flag :: bool
  threadId :: int
  pollReturnTime :: timestamp
  loop_poller :: poller
  timerQueue_set :: bool
  wakeupFd :: int
  wakeupChannel :: channel
  activeChannels :: "nat list"
  callingPendingFunctors :: bool
  pendingFunctors :: "'f list"
  wakeups :: nat

text \<open>\<open>eventfd\<close>'s answer, negative on failure.\<close>

definition createEventfd :: "int \<Rightarrow> crash + int" where
  "createEventfd evtfd = (if evtfd < 0 then Inl FatalExit else Inr evtfd)"

text \<open>
  The constructor. \<open>env\<close> tells whether \<open>MUDUO_USE_POLL\<close> is set, \<open>other\<close> whether this thread has a
  loop already, \<open>addr\<close> is the address of the wake-up channel. No initialiser sets \<open>timerQueue_\<close>.
\<close>

definition event_loop_new :: "bool \<Rightarrow> bool \<Rightarrow> int \<Rightarrow> int \<Rightarrow> nat \<Rightarrow> (epoll_request list \<Rightarrow> epoll_request \<Rightarrow> bool)
    \<Rightarrow> crash + 'f event_loop" where
  "event_loop_new env other cur evtfd addr answers =
     (case createEventfd evtfd of
        Inl e \<Rightarrow> Inl e
      | Inr fd \<Rightarrow>
          (if other then Inl FatalExit
           else
             (case newDefaultPoller env answers of
                None \<Rightarrow> Inl NullPointer
              | Some p \<Rightarrow>
                  (let (ch, p) = enableReading (channel_new addr fd) p
                   in Inr \<lparr>looping = False, quit_flag = False, threadId = cur, pollReturnTime = timestamp_default,
                       loop_poller = p, timerQueue_set = False, wakeupFd = fd, wakeupChannel = ch,
                       activeChannels = [], callingPendingFunctors = False, pendingFunctors = [], wakeups = 0\<rparr>))))"

definition event_loop_destroy :: "'f event_loop \<Rightarrow> 'f event_loop" where
  "event_loop_destroy l =
     (let (ch, p) = disableAll (wakeupChannel l) (loop_poller l);
          (ch, p) = removeChannel ch p
      in l\<lparr>wakeupChannel := ch, loop_poller := p\<rparr>)"

definition isInLoopThread :: "int \<Rightarrow> 'f event_loop \<Rightarrow> bool" where
  "isInLoopThread cur l \<longleftrightarrow> threadId l = cur"

definition wakeup :: "'f event_loop \<Rightarrow> 'f event_loop" where
  "wakeup l = l\<lparr>wakeups := Suc (wakeups l)\<rparr>"

definition loop_handleRead :: "'f event_loop \<Rightarrow> 'f event_loop" where
  "loop_handleRead l = l\<lparr>wakeups := 0\<rparr>"

definition loop_updateChannel :: "channel \<Rightarrow> 'f event_loop \<Rightarrow> channel \<times> 'f event_loop" where
  "loop_updateChannel c l = (let (c, p) = updateChannel c (loop_poller l) in (c, l\<lparr>loop_poller := p\<rparr>))"

definition loop_removeChannel :: "channel \<Rightarrow> 'f event_loop \<Rightarrow> channel \<times> 'f event_loop" where
  "loop_removeChannel c l = (let (c, p) = removeChannel c (loop_poller l) in (c, l\<lparr>loop_poller := p\<rparr>))"

definition loop_hasChannel :: "channel \<Rightarrow> 'f event_loop \<Rightarrow> bool" where
  "loop_hasChannel c l = hasChannel c (loop_poller l)"

text \<open>\<open>queueInLoop\<close>: the push under the mutex, then the wake-up.\<close>

definition queue_push :: "'f \<Rightarrow> 'f event_loop \<Rightarrow> 'f event_loop" where
  "queue_push f l = l\<lparr>pendingFunctors := pendingFunctors l @ [f]\<rparr>"

definition queueInLoop :: "int \<Rightarrow> 'f \<Rightarrow> 'f event_loop \<Rightarrow> 'f event_loop" where
  "queueInLoop cur f l =
     (let l = queue_push f l
      in if \<not> isInLoopThread cur l \<or> callingPendingFunctors l then wakeup l else l)"

definition quit :: "int \<Rightarrow> 'f event_loop \<Rightarrow> 'f event_loop" where
  "quit cur l = (let l = l\<lparr>quit_flag := True\<rparr> in if \<not> isInLoopThread cur l then wakeup l else l)"

text \<open>\<open>exec f\<close> is what calling the functor \<open>f\<close> does.\<close>

type_synonym ('f, 's) exec = "'f \<Rightarrow> 'f event_loop \<times> 's \<Rightarrow> 'f event_loop \<times> 's"

definition runInLoop :: "('f, 's) exec \<Rightarrow> int \<Rightarrow> 'f \<Rightarrow> 'f event_loop \<times> 's \<Rightarrow> 'f event_loop \<times> 's" where
  "runInLoop exec cur f st =
     (if isInLoopThread cur (fst st) then exec f st else (queueInLoop cur f (fst st), snd st))"

definition start_calling :: "'f event_loop \<Rightarrow> 'f event_loop" where
  "start_calling l = l\<lparr>callingPendingFunctors := True\<rparr>"

definition swap_pending :: "'f event_loop \<Rightarrow> 'f list \<times> 'f event_loop" where
  "swap_pending l = (pendingFunctors l, l\<lparr>pendingFunctors := []\<rparr>)"

definition doPendingFunctors :: "('f, 's) exec \<Rightarrow> 'f event_loop \<times> 's \<Rightarrow> 'f event_loop \<times> 's" where
  "doPendingFunctors exec st =
     (let l = start_calling (fst st);
          (functors, l) = swap_pending l;
          (l, s) = fold exec functors (l, snd st)
      in (l\<lparr>callingPendingFunctors := False\<rparr>, s))"

text \<open>
  One round of \<open>loop\<close>: the poller's answer and clock are inputs, \<open>dispatch a t\<close> calls
  \<open>handleEvent\<close> of the channel at address \<open>a\<close>; the channels are a store beside the state.
\<close>

definition loop_once :: "('f, (nat \<Rightarrow> channel) \<times> 's) exec \<Rightarrow> (nat \<Rightarrow> timestamp \<Rightarrow> 'f event_loop \<times> (nat \<Rightarrow> channel) \<times> 's
    \<Rightarrow> 'f event_loop \<times> (nat \<Rightarrow> channel) \<times> 's) \<Rightarrow> (int + (nat \<times> 32 word) list) \<times> 64 word
    \<Rightarrow> 'f event_loop \<times> (nat \<Rightarrow> channel) \<times> 's \<Rightarrow> 'f event_loop \<times> (nat \<Rightarrow> channel) \<times> 's" where
  "loop_once exec dispatch input st =
     (let (l, store, s) = st;
          (now, store, active, p) = poll (fst input) (snd input) store [] (loop_poller l);
          l = l\<lparr>pollReturnTime := now, activeChannels := active, loop_poller := p\<rparr>;
          st = fold (\<lambda>a. dispatch a now) active (l, store, s)
      in doPendingFunctors exec st)"

text \<open>\<open>loop\<close> over the poller's answers: when they run out the loop is still waiting.\<close>

fun loop_while :: "('f, (nat \<Rightarrow> channel) \<times> 's) exec \<Rightarrow> (nat \<Rightarrow> timestamp \<Rightarrow> 'f event_loop \<times> (nat \<Rightarrow> channel) \<times> 's
    \<Rightarrow> 'f event_loop \<times> (nat \<Rightarrow> channel) \<times> 's) \<Rightarrow> ((int + (nat \<times> 32 word) list) \<times> 64 word) list
    \<Rightarrow> 'f event_loop \<times> (nat \<Rightarrow> channel) \<times> 's \<Rightarrow> 'f event_loop \<times> (nat \<Rightarrow> channel) \<times> 's" where
  "loop_while exec dispatch [] st = st"
| "loop_while exec dispatch (input # inputs) st =
     (if quit_flag (fst st) then st else loop_while exec dispatch inputs (loop_once exec dispatch input st))"

definition loop :: "('f, (nat \<Rightarrow> channel) \<times> 's) exec \<Rightarrow> (nat \<Rightarrow> timestamp \<Rightarrow> 'f event_loop \<times> (nat \<Rightarrow> channel) \<times> 's
    \<Rightarrow> 'f event_loop \<times> (nat \<Rightarrow> channel) \<times> 's) \<Rightarrow> ((int + (nat \<times> 32 word) list) \<times> 64 word) list
    \<Rightarrow> 'f event_loop \<times> (nat \<Rightarrow> channel) \<times> 's \<Rightarrow> 'f event_loop \<times> (nat \<Rightarrow> channel) \<times> 's" where
  "loop exec dispatch inputs st =
     (let st = ((fst st)\<lparr>looping := True, quit_flag := False\<rparr>, snd st);
          st = loop_while exec dispatch inputs st
      in if quit_flag (fst st) then ((fst st)\<lparr>looping := False\<rparr>, snd st) else st)"

text \<open>The timer entry points dereference \<open>timerQueue_\<close>; \<open>addTimer\<close> is what it does with them.\<close>

definition runAt :: "('f \<Rightarrow> timestamp \<Rightarrow> rat \<Rightarrow> 'f event_loop \<Rightarrow> 'f event_loop) \<Rightarrow> timestamp \<Rightarrow> 'f \<Rightarrow> 'f event_loop \<Rightarrow> crash + 'f event_loop" where
  "runAt addTimer t cb l = (if timerQueue_set l then Inr (addTimer cb t 0 l) else Inl NullPointer)"

definition runAfter :: "('f \<Rightarrow> timestamp \<Rightarrow> rat \<Rightarrow> 'f event_loop \<Rightarrow> 'f event_loop) \<Rightarrow> 64 word \<Rightarrow> rat \<Rightarrow> 'f \<Rightarrow> 'f event_loop \<Rightarrow> crash + 'f event_loop" where
  "runAfter addTimer clock waitTime cb l = runAt addTimer (addTime (ts_now clock) waitTime) cb l"

definition runEvery :: "('f \<Rightarrow> timestamp \<Rightarrow> rat \<Rightarrow> 'f event_loop \<Rightarrow> 'f event_loop) \<Rightarrow> 64 word \<Rightarrow> rat \<Rightarrow> 'f \<Rightarrow> 'f event_loop \<Rightarrow> crash + 'f event_loop" where
  "runEvery addTimer clock interval cb l =
     (let timestamp = addTime (ts_now clock) interval
      in if timerQueue_set l then Inr (addTimer cb timestamp interval l) else Inl NullPointer)"

lemmas [acc_defs] = wakeup_def loop_handleRead_def queue_push_def queueInLoop_def quit_def
  isInLoopThread_def start_calling_def swap_pending_def

subsection \<open>Construction and quitting\<close>

lemma event_loop_new_ok:
  assumes "event_loop_new env other cur evtfd addr answers = Inr l" "epoll_doc answers"
  shows "poller_ok (loop_poller l) \<and> registered (wakeupChannel l) (loop_poller l) \<and> ch_index (wakeupChannel l) = kAdded
    \<and> ch_events (wakeupChannel l) = kReadEvent \<and> \<not> timerQueue_set l"
proof -
  let ?c = "channel_new addr evtfd" and ?p = "epoll_poller_new answers"
  have c: "enableReading ?c ?p = updateChannel (with_events kReadEvent ?c) ?p"
    by (simp add: enableReading_def with_events_def channel_new_def)
  have r: "registered ?c ?p" by (rule registered_new)
  note u = updateChannel_ok [OF poller_ok_new [OF assms(2)] r, where w = kReadEvent]
  have "ch_index (fst (updateChannel (with_events kReadEvent ?c) ?p)) = kAdded"
    by (simp add: updateChannel_def with_events_def channel_new_def set_index_def index_defs Let_def)
  with assms(1) u show ?thesis
    by (auto simp: event_loop_new_def createEventfd_def newDefaultPoller_def c Let_def split: sum.splits prod.splits if_splits)
qed

text \<open>
  The timer interface of a loop cannot be used: every loop the constructor returns has a null
  \<open>timerQueue_\<close>, so \<open>runAt\<close>, \<open>runAfter\<close> and \<open>runEvery\<close> dereference a null pointer, whatever their arguments.
\<close>

theorem timer_calls_crash:
  assumes "event_loop_new env other cur evtfd addr answers = Inr l"
  shows "runAt add t cb l = Inl NullPointer \<and> runAfter add clock w cb l = Inl NullPointer
    \<and> runEvery add clock w cb l = Inl NullPointer"
  using assms
  by (auto simp: event_loop_new_def runAt_def runAfter_def runEvery_def Let_def split: sum.splits option.splits prod.splits if_splits)

lemma timer_calls_crash_witness:
  "\<exists>l :: nat event_loop. event_loop_new False False 7 3 99 acceptable = Inr l \<and> runAt (\<lambda>cb t i l. l) timestamp_default 0 l = Inl NullPointer"
proof -
  obtain l :: "nat event_loop" where l: "event_loop_new False False 7 3 99 acceptable = Inr l"
    by (simp add: event_loop_new_def createEventfd_def newDefaultPoller_def split_beta)
  with timer_calls_crash [OF l] show ?thesis by blast
qed

text \<open>
  A \<open>quit\<close> that arrives before \<open>loop\<close> starts is lost: \<open>loop\<close> clears the flag first, so it behaves as
  if \<open>quit\<close> had only written to the wake-up descriptor.
\<close>

theorem quit_before_loop_lost:
  "loop exec dispatch inputs (quit cur l, store, s) =
   loop exec dispatch inputs (if isInLoopThread cur l then l else wakeup l, store, s)"
  by (simp add: loop_def acc_defs Let_def)

subsection \<open>The loop as a queue of tasks\<close>

text \<open>
  What the users of a loop rely on: a posted task is appended to the backlog, and draining hands over
  the whole backlog.
\<close>

datatype 'f task_op = Post 'f | Drain

fun task_run :: "('f \<Rightarrow> 'l \<Rightarrow> 'l) \<Rightarrow> ('l \<Rightarrow> 'f list \<times> 'l) \<Rightarrow> 'f task_op list \<Rightarrow> 'l \<Rightarrow> 'f list \<times> 'l" where
  "task_run post drain [] l = ([], l)"
| "task_run post drain (Post f # ops) l = task_run post drain ops (post f l)"
| "task_run post drain (Drain # ops) l =
     (let (fs, l) = drain l; (gs, l) = task_run post drain ops l in (fs @ gs, l))"

fun task_posted :: "'f task_op list \<Rightarrow> 'f list" where
  "task_posted [] = []"
| "task_posted (Post f # ops) = f # task_posted ops"
| "task_posted (Drain # ops) = task_posted ops"

locale task_queue =
  fixes backlog :: "'l \<Rightarrow> 'f list"
    and post :: "'f \<Rightarrow> 'l \<Rightarrow> 'l"
    and drain :: "'l \<Rightarrow> 'f list \<times> 'l"
  assumes backlog_post: "backlog (post f l) = backlog l @ [f]"
    and drain_all: "fst (drain l) @ backlog (snd (drain l)) = backlog l"
begin

lemma fifo: "task_run post drain ops l = (fs, l') \<Longrightarrow> fs @ backlog l' = backlog l @ task_posted ops"
proof (induction ops arbitrary: l fs)
  case (Cons a ops)
  show ?case
  proof (cases a)
    case (Post f)
    with Cons.IH [of "post f l" fs] Cons.prems show ?thesis by (simp add: backlog_post)
  next
    case Drain
    obtain ds l1 where d: "drain l = (ds, l1)" by (cases "drain l")
    from Drain Cons.prems d obtain gs where g: "task_run post drain ops l1 = (gs, l')" "fs = ds @ gs"
      by (auto split: prod.splits)
    have "gs @ backlog l' = backlog l1 @ task_posted ops" by (rule Cons.IH [OF g(1)])
    then have "fs @ backlog l' = (ds @ backlog l1) @ task_posted ops" using g(2) by simp
    also have "ds @ backlog l1 = backlog l" using drain_all [of l] d by simp
    finally show ?thesis using Drain by simp
  qed
qed simp

end

interpretation lq: task_queue pendingFunctors "queueInLoop cur" swap_pending for cur
  by unfold_locales (simp_all add: acc_defs Let_def)

text \<open>A round of \<open>doPendingFunctors\<close> whose functors only queue further functors leaves those, in order.\<close>

lemma fold_queue:
  "fold (\<lambda>f st. (fold (queueInLoop cur) (kids f) (fst st), snd st @ [f])) fs (l, s) =
   (fold (queueInLoop cur) (concat (map kids fs)) l, s @ fs)"
  by (induction fs arbitrary: l s) simp_all

lemma pending_fold: "pendingFunctors (fold (queueInLoop cur) gs l) = pendingFunctors l @ gs"
  by (induction gs arbitrary: l) (simp_all add: acc_defs Let_def)

subsection \<open>The loop thread and the other threads\<close>

text \<open>
  The loop thread's program counter: before \<open>loop\<close>, in \<open>epoll_wait\<close>, between the return of
  \<open>poll\<close> and \<open>doPendingFunctors\<close>, between setting the calling flag and the swap, running the
  swapped functors, after the loop. \<open>inflight\<close> counts the other threads that pushed a functor or set the
  quit flag and have not yet reached their \<open>wakeup()\<close>; \<open>pushed\<close> and \<open>executed\<close> are histories. The loop thread
  may also queue a functor itself while \<open>loop\<close> does not run; \<open>queueInLoop\<close> writes no eventfd then, and \<open>early\<close> notes it until
  the next swap.
\<close>

datatype phase = Before | Waiting | Dispatching | Calling | Running | Stopped

record 'f ev_state =
  ev_loop :: "'f event_loop"
  ev_phase :: phase
  functors :: "'f list"
  inflight :: nat
  pushed :: "'f list"
  executed :: "'f list"
  early :: bool

inductive ev_step :: "'f ev_state \<Rightarrow> 'f ev_state \<Rightarrow> bool" where
  start: "ev_phase s = Before \<or> ev_phase s = Stopped \<Longrightarrow>
    ev_step s (s\<lparr>ev_loop := (ev_loop s)\<lparr>looping := True, quit_flag := False\<rparr>, ev_phase := Waiting\<rparr>)"
| other_push: "ev_step s (s\<lparr>ev_loop := queue_push f (ev_loop s), pushed := pushed s @ [f], inflight := Suc (inflight s)\<rparr>)"
| other_quit: "ev_step s (s\<lparr>ev_loop := (ev_loop s)\<lparr>quit_flag := True\<rparr>, inflight := Suc (inflight s)\<rparr>)"
| other_wakeup: "inflight s = Suc n \<Longrightarrow> ev_step s (s\<lparr>ev_loop := wakeup (ev_loop s), inflight := n\<rparr>)"
| poll_returns: "ev_phase s = Waiting \<Longrightarrow> ev_step s (s\<lparr>ev_phase := Dispatching\<rparr>)"
| handle_wakeup: "ev_phase s = Dispatching \<Longrightarrow> 0 < wakeups (ev_loop s) \<Longrightarrow>
    ev_step s (s\<lparr>ev_loop := loop_handleRead (ev_loop s)\<rparr>)"
| self_queue: "ev_phase s = Dispatching \<or> ev_phase s = Running \<Longrightarrow>
    ev_step s (s\<lparr>ev_loop := queueInLoop (threadId (ev_loop s)) f (ev_loop s), pushed := pushed s @ [f]\<rparr>)"
| early_queue: "ev_phase s = Before \<or> ev_phase s = Stopped \<Longrightarrow>
    ev_step s (s\<lparr>ev_loop := queueInLoop (threadId (ev_loop s)) f (ev_loop s), pushed := pushed s @ [f], early := True\<rparr>)"
| self_quit: "ev_phase s \<noteq> Waiting \<and> ev_phase s \<noteq> Calling \<Longrightarrow>
    ev_step s (s\<lparr>ev_loop := quit (threadId (ev_loop s)) (ev_loop s)\<rparr>)"
| set_calling: "ev_phase s = Dispatching \<Longrightarrow>
    ev_step s (s\<lparr>ev_loop := start_calling (ev_loop s), ev_phase := Calling\<rparr>)"
| swap: "ev_phase s = Calling \<Longrightarrow>
    ev_step s (s\<lparr>ev_loop := snd (swap_pending (ev_loop s)), functors := fst (swap_pending (ev_loop s)), ev_phase := Running,
                 early := False\<rparr>)"
| run_functor: "ev_phase s = Running \<Longrightarrow> functors s = f # fs \<Longrightarrow>
    ev_step s (s\<lparr>functors := fs, executed := executed s @ [f]\<rparr>)"
| finish: "ev_phase s = Running \<Longrightarrow> functors s = [] \<Longrightarrow>
    ev_step s (s\<lparr>ev_loop := (ev_loop s)\<lparr>callingPendingFunctors := False\<rparr>,
                 ev_phase := (if quit_flag (ev_loop s) then Stopped else Waiting)\<rparr>)"

definition ev_init :: "'f event_loop \<Rightarrow> 'f ev_state" where
  "ev_init l = \<lparr>ev_loop = l, ev_phase = Before, functors = [], inflight = 0, pushed = pendingFunctors l, executed = [], early = False\<rparr>"

inductive ev_reach :: "'f event_loop \<Rightarrow> 'f ev_state \<Rightarrow> bool" for l where
  init: "ev_reach l (ev_init l)"
| step: "ev_reach l s \<Longrightarrow> ev_step s s' \<Longrightarrow> ev_reach l s'"

text \<open>A loop as it is before \<open>loop\<close> is called.\<close>

definition fresh_loop :: "'f event_loop \<Rightarrow> bool" where
  "fresh_loop l \<longleftrightarrow> pendingFunctors l = [] \<and> \<not> callingPendingFunctors l \<and> \<not> quit_flag l"

definition ev_inv :: "'f ev_state \<Rightarrow> bool" where
  "ev_inv s \<longleftrightarrow> (callingPendingFunctors (ev_loop s) \<longleftrightarrow> ev_phase s = Calling \<or> ev_phase s = Running)
     \<and> (pendingFunctors (ev_loop s) \<noteq> [] \<longrightarrow> 0 < wakeups (ev_loop s) \<or> 0 < inflight s
          \<or> ev_phase s = Dispatching \<or> ev_phase s = Calling \<or> early s)
     \<and> (quit_flag (ev_loop s) \<longrightarrow> 0 < wakeups (ev_loop s) \<or> 0 < inflight s \<or> ev_phase s \<noteq> Waiting)
     \<and> executed s @ functors s @ pendingFunctors (ev_loop s) = pushed s
     \<and> (functors s \<noteq> [] \<longrightarrow> ev_phase s = Running)"

lemma ev_step_inv: "ev_step s s' \<Longrightarrow> ev_inv s \<Longrightarrow> ev_inv s'"
  by (induction rule: ev_step.induct) (auto simp: ev_inv_def acc_defs Let_def)

lemma ev_reach_inv:
  assumes "ev_reach l s" "fresh_loop l"
  shows "ev_inv s"
  using assms(1)
proof induction
  case init
  show ?case using assms(2) by (simp add: ev_inv_def ev_init_def fresh_loop_def)
next
  case (step s s')
  then show ?case by (blast intro: ev_step_inv)
qed

text \<open>
  Property C10. No wake-up is lost and no task is lost, duplicated or reordered: in every state that the loop thread and any
  number of posting threads can reach, if the loop thread is in \<open>epoll_wait\<close> while the quit flag is set, or while a functor is
  queued, then the eventfd is readable or some thread is about to write to it, with one exception: a functor the loop thread
  itself queued while \<open>loop\<close> was not running (before it, or after it ended) has no wake-up of its own, and may wait until the
  first \<open>epoll_wait\<close> returns for another reason. And the functors run so far, the ones being run and the queued ones are together
  exactly the posted ones, in the order of posting.
\<close>

theorem no_lost_wakeup:
  assumes "ev_reach l s" "fresh_loop l"
  shows "(ev_phase s = Waiting \<and> quit_flag (ev_loop s) \<longrightarrow> 0 < wakeups (ev_loop s) \<or> 0 < inflight s)
    \<and> (ev_phase s = Waiting \<and> pendingFunctors (ev_loop s) \<noteq> [] \<and> \<not> early s \<longrightarrow> 0 < wakeups (ev_loop s) \<or> 0 < inflight s)
    \<and> executed s @ functors s @ pendingFunctors (ev_loop s) = pushed s"
  using ev_reach_inv [OF assms] by (auto simp: ev_inv_def)

lemma no_lost_wakeup_witness:
  "\<exists>(l :: nat event_loop) s. ev_reach l s \<and> ev_phase s = Waiting \<and> pendingFunctors (ev_loop s) = [5] \<and> \<not> early s
     \<and> (0 < wakeups (ev_loop s) \<or> 0 < inflight s)"
proof -
  obtain l :: "nat event_loop" where l: "event_loop_new False False 7 3 99 acceptable = Inr l" "fresh_loop l"
    by (simp add: event_loop_new_def createEventfd_def newDefaultPoller_def split_beta fresh_loop_def)
  have "ev_phase (ev_init l) = Before" by (simp add: ev_init_def)
  then have "ev_phase (ev_init l) = Before \<or> ev_phase (ev_init l) = Stopped" ..
  note s1 = ev_reach.step [OF ev_reach.init ev_step.start [OF this]]
  note s2 = ev_reach.step [OF s1 ev_step.other_push [of _ 5]]
  from no_lost_wakeup [OF s2 l(2)] s2 l(2) show ?thesis
    by (intro exI conjI) (assumption, auto simp: ev_init_def acc_defs fresh_loop_def)
qed

text \<open>The exception is real: a functor queued before \<open>loop\<close>, a loop that waits, and nothing that will wake it.\<close>

lemma early_functor_waits:
  assumes "threadId l = tid" "fresh_loop l" "wakeups l = 0"
  shows "\<exists>s. ev_reach l s \<and> ev_phase s = Waiting \<and> pendingFunctors (ev_loop s) = [f] \<and> wakeups (ev_loop s) = 0 \<and> inflight s = 0"
proof -
  let ?s = "(ev_init l)\<lparr>ev_loop := queueInLoop tid f l, pushed := pushed (ev_init l) @ [f], early := True\<rparr>"
  have "ev_step (ev_init l) ?s" using ev_step.early_queue [of "ev_init l" f] assms(1) by (simp add: ev_init_def)
  note s1 = ev_reach.step [OF ev_reach.init this]
  have "ev_phase ?s = Before \<or> ev_phase ?s = Stopped" by (simp add: ev_init_def)
  note s2 = ev_reach.step [OF s1 ev_step.start [OF this]]
  show ?thesis by (rule exI, rule conjI [OF s2]) (use assms in \<open>simp add: ev_init_def acc_defs fresh_loop_def Let_def\<close>)
qed

text \<open>
  The sequential \<open>doPendingFunctors\<close> is these steps: from the dispatching phase, a run of functors
  that only queue further ones ends in the loop it computes.
\<close>

definition ev_steps :: "'f ev_state \<Rightarrow> 'f ev_state \<Rightarrow> bool" where
  "ev_steps s s' \<longleftrightarrow> ev_step\<^sup>*\<^sup>* s s'"

lemma self_queue_many:
  "ev_phase s = Running \<Longrightarrow>
   ev_steps s (s\<lparr>ev_loop := fold (queueInLoop (threadId (ev_loop s))) gs (ev_loop s), pushed := pushed s @ gs\<rparr>)"
proof (induction gs arbitrary: s)
  case (Cons g gs)
  let ?s = "s\<lparr>ev_loop := queueInLoop (threadId (ev_loop s)) g (ev_loop s), pushed := pushed s @ [g]\<rparr>"
  have "ev_step s ?s" using Cons.prems by (intro ev_step.self_queue) simp
  moreover have "threadId (ev_loop ?s) = threadId (ev_loop s)" by (simp add: acc_defs Let_def)
  moreover have "ev_steps ?s (?s\<lparr>ev_loop := fold (queueInLoop (threadId (ev_loop ?s))) gs (ev_loop ?s), pushed := pushed ?s @ gs\<rparr>)"
    using Cons.prems by (intro Cons.IH) simp
  ultimately show ?case by (simp add: ev_steps_def)
qed (simp add: ev_steps_def)

text \<open>What running the functor \<open>f\<close> does when it queues the functors \<open>kids f\<close> and notes itself.\<close>

definition spawning :: "('f \<Rightarrow> 'f list) \<Rightarrow> ('f, 'f list) exec" where
  "spawning kids f st = (fold (queueInLoop (threadId (fst st))) (kids f) (fst st), snd st @ [f])"

lemma run_functors:
  assumes "ev_phase s = Running" "functors s = fs"
  shows "\<exists>ps. ev_steps s (s\<lparr>ev_loop := fst (fold (spawning kids) fs (ev_loop s, executed s)), functors := [],
      executed := snd (fold (spawning kids) fs (ev_loop s, executed s)), pushed := ps\<rparr>)"
  using assms
proof (induction fs arbitrary: s)
  case Nil
  then have "s\<lparr>functors := []\<rparr> = s" by simp
  then show ?case by (intro exI [of _ "pushed s"]) (simp add: ev_steps_def)
next
  case (Cons f fs)
  let ?s1 = "s\<lparr>functors := fs, executed := executed s @ [f]\<rparr>"
  let ?s2 = "?s1\<lparr>ev_loop := fold (queueInLoop (threadId (ev_loop ?s1))) (kids f) (ev_loop ?s1), pushed := pushed ?s1 @ kids f\<rparr>"
  have "ev_step s ?s1" using Cons.prems by (intro ev_step.run_functor)
  moreover have "ev_steps ?s1 ?s2" by (rule self_queue_many) (simp add: Cons.prems)
  moreover obtain ps where "ev_steps ?s2 (?s2\<lparr>ev_loop := fst (fold (spawning kids) fs (ev_loop ?s2, executed ?s2)), functors := [],
      executed := snd (fold (spawning kids) fs (ev_loop ?s2, executed ?s2)), pushed := ps\<rparr>)"
    using Cons.IH [of ?s2] Cons.prems by auto
  ultimately have "ev_steps s (?s2\<lparr>ev_loop := fst (fold (spawning kids) fs (ev_loop ?s2, executed ?s2)), functors := [],
      executed := snd (fold (spawning kids) fs (ev_loop ?s2, executed ?s2)), pushed := ps\<rparr>)"
    unfolding ev_steps_def by (metis (no_types, lifting) converse_rtranclp_into_rtranclp rtranclp_trans)
  moreover have "spawning kids f (ev_loop s, executed s) = (ev_loop ?s2, executed ?s2)" by (simp add: spawning_def)
  ultimately show ?case by (intro exI [of _ ps]) simp
qed

text \<open>
  Property C30. The sequential \<open>doPendingFunctors\<close> is an execution of the interleaving model: from the end of
  dispatching, when every functor queues some further functors, the loop thread's own steps lead to
  the loop state and the run history that the function computes, and the thread waits again or stops as
  the quit flag says.
\<close>

theorem doPendingFunctors_refines:
  assumes "ev_phase s = Dispatching" "doPendingFunctors (spawning kids) (ev_loop s, executed s) = (l', done_fs)"
  shows "\<exists>s'. ev_step\<^sup>*\<^sup>* s s' \<and> ev_loop s' = l' \<and> executed s' = done_fs \<and> functors s' = []
    \<and> ev_phase s' = (if quit_flag l' then Stopped else Waiting)"
proof -
  let ?s1 = "s\<lparr>ev_loop := start_calling (ev_loop s), ev_phase := Calling\<rparr>"
  let ?s2 = "?s1\<lparr>ev_loop := snd (swap_pending (ev_loop ?s1)), functors := fst (swap_pending (ev_loop ?s1)), ev_phase := Running, early := False\<rparr>"
  have a: "ev_step s ?s1" by (rule ev_step.set_calling [OF assms(1)])
  have b: "ev_step ?s1 ?s2" by (rule ev_step.swap) simp
  obtain ps s3 where c: "ev_steps ?s2 s3" and s3: "s3 = ?s2\<lparr>ev_loop := fst (fold (spawning kids) (functors ?s2) (ev_loop ?s2, executed ?s2)), functors := [],
      executed := snd (fold (spawning kids) (functors ?s2) (ev_loop ?s2, executed ?s2)), pushed := ps\<rparr>"
    using run_functors [of ?s2 "functors ?s2" kids] by auto
  let ?s4 = "s3\<lparr>ev_loop := (ev_loop s3)\<lparr>callingPendingFunctors := False\<rparr>,
                 ev_phase := (if quit_flag (ev_loop s3) then Stopped else Waiting)\<rparr>"
  have d: "ev_step s3 ?s4" by (rule ev_step.finish) (simp_all add: s3)
  have "ev_loop ?s4 = l'" "executed ?s4 = done_fs"
    using assms(2) by (simp_all add: s3 doPendingFunctors_def acc_defs split_beta Let_def)
  moreover have "ev_step\<^sup>*\<^sup>* s ?s4"
    using a b c d unfolding ev_steps_def by (metis (no_types, lifting) converse_rtranclp_into_rtranclp rtranclp.rtrancl_into_rtrancl)
  ultimately show ?thesis by (intro exI [of _ ?s4]) (auto simp: s3)
qed

lemma doPendingFunctors_refines_witness:
  "\<exists>(s :: nat ev_state) s' l' done_fs. doPendingFunctors (spawning (\<lambda>f. if f = 1 then [7] else [])) (ev_loop s, executed s) = (l', done_fs)
     \<and> done_fs = [1, 2] \<and> pendingFunctors l' = [7] \<and> ev_step\<^sup>*\<^sup>* s s' \<and> ev_loop s' = l' \<and> executed s' = [1, 2]"
proof -
  obtain l :: "nat event_loop" where l: "fresh_loop l"
    using that [of "undefined\<lparr>pendingFunctors := [], callingPendingFunctors := False, quit_flag := False\<rparr>"]
    by (simp add: fresh_loop_def)
  let ?s = "(ev_init l)\<lparr>ev_phase := Dispatching, ev_loop := l\<lparr>pendingFunctors := [1, 2]\<rparr>\<rparr>"
  let ?k = "\<lambda>f. if f = 1 then [7 :: nat] else []"
  obtain l' done_fs where d: "doPendingFunctors (spawning ?k) (ev_loop ?s, executed ?s) = (l', done_fs)"
    by (rule prod.exhaust)
  then have "done_fs = [1, 2]" "pendingFunctors l' = [7]"
    by (auto simp: doPendingFunctors_def spawning_def acc_defs ev_init_def Let_def split_beta)
  with doPendingFunctors_refines [OF _ d] d show ?thesis by fastforce
qed

end
