(* ===== verification/Net_Socket.thy ===== *)
theory Net_Socket
  imports Event_Loop
begin

text \<open>
  \<open>src/src/muduo_core/InetAddress\<close>, \<open>Socket\<close>, \<open>Thread\<close> and \<open>base/CurrentThread\<close>: addresses in
  network byte order and their text, the socket calls, thread identity and default thread names.

  A system call is an entry of a trace, with its answer as an argument. \<open>inet_addr\<close>, which
  accepts several notations, is an argument.
\<close>

subsection \<open>Addresses\<close>

record sockaddr_in =
  sin_family :: "16 word"
  sin_port :: "16 word"
  s_addr :: "32 word"

definition AF_INET :: "16 word" where "AF_INET = 2"

text \<open>\<open>htons\<close> and \<open>ntohs\<close> on a little-endian machine.\<close>

definition htons :: "16 word \<Rightarrow> 16 word" where
  "htons w = push_bit 8 w OR drop_bit 8 w"

definition ntohs :: "16 word \<Rightarrow> 16 word" where
  "ntohs w = push_bit 8 w OR drop_bit 8 w"

definition bzero_addr :: sockaddr_in where
  "bzero_addr = \<lparr>sin_family = 0, sin_port = 0, s_addr = 0\<rparr>"

definition inet_address :: "(bytes \<Rightarrow> 32 word) \<Rightarrow> 16 word \<Rightarrow> bytes \<Rightarrow> sockaddr_in" where
  "inet_address inet_addr port ip =
     (let a = bzero_addr;
          a = a\<lparr>sin_family := AF_INET\<rparr>;
          a = a\<lparr>sin_port := htons port\<rparr>
      in a\<lparr>s_addr := inet_addr (c_str ip)\<rparr>)"

text \<open>\<open>inet_ntop\<close> for \<open>AF_INET\<close>: the four bytes in memory order, in decimal. The lowest byte comes first.\<close>

definition octet :: "32 word \<Rightarrow> nat \<Rightarrow> nat" where
  "octet a i = unat (drop_bit (8 * i) a) mod 256"

definition inet_ntop :: "32 word \<Rightarrow> bytes" where
  "inet_ntop a = show_nat (octet a 0) @ ''.'' @ show_nat (octet a 1) @ ''.'' @ show_nat (octet a 2) @ ''.'' @ show_nat (octet a 3)"

definition toIp :: "sockaddr_in \<Rightarrow> bytes" where
  "toIp a = inet_ntop (s_addr a)"

text \<open>The text written to the 64-byte stack buffer, without its terminating NUL.\<close>

definition toIpPort :: "sockaddr_in \<Rightarrow> bytes" where
  "toIpPort a = (let buf = inet_ntop (s_addr a); port = ntohs (sin_port a) in buf @ '':'' @ show_nat (unat port))"

definition toPort :: "sockaddr_in \<Rightarrow> 16 word" where
  "toPort a = ntohs (sin_port a)"

lemma ntohs_htons [simp]: "ntohs (htons w) = w"
  by (rule bit_eqI) (auto simp: ntohs_def htons_def bit_simps)

lemma length_octet: "length (show_nat (octet a i)) \<le> 3"
  by (rule length_show_nat) (simp_all add: octet_def less_le_trans [OF mod_less_divisor])

lemma length_inet_ntop: "length (inet_ntop a) \<le> 15"
  using length_octet [of a 0] length_octet [of a 1] length_octet [of a 2] length_octet [of a 3]
  by (simp add: inet_ntop_def)

text \<open>
  An address keeps its port: \<open>toPort\<close> and the text of \<open>toIpPort\<close> give back the port the address was
  made from, and the text always fits the 64-byte buffer it is printed to.
\<close>

theorem address_roundtrip:
  "toPort (inet_address inet_addr port ip) = port
   \<and> toIpPort (inet_address inet_addr port ip) = toIp (inet_address inet_addr port ip) @ '':'' @ show_nat (unat port)
   \<and> length (toIpPort a) < 64"
proof -
  have "unat w < 10 ^ 5" for w :: "16 word"
    using unsigned_less [of w, where ?'a = nat] by simp
  from length_show_nat [OF this] have "length (show_nat (unat w)) \<le> 5" for w :: "16 word" by simp
  from this [of "ntohs (sin_port a)"] length_inet_ntop [of "s_addr a"] show ?thesis
    by (simp add: toPort_def toIpPort_def toIp_def inet_address_def Let_def)
qed

subsection \<open>Sockets\<close>

datatype sock_opt = TcpNoDelay | ReuseAddr | ReusePort | KeepAlive

datatype syscall =
    SysSocket
  | SysBind int sockaddr_in
  | SysListen int nat
  | SysAccept int
  | SysShutdownWr int
  | SysSetOpt int sock_opt int
  | SysClose int

type_synonym trace = "syscall list"

definition socket_destroy :: "int \<Rightarrow> trace \<Rightarrow> trace" where
  "socket_destroy fd tr = tr @ [SysClose fd]"

definition bindAddress :: "int \<Rightarrow> int \<Rightarrow> sockaddr_in \<Rightarrow> trace \<Rightarrow> crash + trace" where
  "bindAddress answer fd a tr = (let tr = tr @ [SysBind fd a] in if answer \<noteq> 0 then Inl FatalExit else Inr tr)"

definition sock_listen :: "int \<Rightarrow> int \<Rightarrow> trace \<Rightarrow> crash + trace" where
  "sock_listen answer fd tr = (let tr = tr @ [SysListen fd 1024] in if answer \<noteq> 0 then Inl FatalExit else Inr tr)"

text \<open>\<open>accept4\<close> answers with a descriptor and the peer's address; the caller's address is
  overwritten only on success.\<close>

definition sock_accept :: "int \<times> sockaddr_in \<Rightarrow> int \<Rightarrow> sockaddr_in \<Rightarrow> trace \<Rightarrow> int \<times> sockaddr_in \<times> trace" where
  "sock_accept answer fd peeraddr tr =
     (let tr = tr @ [SysAccept fd]; (connfd, a) = answer
      in (connfd, if 0 \<le> connfd then a else peeraddr, tr))"

definition shutdownWrite :: "int \<Rightarrow> trace \<Rightarrow> trace" where
  "shutdownWrite fd tr = tr @ [SysShutdownWr fd]"

definition setTcpNoDelay :: "bool \<Rightarrow> int \<Rightarrow> trace \<Rightarrow> trace" where
  "setTcpNoDelay on fd tr = (let optval = (if on then 1 else 0) in tr @ [SysSetOpt fd TcpNoDelay optval])"

definition setReuseAddr :: "bool \<Rightarrow> int \<Rightarrow> trace \<Rightarrow> trace" where
  "setReuseAddr on fd tr = (let optval = (if on then 1 else 0) in tr @ [SysSetOpt fd ReuseAddr optval])"

definition setReusePort :: "bool \<Rightarrow> int \<Rightarrow> trace \<Rightarrow> trace" where
  "setReusePort on fd tr = (let optval = (if on then 1 else 0) in tr @ [SysSetOpt fd ReusePort optval])"

definition setKeepAlive :: "bool \<Rightarrow> int \<Rightarrow> trace \<Rightarrow> trace" where
  "setKeepAlive on fd tr = (let optval = (if on then 1 else 0) in tr @ [SysSetOpt fd KeepAlive optval])"

subsection \<open>Threads\<close>

text \<open>\<open>CurrentThread::tid()\<close> with the thread-local cache; \<open>gettid\<close> is never 0.\<close>

definition cacheTid :: "int \<Rightarrow> int \<Rightarrow> int" where
  "cacheTid gettid cached = (if cached = 0 then gettid else cached)"

definition tid :: "int \<Rightarrow> int \<Rightarrow> int \<times> int" where
  "tid gettid cached = (let cached = (if cached = 0 then cacheTid gettid cached else cached) in (cached, cached))"

datatype os_thread_state = Joinable | Detached | Joined

record thread =
  th_started :: bool
  th_joined :: bool
  th_thread :: "os_thread_state option"
  th_tid :: int
  th_name :: bytes

text \<open>The constructor bumps the process-wide counter; an empty name becomes \<open>Thread<n>\<close>.\<close>

definition setDefaultName :: "int \<Rightarrow> thread \<Rightarrow> int \<times> thread" where
  "setDefaultName numCreated t =
     (let num = numCreated + 1
      in (num, if th_name t = [] then t\<lparr>th_name := snprintf 32 (''Thread'' @ show_int num)\<rparr> else t))"

definition thread_new :: "int \<Rightarrow> bytes \<Rightarrow> int \<times> thread" where
  "thread_new numCreated name =
     setDefaultName numCreated \<lparr>th_started = False, th_joined = False, th_thread = None, th_tid = 0, th_name = name\<rparr>"

text \<open>\<open>start\<close> returns after the new thread stored its own id.\<close>

definition thread_start :: "int \<Rightarrow> thread \<Rightarrow> thread" where
  "thread_start gettid t = t\<lparr>th_started := True, th_thread := Some Joinable, th_tid := fst (tid gettid 0)\<rparr>"

definition thread_join :: "thread \<Rightarrow> crash + thread" where
  "thread_join t = (let t = t\<lparr>th_joined := True\<rparr> in
     case th_thread t of None \<Rightarrow> Inl NullPointer | Some _ \<Rightarrow> Inr (t\<lparr>th_thread := Some Joined\<rparr>))"

definition thread_destroy :: "thread \<Rightarrow> thread" where
  "thread_destroy t = (if th_started t \<and> \<not> th_joined t then t\<lparr>th_thread := Some Detached\<rparr> else t)"

text \<open>A \<open>std::thread\<close> that is still joinable when it is destroyed ends the process.\<close>

definition no_joinable :: "thread \<Rightarrow> bool" where
  "no_joinable t \<longleftrightarrow> th_thread t \<noteq> Some Joinable"

text \<open>
  Threads: the \<open>n\<close>-th unnamed thread of the process is called \<open>Thread<n>\<close> (the 32-byte
  buffer never cuts the number), a named one keeps its name, and whether a thread was never started,
  started, or started and joined, its destructor leaves no joinable \<open>std::thread\<close> behind.
\<close>

theorem thread_lifecycle:
  assumes "0 \<le> n" "n < 2 ^ 31 - 1"
  shows "th_name (snd (thread_new n [])) = ''Thread'' @ show_int (n + 1)
    \<and> th_name (snd (thread_new n (c # cs))) = c # cs
    \<and> no_joinable (thread_destroy (snd (thread_new n nm)))
    \<and> no_joinable (thread_destroy (thread_start g (snd (thread_new n nm))))
    \<and> (\<exists>t. thread_join (thread_start g (snd (thread_new n nm))) = Inr t \<and> no_joinable (thread_destroy t))"
proof -
  have "length (show_nat (nat (n + 1))) \<le> 10"
    using assms by (intro length_show_nat) (simp_all add: nat_less_iff)
  then have "snprintf 32 (''Thread'' @ show_int (n + 1)) = ''Thread'' @ show_int (n + 1)"
    using assms by (simp add: snprintf_def show_int_def)
  then show ?thesis
    by (simp add: thread_new_def setDefaultName_def thread_start_def thread_join_def thread_destroy_def no_joinable_def Let_def)
qed

lemma thread_lifecycle_witness:
  "th_name (snd (thread_new 3 [])) = ''Thread'' @ show_int (3 + 1) \<and> th_name (snd (thread_new 3 ''io'')) = ''io''"
  using thread_lifecycle [of 3] by simp

end
