(* ===== verification/Tcp_Connection.thy ===== *)
theory Tcp_Connection
  imports Net_Socket Net_Buffer
begin

text \<open>
  \<open>src/src/muduo_core/TcpConnection.h\<close> and \<open>TcpConnection.cc\<close>: one established connection, from
  \<open>connectEstablished\<close> to \<open>connectDestroyed\<close>. A \<open>conn_world\<close> is the connection with the event loop
  that owns it and what the kernel was told: the bytes \<open>write\<close> accepted so far (\<open>wire\<close>) and the system
  calls. The kernel's answers to \<open>write\<close> are a function of the number of the call and of the
  offered length. The user's callbacks are functions on the world; \<open>'a\<close> is the type of the
  application context.
\<close>

datatype conn_state = kDisconnected | kConnecting | kConnected | kDisconnecting

text \<open>The functors of this program, with the address of the connection they are bound to.\<close>

datatype task =
    SendInLoop nat bytes
  | ShutdownInLoop nat
  | StopReadInLoop nat
  | WriteComplete nat
  | HighWaterMark nat nat
  | ConnectEstablished nat
  | ConnectDestroyed nat
  | RemoveConnectionInLoop nat
  | AcceptorListen
  | UserTask nat

record 'a tcp_connection =
  conn_addr :: nat
  conn_name :: bytes
  conn_state :: conn_state
  reading :: bool
  sock_fd :: int
  conn_channel :: channel
  localAddr :: sockaddr_in
  peerAddr :: sockaddr_in
  has_writeComplete :: bool
  has_highWater :: bool
  highWaterMark :: nat
  inputBuffer :: buffer
  outputBuffer :: buffer
  appContext :: "'a option"

record 'a conn_world =
  conn :: "'a tcp_connection"
  io_loop :: "task event_loop"
  wire :: bytes
  calls :: trace
  net_answer :: "nat \<Rightarrow> nat \<Rightarrow> int + nat"
  net_count :: nat

definition EWOULDBLOCK :: int where "EWOULDBLOCK = 11"
definition EPIPE :: int where "EPIPE = 32"
definition ECONNRESET :: int where "ECONNRESET = 104"

lemmas errno_defs = EWOULDBLOCK_def EPIPE_def ECONNRESET_def

definition tcp_connection_new :: "nat \<Rightarrow> nat \<Rightarrow> bytes \<Rightarrow> int \<Rightarrow> sockaddr_in \<Rightarrow> sockaddr_in \<Rightarrow> trace \<Rightarrow> 'a tcp_connection \<times> trace" where
  "tcp_connection_new addr chaddr nameArg sockfd loc peer tr =
     (\<lparr>conn_addr = addr, conn_name = nameArg, conn_state = kConnecting, reading = True, sock_fd = sockfd,
       conn_channel = channel_new chaddr sockfd, localAddr = loc, peerAddr = peer,
       has_writeComplete = False, has_highWater = False, highWaterMark = 64 * 1024 * 1024,
       inputBuffer = buffer_new kInitialSize, outputBuffer = buffer_new kInitialSize, appContext = None\<rparr>,
      setKeepAlive True sockfd tr)"

definition connected :: "'a tcp_connection \<Rightarrow> bool" where
  "connected c \<longleftrightarrow> conn_state c = kConnected"

definition setState :: "conn_state \<Rightarrow> 'a conn_world \<Rightarrow> 'a conn_world" where
  "setState st w = w\<lparr>conn := (conn w)\<lparr>conn_state := st\<rparr>\<rparr>"

definition setApplicationContext :: "'a option \<Rightarrow> 'a conn_world \<Rightarrow> 'a conn_world" where
  "setApplicationContext a w = w\<lparr>conn := (conn w)\<lparr>appContext := a\<rparr>\<rparr>"

text \<open>A channel operation of the connection, carried out through its loop's poller.\<close>

definition on_channel :: "(channel \<Rightarrow> poller \<Rightarrow> channel \<times> poller) \<Rightarrow> 'a conn_world \<Rightarrow> 'a conn_world" where
  "on_channel f w =
     (let (ch, p) = f (conn_channel (conn w)) (loop_poller (io_loop w))
      in w\<lparr>conn := (conn w)\<lparr>conn_channel := ch\<rparr>, io_loop := (io_loop w)\<lparr>loop_poller := p\<rparr>\<rparr>)"

definition queue_task :: "int \<Rightarrow> task \<Rightarrow> 'a conn_world \<Rightarrow> 'a conn_world" where
  "queue_task cur t w = w\<lparr>io_loop := queueInLoop cur t (io_loop w)\<rparr>"

text \<open>\<open>::write(fd, data, len)\<close>.\<close>

definition sys_write :: "bytes \<Rightarrow> 'a conn_world \<Rightarrow> (int + nat) \<times> 'a conn_world" where
  "sys_write data w =
     (let answer = net_answer w (net_count w) (length data);
          w = w\<lparr>net_count := Suc (net_count w)\<rparr>
      in case answer of Inl e \<Rightarrow> (Inl e, w) | Inr n \<Rightarrow> (Inr n, w\<lparr>wire := wire w @ take n data\<rparr>))"

subsection \<open>Sending\<close>

text \<open>The direct write of \<open>sendInLoop\<close>: (nwrote, remaining, faultError).\<close>

definition send_direct :: "int \<Rightarrow> bytes \<Rightarrow> 'a conn_world \<Rightarrow> (nat \<times> nat \<times> bool) \<times> 'a conn_world" where
  "send_direct cur message w =
     (let len = length message in
      if \<not> isWriting (conn_channel (conn w)) \<and> readableBytes (outputBuffer (conn w)) = 0
      then (case sys_write message w of
              (Inr nwrote, w) \<Rightarrow>
                (let remaining = len - nwrote;
                     w = (if remaining = 0 \<and> has_writeComplete (conn w)
                          then queue_task cur (WriteComplete (conn_addr (conn w))) w else w)
                 in ((nwrote, remaining, False), w))
            | (Inl err, w) \<Rightarrow> ((0, len, err \<noteq> EWOULDBLOCK \<and> (err = EPIPE \<or> err = ECONNRESET)), w))
      else ((0, len, False), w))"

definition sendInLoop :: "int \<Rightarrow> bytes \<Rightarrow> 'a conn_world \<Rightarrow> 'a conn_world" where
  "sendInLoop cur message w =
     (if conn_state (conn w) = kDisconnected then w
      else
        (let ((nwrote, remaining, faultError), w) = send_direct cur message w in
         if \<not> faultError \<and> remaining > 0
         then
           (let oldLen = readableBytes (outputBuffer (conn w));
                w = (if oldLen + remaining \<ge> highWaterMark (conn w) \<and> oldLen < highWaterMark (conn w) \<and> has_highWater (conn w)
                     then queue_task cur (HighWaterMark (conn_addr (conn w)) (oldLen + remaining)) w else w);
                w = w\<lparr>conn := (conn w)\<lparr>outputBuffer := append (take remaining (drop nwrote message)) (outputBuffer (conn w))\<rparr>\<rparr>
            in if \<not> isWriting (conn_channel (conn w)) then on_channel enableWriting w else w)
         else w))"

definition send :: "int \<Rightarrow> bytes \<Rightarrow> 'a conn_world \<Rightarrow> 'a conn_world" where
  "send cur buf w =
     (if conn_state (conn w) = kConnected
      then (if isInLoopThread cur (io_loop w) then sendInLoop cur buf w
            else queue_task cur (SendInLoop (conn_addr (conn w)) buf) w)
      else w)"

subsection \<open>Half-close and flow control\<close>

definition shutdownInLoop :: "'a conn_world \<Rightarrow> 'a conn_world" where
  "shutdownInLoop w =
     (if \<not> isWriting (conn_channel (conn w)) then w\<lparr>calls := shutdownWrite (sock_fd (conn w)) (calls w)\<rparr> else w)"

definition shutdown :: "int \<Rightarrow> 'a conn_world \<Rightarrow> 'a conn_world" where
  "shutdown cur w =
     (if conn_state (conn w) = kConnected
      then (let w = setState kDisconnecting w
            in if isInLoopThread cur (io_loop w) then shutdownInLoop w
               else queue_task cur (ShutdownInLoop (conn_addr (conn w))) w)
      else w)"

definition stopReadInLoop :: "'a conn_world \<Rightarrow> 'a conn_world" where
  "stopReadInLoop w =
     (if reading (conn w) then on_channel disableReading (w\<lparr>conn := (conn w)\<lparr>reading := False\<rparr>\<rparr>) else w)"

definition stopRead :: "int \<Rightarrow> 'a conn_world \<Rightarrow> 'a conn_world" where
  "stopRead cur w =
     (if isInLoopThread cur (io_loop w) then stopReadInLoop w
      else queue_task cur (StopReadInLoop (conn_addr (conn w))) w)"

subsection \<open>Life cycle and events\<close>

text \<open>The callbacks a server installs: up or down, a message, and the removal from the server.\<close>

record 'a conn_callbacks =
  connectionCallback :: "'a conn_world \<Rightarrow> 'a conn_world"
  messageCallback :: "timestamp \<Rightarrow> 'a conn_world \<Rightarrow> 'a conn_world"
  connCloseCallback :: "'a conn_world \<Rightarrow> 'a conn_world"

definition connectEstablished :: "'a conn_callbacks \<Rightarrow> 'a conn_world \<Rightarrow> 'a conn_world" where
  "connectEstablished cbs w =
     (let w = setState kConnected w;
          w = on_channel (\<lambda>ch p. (tie (conn_addr (conn w)) ch, p)) w;
          w = on_channel enableReading w
      in connectionCallback cbs w)"

definition connectDestroyed :: "'a conn_callbacks \<Rightarrow> 'a conn_world \<Rightarrow> 'a conn_world" where
  "connectDestroyed cbs w =
     (let w = (if conn_state (conn w) = kConnected
               then (let w = setState kDisconnected w; w = on_channel disableAll w in connectionCallback cbs w)
               else w)
      in on_channel removeChannel w)"

definition handleClose :: "'a conn_callbacks \<Rightarrow> 'a conn_world \<Rightarrow> 'a conn_world" where
  "handleClose cbs w =
     (let w = setState kDisconnected w;
          w = on_channel disableAll w;
          w = connectionCallback cbs w
      in connCloseCallback cbs w)"

text \<open>\<open>handleError\<close> only reads \<open>SO_ERROR\<close> and logs it.\<close>

definition handleError :: "'a conn_world \<Rightarrow> 'a conn_world" where
  "handleError w = w"

text \<open>\<open>handleRead\<close>; the answer of \<open>readv\<close> is an argument.\<close>

definition handleRead :: "'a conn_callbacks \<Rightarrow> int + bytes \<Rightarrow> timestamp \<Rightarrow> 'a conn_world \<Rightarrow> 'a conn_world" where
  "handleRead cbs answer receiveTime w =
     (let (n, buf) = readFd (sock_fd (conn w)) answer (inputBuffer (conn w));
          w = w\<lparr>conn := (conn w)\<lparr>inputBuffer := buf\<rparr>\<rparr>
      in case n of
           Inl err \<Rightarrow> handleError w
         | Inr n \<Rightarrow> if 0 < n then messageCallback cbs receiveTime w else handleClose cbs w)"

definition handleWrite :: "int \<Rightarrow> 'a conn_world \<Rightarrow> 'a conn_world" where
  "handleWrite cur w =
     (if isWriting (conn_channel (conn w)) then
        (case sys_write (content (outputBuffer (conn w))) w of
           (Inl err, w) \<Rightarrow> w
         | (Inr n, w) \<Rightarrow>
             (if 0 < n then
                (let w = w\<lparr>conn := (conn w)\<lparr>outputBuffer := retrieve n (outputBuffer (conn w))\<rparr>\<rparr> in
                 if readableBytes (outputBuffer (conn w)) = 0
                 then (let w = on_channel disableWriting w;
                           w = (if has_writeComplete (conn w) then queue_task cur (WriteComplete (conn_addr (conn w))) w else w)
                       in if conn_state (conn w) = kDisconnecting then shutdownInLoop w else w)
                 else w)
              else w))
      else w)"

text \<open>The callbacks the constructor installs in the channel.\<close>

definition conn_channel_callbacks :: "'a conn_callbacks \<Rightarrow> int \<Rightarrow> int + bytes \<Rightarrow> 'a conn_world callbacks" where
  "conn_channel_callbacks cbs cur answer =
     \<lparr>readCallback = Some (handleRead cbs answer), writeCallback = Some (handleWrite cur),
      closeCallback = Some (handleClose cbs), errorCallback = Some handleError\<rparr>"

definition conn_event :: "'a conn_callbacks \<Rightarrow> int \<Rightarrow> int + bytes \<Rightarrow> timestamp \<Rightarrow> 'a conn_world \<Rightarrow> 'a conn_world" where
  "conn_event cbs cur answer t w =
     handleEvent (\<lambda>obj. True) (conn_channel_callbacks cbs cur answer) (conn_channel (conn w)) t w"

text \<open>What the loop does when it runs one of the connection's functors.\<close>

fun run_task :: "'a conn_callbacks \<Rightarrow> int \<Rightarrow> task \<Rightarrow> 'a conn_world \<Rightarrow> 'a conn_world" where
  "run_task cbs cur (SendInLoop a s) w = sendInLoop cur s w"
| "run_task cbs cur (ShutdownInLoop a) w = shutdownInLoop w"
| "run_task cbs cur (StopReadInLoop a) w = stopReadInLoop w"
| "run_task cbs cur (ConnectEstablished a) w = connectEstablished cbs w"
| "run_task cbs cur (ConnectDestroyed a) w = connectDestroyed cbs w"
| "run_task cbs cur _ w = w"

end
