(* ===== verification/Tcp_Connection_Props.thy ===== *)
theory Tcp_Connection_Props
  imports Tcp_Connection
begin

text \<open>
  Properties of a connection: the bytes the user sends reach the wire in order, without loss or
  duplication; the channel waits for writability exactly while output is pending; the FIN
  follows the last byte; the user hears of the connection once up and once down.
\<close>

subsection \<open>The invariant\<close>

text \<open>write(2) never reports more bytes than it was offered.\<close>

definition net_doc :: "(nat \<Rightarrow> nat \<Rightarrow> int + nat) \<Rightarrow> bool" where
  "net_doc answer \<longleftrightarrow> (\<forall>k len n. answer k len = Inr n \<longrightarrow> n \<le> len)"

definition chan_ok :: "'a conn_world \<Rightarrow> bool" where
  "chan_ok w \<longleftrightarrow> poller_ok (loop_poller (io_loop w)) \<and> registered (conn_channel (conn w)) (loop_poller (io_loop w))
     \<and> mask_ok (ch_events (conn_channel (conn w)))"

definition conn_ok :: "'a conn_world \<Rightarrow> bool" where
  "conn_ok w \<longleftrightarrow> chan_ok w \<and> net_doc (net_answer w) \<and> buf_ok (outputBuffer (conn w))
     \<and> (conn_state (conn w) \<noteq> kDisconnected \<longrightarrow>
          isWriting (conn_channel (conn w)) = (content (outputBuffer (conn w)) \<noteq> []))"

definition out_pending :: "'a conn_world \<Rightarrow> bytes" where
  "out_pending w = content (outputBuffer (conn w))"

lemma isWriting_writes: "isWriting c = writes (ch_events c)"
  by (simp add: isWriting_def writes_def)

lemma readable_zero: "buf_ok b \<Longrightarrow> readableBytes b = 0 \<longleftrightarrow> content b = []"
  by (metis length_content length_0_conv)

text \<open>What a mask operation changes of the world.\<close>

lemma on_channel_frame [simp]:
  "conn_state (conn (on_channel f w)) = conn_state (conn w)" "outputBuffer (conn (on_channel f w)) = outputBuffer (conn w)"
  "inputBuffer (conn (on_channel f w)) = inputBuffer (conn w)" "reading (conn (on_channel f w)) = reading (conn w)"
  "wire (on_channel f w) = wire w" "calls (on_channel f w) = calls w" "net_answer (on_channel f w) = net_answer w"
  "net_count (on_channel f w) = net_count w" "appContext (conn (on_channel f w)) = appContext (conn w)"
  "conn_addr (conn (on_channel f w)) = conn_addr (conn w)" "sock_fd (conn (on_channel f w)) = sock_fd (conn w)"
  "has_writeComplete (conn (on_channel f w)) = has_writeComplete (conn w)"
  "pendingFunctors (io_loop (on_channel f w)) = pendingFunctors (io_loop w)"
  "threadId (io_loop (on_channel f w)) = threadId (io_loop w)"
  by (simp_all add: on_channel_def split_beta Let_def)

lemma on_channel_chan:
  assumes "chan_ok w" "mask_ok m" "\<And>p. f (conn_channel (conn w)) p = updateChannel (with_events m (conn_channel (conn w))) p"
  shows "chan_ok (on_channel f w)" "ch_events (conn_channel (conn (on_channel f w))) = m"
  using updateChannel_ok [of "loop_poller (io_loop w)" "conn_channel (conn w)" m] assms
  by (simp_all add: chan_ok_def on_channel_def split_beta Let_def)

lemma enableWriting_ok:
  assumes "chan_ok w"
  shows "chan_ok (on_channel enableWriting w)" "isWriting (conn_channel (conn (on_channel enableWriting w)))"
proof -
  let ?m = "ch_events (conn_channel (conn w)) OR kWriteEvent"
  have m: "mask_ok (ch_events (conn_channel (conn w)))" using assms by (simp add: chan_ok_def)
  note * = on_channel_chan [OF assms masks(2) [OF m], of enableWriting]
  show "chan_ok (on_channel enableWriting w)" "isWriting (conn_channel (conn (on_channel enableWriting w)))"
    using * masks(10) [OF m] by (simp_all add: enableWriting_def with_events_def isWriting_writes)
qed

lemma disableWriting_ok:
  assumes "chan_ok w"
  shows "chan_ok (on_channel disableWriting w)" "\<not> isWriting (conn_channel (conn (on_channel disableWriting w)))"
proof -
  have m: "mask_ok (ch_events (conn_channel (conn w)))" using assms by (simp add: chan_ok_def)
  note * = on_channel_chan [OF assms masks(4) [OF m], of disableWriting]
  show "chan_ok (on_channel disableWriting w)" "\<not> isWriting (conn_channel (conn (on_channel disableWriting w)))"
    using * masks(12) [OF m] by (simp_all add: disableWriting_def with_events_def isWriting_writes)
qed

lemma disableReading_ok:
  assumes "chan_ok w"
  shows "chan_ok (on_channel disableReading w)"
    "isWriting (conn_channel (conn (on_channel disableReading w))) = isWriting (conn_channel (conn w))"
proof -
  have m: "mask_ok (ch_events (conn_channel (conn w)))" using assms by (simp add: chan_ok_def)
  note * = on_channel_chan [OF assms masks(3) [OF m], of disableReading]
  show "chan_ok (on_channel disableReading w)"
    "isWriting (conn_channel (conn (on_channel disableReading w))) = isWriting (conn_channel (conn w))"
    using * masks(11) [OF m] by (simp_all add: disableReading_def with_events_def isWriting_writes)
qed

lemma enableReading_ok:
  assumes "chan_ok w"
  shows "chan_ok (on_channel enableReading w)"
    "isWriting (conn_channel (conn (on_channel enableReading w))) = isWriting (conn_channel (conn w))"
    "isReading (conn_channel (conn (on_channel enableReading w)))"
proof -
  have m: "mask_ok (ch_events (conn_channel (conn w)))" using assms by (simp add: chan_ok_def)
  note * = on_channel_chan [OF assms masks(1) [OF m], of enableReading]
  show "chan_ok (on_channel enableReading w)"
    "isWriting (conn_channel (conn (on_channel enableReading w))) = isWriting (conn_channel (conn w))"
    "isReading (conn_channel (conn (on_channel enableReading w)))"
    using * masks(9) [OF m] masks(5) [OF m]
    by (simp_all add: enableReading_def with_events_def isWriting_writes isReading_def reads_def)
qed

lemma disableAll_ok:
  assumes "chan_ok w"
  shows "chan_ok (on_channel disableAll w)" "ch_events (conn_channel (conn (on_channel disableAll w))) = 0"
  using on_channel_chan [OF assms mask_none(1), of disableAll]
  by (simp_all add: disableAll_def with_events_def kNoneEvent_def)

lemma chan_ok_other [simp]:
  "chan_ok (w\<lparr>wire := x\<rparr>) = chan_ok w" "chan_ok (w\<lparr>calls := y\<rparr>) = chan_ok w" "chan_ok (w\<lparr>net_count := z\<rparr>) = chan_ok w"
  "chan_ok (w\<lparr>conn := (conn w)\<lparr>outputBuffer := b\<rparr>\<rparr>) = chan_ok w"
  "chan_ok (w\<lparr>conn := (conn w)\<lparr>inputBuffer := b\<rparr>\<rparr>) = chan_ok w"
  "chan_ok (w\<lparr>conn := (conn w)\<lparr>reading := r\<rparr>\<rparr>) = chan_ok w"
  "chan_ok (w\<lparr>conn := (conn w)\<lparr>conn_state := s\<rparr>\<rparr>) = chan_ok w"
  by (simp_all add: chan_ok_def)

lemma queue_task_frame [simp]:
  "conn (queue_task cur t w) = conn w" "wire (queue_task cur t w) = wire w" "calls (queue_task cur t w) = calls w"
  "net_answer (queue_task cur t w) = net_answer w" "net_count (queue_task cur t w) = net_count w"
  "pendingFunctors (io_loop (queue_task cur t w)) = pendingFunctors (io_loop w) @ [t]"
  "chan_ok (queue_task cur t w) = chan_ok w" "threadId (io_loop (queue_task cur t w)) = threadId (io_loop w)"
  by (simp_all add: queue_task_def acc_defs chan_ok_def Let_def)

subsection \<open>Sending\<close>

lemma sys_write_ok:
  assumes "sys_write data w = (r, w')" "net_doc (net_answer w)"
  shows "conn w' = conn w" "io_loop w' = io_loop w" "calls w' = calls w" "net_answer w' = net_answer w"
    "r = Inr n \<Longrightarrow> n \<le> length data \<and> wire w' = wire w @ take n data" "r = Inl e \<Longrightarrow> wire w' = wire w"
  using assms by (auto simp: sys_write_def net_doc_def Let_def split: sum.splits)

lemma sys_write_chan: "chan_ok (snd (sys_write data w)) = chan_ok w"
  by (simp add: sys_write_def chan_ok_def Let_def split: sum.splits)

text \<open>Whether \<open>sendInLoop\<close> takes the message: the connection is not down and the write hit no reset.\<close>

definition accepts :: "int \<Rightarrow> bytes \<Rightarrow> 'a conn_world \<Rightarrow> bool" where
  "accepts cur s w \<longleftrightarrow> conn_state (conn w) \<noteq> kDisconnected \<and> \<not> snd (snd (fst (send_direct cur s w)))"

lemma send_direct_ok:
  assumes "send_direct cur s w = ((nwrote, remaining, fault), w')" "conn_ok w"
  shows "nwrote + remaining = length s" "wire w' = wire w @ take nwrote s" "conn w' = conn w" "conn_ok w'"
    "calls w' = calls w" "content (outputBuffer (conn w)) \<noteq> [] \<Longrightarrow> nwrote = 0" "fault \<Longrightarrow> nwrote = 0"
    "threadId (io_loop w') = threadId (io_loop w)"
    "pendingFunctors (io_loop w') = pendingFunctors (io_loop w) \<or> pendingFunctors (io_loop w') = pendingFunctors (io_loop w) @ [WriteComplete (conn_addr (conn w))]"
proof -
  have net: "net_doc (net_answer w)" and ok: "buf_ok (outputBuffer (conn w))" using assms(2) by (simp_all add: conn_ok_def)
  have "nwrote + remaining = length s \<and> wire w' = wire w @ take nwrote s \<and> conn w' = conn w \<and> conn_ok w' \<and> calls w' = calls w
    \<and> (content (outputBuffer (conn w)) \<noteq> [] \<longrightarrow> nwrote = 0) \<and> (fault \<longrightarrow> nwrote = 0) \<and> threadId (io_loop w') = threadId (io_loop w)
    \<and> (pendingFunctors (io_loop w') = pendingFunctors (io_loop w) \<or> pendingFunctors (io_loop w') = pendingFunctors (io_loop w) @ [WriteComplete (conn_addr (conn w))])"
  proof (cases "\<not> isWriting (conn_channel (conn w)) \<and> readableBytes (outputBuffer (conn w)) = 0")
    case True
    obtain r w1 where sw: "sys_write s w = (r, w1)" by (cases "sys_write s w")
    note f = sys_write_ok [OF sw net]
    have "chan_ok w1" using sys_write_chan [of s w] sw assms(2) by (simp add: conn_ok_def)
    then have "conn_ok w1" using f assms(2) by (simp add: conn_ok_def)
    then have q: "conn_ok w1" "conn_ok (queue_task cur t w1)" for t by (simp_all add: conn_ok_def)
    show ?thesis
    proof (cases r)
      case (Inl e)
      with assms(1) sw True f q show ?thesis by (auto simp: send_direct_def)
    next
      case (Inr n)
      with f(5) [OF Inr] assms(1) sw True f(1-4) q readable_zero [OF ok] show ?thesis
        by (auto simp: send_direct_def Let_def split: if_splits)
    qed
  next
    case False
    with assms show ?thesis by (auto simp: send_direct_def)
  qed
  then show "nwrote + remaining = length s" "wire w' = wire w @ take nwrote s" "conn w' = conn w" "conn_ok w'"
    "calls w' = calls w" "content (outputBuffer (conn w)) \<noteq> [] \<Longrightarrow> nwrote = 0" "fault \<Longrightarrow> nwrote = 0"
    "threadId (io_loop w') = threadId (io_loop w)"
    "pendingFunctors (io_loop w') = pendingFunctors (io_loop w) \<or> pendingFunctors (io_loop w') = pendingFunctors (io_loop w) @ [WriteComplete (conn_addr (conn w))]"
    by blast+
qed

definition quiet_tasks :: "task list \<Rightarrow> bool" where
  "quiet_tasks ts \<longleftrightarrow> list_all (\<lambda>t. case t of WriteComplete _ \<Rightarrow> True | HighWaterMark _ _ \<Rightarrow> True | _ \<Rightarrow> False) ts"

text \<open>The bytes a direct write left over go behind those already waiting.\<close>

definition keep_rest :: "int \<Rightarrow> bytes \<Rightarrow> nat \<Rightarrow> nat \<Rightarrow> 'a conn_world \<Rightarrow> 'a conn_world" where
  "keep_rest cur s n r w =
     (let oldLen = readableBytes (outputBuffer (conn w));
          w = (if oldLen + r \<ge> highWaterMark (conn w) \<and> oldLen < highWaterMark (conn w) \<and> has_highWater (conn w)
               then queue_task cur (HighWaterMark (conn_addr (conn w)) (oldLen + r)) w else w);
          w = w\<lparr>conn := (conn w)\<lparr>outputBuffer := append (take r (drop n s)) (outputBuffer (conn w))\<rparr>\<rparr>
      in if \<not> isWriting (conn_channel (conn w)) then on_channel enableWriting w else w)"

lemma sendInLoop_cases:
  assumes "send_direct cur s w = ((n, r, fault), w1)" "conn_state (conn w) \<noteq> kDisconnected"
  shows "sendInLoop cur s w = (if \<not> fault \<and> r > 0 then keep_rest cur s n r w1 else w1)"
  using assms(2) unfolding sendInLoop_def assms(1) keep_rest_def by (simp only: Let_def prod.case if_False)

lemma keep_rest_ok:
  fixes w :: "'a conn_world" and cur :: int
  assumes "conn_ok w" "n + r = length s" "0 < r"
  defines "w' \<equiv> keep_rest cur s n r w"
  shows "conn_ok w'" "wire w' = wire w" "out_pending w' = out_pending w @ drop n s" "conn_state (conn w') = conn_state (conn w)"
    "calls w' = calls w" "threadId (io_loop w') = threadId (io_loop w)"
    "\<exists>ts. pendingFunctors (io_loop w') = pendingFunctors (io_loop w) @ ts \<and> quiet_tasks ts"
proof -
  define w2 where "w2 = (let oldLen = readableBytes (outputBuffer (conn w)) in
    if oldLen + r \<ge> highWaterMark (conn w) \<and> oldLen < highWaterMark (conn w) \<and> has_highWater (conn w)
    then queue_task cur (HighWaterMark (conn_addr (conn w)) (oldLen + r)) w else w)"
  define w3 where "w3 = w2\<lparr>conn := (conn w2)\<lparr>outputBuffer := append (take r (drop n s)) (outputBuffer (conn w2))\<rparr>\<rparr>"
  have w': "w' = (if \<not> isWriting (conn_channel (conn w3)) then on_channel enableWriting w3 else w3)"
    by (simp add: w'_def keep_rest_def w2_def w3_def Let_def)
  have c2: "conn w2 = conn w" "wire w2 = wire w" "calls w2 = calls w" "threadId (io_loop w2) = threadId (io_loop w)"
    "chan_ok w2" "net_answer w2 = net_answer w"
    using assms(1) by (simp_all add: w2_def Let_def conn_ok_def)
  have p2: "\<exists>ts. pendingFunctors (io_loop w2) = pendingFunctors (io_loop w) @ ts \<and> quiet_tasks ts"
    by (auto simp: w2_def Let_def quiet_tasks_def)
  have rest: "take r (drop n s) = drop n s" "drop n s \<noteq> []" using assms(2,3) by auto
  have "chan_ok w3" using c2(5) by (simp add: w3_def)
  then have c3: "chan_ok w3" "buf_ok (outputBuffer (conn w3))" "content (outputBuffer (conn w3)) = out_pending w @ drop n s"
    "conn_state (conn w3) = conn_state (conn w)" "wire w3 = wire w" "calls w3 = calls w" "net_doc (net_answer w3)"
    "io_loop w3 = io_loop w2"
    using c2 assms(1) by (simp_all add: w3_def rest(1) buf_simps out_pending_def conn_ok_def)
  have fin: "chan_ok w'" "isWriting (conn_channel (conn w'))" "outputBuffer (conn w') = outputBuffer (conn w3)"
    "conn_state (conn w') = conn_state (conn w3)" "wire w' = wire w3" "calls w' = calls w3" "net_answer w' = net_answer w3"
    "pendingFunctors (io_loop w') = pendingFunctors (io_loop w3)" "threadId (io_loop w') = threadId (io_loop w3)"
    using c3(1) enableWriting_ok [OF c3(1)] by (simp_all add: w')
  show "conn_ok w'" using fin c3 rest(2) by (simp add: conn_ok_def)
  show "wire w' = wire w" "out_pending w' = out_pending w @ drop n s" "conn_state (conn w') = conn_state (conn w)"
    "calls w' = calls w" "threadId (io_loop w') = threadId (io_loop w)"
    "\<exists>ts. pendingFunctors (io_loop w') = pendingFunctors (io_loop w) @ ts \<and> quiet_tasks ts"
    using fin c3 c2(4) p2 by (simp_all add: out_pending_def)
qed

lemma sendInLoop_ok:
  fixes w :: "'a conn_world" and s :: bytes and cur :: int
  assumes "conn_ok w"
  defines "w' \<equiv> sendInLoop cur s w"
  shows "conn_ok w'" "wire w' @ out_pending w' = wire w @ out_pending w @ (if accepts cur s w then s else [])"
    "conn_state (conn w') = conn_state (conn w)" "calls w' = calls w" "threadId (io_loop w') = threadId (io_loop w)"
    "\<exists>ts. pendingFunctors (io_loop w') = pendingFunctors (io_loop w) @ ts \<and> quiet_tasks ts"
proof -
  obtain n r fault w1 where sd: "send_direct cur s w = ((n, r, fault), w1)" by (metis surj_pair)
  note f = send_direct_ok [OF sd assms(1)]
  obtain ts where ts: "pendingFunctors (io_loop w1) = pendingFunctors (io_loop w) @ ts" "quiet_tasks ts"
    using f(9) by (auto simp: quiet_tasks_def)
  have ord: "take n s @ out_pending w = out_pending w @ take n s"
    using f(6) by (cases "content (outputBuffer (conn w)) = []") (simp_all add: out_pending_def)
  consider (down) "conn_state (conn w) = kDisconnected"
    | (all) "conn_state (conn w) \<noteq> kDisconnected" "\<not> (\<not> fault \<and> 0 < r)"
    | (rest) "conn_state (conn w) \<noteq> kDisconnected" "\<not> fault" "0 < r" by blast
  then have "conn_ok w' \<and> wire w' @ out_pending w' = wire w @ out_pending w @ (if accepts cur s w then s else [])
    \<and> conn_state (conn w') = conn_state (conn w) \<and> calls w' = calls w \<and> threadId (io_loop w') = threadId (io_loop w)
    \<and> (\<exists>ts. pendingFunctors (io_loop w') = pendingFunctors (io_loop w) @ ts \<and> quiet_tasks ts)"
  proof cases
    case down
    then show ?thesis using assms(1) by (simp add: w'_def sendInLoop_def accepts_def quiet_tasks_def)
  next
    case all
    have w': "w' = w1" unfolding w'_def sendInLoop_cases [OF sd all(1)] using all(2) by (rule if_not_P)
    have "(if accepts cur s w then s else []) = take n s" using all f(1,7) sd by (auto simp: accepts_def)
    with f ts ord show ?thesis by (simp add: w' out_pending_def)
  next
    case rest
    have w': "w' = keep_rest cur s n r w1" unfolding w'_def sendInLoop_cases [OF sd rest(1)] using rest(2,3) by simp
    note k = keep_rest_ok [OF f(4,1) rest(3), of cur, folded w']
    have "accepts cur s w" using rest sd by (simp add: accepts_def)
    moreover have "out_pending w1 = out_pending w" using f(3) by (simp add: out_pending_def)
    moreover have "wire w @ take n s @ out_pending w @ drop n s = wire w @ out_pending w @ s"
      using ord by (metis append.assoc append_take_drop_id)
    ultimately show ?thesis using k f ts by (auto simp: quiet_tasks_def)
  qed
  then show "conn_ok w'" "wire w' @ out_pending w' = wire w @ out_pending w @ (if accepts cur s w then s else [])"
    "conn_state (conn w') = conn_state (conn w)" "calls w' = calls w" "threadId (io_loop w') = threadId (io_loop w)"
    "\<exists>ts. pendingFunctors (io_loop w') = pendingFunctors (io_loop w) @ ts \<and> quiet_tasks ts"
    by blast+
qed

subsection \<open>Half-close, flow control and writability\<close>

lemma setState_ok: "conn_ok w \<Longrightarrow> conn_state (conn w) \<noteq> kDisconnected \<Longrightarrow> conn_ok (setState st w)"
  by (simp add: setState_def conn_ok_def)

lemma setState_frame [simp]:
  "wire (setState st w) = wire w" "calls (setState st w) = calls w" "io_loop (setState st w) = io_loop w"
  "conn_state (conn (setState st w)) = st" "outputBuffer (conn (setState st w)) = outputBuffer (conn w)"
  "conn_channel (conn (setState st w)) = conn_channel (conn w)" "sock_fd (conn (setState st w)) = sock_fd (conn w)"
  "chan_ok (setState st w) = chan_ok w" "reading (conn (setState st w)) = reading (conn w)"
  "conn_addr (conn (setState st w)) = conn_addr (conn w)" "net_answer (setState st w) = net_answer w"
  by (simp_all add: setState_def)

lemma queue_task_ok: "conn_ok w \<Longrightarrow> conn_ok (queue_task cur t w)"
  by (simp add: conn_ok_def)

lemma shutdownInLoop_ok: "conn_ok w \<Longrightarrow> conn_ok (shutdownInLoop w)"
  by (auto simp: shutdownInLoop_def conn_ok_def)

lemma shutdownInLoop_frame [simp]:
  "conn (shutdownInLoop w) = conn w" "io_loop (shutdownInLoop w) = io_loop w" "wire (shutdownInLoop w) = wire w"
  "calls (shutdownInLoop w) = calls w @ (if isWriting (conn_channel (conn w)) then [] else [SysShutdownWr (sock_fd (conn w))])"
  by (simp_all add: shutdownInLoop_def shutdownWrite_def)

lemma stopReadInLoop_ok:
  assumes "conn_ok w"
  shows "conn_ok (stopReadInLoop w)" "wire (stopReadInLoop w) = wire w" "calls (stopReadInLoop w) = calls w"
    "out_pending (stopReadInLoop w) = out_pending w" "conn_state (conn (stopReadInLoop w)) = conn_state (conn w)"
    "pendingFunctors (io_loop (stopReadInLoop w)) = pendingFunctors (io_loop w)" "threadId (io_loop (stopReadInLoop w)) = threadId (io_loop w)"
proof -
  let ?w = "w\<lparr>conn := (conn w)\<lparr>reading := False\<rparr>\<rparr>"
  have "chan_ok ?w" using assms by (simp add: conn_ok_def)
  from disableReading_ok [OF this] assms
  show "conn_ok (stopReadInLoop w)" "wire (stopReadInLoop w) = wire w" "calls (stopReadInLoop w) = calls w"
    "out_pending (stopReadInLoop w) = out_pending w" "conn_state (conn (stopReadInLoop w)) = conn_state (conn w)"
    "pendingFunctors (io_loop (stopReadInLoop w)) = pendingFunctors (io_loop w)" "threadId (io_loop (stopReadInLoop w)) = threadId (io_loop w)"
    by (simp_all add: stopReadInLoop_def conn_ok_def out_pending_def)
qed

text \<open>After a write of \<open>n > 0\<close> bytes, and after the buffer ran empty.\<close>

lemma written_ok:
  fixes w :: "'a conn_world"
  assumes "sys_write (content (outputBuffer (conn w))) w = (Inr n, w1)" "conn_ok w" "isWriting (conn_channel (conn w))"
  defines "w2 \<equiv> w1\<lparr>conn := (conn w1)\<lparr>outputBuffer := retrieve n (outputBuffer (conn w1))\<rparr>\<rparr>"
  shows "chan_ok w2" "buf_ok (outputBuffer (conn w2))" "out_pending w2 = drop n (out_pending w)"
    "wire w2 = wire w @ take n (out_pending w)" "conn_state (conn w2) = conn_state (conn w)" "io_loop w2 = io_loop w" "calls w2 = calls w"
    "net_answer w2 = net_answer w" "isWriting (conn_channel (conn w2))"
proof -
  have net: "net_doc (net_answer w)" and bo: "buf_ok (outputBuffer (conn w))" using assms(2) by (simp_all add: conn_ok_def)
  note f = sys_write_ok [OF assms(1) net]
  have "chan_ok w1" using sys_write_chan [of "content (outputBuffer (conn w))" w] assms(1,2) by (simp add: conn_ok_def)
  then show "chan_ok w2" by (simp add: w2_def)
  show "buf_ok (outputBuffer (conn w2))" "out_pending w2 = drop n (out_pending w)"
    "wire w2 = wire w @ take n (out_pending w)" "conn_state (conn w2) = conn_state (conn w)" "io_loop w2 = io_loop w" "calls w2 = calls w"
    "net_answer w2 = net_answer w" "isWriting (conn_channel (conn w2))"
    using f assms(3) bo by (simp_all add: w2_def buf_simps out_pending_def)
qed

lemma drained_ok:
  fixes w :: "'a conn_world" and cur :: int
  assumes "chan_ok w" "buf_ok (outputBuffer (conn w))" "out_pending w = []" "net_doc (net_answer w)"
  defines "w' \<equiv> (let w = on_channel disableWriting w in
      if has_writeComplete (conn w) then queue_task cur (WriteComplete (conn_addr (conn w))) w else w)"
  shows "conn_ok w'" "wire w' = wire w" "out_pending w' = []" "conn_state (conn w') = conn_state (conn w)" "calls w' = calls w"
    "threadId (io_loop w') = threadId (io_loop w)" "\<not> isWriting (conn_channel (conn w'))"
    "\<exists>ts. pendingFunctors (io_loop w') = pendingFunctors (io_loop w) @ ts \<and> quiet_tasks ts"
  using disableWriting_ok [OF assms(1)] assms(2-4) by (auto simp: w'_def conn_ok_def out_pending_def quiet_tasks_def Let_def)

lemma handleWrite_ok:
  fixes w :: "'a conn_world" and cur :: int
  assumes "conn_ok w"
  defines "w' \<equiv> handleWrite cur w"
  shows "conn_ok w'" "wire w' @ out_pending w' = wire w @ out_pending w" "conn_state (conn w') = conn_state (conn w)"
    "threadId (io_loop w') = threadId (io_loop w)"
    "\<exists>ts. pendingFunctors (io_loop w') = pendingFunctors (io_loop w) @ ts \<and> quiet_tasks ts"
    "calls w' = calls w \<or> conn_state (conn w) = kDisconnecting \<and> out_pending w' = [] \<and> isWriting (conn_channel (conn w))
       \<and> calls w' = calls w @ [SysShutdownWr (sock_fd (conn w'))]"
    "\<not> isWriting (conn_channel (conn w)) \<Longrightarrow> w' = w"
proof -
  let ?T = "conn_ok w' \<and> wire w' @ out_pending w' = wire w @ out_pending w \<and> conn_state (conn w') = conn_state (conn w)
    \<and> threadId (io_loop w') = threadId (io_loop w) \<and> (\<exists>ts. pendingFunctors (io_loop w') = pendingFunctors (io_loop w) @ ts \<and> quiet_tasks ts)
    \<and> (calls w' = calls w \<or> conn_state (conn w) = kDisconnecting \<and> out_pending w' = [] \<and> isWriting (conn_channel (conn w))
       \<and> calls w' = calls w @ [SysShutdownWr (sock_fd (conn w'))])"
  have net: "net_doc (net_answer w)" using assms(1) by (simp add: conn_ok_def)
  obtain r w1 where sw: "sys_write (content (outputBuffer (conn w))) w = (r, w1)" by (metis surj_pair)
  note f = sys_write_ok [OF sw net]
  have ok1: "conn_ok w1" using sys_write_chan [of "content (outputBuffer (conn w))" w] sw f assms(1) by (simp add: conn_ok_def)
  consider (idle) "\<not> isWriting (conn_channel (conn w))" | (err) e where "isWriting (conn_channel (conn w))" "r = Inl e"
    | (wrote) n where "isWriting (conn_channel (conn w))" "r = Inr n" by (cases r) auto
  then have ?T
  proof cases
    case idle
    then show ?thesis using assms(1) by (simp add: w'_def handleWrite_def quiet_tasks_def)
  next
    case err
    then show ?thesis using sw f ok1 by (simp add: w'_def handleWrite_def out_pending_def quiet_tasks_def)
  next
    case (wrote n)
    define w2 where "w2 = w1\<lparr>conn := (conn w1)\<lparr>outputBuffer := retrieve n (outputBuffer (conn w1))\<rparr>\<rparr>"
    note c2 = written_ok [OF sw [unfolded wrote(2)] assms(1) wrote(1), folded w2_def]
    show ?thesis
    proof (cases "0 < n \<and> readableBytes (outputBuffer (conn w2)) = 0")
      case False
      then have w': "w' = (if 0 < n then w2 else w1)"
        using wrote by (cases "0 < n") (simp_all add: w'_def handleWrite_def sw w2_def Let_def)
      have "0 < n \<Longrightarrow> out_pending w2 \<noteq> []" using False readable_zero [OF c2(2)] by (simp add: out_pending_def)
      then show ?thesis using c2 ok1 f wrote(2) net
        by (cases "0 < n") (simp_all add: w' conn_ok_def out_pending_def quiet_tasks_def)
    next
      case True
      then have e: "out_pending w2 = []" using readable_zero [OF c2(2)] by (simp add: out_pending_def)
      define w4 where "w4 = (let w = on_channel disableWriting w2 in
        if has_writeComplete (conn w) then queue_task cur (WriteComplete (conn_addr (conn w))) w else w)"
      have "net_doc (net_answer w2)" using net c2(8) by simp
      note c4 = drained_ok [OF c2(1,2) e this, of cur, folded w4_def]
      have w': "w' = (if conn_state (conn w4) = kDisconnecting then shutdownInLoop w4 else w4)"
        using wrote sw True by (simp add: w'_def handleWrite_def w2_def w4_def Let_def)
      have "wire w2 = wire w @ out_pending w" using c2(3,4) e by simp
      with c4 c2 wrote(1) shutdownInLoop_ok [OF c4(1)] show ?thesis by (simp add: w' out_pending_def)
    qed
  qed
  then show "conn_ok w'" "wire w' @ out_pending w' = wire w @ out_pending w" "conn_state (conn w') = conn_state (conn w)"
    "threadId (io_loop w') = threadId (io_loop w)"
    "\<exists>ts. pendingFunctors (io_loop w') = pendingFunctors (io_loop w) @ ts \<and> quiet_tasks ts"
    "calls w' = calls w \<or> conn_state (conn w) = kDisconnecting \<and> out_pending w' = [] \<and> isWriting (conn_channel (conn w))
       \<and> calls w' = calls w @ [SysShutdownWr (sock_fd (conn w'))]"
    by blast+
  show "\<not> isWriting (conn_channel (conn w)) \<Longrightarrow> w' = w" by (simp add: w'_def handleWrite_def)
qed

subsection \<open>Runs of a connection\<close>

text \<open>
  What can happen to an established connection: calls of the user from any thread, the socket becoming
  writable, and the loop running its next functor.
\<close>

datatype conn_op = Send int bytes | Shutdown int | StopRead int | EventWritable | RunNext

definition no_callbacks :: "'a conn_callbacks" where
  "no_callbacks = \<lparr>connectionCallback = id, messageCallback = (\<lambda>t. id), connCloseCallback = id\<rparr>"

definition pop_task :: "'a conn_world \<Rightarrow> 'a conn_world" where
  "pop_task w = w\<lparr>io_loop := (io_loop w)\<lparr>pendingFunctors := tl (pendingFunctors (io_loop w))\<rparr>\<rparr>"

fun conn_do :: "conn_op \<Rightarrow> 'a conn_world \<Rightarrow> 'a conn_world" where
  "conn_do (Send cur s) w = send cur s w"
| "conn_do (Shutdown cur) w = shutdown cur w"
| "conn_do (StopRead cur) w = stopRead cur w"
| "conn_do EventWritable w = handleWrite (threadId (io_loop w)) w"
| "conn_do RunNext w =
     (case pendingFunctors (io_loop w) of
        [] \<Rightarrow> w
      | t # ts \<Rightarrow> run_task no_callbacks (threadId (io_loop w)) t (pop_task w))"

text \<open>The bytes the operation makes the connection responsible for.\<close>

fun conn_taken :: "conn_op \<Rightarrow> 'a conn_world \<Rightarrow> bytes" where
  "conn_taken (Send cur s) w =
     (if conn_state (conn w) = kConnected \<and> isInLoopThread cur (io_loop w) \<and> accepts cur s w then s else [])"
| "conn_taken RunNext w =
     (case pendingFunctors (io_loop w) of
        SendInLoop a s # ts \<Rightarrow> (if accepts (threadId (io_loop w)) s (pop_task w) then s else [])
      | _ \<Rightarrow> [])"
| "conn_taken _ w = []"

fun conn_run :: "conn_op list \<Rightarrow> 'a conn_world \<Rightarrow> bytes \<times> 'a conn_world" where
  "conn_run [] w = ([], w)"
| "conn_run (op # ops) w = (let (s, w') = conn_run ops (conn_do op w) in (conn_taken op w @ s, w'))"

text \<open>The functors such runs queue.\<close>

definition plain_tasks :: "task list \<Rightarrow> bool" where
  "plain_tasks ts \<longleftrightarrow> list_all (\<lambda>t. case t of SendInLoop _ _ \<Rightarrow> True | ShutdownInLoop _ \<Rightarrow> True | StopReadInLoop _ \<Rightarrow> True
      | WriteComplete _ \<Rightarrow> True | HighWaterMark _ _ \<Rightarrow> True | _ \<Rightarrow> False) ts"

definition run_ok :: "'a conn_world \<Rightarrow> bool" where
  "run_ok w \<longleftrightarrow> conn_ok w \<and> plain_tasks (pendingFunctors (io_loop w))"

lemma quiet_plain: "quiet_tasks ts \<Longrightarrow> plain_tasks ts"
  unfolding quiet_tasks_def plain_tasks_def by (induction ts) (auto split: task.splits)

lemma plain_append [simp]: "plain_tasks (xs @ ys) \<longleftrightarrow> plain_tasks xs \<and> plain_tasks ys"
  by (simp add: plain_tasks_def)

lemma pop_task_frame [simp]:
  "conn (pop_task w) = conn w" "wire (pop_task w) = wire w" "calls (pop_task w) = calls w" "net_answer (pop_task w) = net_answer w"
  "pendingFunctors (io_loop (pop_task w)) = tl (pendingFunctors (io_loop w))" "threadId (io_loop (pop_task w)) = threadId (io_loop w)"
  "out_pending (pop_task w) = out_pending w" "chan_ok (pop_task w) = chan_ok w" "conn_ok (pop_task w) = conn_ok w"
  by (simp_all add: pop_task_def out_pending_def chan_ok_def conn_ok_def)

lemma plain_tl: "plain_tasks ts \<Longrightarrow> plain_tasks (tl ts)"
  unfolding plain_tasks_def by (cases ts) simp_all

lemma run_ok_sendInLoop: "run_ok w \<Longrightarrow> run_ok (sendInLoop cur s w)"
  using sendInLoop_ok(1,6) [of w cur s] quiet_plain by (auto simp: run_ok_def)

lemma conn_do_send:
  assumes "run_ok w"
  shows "run_ok (send cur s w)" "wire (send cur s w) @ out_pending (send cur s w) = wire w @ out_pending w @ conn_taken (Send cur s) w"
  using assms sendInLoop_ok(2) [of w cur s] run_ok_sendInLoop
  by (auto simp: send_def run_ok_def queue_task_ok out_pending_def plain_tasks_def)

lemma conn_do_next:
  assumes "run_ok w"
  shows "run_ok (conn_do RunNext w)"
    "wire (conn_do RunNext w) @ out_pending (conn_do RunNext w) = wire w @ out_pending w @ conn_taken RunNext w"
proof -
  have "run_ok (conn_do RunNext w) \<and> wire (conn_do RunNext w) @ out_pending (conn_do RunNext w) = wire w @ out_pending w @ conn_taken RunNext w"
  proof (cases "pendingFunctors (io_loop w)")
    case Nil
    then show ?thesis using assms by simp
  next
    case (Cons t ts)
    let ?w = "pop_task w"
    have ok: "run_ok ?w" using assms plain_tl by (auto simp: run_ok_def)
    then have c: "conn_ok ?w" by (simp add: run_ok_def)
    have "plain_tasks [t]" using assms Cons by (simp add: run_ok_def plain_tasks_def)
    then show ?thesis
      using Cons ok sendInLoop_ok(2) [OF c] run_ok_sendInLoop [OF ok] shutdownInLoop_ok [OF c] stopReadInLoop_ok [OF c]
      by (cases t) (simp_all add: run_ok_def plain_tasks_def, simp_all add: out_pending_def)
  qed
  then show "run_ok (conn_do RunNext w)"
    "wire (conn_do RunNext w) @ out_pending (conn_do RunNext w) = wire w @ out_pending w @ conn_taken RunNext w" by blast+
qed

lemma conn_do_ok:
  assumes "run_ok w"
  shows "run_ok (conn_do op w) \<and> wire (conn_do op w) @ out_pending (conn_do op w) = wire w @ out_pending w @ conn_taken op w"
proof (cases op)
  case (Send cur s)
  then show ?thesis using conn_do_send [OF assms] by simp
next
  case (Shutdown cur)
  with assms show ?thesis
    by (auto simp: shutdown_def run_ok_def setState_ok shutdownInLoop_ok queue_task_ok out_pending_def plain_tasks_def Let_def)
next
  case (StopRead cur)
  with assms stopReadInLoop_ok [of w] show ?thesis
    by (auto simp: stopRead_def run_ok_def queue_task_ok out_pending_def plain_tasks_def)
next
  case EventWritable
  have "conn_ok w" using assms by (simp add: run_ok_def)
  from handleWrite_ok(1,2,5) [OF this, of "threadId (io_loop w)"] assms EventWritable quiet_plain show ?thesis
    by (auto simp: run_ok_def)
next
  case RunNext
  then show ?thesis using conn_do_next [OF assms] by simp
qed

lemma conn_run_ok:
  "run_ok w \<Longrightarrow> conn_run ops w = (s, w') \<Longrightarrow> run_ok w' \<and> wire w' @ out_pending w' = wire w @ out_pending w @ s"
proof (induction ops arbitrary: w s)
  case (Cons op ops)
  obtain s1 where s1: "conn_run ops (conn_do op w) = (s1, w')" "s = conn_taken op w @ s1"
    using Cons.prems(2) by (auto split: prod.splits)
  from conn_do_ok [OF Cons.prems(1), of op] Cons.IH [OF _ s1(1)] s1(2) show ?case by (metis append_assoc)
qed simp

subsection \<open>Establishing a connection\<close>

text \<open>A new connection in its loop, before \<open>connectEstablished\<close>.\<close>

definition fresh_world :: "'a conn_world \<Rightarrow> bool" where
  "fresh_world w \<longleftrightarrow> (\<exists>addr chaddr nm fd loc peer tr. (conn w, calls w) = tcp_connection_new addr chaddr nm fd loc peer tr
       \<and> (\<forall>fd. SysShutdownWr fd \<notin> set tr))
     \<and> poller_ok (loop_poller (io_loop w)) \<and> registered (conn_channel (conn w)) (loop_poller (io_loop w))
     \<and> wire w = [] \<and> net_doc (net_answer w) \<and> plain_tasks (pendingFunctors (io_loop w))"

lemma registered_tie: "registered (tie a c) p = registered c p" "ch_events (tie a c) = ch_events c"
  by (simp_all add: registered_def tie_def)

lemma established_ok:
  assumes "fresh_world w"
  defines "w' \<equiv> connectEstablished no_callbacks w"
  shows "run_ok w'" "wire w' = []" "out_pending w' = []" "conn_state (conn w') = kConnected" "calls w' = calls w"
    "sock_fd (conn w') = sock_fd (conn w)" "threadId (io_loop w') = threadId (io_loop w)"
    "pendingFunctors (io_loop w') = pendingFunctors (io_loop w)"
proof -
  obtain addr chaddr nm fd loc peer tr where n: "(conn w, calls w) = tcp_connection_new addr chaddr nm fd loc peer tr"
    using assms(1) unfolding fresh_world_def by blast
  have f: "poller_ok (loop_poller (io_loop w))" "registered (conn_channel (conn w)) (loop_poller (io_loop w))"
    "wire w = []" "net_doc (net_answer w)" "plain_tasks (pendingFunctors (io_loop w))"
    using assms(1) by (simp_all add: fresh_world_def)
  let ?w1 = "on_channel (\<lambda>ch p. (tie (conn_addr (conn (setState kConnected w))) ch, p)) (setState kConnected w)"
  have ch: "chan_ok ?w1" "ch_events (conn_channel (conn ?w1)) = 0"
    using f n
    by (auto simp: chan_ok_def on_channel_def registered_tie tcp_connection_new_def channel_new_def mask_ok_def Let_def split_beta)
  have nw: "\<not> isWriting (conn_channel (conn ?w1))" using ch(2) by (simp add: isWriting_writes mask_none)
  have w': "w' = on_channel enableReading ?w1" by (simp add: w'_def connectEstablished_def no_callbacks_def Let_def)
  have st: "conn_state (conn w') = kConnected" "calls w' = calls w" "wire w' = []" "outputBuffer (conn w') = buffer_new kInitialSize"
    "net_doc (net_answer w')" "plain_tasks (pendingFunctors (io_loop w'))" "pendingFunctors (io_loop w') = pendingFunctors (io_loop w)"
    using f n by (auto simp: w' tcp_connection_new_def)
  then show "run_ok w'" "wire w' = []" "out_pending w' = []" "conn_state (conn w') = kConnected" "calls w' = calls w"
    "sock_fd (conn w') = sock_fd (conn w)" "threadId (io_loop w') = threadId (io_loop w)"
    "pendingFunctors (io_loop w') = pendingFunctors (io_loop w)"
    using enableReading_ok [OF ch(1)] nw
    by (simp_all add: run_ok_def conn_ok_def out_pending_def) (simp_all add: w')
qed

text \<open>
  Property C1. The bytes of a connection are a stream: from the moment the connection is established, whatever
  sequence of sends, half-closes and read stops from whatever threads, of writability events and of functor
  runs happens, and however the kernel cuts or refuses the writes, the bytes handed to the kernel
  followed by the bytes in the output buffer are exactly the messages taken on, in order; and as long as the
  connection is not down, the channel waits for writability exactly when the output buffer is not empty.
\<close>

theorem connection_stream:
  assumes "fresh_world w" "conn_run ops (connectEstablished no_callbacks w) = (taken, w')"
  shows "wire w' @ content (outputBuffer (conn w')) = taken
    \<and> (conn_state (conn w') \<noteq> kDisconnected \<longrightarrow>
         isWriting (conn_channel (conn w')) = (content (outputBuffer (conn w')) \<noteq> []))"
proof -
  note e = established_ok [OF assms(1)]
  from conn_run_ok [OF e(1) assms(2)] e(2,3) show ?thesis
    by (simp add: run_ok_def conn_ok_def out_pending_def)
qed

text \<open>A connection on descriptor 7 of a loop in thread 1, with a kernel that takes two bytes per write.\<close>

definition sample_loop :: "task event_loop" where
  "sample_loop = (case event_loop_new False False 1 3 50 acceptable of Inr l \<Rightarrow> l | Inl e \<Rightarrow> undefined)"

definition sample_world :: "bool list conn_world" where
  "sample_world = (let (c, tr) = tcp_connection_new 100 200 ''c'' 7 bzero_addr bzero_addr []
     in \<lparr>conn = c, io_loop = sample_loop, wire = [], calls = tr, net_answer = (\<lambda>k n. Inr (min 2 n)), net_count = 0\<rparr>)"

lemma sample_loop_eq:
  "sample_loop = (let (ch, p) = enableReading (channel_new 50 3) (epoll_poller_new acceptable)
     in \<lparr>looping = False, quit_flag = False, threadId = 1, pollReturnTime = timestamp_default,
         loop_poller = p, timerQueue_set = False, wakeupFd = 3, wakeupChannel = ch,
         activeChannels = [], callingPendingFunctors = False, pendingFunctors = [], wakeups = 0\<rparr>)"
  by (simp add: sample_loop_def event_loop_new_def createEventfd_def newDefaultPoller_def split_beta Let_def)

lemma sample_fresh: "fresh_world sample_world" "threadId (io_loop sample_world) = 1"
proof -
  let ?p = "epoll_poller_new acceptable"
  have d: "epoll_doc acceptable" by (simp add: epoll_doc_def)
  have l: "enableReading (channel_new 50 3) ?p = updateChannel (with_events kReadEvent (channel_new 50 3)) ?p"
    by (simp add: enableReading_def with_events_def channel_new_def)
  have r: "registered (channel_new 50 3) ?p" "registered (channel_new 200 7) ?p" by (rule registered_new)+
  have "poller_ok (loop_poller sample_loop)"
    using updateChannel_ok(1) [OF poller_ok_new [OF d] r(1), where w = kReadEvent]
    by (simp add: sample_loop_eq split_beta l Let_def)
  moreover have "registered (channel_new 200 7) (loop_poller sample_loop)"
    using updateChannel_frame [OF r(2), where c = "channel_new 50 3" and w = kReadEvent]
    by (simp add: sample_loop_eq split_beta l Let_def) (simp add: apart_def channel_new_def)
  ultimately show "fresh_world sample_world" "threadId (io_loop sample_world) = 1"
    unfolding fresh_world_def
    by (auto simp: sample_world_def tcp_connection_new_def net_doc_def plain_tasks_def sample_loop_eq split_beta Let_def
        intro!: exI [of _ "[]"])
qed

lemma connection_stream_witness:
  "\<exists>taken w'. conn_run [Send 1 ''abc'', EventWritable, Send 2 ''de'', RunNext] (connectEstablished no_callbacks sample_world) = (taken, w')
     \<and> wire w' @ content (outputBuffer (conn w')) = taken"
proof -
  obtain taken w' where r: "conn_run [Send 1 ''abc'', EventWritable, Send 2 ''de'', RunNext] (connectEstablished no_callbacks sample_world) = (taken, w')"
    by (rule prod.exhaust)
  with connection_stream [OF sample_fresh(1) r] show ?thesis by blast
qed

subsection \<open>The FIN\<close>

definition no_sends :: "task list \<Rightarrow> bool" where
  "no_sends ts \<longleftrightarrow> list_all (\<lambda>t. case t of SendInLoop _ _ \<Rightarrow> False | _ \<Rightarrow> True) ts"

definition no_shut :: "task list \<Rightarrow> bool" where
  "no_shut ts \<longleftrightarrow> list_all (\<lambda>t. case t of ShutdownInLoop _ \<Rightarrow> False | _ \<Rightarrow> True) ts"

definition fin_sent :: "'a conn_world \<Rightarrow> bool" where
  "fin_sent w \<longleftrightarrow> (\<exists>fd. SysShutdownWr fd \<in> set (calls w))"

definition fin_ok :: "'a conn_world \<Rightarrow> bool" where
  "fin_ok w \<longleftrightarrow> run_ok w \<and> no_sends (pendingFunctors (io_loop w)) \<and> conn_state (conn w) \<noteq> kDisconnected
     \<and> (conn_state (conn w) = kConnected \<longrightarrow> no_shut (pendingFunctors (io_loop w)))
     \<and> (fin_sent w \<longrightarrow> conn_state (conn w) \<noteq> kConnected \<and> out_pending w = [])"

text \<open>The sends of a run come from the loop's own thread.\<close>

definition loop_sends :: "int \<Rightarrow> conn_op list \<Rightarrow> bool" where
  "loop_sends t ops \<longleftrightarrow> list_all (\<lambda>op. case op of Send cur _ \<Rightarrow> cur = t | _ \<Rightarrow> True) ops"

lemma no_sends_append [simp]: "no_sends (xs @ ys) \<longleftrightarrow> no_sends xs \<and> no_sends ys"
  by (simp add: no_sends_def)

lemma no_shut_append [simp]: "no_shut (xs @ ys) \<longleftrightarrow> no_shut xs \<and> no_shut ys"
  by (simp add: no_shut_def)

lemma quiet_no_sends: "quiet_tasks ts \<Longrightarrow> no_sends ts \<and> no_shut ts"
  unfolding quiet_tasks_def no_sends_def no_shut_def by (induction ts) (auto split: task.splits)

lemma no_sends_single [simp]: "no_sends [ShutdownInLoop a]" "no_sends [StopReadInLoop a]" "no_sends []" "no_shut [StopReadInLoop a]" "no_shut []"
  by (simp_all add: no_sends_def no_shut_def)

lemma out_pending_eq: "outputBuffer (conn w) = outputBuffer (conn w') \<Longrightarrow> out_pending w = out_pending w'"
  by (simp add: out_pending_def)

lemma fin_sent_calls: "calls w = calls w' \<Longrightarrow> fin_sent w = fin_sent w'"
  by (simp add: fin_sent_def)

lemma conn_ok_idle: "conn_ok w \<Longrightarrow> conn_state (conn w) \<noteq> kDisconnected \<Longrightarrow> isWriting (conn_channel (conn w)) = (out_pending w \<noteq> [])"
  by (simp add: conn_ok_def out_pending_def)

lemma fin_shutdownInLoop:
  assumes "fin_ok w" "conn_state (conn w) \<noteq> kConnected"
  shows "fin_ok (shutdownInLoop w)"
proof -
  have c: "conn_ok w" "conn_state (conn w) \<noteq> kDisconnected" using assms(1) by (simp_all add: fin_ok_def run_ok_def)
  have "out_pending (shutdownInLoop w) = out_pending w" by (rule out_pending_eq) simp
  then show ?thesis using assms shutdownInLoop_ok [OF c(1)] conn_ok_idle [OF c]
    by (auto simp: fin_ok_def run_ok_def fin_sent_def split: if_splits)
qed

lemma fin_stopReadInLoop: "fin_ok w \<Longrightarrow> fin_ok (stopReadInLoop w)"
  using stopReadInLoop_ok [of w] by (simp add: fin_ok_def run_ok_def fin_sent_def)

lemma fin_do_send:
  assumes "fin_ok w" "isInLoopThread cur (io_loop w)"
  shows "fin_ok (conn_do (Send cur s) w) \<and> threadId (io_loop (conn_do (Send cur s) w)) = threadId (io_loop w)
    \<and> (fin_sent w \<longrightarrow> conn_taken (Send cur s) w = [] \<and> fin_sent (conn_do (Send cur s) w))"
proof (cases "conn_state (conn w) = kConnected")
  case True
  have c: "conn_ok w" "conn_state (conn w) \<noteq> kDisconnected" "run_ok w" "no_sends (pendingFunctors (io_loop w))"
    using assms(1) by (simp_all add: fin_ok_def run_ok_def)
  have nf: "\<not> fin_sent w" "no_shut (pendingFunctors (io_loop w))" using True assms(1) by (simp_all add: fin_ok_def)
  note f = sendInLoop_ok [OF c(1), of cur s]
  have "\<not> fin_sent (sendInLoop cur s w)" using nf fin_sent_calls [OF f(4)] by simp
  with True assms(2) nf f c run_ok_sendInLoop [OF c(3)] quiet_no_sends show ?thesis
    by (auto simp: send_def fin_ok_def)
next
  case False
  with assms(1) show ?thesis by (simp add: send_def)
qed

lemma fin_do_shutdown:
  assumes "fin_ok w"
  shows "fin_ok (conn_do (Shutdown cur) w) \<and> threadId (io_loop (conn_do (Shutdown cur) w)) = threadId (io_loop w)
    \<and> (fin_sent w \<longrightarrow> conn_taken (Shutdown cur) w = [] \<and> fin_sent (conn_do (Shutdown cur) w))"
proof (cases "conn_state (conn w) = kConnected")
  case True
  have c: "conn_ok w" "conn_state (conn w) \<noteq> kDisconnected" "run_ok w" "no_sends (pendingFunctors (io_loop w))"
    using assms(1) by (simp_all add: fin_ok_def run_ok_def)
  let ?w = "setState kDisconnecting w"
  have nf: "\<not> fin_sent w" using True assms(1) by (simp add: fin_ok_def)
  then have "fin_ok ?w" using c setState_ok [OF c(1,2)] by (simp add: fin_ok_def run_ok_def fin_sent_def)
  moreover from this have "fin_ok (queue_task cur (ShutdownInLoop a) ?w)" for a
    by (simp add: fin_ok_def run_ok_def fin_sent_def out_pending_def conn_ok_def plain_tasks_def)
  ultimately show ?thesis using True nf fin_shutdownInLoop [of ?w] by (simp add: shutdown_def Let_def)
next
  case False
  with assms(1) show ?thesis by (simp add: shutdown_def)
qed

lemma fin_do_stopRead:
  assumes "fin_ok w"
  shows "fin_ok (conn_do (StopRead cur) w) \<and> threadId (io_loop (conn_do (StopRead cur) w)) = threadId (io_loop w)
    \<and> (fin_sent w \<longrightarrow> conn_taken (StopRead cur) w = [] \<and> fin_sent (conn_do (StopRead cur) w))"
proof -
  have c: "conn_ok w" "conn_state (conn w) \<noteq> kDisconnected" "run_ok w" "no_sends (pendingFunctors (io_loop w))"
    using assms(1) by (simp_all add: fin_ok_def run_ok_def)
  have "fin_ok (queue_task cur (StopReadInLoop a) w)" for a
    using assms(1) by (simp add: fin_ok_def run_ok_def fin_sent_def out_pending_def conn_ok_def plain_tasks_def)
  with fin_stopReadInLoop [OF assms(1)] stopReadInLoop_ok [OF c(1)] show ?thesis
    by (simp add: stopRead_def fin_sent_def)
qed

lemma fin_do_writable:
  assumes "fin_ok w"
  shows "fin_ok (conn_do EventWritable w) \<and> threadId (io_loop (conn_do EventWritable w)) = threadId (io_loop w)
    \<and> (fin_sent w \<longrightarrow> conn_taken EventWritable w = [] \<and> fin_sent (conn_do EventWritable w))"
proof -
  have c: "conn_ok w" "conn_state (conn w) \<noteq> kDisconnected" "run_ok w" "no_sends (pendingFunctors (io_loop w))"
    using assms(1) by (simp_all add: fin_ok_def run_ok_def)
  note idle = conn_ok_idle [OF c(1,2)]
  let ?t = "threadId (io_loop w)"
  note f = handleWrite_ok [OF c(1), of ?t]
  have nf: "fin_sent w \<Longrightarrow> handleWrite ?t w = w" using f(7) idle assms(1) by (simp add: fin_ok_def)
  have r: "run_ok (handleWrite ?t w)" "no_sends (pendingFunctors (io_loop (handleWrite ?t w)))"
    using f(1,5) c quiet_plain quiet_no_sends by (auto simp: run_ok_def)
  have "conn_state (conn w) \<noteq> kConnected \<and> out_pending (handleWrite ?t w) = []" if "fin_sent (handleWrite ?t w)"
  proof (cases "fin_sent w")
    case True
    with nf assms(1) show ?thesis by (simp add: fin_ok_def)
  next
    case False
    with f(6) that show ?thesis by (auto simp: fin_sent_def)
  qed
  moreover have "conn_state (conn w) = kConnected \<longrightarrow> no_shut (pendingFunctors (io_loop (handleWrite ?t w)))"
    using f(5) assms(1) quiet_no_sends by (auto simp: fin_ok_def)
  ultimately show ?thesis using r f(3,4) c(2) nf by (simp add: fin_ok_def)
qed

lemma fin_do_next:
  assumes "fin_ok w"
  shows "fin_ok (conn_do RunNext w) \<and> threadId (io_loop (conn_do RunNext w)) = threadId (io_loop w)
    \<and> (fin_sent w \<longrightarrow> conn_taken RunNext w = [] \<and> fin_sent (conn_do RunNext w))"
proof (cases "pendingFunctors (io_loop w)")
  case Nil
  with assms(1) show ?thesis by simp
next
  case (Cons t ts)
  let ?w = "pop_task w"
  have nt: "no_sends [t]" "no_sends ts" "plain_tasks [t]" "plain_tasks ts" "conn_state (conn w) = kConnected \<longrightarrow> no_shut [t] \<and> no_shut ts"
    using assms(1) Cons by (simp_all add: no_sends_def run_ok_def plain_tasks_def fin_ok_def no_shut_def)
  have ok: "fin_ok ?w" using assms(1) Cons nt by (auto simp: fin_ok_def run_ok_def fin_sent_def)
  have okc: "conn_ok ?w" using ok by (simp add: fin_ok_def run_ok_def)
  have "fin_ok (conn_do RunNext w) \<and> threadId (io_loop (conn_do RunNext w)) = threadId (io_loop w)
    \<and> conn_taken RunNext w = [] \<and> (fin_sent w \<longrightarrow> fin_sent (conn_do RunNext w))"
  proof (cases t)
    case (ShutdownInLoop a)
    then have "conn_state (conn ?w) \<noteq> kConnected" using nt(5) by (simp add: no_shut_def)
    with fin_shutdownInLoop [OF ok] show ?thesis using Cons ShutdownInLoop by (auto simp: fin_sent_def)
  next
    case (StopReadInLoop a)
    then show ?thesis using Cons fin_stopReadInLoop [OF ok] stopReadInLoop_ok [OF okc] by (simp add: fin_sent_def)
  qed (use Cons ok nt in \<open>simp_all add: no_sends_def plain_tasks_def fin_sent_def\<close>)
  then show ?thesis by simp
qed

lemma fin_do:
  assumes "fin_ok w" "loop_sends (threadId (io_loop w)) [op]"
  shows "fin_ok (conn_do op w)" "threadId (io_loop (conn_do op w)) = threadId (io_loop w)"
    "fin_sent w \<Longrightarrow> conn_taken op w = [] \<and> fin_sent (conn_do op w)"
proof -
  have "fin_ok (conn_do op w) \<and> threadId (io_loop (conn_do op w)) = threadId (io_loop w)
    \<and> (fin_sent w \<longrightarrow> conn_taken op w = [] \<and> fin_sent (conn_do op w))"
  proof (cases op)
    case (Send cur s)
    then have "isInLoopThread cur (io_loop w)" using assms(2) by (simp add: loop_sends_def isInLoopThread_def)
    from fin_do_send [OF assms(1) this] Send show ?thesis by blast
  next
    case (Shutdown cur)
    with fin_do_shutdown [OF assms(1), of cur] show ?thesis by simp
  next
    case (StopRead cur)
    with fin_do_stopRead [OF assms(1), of cur] show ?thesis by simp
  next
    case EventWritable
    with fin_do_writable [OF assms(1)] show ?thesis by simp
  next
    case RunNext
    with fin_do_next [OF assms(1)] show ?thesis by simp
  qed
  then show "fin_ok (conn_do op w)" "threadId (io_loop (conn_do op w)) = threadId (io_loop w)"
    "fin_sent w \<Longrightarrow> conn_taken op w = [] \<and> fin_sent (conn_do op w)" by blast+
qed

lemma fin_run:
  "fin_ok w \<Longrightarrow> loop_sends (threadId (io_loop w)) ops \<Longrightarrow> conn_run ops w = (s, w') \<Longrightarrow>
   fin_ok w' \<and> threadId (io_loop w') = threadId (io_loop w) \<and> (fin_sent w \<longrightarrow> s = [] \<and> fin_sent w')"
proof (induction ops arbitrary: w s)
  case (Cons op ops)
  obtain s1 where s1: "conn_run ops (conn_do op w) = (s1, w')" "s = conn_taken op w @ s1"
    using Cons.prems(3) by (auto split: prod.splits)
  have l: "loop_sends (threadId (io_loop w)) [op]" "loop_sends (threadId (io_loop w)) ops"
    using Cons.prems(2) by (simp_all add: loop_sends_def)
  note d = fin_do [OF Cons.prems(1) l(1)]
  from Cons.IH [OF d(1) _ s1(1)] d l(2) s1(2) show ?case by auto
qed simp

text \<open>
  Property C13. The FIN follows the last byte: when all sends come from the loop's own thread (half-closes and read
  stops may come from any), then at the moment the write side is shut down everything the connection
  took on is on the wire, and nothing is taken on or written afterwards.
\<close>

theorem fin_after_last_byte:
  assumes "fresh_world w" "pendingFunctors (io_loop w) = []" "loop_sends (threadId (io_loop w)) (ops @ ops')"
    "conn_run ops (connectEstablished no_callbacks w) = (taken, w1)" "SysShutdownWr fd \<in> set (calls w1)"
    "conn_run ops' w1 = (taken', w2)"
  shows "wire w1 = taken \<and> taken' = [] \<and> wire w2 = taken"
proof -
  let ?w = "connectEstablished no_callbacks w"
  note e = established_ok [OF assms(1)]
  obtain addr chaddr nm fd0 loc peer tr where "(conn w, calls w) = tcp_connection_new addr chaddr nm fd0 loc peer tr"
    "\<forall>fd. SysShutdownWr fd \<notin> set tr"
    using assms(1) unfolding fresh_world_def by blast
  then have "\<not> fin_sent ?w" using e(5) by (auto simp: fin_sent_def tcp_connection_new_def setKeepAlive_def)
  then have ok: "fin_ok ?w" using e assms(2) by (simp add: fin_ok_def)
  have l: "loop_sends (threadId (io_loop ?w)) ops" "loop_sends (threadId (io_loop ?w)) ops'"
    using assms(3) e(7) by (simp_all add: loop_sends_def)
  from fin_run [OF ok l(1) assms(4)] have w1: "fin_ok w1" "threadId (io_loop w1) = threadId (io_loop ?w)" by simp_all
  have fs: "fin_sent w1" using assms(5) by (auto simp: fin_sent_def)
  from fin_run [OF w1(1) _ assms(6)] w1(2) l(2) fs have w2: "fin_ok w2" "taken' = []" "fin_sent w2" by simp_all
  have r1: "wire w1 @ out_pending w1 = taken" using conn_run_ok [OF e(1) assms(4)] e(2,3) by simp
  have "run_ok w1" using w1(1) by (simp add: fin_ok_def)
  from conn_run_ok [OF this assms(6)] have "wire w2 @ out_pending w2 = wire w1 @ out_pending w1 @ taken'" by simp
  moreover have "out_pending w1 = []" "out_pending w2 = []" using w1(1) w2(1,3) fs by (simp_all add: fin_ok_def)
  ultimately show ?thesis using r1 w2(2) by simp
qed

text \<open>
  The sample connection, step by step. \<open>established\<close> gives every field the runs below look at.
\<close>

lemma sample_steps:
  defines "w \<equiv> connectEstablished no_callbacks sample_world"
  shows "sock_fd (conn w) = 7" "net_answer w = (\<lambda>k n. Inr (min 2 n))" "net_count w = 0"
    "pendingFunctors (io_loop w) = []" "threadId (io_loop w) = 1"
  using established_ok [OF sample_fresh(1)] sample_fresh(2)
  by (simp_all add: w_def)
    (simp_all add: connectEstablished_def no_callbacks_def setState_def sample_world_def tcp_connection_new_def sample_loop_eq split_beta Let_def)

lemma sendInLoop_direct:
  assumes "conn_ok w" "conn_state (conn w) \<noteq> kDisconnected" "out_pending w = []" "\<not> has_writeComplete (conn w)"
    "net_answer w (net_count w) (length s) = Inr (length s)"
  shows "sendInLoop cur s w = w\<lparr>net_count := Suc (net_count w), wire := wire w @ s\<rparr>"
proof -
  have b: "buf_ok (outputBuffer (conn w))" and n: "\<not> isWriting (conn_channel (conn w))"
    using assms conn_ok_idle [OF assms(1,2)] by (simp_all add: conn_ok_def)
  then have "readableBytes (outputBuffer (conn w)) = 0" using assms(3) readable_zero by (simp add: out_pending_def)
  with n assms(2,4,5) show ?thesis
    by (simp add: sendInLoop_def send_direct_def sys_write_def Let_def)
qed

lemma fin_after_last_byte_witness:
  "\<exists>w1 taken' w2. conn_run [Send 1 ''ab'', Shutdown 1] (connectEstablished no_callbacks sample_world) = (''ab'', w1)
     \<and> wire w1 = ''ab'' \<and> conn_run [Send 1 ''cd''] w1 = (taken', w2) \<and> taken' = [] \<and> wire w2 = ''ab''"
proof -
  let ?w = "connectEstablished no_callbacks sample_world"
  note e = established_ok [OF sample_fresh(1)] and st = sample_steps
  have c: "conn_ok ?w" using e(1) by (simp add: run_ok_def)
  have hw: "\<not> has_writeComplete (conn ?w)"
    by (simp add: connectEstablished_def no_callbacks_def setState_def sample_world_def tcp_connection_new_def split_beta Let_def)
  let ?w1 = "?w\<lparr>net_count := 1, wire := ''ab''\<rparr>"
  have s1: "sendInLoop 1 ''ab'' ?w = ?w1" using sendInLoop_direct [OF c _ e(3) hw, of "''ab''" 1] e(2,4) st by simp
  have acc: "accepts 1 ''ab'' ?w" using sendInLoop_ok(2) [OF c, of 1 "''ab''"] s1 e(2,3)
    by (auto simp: out_pending_def split: if_splits)
  have nw: "\<not> isWriting (conn_channel (conn ?w))" using conn_ok_idle [OF c] e(3,4) by simp
  let ?w2 = "shutdownInLoop (setState kDisconnecting ?w1)"
  have r: "conn_run [Send 1 ''ab'', Shutdown 1] ?w = (''ab'', ?w2)"
    using e(4) st(5) s1 acc by (simp add: send_def shutdown_def isInLoopThread_def)
  have f: "SysShutdownWr 7 \<in> set (calls ?w2)" using nw st(1) by simp
  obtain taken' w2 where r2: "conn_run [Send 1 ''cd''] ?w2 = (taken', w2)" by (rule prod.exhaust)
  have p: "pendingFunctors (io_loop sample_world) = []" using st(4) e(8) by simp
  have l: "loop_sends (threadId (io_loop sample_world)) ([Send 1 ''ab'', Shutdown 1] @ [Send 1 ''cd''])"
    using sample_fresh(2) by (simp add: loop_sends_def)
  from fin_after_last_byte [OF sample_fresh(1) p l r f r2] r r2 show ?thesis by blast
qed

subsection \<open>Two defects\<close>

text \<open>
  A send from another thread can follow the FIN: if another thread sends and the loop thread then
  half-closes the connection before it ran the queued send, the FIN goes out first, and the
  queued functor writes the message to the socket whose write side is closed, because \<open>sendInLoop\<close> only checks for \<open>kDisconnected\<close>.
\<close>

theorem late_send_after_fin:
  assumes "fresh_world w" "pendingFunctors (io_loop w) = []" "cur \<noteq> threadId (io_loop w)"
    "\<forall>k n. net_answer w k n = Inr n"
  shows "\<exists>w1 w2. conn_run [Send cur s, Shutdown (threadId (io_loop w))] (connectEstablished no_callbacks w) = ([], w1)
    \<and> SysShutdownWr (sock_fd (conn w)) \<in> set (calls w1) \<and> wire w1 = []
    \<and> conn_run [RunNext] w1 = (s, w2) \<and> wire w2 = s"
proof -
  let ?w = "connectEstablished no_callbacks w" and ?t = "threadId (io_loop w)"
  note e = established_ok [OF assms(1)]
  have c: "conn_ok ?w" using e(1) by (simp add: run_ok_def)
  have nw: "\<not> isWriting (conn_channel (conn ?w))" using conn_ok_idle [OF c] e(3,4) by simp
  obtain addr chaddr nm fd0 loc peer tr where n: "(conn w, calls w) = tcp_connection_new addr chaddr nm fd0 loc peer tr"
    using assms(1) unfolding fresh_world_def by blast
  have hw: "\<not> has_writeComplete (conn ?w)" "net_answer ?w = net_answer w"
    using n by (auto simp: connectEstablished_def no_callbacks_def setState_def tcp_connection_new_def Let_def)
  let ?w1 = "queue_task cur (SendInLoop (conn_addr (conn ?w)) s) ?w"
  let ?w2 = "shutdownInLoop (setState kDisconnecting ?w1)"
  have r: "conn_run [Send cur s, Shutdown ?t] ?w = ([], ?w2)"
    using e(4,7) assms(3) by (simp add: send_def shutdown_def isInLoopThread_def)
  have c2: "conn_ok ?w1" "conn_ok (setState kDisconnecting ?w1)" "conn_ok ?w2"
    using c e(4) by (simp_all add: queue_task_ok setState_ok shutdownInLoop_ok)
  let ?w3 = "pop_task ?w2"
  have d: "sendInLoop t s ?w3 = ?w3\<lparr>net_count := Suc (net_count ?w3), wire := wire ?w3 @ s\<rparr>" for t
  proof (rule sendInLoop_direct)
    show "out_pending ?w3 = []" using e(3) by (simp add: out_pending_def)
    show "\<not> has_writeComplete (conn ?w3)" using hw by (simp add: setState_def)
    show "net_answer ?w3 (net_count ?w3) (length s) = Inr (length s)"
      using hw(2) assms(4) by (simp add: shutdownInLoop_def)
  qed (use c2 in simp_all)
  have q: "pendingFunctors (io_loop ?w2) = [SendInLoop (conn_addr (conn ?w)) s]" using e(8) assms(2) by simp
  have c3: "conn_ok ?w3" using c2(3) by simp
  have acc: "(if accepts t s ?w3 then s else []) = s" for t
    using sendInLoop_ok(2) [OF c3, of t s] d [of t] e(3) by (simp add: out_pending_def)
  have r3: "conn_run [RunNext] ?w2 = (s, sendInLoop (threadId (io_loop ?w2)) s ?w3)"
    using q acc by simp
  have "wire (sendInLoop (threadId (io_loop ?w2)) s ?w3) = s" using d e(2) by simp
  moreover have "SysShutdownWr (sock_fd (conn w)) \<in> set (calls ?w2)" using nw e(6) by simp
  moreover have "wire ?w2 = []" using e(2) by simp
  ultimately show ?thesis using r r3 by blast
qed

lemma late_send_after_fin_witness:
  "\<exists>w :: bool list conn_world. \<exists>w1 w2. conn_run [Send 2 ''x'', Shutdown 1] (connectEstablished no_callbacks w) = ([], w1)
    \<and> SysShutdownWr (sock_fd (conn w)) \<in> set (calls w1) \<and> wire w1 = [] \<and> conn_run [RunNext] w1 = (''x'', w2) \<and> wire w2 = ''x''"
proof -
  let ?w = "sample_world\<lparr>net_answer := (\<lambda>k n. Inr n)\<rparr>"
  have "fresh_world ?w" using sample_fresh(1) by (simp add: fresh_world_def net_doc_def)
  moreover have "pendingFunctors (io_loop ?w) = []" using sample_steps(4) established_ok(8) [OF sample_fresh(1)] by simp
  moreover have t: "threadId (io_loop ?w) = 1" using sample_fresh(2) by simp
  ultimately show ?thesis using late_send_after_fin [of ?w 2 "''x''"] unfolding t by fastforce
qed

text \<open>What a run keeps of the read interest and of the registration.\<close>

definition reg_ok :: "'a conn_world \<Rightarrow> bool" where
  "reg_ok w \<longleftrightarrow> run_ok w \<and> conn_state (conn w) \<noteq> kDisconnected \<and> reading (conn w) = reads (ch_events (conn_channel (conn w)))
     \<and> ch_index (conn_channel (conn w)) = (if ch_events (conn_channel (conn w)) = 0 then kDeleted else kAdded)"

lemma on_channel_index:
  assumes "chan_ok w" "\<And>p. f (conn_channel (conn w)) p = updateChannel (with_events m (conn_channel (conn w))) p"
    "m \<noteq> 0 \<or> ch_index (conn_channel (conn w)) = kAdded"
  shows "ch_index (conn_channel (conn (on_channel f w))) = (if m = 0 then kDeleted else kAdded)"
proof -
  have "registered (conn_channel (conn w)) (loop_poller (io_loop w))" using assms(1) by (simp add: chan_ok_def)
  then show ?thesis using assms(2,3)
    by (auto simp: on_channel_def updateChannel_def with_events_def set_index_def isNoneEvent_def kNoneEvent_def registered_def
        index_defs split_beta Let_def split: if_splits)
qed

lemma reg_enableWriting:
  assumes "chan_ok w" "reading (conn w) = reads (ch_events (conn_channel (conn w)))"
  defines "c' \<equiv> conn_channel (conn (on_channel enableWriting w))"
  shows "reading (conn w) = reads (ch_events c')" "ch_index c' = (if ch_events c' = 0 then kDeleted else kAdded)"
proof -
  have m: "mask_ok (ch_events (conn_channel (conn w)))" using assms(1) by (simp add: chan_ok_def)
  have u: "enableWriting (conn_channel (conn w)) p = updateChannel (with_events (ch_events (conn_channel (conn w)) OR kWriteEvent) (conn_channel (conn w))) p" for p
    by (simp add: enableWriting_def with_events_def)
  have nz: "ch_events (conn_channel (conn w)) OR kWriteEvent \<noteq> 0" using masks(10) [OF m] masks(13) [OF masks(2) [OF m]] by blast
  show "reading (conn w) = reads (ch_events c')" "ch_index c' = (if ch_events c' = 0 then kDeleted else kAdded)"
    using on_channel_chan(2) [where f = enableWriting, OF assms(1) masks(2) [OF m] u] on_channel_index [where f = enableWriting, OF assms(1) u] nz assms(2) masks(6) [OF m]
    by (simp_all add: c'_def)
qed

lemma reg_disable:
  assumes "chan_ok w" "ch_index (conn_channel (conn w)) = kAdded"
  shows "reads (ch_events (conn_channel (conn (on_channel disableWriting w)))) = reads (ch_events (conn_channel (conn w)))"
    "ch_index (conn_channel (conn (on_channel disableWriting w))) = (if ch_events (conn_channel (conn (on_channel disableWriting w))) = 0 then kDeleted else kAdded)"
    "\<not> reads (ch_events (conn_channel (conn (on_channel disableReading w))))"
    "ch_index (conn_channel (conn (on_channel disableReading w))) = (if ch_events (conn_channel (conn (on_channel disableReading w))) = 0 then kDeleted else kAdded)"
proof -
  let ?c = "conn_channel (conn w)"
  have m: "mask_ok (ch_events ?c)" using assms(1) by (simp add: chan_ok_def)
  have u: "disableWriting ?c p = updateChannel (with_events (ch_events ?c AND NOT kWriteEvent) ?c) p"
    "disableReading ?c p = updateChannel (with_events (ch_events ?c AND NOT kReadEvent) ?c) p" for p
    by (simp_all add: disableWriting_def disableReading_def with_events_def)
  note ww = on_channel_chan(2) [where f = disableWriting, OF assms(1) masks(4) [OF m] u(1)] on_channel_index [where f = disableWriting, OF assms(1) u(1) disjI2 [OF assms(2)]] masks(8) [OF m]
  note rr = on_channel_chan(2) [where f = disableReading, OF assms(1) masks(3) [OF m] u(2)] on_channel_index [where f = disableReading, OF assms(1) u(2) disjI2 [OF assms(2)]] masks(7) [OF m]
  show "reads (ch_events (conn_channel (conn (on_channel disableWriting w)))) = reads (ch_events ?c)"
    "ch_index (conn_channel (conn (on_channel disableWriting w))) = (if ch_events (conn_channel (conn (on_channel disableWriting w))) = 0 then kDeleted else kAdded)"
    using ww by simp_all
  show "\<not> reads (ch_events (conn_channel (conn (on_channel disableReading w))))"
    "ch_index (conn_channel (conn (on_channel disableReading w))) = (if ch_events (conn_channel (conn (on_channel disableReading w))) = 0 then kDeleted else kAdded)"
    using rr by simp_all
qed

lemma reg_ok_frame:
  "reg_ok w \<Longrightarrow> run_ok w' \<Longrightarrow> conn_state (conn w') \<noteq> kDisconnected \<Longrightarrow> reading (conn w') = reading (conn w) \<Longrightarrow>
   conn_channel (conn w') = conn_channel (conn w) \<Longrightarrow> reg_ok w'"
  by (simp add: reg_ok_def)

lemma reg_sendInLoop:
  assumes "reg_ok w"
  shows "reg_ok (sendInLoop cur s w)"
proof -
  have r: "run_ok w" "conn_ok w" using assms by (simp_all add: reg_ok_def run_ok_def)
  have r': "run_ok (sendInLoop cur s w)" by (rule run_ok_sendInLoop [OF r(1)])
  have nd: "conn_state (conn w) \<noteq> kDisconnected" using assms by (simp add: reg_ok_def)
  obtain n m fault w1 where sd: "send_direct cur s w = ((n, m, fault), w1)" by (metis surj_pair)
  note f = send_direct_ok [OF sd r(2)]
  define w2 where "w2 = (let oldLen = readableBytes (outputBuffer (conn w1)) in
        if oldLen + m \<ge> highWaterMark (conn w1) \<and> oldLen < highWaterMark (conn w1) \<and> has_highWater (conn w1)
        then queue_task cur (HighWaterMark (conn_addr (conn w1)) (oldLen + m)) w1 else w1)"
  define w3 where "w3 = w2\<lparr>conn := (conn w2)\<lparr>outputBuffer := append (take m (drop n s)) (outputBuffer (conn w2))\<rparr>\<rparr>"
  have c3: "reading (conn w3) = reading (conn w)" "conn_channel (conn w3) = conn_channel (conn w)"
    using f(3) by (simp_all add: w3_def w2_def Let_def)
  have "chan_ok w2" using f(4) by (simp add: w2_def Let_def conn_ok_def)
  then have ch3: "chan_ok w3" by (simp add: w3_def)
  have "sendInLoop cur s w = (if \<not> fault \<and> 0 < m then (if \<not> isWriting (conn_channel (conn w3)) then on_channel enableWriting w3 else w3) else w1)"
    using nd by (simp add: sendInLoop_def sd w2_def w3_def Let_def)
  moreover have "reading (conn w3) = reads (ch_events (conn_channel (conn w3)))" using c3 assms by (simp add: reg_ok_def)
  moreover have "conn_state (conn (sendInLoop cur s w)) \<noteq> kDisconnected" using sendInLoop_ok(3) [OF r(2)] nd by simp
  ultimately show ?thesis
    using reg_enableWriting [OF ch3] c3 r' f(3) assms by (auto simp: reg_ok_def split: if_splits)
qed

lemma reg_stopReadInLoop:
  assumes "reg_ok w"
  shows "reg_ok (stopReadInLoop w)"
proof (cases "reading (conn w)")
  case True
  have r: "run_ok w" "conn_ok w" using assms by (simp_all add: reg_ok_def run_ok_def)
  let ?w = "w\<lparr>conn := (conn w)\<lparr>reading := False\<rparr>\<rparr>"
  have ch: "chan_ok ?w" using r(2) by (simp add: conn_ok_def)
  have m: "mask_ok (ch_events (conn_channel (conn w)))" using r(2) by (simp add: conn_ok_def chan_ok_def)
  have "reads (ch_events (conn_channel (conn w)))" using True assms by (simp add: reg_ok_def)
  then have "ch_index (conn_channel (conn ?w)) = kAdded" using masks(13) [OF m] assms by (auto simp: reg_ok_def)
  from reg_disable(3,4) [OF ch this] stopReadInLoop_ok [OF r(2)] assms True show ?thesis
    by (auto simp: reg_ok_def run_ok_def stopReadInLoop_def)
qed (use assms in \<open>simp add: stopReadInLoop_def\<close>)

lemma handleWrite_chan:
  fixes w :: "'a conn_world"
  shows "\<exists>w2 :: 'a conn_world. conn_channel (conn w2) = conn_channel (conn w) \<and> (chan_ok w \<longrightarrow> chan_ok w2) \<and> reading (conn (handleWrite cur w)) = reading (conn w)
    \<and> (conn_channel (conn (handleWrite cur w)) = conn_channel (conn w)
       \<or> isWriting (conn_channel (conn w)) \<and> conn_channel (conn (handleWrite cur w)) = conn_channel (conn (on_channel disableWriting w2)))"
proof -
  obtain r w1 where sw: "sys_write (content (outputBuffer (conn w))) w = (r, w1)" by (metis surj_pair)
  have c: "conn w1 = conn w" "chan_ok w1 = chan_ok w"
    using sw sys_write_chan [of "content (outputBuffer (conn w))" w] by (auto simp: sys_write_def Let_def split: sum.splits)
  define w2 where "w2 n = w1\<lparr>conn := (conn w1)\<lparr>outputBuffer := retrieve n (outputBuffer (conn w1))\<rparr>\<rparr>" for n
  have c2: "conn_channel (conn (w2 n)) = conn_channel (conn w)" "chan_ok (w2 n) = chan_ok w" "reading (conn (w2 n)) = reading (conn w)" for n
  proof -
    have "chan_ok (w2 n) = chan_ok w1" unfolding w2_def by (rule chan_ok_other)
    then show "chan_ok (w2 n) = chan_ok w" using c(2) by simp
  qed (simp_all add: w2_def c)
  show ?thesis
  proof (cases r)
    case (Inl e)
    then show ?thesis using sw c by (intro exI [of _ w]) (simp add: handleWrite_def)
  next
    case (Inr n)
    have w2': "w1\<lparr>conn := (conn w)\<lparr>outputBuffer := retrieve n (outputBuffer (conn w))\<rparr>\<rparr> = w2 n" by (simp add: w2_def c)
    show ?thesis using Inr sw c c2 [of n]
      by (intro exI [of _ "w2 n"]) (simp add: handleWrite_def w2' Let_def)
  qed
qed

lemma reg_handleWrite:
  fixes w :: "'a conn_world"
  assumes "reg_ok w"
  shows "reg_ok (handleWrite cur w)"
proof -
  have r: "run_ok w" "conn_ok w" "conn_state (conn w) \<noteq> kDisconnected" using assms by (simp_all add: reg_ok_def run_ok_def)
  obtain w2 :: "'a conn_world" where w2: "conn_channel (conn w2) = conn_channel (conn w)" "chan_ok w2" "reading (conn (handleWrite cur w)) = reading (conn w)"
    "conn_channel (conn (handleWrite cur w)) = conn_channel (conn w)
       \<or> isWriting (conn_channel (conn w)) \<and> conn_channel (conn (handleWrite cur w)) = conn_channel (conn (on_channel disableWriting w2))"
    using handleWrite_chan [of w cur] r(2) unfolding conn_ok_def by blast
  have m: "mask_ok (ch_events (conn_channel (conn w)))" using r(2) by (simp add: conn_ok_def chan_ok_def)
  have "isWriting (conn_channel (conn w)) \<Longrightarrow> ch_index (conn_channel (conn w2)) = kAdded"
    using masks(13) [OF m] assms w2(1) by (auto simp: reg_ok_def isWriting_writes)
  with reg_disable(1,2) [OF w2(2)] w2 handleWrite_ok(1,3,5) [OF r(2), of cur] quiet_plain assms r show ?thesis
    by (auto simp: reg_ok_def run_ok_def)
qed

lemma reg_do:
  assumes "reg_ok w"
  shows "reg_ok (conn_do op w)"
proof -
  have r: "run_ok w" using assms by (simp add: reg_ok_def)
  have r': "run_ok (conn_do op w)" using conn_do_ok [OF r] by blast
  show ?thesis
  proof (cases op)
    case (Send cur s)
    have q: "run_ok (queue_task cur (SendInLoop a s) w)" for a
      using r by (simp add: run_ok_def queue_task_ok plain_tasks_def)
    then have "reg_ok (queue_task cur (SendInLoop a s) w)" for a using assms by (simp add: reg_ok_def)
    with Send assms show ?thesis by (simp add: send_def reg_sendInLoop)
  next
    case (Shutdown cur)
    with assms r' show ?thesis
      by (auto simp: shutdown_def setState_def Let_def reg_ok_def split: if_splits)
  next
    case (StopRead cur)
    have q: "run_ok (queue_task cur (StopReadInLoop a) w)" for a
      using r by (simp add: run_ok_def queue_task_ok plain_tasks_def)
    then have "reg_ok (queue_task cur (StopReadInLoop a) w)" for a using assms by (simp add: reg_ok_def)
    with StopRead assms show ?thesis by (simp add: stopRead_def reg_stopReadInLoop)
  next
    case EventWritable
    then show ?thesis using reg_handleWrite [OF assms] by simp
  next
    case RunNext
    show ?thesis
    proof (cases "pendingFunctors (io_loop w)")
      case (Cons t ts)
      let ?w = "pop_task w"
      have ok: "reg_ok ?w" using assms plain_tl by (auto simp: reg_ok_def run_ok_def)
      have "plain_tasks [t]" using r Cons by (simp add: run_ok_def plain_tasks_def)
      then show ?thesis using RunNext Cons r' ok reg_sendInLoop [OF ok] reg_stopReadInLoop [OF ok]
        by (cases t) (simp_all add: plain_tasks_def reg_ok_def)
    qed (use RunNext assms in simp)
  qed
qed

lemma reg_run: "reg_ok w \<Longrightarrow> conn_run ops w = (s, w') \<Longrightarrow> reg_ok w'"
proof (induction ops arbitrary: w s)
  case (Cons op ops)
  then show ?case using reg_do [OF Cons.prems(1), of op] by (auto split: prod.splits)
qed simp

lemma reg_established:
  assumes "fresh_world w"
  shows "reg_ok (connectEstablished no_callbacks w)"
proof -
  note e = established_ok [OF assms]
  obtain addr chaddr nm fd loc peer tr where n: "(conn w, calls w) = tcp_connection_new addr chaddr nm fd loc peer tr"
    using assms unfolding fresh_world_def by blast
  have c: "conn_channel (conn (connectEstablished no_callbacks w))
      = fst (updateChannel (with_events kReadEvent (tie (conn_addr (conn w)) (channel_new chaddr fd))) (loop_poller (io_loop w)))"
    "reading (conn (connectEstablished no_callbacks w))"
    using n by (auto simp: connectEstablished_def no_callbacks_def on_channel_def setState_def tcp_connection_new_def split_beta Let_def
        enableReading_def with_events_def tie_def channel_new_def)
  have "ch_events (conn_channel (conn (connectEstablished no_callbacks w))) = kReadEvent"
    "ch_index (conn_channel (conn (connectEstablished no_callbacks w))) = kAdded"
    by (simp_all add: c updateChannel_def with_events_def tie_def channel_new_def set_index_def index_defs Let_def)
  moreover have "reads kReadEvent" "kReadEvent \<noteq> 0" by (simp_all add: reads_def event_defs epoll_bits)
  ultimately show ?thesis using e(1,4) c(2) by (simp add: reg_ok_def)
qed

text \<open>
  Property C21. What the kernel watches of a connection: at every moment of a run of sends, shutdowns, stops of reading, writable
  events and queued functors from its establishment on, the descriptor is registered, for its own channel, for reading
  exactly while reading was not stopped and for writing exactly while output is pending; with neither it is not registered
  at all, though the connection is not \<open>kDisconnected\<close>. So a connection whose reading was stopped (the inference handler does that on
  every accepted request) is watched for nothing once its output is written. Reads, the close of a connection and its
  destruction are not steps of these runs (they are in C37).
\<close>

theorem watched_exactly:
  assumes "fresh_world w" "conn_run ops (connectEstablished no_callbacks w) = (taken, w')"
  shows "(case interest (ep_requests (loop_poller (io_loop w'))) (ch_fd (conn_channel (conn w'))) of
       None \<Rightarrow> \<not> reading (conn w') \<and> content (outputBuffer (conn w')) = []
     | Some (evs, obj) \<Rightarrow> obj = ch_addr (conn_channel (conn w')) \<and> (evs AND kReadEvent \<noteq> 0) = reading (conn w')
         \<and> (evs AND kWriteEvent \<noteq> 0) = (content (outputBuffer (conn w')) \<noteq> [])
         \<and> (reading (conn w') \<or> content (outputBuffer (conn w')) \<noteq> []))
    \<and> conn_state (conn w') \<noteq> kDisconnected"
proof -
  have g: "reg_ok w'" using reg_run [OF reg_established [OF assms(1)] assms(2)] .
  then have c: "conn_ok w'" "conn_state (conn w') \<noteq> kDisconnected" by (simp_all add: reg_ok_def run_ok_def)
  have r: "registered (conn_channel (conn w')) (loop_poller (io_loop w'))" and m: "mask_ok (ch_events (conn_channel (conn w')))"
    using c(1) by (simp_all add: conn_ok_def chan_ok_def)
  have w: "writes (ch_events (conn_channel (conn w'))) = (content (outputBuffer (conn w')) \<noteq> [])"
    using c by (simp add: conn_ok_def isWriting_writes)
  have rd: "reads (ch_events (conn_channel (conn w'))) = reading (conn w')" using g by (simp add: reg_ok_def)
  show ?thesis
  proof (cases "ch_events (conn_channel (conn w')) = 0")
    case True
    then have "ch_index (conn_channel (conn w')) = kDeleted" using g by (simp add: reg_ok_def)
    with r have "interest (ep_requests (loop_poller (io_loop w'))) (ch_fd (conn_channel (conn w'))) = None"
      by (simp add: registered_def index_defs)
    with True w rd c(2) masks(13) [OF m] show ?thesis by simp
  next
    case False
    then have "ch_index (conn_channel (conn w')) = kAdded" using g by (simp add: reg_ok_def)
    with r have "interest (ep_requests (loop_poller (io_loop w'))) (ch_fd (conn_channel (conn w')))
        = Some (ch_events (conn_channel (conn w')), ch_addr (conn_channel (conn w')))"
      by (simp add: registered_def index_defs)
    with False w rd c(2) masks(13) [OF m] show ?thesis by (auto simp: reads_def [symmetric] writes_def [symmetric])
  qed
qed

lemma watched_exactly_witness:
  "\<exists>taken w'. conn_run [StopRead 1, Shutdown 1] (connectEstablished no_callbacks sample_world) = (taken, w')
    \<and> conn_state (conn w') \<noteq> kDisconnected"
proof -
  obtain taken w' where r: "conn_run [StopRead 1, Shutdown 1] (connectEstablished no_callbacks sample_world) = (taken, w')"
    by (rule prod.exhaust)
  with watched_exactly [OF sample_fresh(1) r] show ?thesis by blast
qed

subsection \<open>The end of a connection\<close>

text \<open>Callbacks that note, in the application context, what the user is told.\<close>

definition noted :: "bool list conn_world \<Rightarrow> bool list" where
  "noted w = (case appContext (conn w) of None \<Rightarrow> [] | Some l \<Rightarrow> l)"

definition noting_callbacks :: "bool list conn_callbacks" where
  "noting_callbacks = \<lparr>connectionCallback = (\<lambda>w. setApplicationContext (Some (noted w @ [connected (conn w)])) w),
     messageCallback = (\<lambda>t. id), connCloseCallback = id\<rparr>"

lemma setApplicationContext_frame [simp]:
  "chan_ok (setApplicationContext a w) = chan_ok w" "conn_state (conn (setApplicationContext a w)) = conn_state (conn w)"
  "noted (setApplicationContext (Some l) v) = l"
  by (simp_all add: setApplicationContext_def chan_ok_def noted_def)

lemma noted_frame [simp]: "noted (on_channel f w) = noted w" "noted (setState st w) = noted w"
  by (simp_all add: noted_def setState_def)

lemma handleClose_noting:
  assumes "chan_ok w"
  shows "chan_ok (handleClose noting_callbacks w)" "conn_state (conn (handleClose noting_callbacks w)) = kDisconnected"
    "noted (handleClose noting_callbacks w) = noted w @ [False]"
  using disableAll_ok(1) [of "setState kDisconnected w"] assms
  by (simp_all add: handleClose_def noting_callbacks_def connected_def Let_def)

lemma connectDestroyed_noting:
  assumes "chan_ok w"
  defines "w' \<equiv> connectDestroyed noting_callbacks w"
  shows "noted w' = noted w @ (if conn_state (conn w) = kConnected then [False] else [])"
    "poller_ok (loop_poller (io_loop w'))" "\<not> hasChannel (conn_channel (conn w')) (loop_poller (io_loop w'))"
    "interest (ep_requests (loop_poller (io_loop w'))) (ch_fd (conn_channel (conn w'))) = None"
proof -
  define w1 where "w1 = (if conn_state (conn w) = kConnected
     then setApplicationContext (Some (noted w @ [False])) (on_channel disableAll (setState kDisconnected w)) else w)"
  have w': "w' = on_channel removeChannel w1"
    by (simp add: w'_def connectDestroyed_def noting_callbacks_def w1_def connected_def Let_def)
  have ch: "chan_ok w1" using disableAll_ok(1) [of "setState kDisconnected w"] assms by (simp add: w1_def)
  show "noted w' = noted w @ (if conn_state (conn w) = kConnected then [False] else [])"
    by (simp add: w' w1_def)
  note r = removeChannel_ok [of "loop_poller (io_loop w1)" "conn_channel (conn w1)"]
  show "poller_ok (loop_poller (io_loop w'))" "\<not> hasChannel (conn_channel (conn w')) (loop_poller (io_loop w'))"
    "interest (ep_requests (loop_poller (io_loop w'))) (ch_fd (conn_channel (conn w'))) = None"
    using r ch by (simp_all add: w' on_channel_def chan_ok_def same_object_def split_beta Let_def)
qed

text \<open>
  Property C37. A connection that ends is reported down exactly once and leaves nothing in the poller: whether the
  peer closed it first (\<open>readv\<close> returned 0) or the server destroys it while it is still up,
  after \<open>connectDestroyed\<close> the user was told \<open>down\<close> once more than before, no \<open>epoll_ctl\<close> request was
  illegal, and neither the poller nor the kernel knows its channel.
\<close>

theorem connection_end:
  assumes "run_ok w" "conn_state (conn w) = kConnected"
    "w' = connectDestroyed noting_callbacks (if peer_closed then handleRead noting_callbacks (Inr []) t w else w)"
  shows "noted w' = noted w @ [False] \<and> legal_log (ep_requests (loop_poller (io_loop w')))
    \<and> \<not> hasChannel (conn_channel (conn w')) (loop_poller (io_loop w'))
    \<and> interest (ep_requests (loop_poller (io_loop w'))) (ch_fd (conn_channel (conn w'))) = None"
proof -
  have ch: "chan_ok w" and bo: "conn_ok w" using assms(1) by (simp_all add: run_ok_def conn_ok_def)
  show ?thesis
  proof (cases peer_closed)
    case False
    with connectDestroyed_noting [OF ch] assms(2,3) show ?thesis by (simp add: poller_ok_def)
  next
    case True
    obtain n buf where rf: "readFd (sock_fd (conn w)) (Inr []) (inputBuffer (conn w)) = (n, buf)" by (rule prod.exhaust)
    then have "n = Inr 0" by (auto simp: readFd_def Let_def)
    let ?w = "w\<lparr>conn := (conn w)\<lparr>inputBuffer := buf\<rparr>\<rparr>"
    have hr: "handleRead noting_callbacks (Inr []) t w = handleClose noting_callbacks ?w"
      using rf \<open>n = Inr 0\<close> by (simp add: handleRead_def)
    have c: "chan_ok ?w" "noted ?w = noted w" using ch by (simp_all add: noted_def)
    note h = handleClose_noting [OF c(1)]
    from connectDestroyed_noting [OF h(1)] h c(2) True assms(3) hr show ?thesis by (simp add: poller_ok_def)
  qed
qed

lemma connection_end_witness:
  "\<exists>w w' :: bool list conn_world. w' = connectDestroyed noting_callbacks (handleRead noting_callbacks (Inr []) timestamp_default w)
    \<and> noted w' = noted w @ [False]"
proof -
  have f: "fresh_world (sample_world :: bool list conn_world)" by (rule sample_fresh)
  from connection_end [OF established_ok(1) [OF f] established_ok(4) [OF f] refl, where peer_closed = True and t = timestamp_default]
  show ?thesis by auto
qed

end
