(* ===== verification/Http_Server.thy ===== *)
theory Http_Server
  imports Http_Response Tcp_Connection_Props
begin

text \<open>
  \<open>src/src/http/HttpServer.h\<close> and \<open>HttpServer.cc\<close>: the protocol on top of a connection. The application
  context of a connection is its \<open>http_context\<close>. The user's callback is a function from request and
  response to response; the asynchronous callback may act on the connection and tells whether it took the
  request. \<open>order\<close> gives the iteration order of a response's header map.
\<close>

type_synonym http_world = "http_context conn_world"

record http_callbacks =
  httpCallback :: "http_request \<Rightarrow> http_response \<Rightarrow> http_response"
  asyncHttpCallback :: "(http_request \<Rightarrow> http_world \<Rightarrow> bool \<times> http_world) option"
  header_order :: "http_response \<Rightarrow> (bytes \<times> bytes) list"

definition defaultHttpCallback :: "http_request \<Rightarrow> http_response \<Rightarrow> http_response" where
  "defaultHttpCallback req resp =
     (let resp = setStatusCode k404NotFound resp;
          resp = setStatusMessage ''Not Found'' resp
      in setCloseConnection True resp)"

definition onConnection :: "http_world \<Rightarrow> http_world" where
  "onConnection w =
     (if connected (conn w) then setApplicationContext (Some http_context_new) w
      else setApplicationContext None w)"

definition wants_close :: "http_request \<Rightarrow> bool" where
  "wants_close req =
     (let connection = getHeader ''Connection'' req
      in connection = ''close'' \<or> (req_version req = kHttp10 \<and> connection \<noteq> ''Keep-Alive''))"

definition onRequest :: "http_callbacks \<Rightarrow> int \<Rightarrow> http_request \<Rightarrow> http_world \<Rightarrow> bool \<times> http_world" where
  "onRequest cbs cur req w =
     (let (taken, w) = (case asyncHttpCallback cbs of None \<Rightarrow> (False, w) | Some f \<Rightarrow> f req w) in
      if taken then (True, w)
      else
        (let close = wants_close req;
             response = httpCallback cbs req (http_response_new close);
             buf = appendToBuffer (header_order cbs response) response (buffer_new kInitialSize);
             w = send cur (fst (retrieveAllAsString buf)) w;
             w = (if closeConnection response then shutdown cur w else w)
         in (closeConnection response, w)))"

definition bad_request_bytes :: bytes where
  "bad_request_bytes = ''HTTP/1.1 400 Bad Request'' @ CRLF @ ''Connection: close'' @ CRLF @ ''Content-Length: 0'' @ CRLF @ CRLF"

definition too_large_bytes :: bytes where
  "too_large_bytes = ''HTTP/1.1 413 Payload Too Large'' @ CRLF @ ''Connection: close'' @ CRLF @ ''Content-Length: 0'' @ CRLF @ CRLF"

text \<open>
  \<open>onMessage\<close>: the context is created when the connection has none, then requests are served from the
  input buffer until it needs more, a response closes the connection, or the handler took over. The
  argument \<open>n\<close> bounds the rounds; None means they ran out. A throw of the parser is a left value.
\<close>

fun serve :: "nat \<Rightarrow> http_callbacks \<Rightarrow> int \<Rightarrow> timestamp \<Rightarrow> http_context \<Rightarrow> http_world \<Rightarrow> (exn + http_world) option" where
  "serve 0 cbs cur t ctx w = None"
| "serve (Suc n) cbs cur t ctx w =
     (if \<not> connected (conn w) then Some (Inr (setApplicationContext (Some ctx) w))
      else
        (case parseRequest t ctx (inputBuffer (conn w)) of
           Inl e \<Rightarrow> Some (Inl e)
         | Inr (result, ctx, buf) \<Rightarrow>
             (let w = w\<lparr>conn := (conn w)\<lparr>inputBuffer := buf\<rparr>\<rparr> in
              case result of
                kIncomplete \<Rightarrow> Some (Inr (setApplicationContext (Some ctx) w))
              | kBadRequest \<Rightarrow> Some (Inr (setApplicationContext (Some ctx) (shutdown cur (send cur bad_request_bytes w))))
              | kRequestTooLarge \<Rightarrow> Some (Inr (setApplicationContext (Some ctx) (shutdown cur (send cur too_large_bytes w))))
              | kComplete \<Rightarrow>
                  (let (stopParsing, w) = onRequest cbs cur (ctx_request ctx) w;
                       ctx = ctx_reset ctx
                   in if stopParsing then Some (Inr (setApplicationContext (Some ctx) w))
                      else if readableBytes (inputBuffer (conn w)) = 0 then Some (Inr (setApplicationContext (Some ctx) w))
                      else serve n cbs cur t ctx w))))"

definition onMessage :: "nat \<Rightarrow> http_callbacks \<Rightarrow> int \<Rightarrow> timestamp \<Rightarrow> http_world \<Rightarrow> (exn + http_world) option" where
  "onMessage n cbs cur t w =
     (let ctx = (case appContext (conn w) of None \<Rightarrow> http_context_new | Some c \<Rightarrow> c)
      in serve n cbs cur t ctx w)"

subsection \<open>What a round leaves alone\<close>

lemma send_direct_conn: "conn (snd (send_direct cur s w)) = conn w"
  by (simp add: send_direct_def sys_write_def Let_def split: sum.splits if_splits)

lemma send_frame [simp]:
  "inputBuffer (conn (send cur s w)) = inputBuffer (conn w)" "appContext (conn (send cur s w)) = appContext (conn w)"
proof -
  have d: "conn (snd (send_direct cur s w)) = conn w" by (rule send_direct_conn)
  obtain n r fault w1 where sd: "send_direct cur s w = ((n, r, fault), w1)" by (metis surj_pair)
  with d have "conn w1 = conn w" by simp
  then have "inputBuffer (conn (sendInLoop cur s w)) = inputBuffer (conn w) \<and> appContext (conn (sendInLoop cur s w)) = appContext (conn w)"
    by (simp add: sendInLoop_def sd Let_def)
  then show "inputBuffer (conn (send cur s w)) = inputBuffer (conn w)" "appContext (conn (send cur s w)) = appContext (conn w)"
    by (simp_all add: send_def)
qed

lemma shutdown_frame [simp]:
  "inputBuffer (conn (shutdown cur w)) = inputBuffer (conn w)" "appContext (conn (shutdown cur w)) = appContext (conn w)"
  by (simp_all add: shutdown_def setState_def Let_def)

lemma onRequest_sync_frame:
  "asyncHttpCallback cbs = None \<Longrightarrow> inputBuffer (conn (snd (onRequest cbs cur req w))) = inputBuffer (conn w)"
  by (simp add: onRequest_def Let_def)

subsection \<open>Serving ends\<close>

lemma parse_bytes_shrinks:
  assumes "parse_bytes now c s = (res, c', s')"
  shows "length s' \<le> length s"
proof -
  have "length (snd (snd (parse_bytes now c s))) \<le> length s"
    by (induction c s rule: parse_bytes_rule [where now = now]) auto
  with assms show ?thesis by simp
qed

lemma fresh_parse_consumes:
  assumes "parse_bytes now http_context_new s = (kComplete, c', s')"
  shows "length s' < length s"
proof -
  have line: "ctx_state http_context_new = kExpectRequestLine \<or> ctx_state http_context_new = kExpectHeaders"
    by (simp add: http_context_new_def)
  note unf = parse_bytes_line [OF line, of now s]
  show ?thesis
  proof (cases "find_sub CRLF s")
    case None
    with assms show ?thesis by (auto simp: unf split: if_splits)
  next
    case (Some n)
    let ?c = "http_context_new\<lparr>headerBytes := headerBytes http_context_new + (n + 2)\<rparr>"
    obtain c2 where "process_line now (take n s) ?c = Inr c2" "parse_bytes now c2 (drop (n + 2) s) = (kComplete, c', s')"
      using assms Some by (auto simp: unf Let_def split: if_splits sum.splits prod.splits dest: process_line_Inl)
    with parse_bytes_shrinks [OF this(2)] find_sub_bound [OF Some] show ?thesis by simp
  qed
qed

lemma serve_ends:
  assumes "asyncHttpCallback cbs = None" "buf_ok (inputBuffer (conn w))"
    "readableBytes (inputBuffer (conn w)) + (if ctx = http_context_new then 0 else 1) < n"
  shows "\<exists>w'. serve n cbs cur t ctx w = Some (Inr w')"
  using assms(2,3)
proof (induction n arbitrary: ctx w)
  case (Suc n)
  obtain res c' b' where p: "parseRequest t ctx (inputBuffer (conn w)) = Inr (res, c', b')" "buf_ok b'"
    "parse_bytes t ctx (content (inputBuffer (conn w))) = (res, c', content b')"
    using parse_refines [OF Suc.prems(1), of t ctx] by auto
  let ?w = "w\<lparr>conn := (conn w)\<lparr>inputBuffer := b'\<rparr>\<rparr>"
  obtain stop w2 where o: "onRequest cbs cur (ctx_request c') ?w = (stop, w2)" by (rule prod.exhaust)
  have in2: "inputBuffer (conn w2) = b'" using onRequest_sync_frame [OF assms(1), of cur "ctx_request c'" ?w] o by simp
  show ?case
  proof (cases "connected (conn w) \<and> res = kComplete \<and> \<not> stop \<and> readableBytes b' \<noteq> 0")
    case False
    with p(1) o in2 show ?thesis by (cases res; cases stop) (auto simp: Let_def)
  next
    case True
    have len: "length (content b') = readableBytes b'" "length (content (inputBuffer (conn w))) = readableBytes (inputBuffer (conn w))"
      using p(2) Suc.prems(1) by (simp_all add: length_content)
    have "readableBytes b' < n"
    proof (cases "ctx = http_context_new")
      case True
      with p(3) \<open>connected (conn w) \<and> res = kComplete \<and> \<not> stop \<and> readableBytes b' \<noteq> 0\<close>
      have "length (content b') < length (content (inputBuffer (conn w)))" by (intro fresh_parse_consumes) simp
      with len Suc.prems(2) show ?thesis by (simp split: if_splits)
    next
      case False
      with parse_bytes_shrinks [OF p(3)] len Suc.prems(2) show ?thesis by simp
    qed
    moreover have "ctx_reset c' = http_context_new" by (rule ctx_reset_eq)
    ultimately obtain w' where "serve n cbs cur t (ctx_reset c') w2 = Some (Inr w')"
      using Suc.IH [of w2 "ctx_reset c'"] in2 p(2) by auto
    with True p(1) o in2 show ?thesis by (simp add: Let_def)
  qed
qed simp

text \<open>
  Property C28. Serving a buffer of input always ends, and never throws: with a synchronous handler, whatever bytes
  the peer sent and in whatever state the parser is, the loop of \<open>onMessage\<close> needs at most two rounds
  more than there are bytes, because every served request after the first consumes input.
\<close>

theorem onMessage_ends:
  assumes "asyncHttpCallback cbs = None" "buf_ok (inputBuffer (conn w))"
    "readableBytes (inputBuffer (conn w)) + 2 \<le> n"
  shows "\<exists>w'. onMessage n cbs cur t w = Some (Inr w')"
  unfolding onMessage_def Let_def using assms by (intro serve_ends) auto

definition sync_callbacks :: http_callbacks where
  "sync_callbacks = \<lparr>httpCallback = defaultHttpCallback, asyncHttpCallback = None, header_order = (\<lambda>r. [])\<rparr>"

definition http_world :: http_world where
  "http_world = (let (c, tr) = tcp_connection_new 100 200 ''c'' 7 bzero_addr bzero_addr []
     in \<lparr>conn = c, io_loop = sample_loop, wire = [], calls = tr, net_answer = (\<lambda>k n. Inr (min 2 n)), net_count = 0\<rparr>)"

lemma http_world_fresh: "fresh_world http_world" "threadId (io_loop http_world) = 1"
  using sample_fresh
  by (auto simp: fresh_world_def sample_world_def http_world_def tcp_connection_new_def split_beta Let_def intro!: exI [of _ "[]"])

lemma onMessage_ends_witness:
  "\<exists>w'. onMessage 2 sync_callbacks 1 timestamp_default http_world = Some (Inr w')"
  by (rule onMessage_ends) (simp_all add: sync_callbacks_def http_world_def tcp_connection_new_def readableBytes_def buffer_new_def Let_def buf_ok_def)

subsection \<open>Pipelining\<close>

text \<open>A request as a client composes it.\<close>

record message =
  msg_method :: http_method
  msg_path :: bytes
  msg_query :: "bytes option"
  msg_version :: http_version
  msg_headers :: "(bytes \<times> bytes) list"
  msg_body :: payload

definition msg_ok :: "message \<Rightarrow> bool" where
  "msg_ok m \<longleftrightarrow> sendable (msg_method m) (msg_path m) (msg_query m) (msg_version m) (msg_headers m) (msg_body m)"

definition msg_bytes :: "message \<Rightarrow> bytes" where
  "msg_bytes m = render_head (msg_method m) (msg_path m) (msg_query m) (msg_version m) (msg_headers m) @ payload_bytes (msg_body m)"

definition msg_request :: "timestamp \<Rightarrow> message \<Rightarrow> http_request" where
  "msg_request t m = request_of t (msg_method m) (msg_path m) (msg_query m) (msg_version m) (msg_headers m) (msg_body m)"

definition reply :: "http_callbacks \<Rightarrow> http_request \<Rightarrow> http_response" where
  "reply cbs req = httpCallback cbs req (http_response_new (wants_close req))"

definition reply_bytes :: "http_callbacks \<Rightarrow> http_request \<Rightarrow> bytes" where
  "reply_bytes cbs req = response_bytes (header_order cbs (reply cbs req)) (reply cbs req)"

text \<open>The handler's answer keeps the connection open and has a body of a sane size.\<close>

definition keeps_open :: "http_callbacks \<Rightarrow> http_request \<Rightarrow> bool" where
  "keeps_open cbs req \<longleftrightarrow> \<not> closeConnection (reply cbs req) \<and> length (rsp_body (reply cbs req)) < 10 ^ 13"

text \<open>The kernel reports no broken connection.\<close>

definition net_calm :: "(nat \<Rightarrow> nat \<Rightarrow> int + nat) \<Rightarrow> bool" where
  "net_calm answer \<longleftrightarrow> (\<forall>k n e. answer k n = Inl e \<longrightarrow> e \<noteq> EPIPE \<and> e \<noteq> ECONNRESET)"

lemma calm_accepts:
  assumes "net_calm (net_answer w)" "conn_state (conn w) = kConnected"
  shows "accepts cur s w"
  using assms by (auto simp: accepts_def send_direct_def sys_write_def net_calm_def Let_def split: sum.splits if_splits)

lemma sendInLoop_net: "net_answer (sendInLoop cur s w) = net_answer w"
proof -
  obtain n r fault w1 where sd: "send_direct cur s w = ((n, r, fault), w1)" by (metis surj_pair)
  then have "net_answer w1 = net_answer w"
    by (auto simp: send_direct_def sys_write_def Let_def split: sum.splits if_splits)
  then show ?thesis by (simp add: sendInLoop_def sd Let_def)
qed

text \<open>A connection that is up, in the thread of its loop; what the rounds of \<open>serve\<close> keep while no write fails.\<close>

definition working :: "int \<Rightarrow> http_world \<Rightarrow> bool" where
  "working cur w \<longleftrightarrow> run_ok w \<and> conn_state (conn w) = kConnected \<and> isInLoopThread cur (io_loop w) \<and> buf_ok (inputBuffer (conn w))"

definition serving :: "int \<Rightarrow> http_world \<Rightarrow> bool" where
  "serving cur w \<longleftrightarrow> run_ok w \<and> conn_state (conn w) = kConnected \<and> isInLoopThread cur (io_loop w)
     \<and> net_calm (net_answer w) \<and> buf_ok (inputBuffer (conn w))"

lemma serving_working: "serving cur w \<longleftrightarrow> working cur w \<and> net_calm (net_answer w)"
  by (auto simp: serving_def working_def)

lemma serving_input:
  "serving cur w \<Longrightarrow> buf_ok b \<Longrightarrow> serving cur (w\<lparr>conn := (conn w)\<lparr>inputBuffer := b\<rparr>\<rparr>)"
  by (simp add: serving_def run_ok_def conn_ok_def)

text \<open>Sending a response: its bytes join the stream, unless the write meets a broken connection, and nothing else changes.\<close>

lemma send_response_any:
  assumes "working cur w" "length (rsp_body r) < 10 ^ 13"
    "w' = send cur (fst (retrieveAllAsString (appendToBuffer order r (buffer_new kInitialSize)))) w"
  shows "working cur w' \<and> inputBuffer (conn w') = inputBuffer (conn w) \<and> net_answer w' = net_answer w
    \<and> wire w' @ out_pending w' = wire w @ out_pending w @ (if accepts cur (response_bytes order r) w then response_bytes order r else [])"
proof -
  let ?buf = "appendToBuffer order r (buffer_new kInitialSize)"
  have a: "buf_ok ?buf" "content ?buf = response_bytes order r"
    using appendToBuffer_ok [OF buf_ok_new, of r order kInitialSize] assms(2) by simp_all
  have rt: "fst (retrieveAllAsString ?buf) = response_bytes order r"
    using a retrieveAsString_eq [OF a(1)] length_content [OF a(1)] by (simp add: retrieveAllAsString_def)
  have s: "w' = sendInLoop cur (response_bytes order r) w" using assms(1,3) rt by (simp add: send_def working_def)
  have c: "conn_ok w" "run_ok w" using assms(1) by (simp_all add: working_def run_ok_def)
  note f = sendInLoop_ok [OF c(1), of cur "response_bytes order r"]
  have frame: "inputBuffer (conn w') = inputBuffer (conn w)" by (simp add: assms(3))
  then have "working cur w'"
    using assms(1) f(3,5) run_ok_sendInLoop [OF c(2)] by (simp add: working_def s isInLoopThread_def)
  then show ?thesis using f(2) frame sendInLoop_net [of cur _ w] by (simp add: s)
qed

lemma send_response:
  assumes "serving cur w" "length (rsp_body r) < 10 ^ 13"
    "w' = send cur (fst (retrieveAllAsString (appendToBuffer order r (buffer_new kInitialSize)))) w"
  shows "serving cur w' \<and> inputBuffer (conn w') = inputBuffer (conn w)
    \<and> wire w' @ out_pending w' = wire w @ out_pending w @ response_bytes order r"
proof -
  have "accepts cur (response_bytes order r) w" using assms(1) by (intro calm_accepts) (simp_all add: serving_def)
  then show ?thesis using send_response_any [OF _ assms(2,3)] assms(1) by (simp add: serving_working)
qed

text \<open>The asynchronous callback, when one is set, leaves a request alone.\<close>

definition declines :: "http_callbacks \<Rightarrow> http_request \<Rightarrow> bool" where
  "declines cbs req \<longleftrightarrow> (case asyncHttpCallback cbs of None \<Rightarrow> True | Some f \<Rightarrow> (\<forall>w. f req w = (False, w)))"

lemma onRequest_keep:
  assumes "serving cur w" "declines cbs req" "keeps_open cbs req"
  shows "\<exists>w'. onRequest cbs cur req w = (False, w') \<and> serving cur w' \<and> inputBuffer (conn w') = inputBuffer (conn w)
    \<and> wire w' @ out_pending w' = wire w @ out_pending w @ reply_bytes cbs req"
proof -
  let ?r = "reply cbs req"
  let ?w = "send cur (fst (retrieveAllAsString (appendToBuffer (header_order cbs ?r) ?r (buffer_new kInitialSize)))) w"
  have "onRequest cbs cur req w = (False, ?w)"
    using assms(2,3) by (simp add: onRequest_def declines_def keeps_open_def reply_def Let_def split: option.splits)
  then show ?thesis
    using send_response [OF assms(1) _ refl] assms(3) by (simp add: keeps_open_def reply_bytes_def)
qed

lemma serve_pipeline:
  assumes "list_all (\<lambda>m. declines cbs (msg_request t m)) ms" "list_all msg_ok ms" "list_all (\<lambda>m. keeps_open cbs (msg_request t m)) ms"
    "serving cur w" "content (inputBuffer (conn w)) = concat (map msg_bytes ms)" "ms \<noteq> []" "length ms \<le> n"
  shows "\<exists>w'. serve n cbs cur t http_context_new w = Some (Inr w') \<and> content (inputBuffer (conn w')) = []
    \<and> wire w' @ out_pending w' = wire w @ out_pending w @ concat (map (\<lambda>m. reply_bytes cbs (msg_request t m)) ms)
    \<and> connected (conn w') \<and> appContext (conn w') = Some http_context_new"
  using assms
proof (induction ms arbitrary: n w)
  case (Cons m ms)
  obtain k where n: "n = Suc k" using Cons.prems(7) by (cases n) auto
  have ok: "buf_ok (inputBuffer (conn w))" "connected (conn w)" using Cons.prems(4) by (simp_all add: serving_def connected_def)
  have "parse_bytes t http_context_new (content (inputBuffer (conn w))) = parse_bytes t http_context_new
      (render_head (msg_method m) (msg_path m) (msg_query m) (msg_version m) (msg_headers m) @ payload_bytes (msg_body m) @ concat (map msg_bytes ms))"
    using Cons.prems(5) by (simp add: msg_bytes_def [of m])
  then obtain c where c: "parse_bytes t http_context_new (content (inputBuffer (conn w))) = (kComplete, c, concat (map msg_bytes ms))"
    "ctx_request c = msg_request t m"
    using parse_rendered [of "msg_method m" "msg_path m" "msg_query m" "msg_version m" "msg_headers m" "msg_body m" t "concat (map msg_bytes ms)"] Cons.prems(2)
    by (auto simp: msg_ok_def msg_request_def)
  obtain b where b: "parseRequest t http_context_new (inputBuffer (conn w)) = Inr (kComplete, c, b)" "buf_ok b" "content b = concat (map msg_bytes ms)"
    using parse_refines [OF ok(1), of t http_context_new] c(1) by auto
  let ?w = "w\<lparr>conn := (conn w)\<lparr>inputBuffer := b\<rparr>\<rparr>"
  obtain w1 where w1: "onRequest cbs cur (msg_request t m) ?w = (False, w1)" "serving cur w1" "inputBuffer (conn w1) = b"
    "wire w1 @ out_pending w1 = wire w @ out_pending w @ reply_bytes cbs (msg_request t m)"
    using onRequest_keep [OF serving_input [OF Cons.prems(4) b(2)], of cbs "msg_request t m"] Cons.prems(1,3)
    by (auto simp: out_pending_def)
  have step: "serve n cbs cur t http_context_new w =
      (if readableBytes b = 0 then Some (Inr (setApplicationContext (Some http_context_new) w1))
       else serve k cbs cur t http_context_new w1)"
    using n ok(2) b(1) c(2) w1(1,3) ctx_reset_eq by (simp add: Let_def)
  show ?case
  proof (cases "ms = []")
    case True
    then have "readableBytes b = 0" using b readable_zero by simp
    with step w1 b(3) True show ?thesis
      by (auto simp: setApplicationContext_def out_pending_def serving_def connected_def)
  next
    case False
    have ne: "concat (map msg_bytes ms) \<noteq> []"
      using False by (cases ms) (simp_all add: msg_bytes_def render_head_def)
    have "readableBytes b \<noteq> 0" using readable_zero [OF b(2)] b(3) ne by simp
    moreover obtain w' where "serve k cbs cur t http_context_new w1 = Some (Inr w')" "content (inputBuffer (conn w')) = []"
      "wire w' @ out_pending w' = wire w1 @ out_pending w1 @ concat (map (\<lambda>m. reply_bytes cbs (msg_request t m)) ms)"
      "connected (conn w')" "appContext (conn w') = Some http_context_new"
      using Cons.IH [OF _ _ _ w1(2) _ False, of k] Cons.prems w1(3) b(3) n by auto
    moreover have "wire w1 @ out_pending w1 @ xs = (wire w @ out_pending w @ reply_bytes cbs (msg_request t m)) @ xs" for xs
      using w1(4) by (metis append_assoc)
    ultimately show ?thesis using step by simp
  qed
qed simp

text \<open>
  Property C6. Pipelining: when the input buffer of an idle connection holds any number of requests, one after another, one
  \<open>onMessage\<close> serves them all; the bytes put on the wire or into the output buffer are exactly the synchronous handler's
  responses to exactly these requests, in their order; the input is used up, and the connection is ready for the next request.
  Conditions: every request is \<open>sendable\<close>, as C11 spells it out, its payload bytes or a multipart/form-data
  form; the asynchronous callback, if one is set (main.cc sets one), declines each of them and leaves the
  connection alone; the handler's responses keep the connection open and have bodies below 10^13 bytes; and no write of the
  kernel fails with EPIPE or ECONNRESET, with which \<open>sendInLoop\<close> would drop a response.
\<close>

theorem pipelined_requests:
  assumes "list_all (\<lambda>m. declines cbs (msg_request t m)) ms" "list_all msg_ok ms" "list_all (\<lambda>m. keeps_open cbs (msg_request t m)) ms"
    "serving cur w" "appContext (conn w) = Some http_context_new"
    "content (inputBuffer (conn w)) = concat (map msg_bytes ms)" "ms \<noteq> []" "length ms \<le> n"
  shows "\<exists>w'. onMessage n cbs cur t w = Some (Inr w') \<and> content (inputBuffer (conn w')) = []
    \<and> wire w' @ content (outputBuffer (conn w')) = wire w @ content (outputBuffer (conn w))
        @ concat (map (\<lambda>m. reply_bytes cbs (msg_request t m)) ms)
    \<and> connected (conn w') \<and> appContext (conn w') = Some http_context_new"
  using serve_pipeline [OF assms(1-4,6-8)] assms(5) by (simp add: onMessage_def out_pending_def)

definition ok_callbacks :: http_callbacks where
  "ok_callbacks = \<lparr>httpCallback = (\<lambda>req resp. rsp_setBody (req_path req) (setStatusCode k200Ok resp)),
     asyncHttpCallback = Some (\<lambda>req w. (req_path req = ''/async'', w)), header_order = (\<lambda>r. [])\<rparr>"

definition get_message :: "bytes \<Rightarrow> message" where
  "get_message p = \<lparr>msg_method = kGet, msg_path = p, msg_query = None, msg_version = kHttp11, msg_headers = [], msg_body = Plain []\<rparr>"

definition form_message :: message where
  "form_message = \<lparr>msg_method = kPost, msg_path = ''/v1/infer'', msg_query = Some ''k=v'', msg_version = kHttp11,
     msg_headers = sample_headers, msg_body = sample_form\<rparr>"

lemma form_message_ok: "msg_ok form_message"
  using sample_sendable by (simp add: msg_ok_def form_message_def)

lemma get_message_ok: "msg_ok (get_message ''/a'')"
  by (simp add: msg_ok_def get_message_def sendable_def plain_target_def render_head_def render_line_def
      render_target_def kMaxHeaderBytes_def kMaxBodyBytes_def)

lemma sample_connection: "header_map Map.empty sample_headers ''connection'' = None" "to_lower ''Connection'' = ''connection''"
  by code_simp+

lemma message_reply: "keeps_open ok_callbacks (msg_request t (get_message ''/a''))" "keeps_open ok_callbacks (msg_request t form_message)"
  by (simp_all add: sample_connection form_message_def keeps_open_def reply_def ok_callbacks_def wants_close_def getHeader_def msg_request_def get_message_def
      request_of_def http_request_new_def acc_defs http_response_new_def)

lemma serving_sample:
  assumes "fresh_world w" "net_calm (net_answer w)"
  defines "v \<equiv> connectEstablished no_callbacks w"
  shows "serving (threadId (io_loop w)) (v\<lparr>conn := (conn v)\<lparr>inputBuffer := append s (buffer_new 16), appContext := a\<rparr>\<rparr>)"
proof -
  note e = established_ok [OF assms(1), folded v_def]
  have "net_answer v = net_answer w"
    by (simp add: v_def connectEstablished_def no_callbacks_def setState_def Let_def)
  with e assms(2) show ?thesis
    by (simp add: serving_def run_ok_def conn_ok_def chan_ok_def isInLoopThread_def buf_simps)
qed

lemma pipelined_requests_witness:
  "\<exists>w w'. content (inputBuffer (conn w)) = msg_bytes (get_message ''/a'') @ msg_bytes form_message
     \<and> onMessage 5 ok_callbacks 1 timestamp_default w = Some (Inr w') \<and> content (inputBuffer (conn w')) = []"
proof -
  let ?ms = "[get_message ''/a'', form_message]"
  let ?v = "connectEstablished no_callbacks http_world"
  let ?w = "?v\<lparr>conn := (conn ?v)\<lparr>inputBuffer := append (concat (map msg_bytes ?ms)) (buffer_new 16), appContext := Some http_context_new\<rparr>\<rparr>"
  have "net_calm (net_answer http_world)"
    by (simp add: http_world_def net_calm_def tcp_connection_new_def Let_def)
  then have s: "serving 1 ?w" using serving_sample [OF http_world_fresh(1)] http_world_fresh(2) by metis
  have c: "content (inputBuffer (conn ?w)) = concat (map msg_bytes ?ms)" by (simp add: buf_simps)
  have m: "list_all msg_ok ?ms" "list_all (\<lambda>m. keeps_open ok_callbacks (msg_request timestamp_default m)) ?ms"
    using get_message_ok form_message_ok message_reply by simp_all
  have a: "list_all (\<lambda>m. declines ok_callbacks (msg_request timestamp_default m)) ?ms" "appContext (conn ?w) = Some http_context_new"
    by (simp_all add: ok_callbacks_def declines_def msg_request_def request_of_def get_message_def form_message_def http_request_new_def acc_defs)
  have "content (inputBuffer (conn ?w)) = msg_bytes (get_message ''/a'') @ msg_bytes form_message" using c by simp
  moreover obtain w' where "onMessage 5 ok_callbacks 1 timestamp_default ?w = Some (Inr w')" "content (inputBuffer (conn w')) = []"
    using pipelined_requests [OF a(1) m s a(2) c, of 5] by auto
  ultimately show ?thesis by blast
qed

end
