(* ===== verification/Timer_Queue.thy ===== *)
theory Timer_Queue
  imports Event_Loop "HOL-Library.Product_Lexorder"
begin

text \<open>
  \<open>src/src/timer\<close>: a timer and the queue of timers of a loop. \<open>TimerList\<close> is a \<open>std::set\<close> of
  (expiration, address) pairs, a list that is sorted and without repetition. The timer objects are a
  store by address. A callback is a functor of type \<open>'f\<close>, run by the argument \<open>exec\<close>. \<open>armed\<close> is the last
  value given to \<open>timerfd_settime\<close>.
\<close>

record 'f timer =
  tm_callback :: 'f
  tm_expiration :: timestamp
  tm_interval :: rat
  tm_repeat :: bool

definition timer_new :: "'f \<Rightarrow> timestamp \<Rightarrow> rat \<Rightarrow> 'f timer" where
  "timer_new cb when interval = \<lparr>tm_callback = cb, tm_expiration = when, tm_interval = interval, tm_repeat = (0 < interval)\<rparr>"

definition timer_restart :: "timestamp \<Rightarrow> 'f timer \<Rightarrow> 'f timer" where
  "timer_restart now t =
     (if tm_repeat t then t\<lparr>tm_expiration := addTime now (tm_interval t)\<rparr>
      else t\<lparr>tm_expiration := timestamp_default\<rparr>)"

type_synonym entry = "timestamp \<times> nat"

record 'f timer_queue =
  timerfd :: int
  timerfdChannel :: channel
  timers :: "entry list"
  timer_store :: "nat \<Rightarrow> 'f timer"
  armed :: "(int \<times> int) option"
  callingExpiredTimers :: bool
  stdin_waits :: nat

definition UINTPTR_MAX :: nat where
  "UINTPTR_MAX = 2 ^ 64 - 1"

text \<open>The constructor registers the timer descriptor with the loop's poller. The flag is not initialised by it.\<close>

definition timer_queue_new :: "int \<Rightarrow> nat \<Rightarrow> bool \<Rightarrow> (nat \<Rightarrow> 'f timer) \<Rightarrow> poller \<Rightarrow> 'f timer_queue \<times> poller" where
  "timer_queue_new fd chaddr garbage store p =
     (let (ch, p) = enableReading (channel_new chaddr fd) p
      in (\<lparr>timerfd = fd, timerfdChannel = ch, timers = [], timer_store = store, armed = None,
           callingExpiredTimers = garbage, stdin_waits = 0\<rparr>, p))"

definition timer_queue_destroy :: "'f timer_queue \<Rightarrow> poller \<Rightarrow> 'f timer_queue \<times> poller" where
  "timer_queue_destroy q p =
     (let (ch, p) = disableAll (timerfdChannel q) p;
          (ch, p) = removeChannel ch p
      in (q\<lparr>timerfdChannel := ch, timers := []\<rparr>, p))"

text \<open>\<open>insert\<close>: whether the new timer is earlier than all others, and the new set.\<close>

definition tq_insert :: "nat \<Rightarrow> 'f timer_queue \<Rightarrow> bool \<times> 'f timer_queue" where
  "tq_insert a q =
     (let when = tm_expiration (timer_store q a);
          earliestChanged = (timers q = [] \<or> when < fst (hd (timers q)))
      in (earliestChanged, q\<lparr>timers := insort_insert (when, a) (timers q)\<rparr>))"

text \<open>\<open>resetTimerfd\<close>: seconds and nanoseconds from now, at least 100 microseconds.\<close>

definition resetTimerfd :: "64 word \<Rightarrow> timestamp \<Rightarrow> 'f timer_queue \<Rightarrow> 'f timer_queue" where
  "resetTimerfd clock expiration q =
     (let dif = sint (microSecondsSinceEpoch expiration - microSecondsSinceEpoch (ts_now clock));
          dif = (if dif < 100 then 100 else dif);
          tv_sec = c_div dif kMicroSecondsPerSecond;
          tv_nsec = c_mod dif kMicroSecondsPerSecond * 1000
      in q\<lparr>armed := Some (tv_sec, tv_nsec)\<rparr>)"

definition addTimerInLoop :: "64 word \<Rightarrow> nat \<Rightarrow> 'f timer_queue \<Rightarrow> 'f timer_queue" where
  "addTimerInLoop clock a q =
     (let (earliestChanged, q) = tq_insert a q
      in if earliestChanged then resetTimerfd clock (tm_expiration (timer_store q a)) q else q)"

text \<open>
  \<open>addTimer\<close> up to the \<open>runInLoop\<close>: the new object, and the \<open>getchar()\<close> that waits for a character of
  the standard input.
\<close>

definition addTimer :: "nat \<Rightarrow> 'f \<Rightarrow> timestamp \<Rightarrow> rat \<Rightarrow> 'f timer_queue \<Rightarrow> 'f timer_queue" where
  "addTimer a cb when interval q =
     q\<lparr>timer_store := (timer_store q)(a := timer_new cb when interval), stdin_waits := Suc (stdin_waits q)\<rparr>"

definition getExpired :: "timestamp \<Rightarrow> 'f timer_queue \<Rightarrow> entry list \<times> 'f timer_queue" where
  "getExpired now q =
     (let sentry = (now, UINTPTR_MAX);
          expired = takeWhile (\<lambda>e. e < sentry) (timers q)
      in (expired, q\<lparr>timers := dropWhile (\<lambda>e. e < sentry) (timers q)\<rparr>))"

text \<open>
  \<open>reset\<close>; a one-shot timer's object is deleted. The clock is read anew in every iteration, by \<open>Timestamp::now()\<close> and by
  \<open>resetTimerfd\<close>: \<open>clock k\<close> is what its \<open>k\<close>-th reading gives.
\<close>

fun tq_reset :: "(nat \<Rightarrow> 64 word) \<Rightarrow> nat \<Rightarrow> entry list \<Rightarrow> 'f timer_queue \<Rightarrow> 'f timer_queue" where
  "tq_reset clock k [] q = q"
| "tq_reset clock k ((w, a) # es) q =
     (let q = (if tm_repeat (timer_store q a)
               then snd (tq_insert a (q\<lparr>timer_store := (timer_store q)(a := timer_restart (ts_now (clock k)) (timer_store q a))\<rparr>))
               else q);
          q = (if timers q \<noteq> [] then resetTimerfd (clock (Suc k)) (tm_expiration (timer_store q (snd (hd (timers q))))) q else q)
      in tq_reset clock (Suc (Suc k)) es q)"

fun run_expired :: "('f \<Rightarrow> 'f timer_queue \<times> 's \<Rightarrow> 'f timer_queue \<times> 's) \<Rightarrow> entry list \<Rightarrow> 'f timer_queue \<times> 's \<Rightarrow> 'f timer_queue \<times> 's" where
  "run_expired exec [] st = st"
| "run_expired exec ((w, a) # es) st = run_expired exec es (exec (tm_callback (timer_store (fst st) a)) st)"

definition tq_handleRead :: "('f \<Rightarrow> 'f timer_queue \<times> 's \<Rightarrow> 'f timer_queue \<times> 's) \<Rightarrow> (nat \<Rightarrow> 64 word) \<Rightarrow> 'f timer_queue \<times> 's \<Rightarrow> 'f timer_queue \<times> 's" where
  "tq_handleRead exec clock st =
     (let now = ts_now (clock 0);
          (expired, q) = getExpired now (fst st);
          q = q\<lparr>callingExpiredTimers := True\<rparr>;
          (q, s) = run_expired exec expired (q, snd st);
          q = q\<lparr>callingExpiredTimers := False\<rparr>
      in (tq_reset clock 1 expired q, s))"

subsection \<open>The queue is ordered\<close>

definition tq_ok :: "'f timer_queue \<Rightarrow> bool" where
  "tq_ok q \<longleftrightarrow> sorted (timers q) \<and> distinct (timers q) \<and>
     (\<forall>(w, a)\<in>set (timers q). w = tm_expiration (timer_store q a) \<and> a < UINTPTR_MAX)"

lemma insort_insert_set: "set (insort_insert x xs) = insert x (set xs)"
  by (simp add: set_insort_insert)

lemma tq_insert_ok:
  assumes "tq_ok q" "a < UINTPTR_MAX"
  shows "tq_ok (snd (tq_insert a q))" "set (timers (snd (tq_insert a q))) = insert (tm_expiration (timer_store q a), a) (set (timers q))"
    "timer_store (snd (tq_insert a q)) = timer_store q"
  using assms by (auto simp: tq_insert_def tq_ok_def Let_def sorted_insort_insert distinct_insort_insert insort_insert_set)

lemma resetTimerfd_frame [simp]:
  "timers (resetTimerfd c e q) = timers q" "timer_store (resetTimerfd c e q) = timer_store q" "tq_ok (resetTimerfd c e q) = tq_ok q"
  by (simp_all add: resetTimerfd_def tq_ok_def Let_def)

lemma takeWhile_sorted_filter:
  fixes xs :: "'a :: linorder list"
  shows "sorted xs \<Longrightarrow> takeWhile (\<lambda>e. e < c) xs = filter (\<lambda>e. e < c) xs \<and> dropWhile (\<lambda>e. e < c) xs = filter (\<lambda>e. \<not> e < c) xs"
proof (induction xs)
  case (Cons x xs)
  show ?case
  proof (cases "x < c")
    case False
    with Cons.prems have "\<forall>y\<in>set xs. \<not> y < c" by auto
    with False show ?thesis by (auto simp: filter_empty_conv filter_id_conv)
  qed (use Cons in simp)
qed simp

lemma below_sentry: "(w :: timestamp, a) < (now, UINTPTR_MAX) \<longleftrightarrow> w \<le> now" if "a < UINTPTR_MAX"
  using that by (auto simp: less_prod_def order_le_less)

lemma getExpired_eq:
  assumes "tq_ok q"
  shows "fst (getExpired now q) = [e \<leftarrow> timers q. fst e \<le> now]"
    "timers (snd (getExpired now q)) = [e \<leftarrow> timers q. now < fst e]"
proof -
  have eq: "e \<in> set (timers q) \<Longrightarrow> (e < (now, UINTPTR_MAX)) = (fst e \<le> now)" for e
    using assms below_sentry by (cases e) (auto simp: tq_ok_def)
  have s: "sorted (timers q)" using assms by (simp add: tq_ok_def)
  show "fst (getExpired now q) = [e \<leftarrow> timers q. fst e \<le> now]"
    using takeWhile_sorted_filter [OF s] eq by (simp add: getExpired_def Let_def cong: filter_cong)
  show "timers (snd (getExpired now q)) = [e \<leftarrow> timers q. now < fst e]"
    using takeWhile_sorted_filter [OF s] eq by (simp add: getExpired_def Let_def not_le cong: filter_cong)
qed

lemma getExpired_ok: "tq_ok q \<Longrightarrow> tq_ok (snd (getExpired now q))"
  using getExpired_eq(2) [of q now] by (auto simp: tq_ok_def sorted_wrt_filter getExpired_def Let_def)

text \<open>What a repeating timer's next entry is, and the effect of \<open>reset\<close>.\<close>

definition comeback :: "(nat \<Rightarrow> 64 word) \<Rightarrow> nat \<Rightarrow> 'f timer_queue \<Rightarrow> entry list \<Rightarrow> entry set" where
  "comeback clock k q es =
     {(addTime (ts_now (clock (k + 2 * i))) (tm_interval (timer_store q a)), a) | i w a.
        i < length es \<and> es ! i = (w, a) \<and> tm_repeat (timer_store q a)}"

lemma comeback_Cons:
  "comeback clock k q ((w, a) # es) =
    (if tm_repeat (timer_store q a) then {(addTime (ts_now (clock k)) (tm_interval (timer_store q a)), a)} else {})
      \<union> comeback clock (Suc (Suc k)) q es" (is "?l = ?r")
proof (intro subset_antisym subsetI)
  fix x assume "x \<in> ?l"
  then obtain i v b where i: "x = (addTime (ts_now (clock (k + 2 * i))) (tm_interval (timer_store q b)), b)"
    "i < length ((w, a) # es)" "((w, a) # es) ! i = (v, b)" "tm_repeat (timer_store q b)"
    unfolding comeback_def by blast
  show "x \<in> ?r"
  proof (cases i)
    case (Suc j)
    then have "x = (addTime (ts_now (clock (Suc (Suc k) + 2 * j))) (tm_interval (timer_store q b)), b)" "j < length es" "es ! j = (v, b)"
      using i by simp_all
    then show ?thesis using i(4) unfolding comeback_def by blast
  qed (use i in simp)
next
  fix x assume "x \<in> ?r"
  then consider "tm_repeat (timer_store q a)" "x = (addTime (ts_now (clock k)) (tm_interval (timer_store q a)), a)"
    | "x \<in> comeback clock (Suc (Suc k)) q es" by (auto split: if_splits)
  then show "x \<in> ?l"
  proof cases
    case 1
    then show ?thesis unfolding comeback_def by (intro CollectI exI [of _ 0] exI [of _ w] exI [of _ a]) simp
  next
    case 2
    then obtain j v b where "x = (addTime (ts_now (clock (Suc (Suc k) + 2 * j))) (tm_interval (timer_store q b)), b)"
      "j < length es" "es ! j = (v, b)" "tm_repeat (timer_store q b)"
      unfolding comeback_def by blast
    then show ?thesis unfolding comeback_def by (intro CollectI exI [of _ "Suc j"] exI [of _ v] exI [of _ b]) simp
  qed
qed

lemma comeback_cong: "\<forall>e\<in>set es. timer_store q (snd e) = timer_store q' (snd e) \<Longrightarrow> comeback clock k q es = comeback clock k q' es"
  unfolding comeback_def by (intro Collect_cong ex_cong1) (metis nth_mem snd_conv)

lemma tq_reset_set:
  assumes "tq_ok q" "\<forall>(w, a)\<in>set es. a < UINTPTR_MAX \<and> a \<notin> snd ` set (timers q)" "distinct (map snd es)"
  shows "tq_ok (tq_reset clock k es q) \<and> set (timers (tq_reset clock k es q)) = set (timers q) \<union> comeback clock k q es"
  using assms
proof (induction es arbitrary: q k)
  case Nil
  then show ?case by (simp add: comeback_def)
next
  case (Cons e es)
  obtain w a where e: "e = (w, a)" by (cases e)
  have a: "a < UINTPTR_MAX" "a \<notin> snd ` set (timers q)" using Cons.prems by (auto simp: e)
  let ?q0 = "q\<lparr>timer_store := (timer_store q)(a := timer_restart (ts_now (clock k)) (timer_store q a))\<rparr>"
  let ?q1 = "if tm_repeat (timer_store q a) then snd (tq_insert a ?q0) else q"
  let ?q2 = "if timers ?q1 \<noteq> [] then resetTimerfd (clock (Suc k)) (tm_expiration (timer_store ?q1 (snd (hd (timers ?q1))))) ?q1 else ?q1"
  have ok0: "tq_ok ?q0" using Cons.prems(1) a(2) by (force simp: tq_ok_def)
  note i = tq_insert_ok [OF ok0 a(1)]
  have q2: "tq_ok ?q2" "timer_store ?q2 = timer_store (if tm_repeat (timer_store q a) then ?q0 else q)"
    "set (timers ?q2) = (if tm_repeat (timer_store q a) then {(addTime (ts_now (clock k)) (tm_interval (timer_store q a)), a)} else {}) \<union> set (timers q)"
    using i Cons.prems(1) by (auto simp: timer_restart_def)
  have dist: "a \<notin> snd ` set es" "distinct (map snd es)" using Cons.prems(3) by (simp_all add: e)
  have prem: "\<forall>(w, b)\<in>set es. b < UINTPTR_MAX \<and> b \<notin> snd ` set (timers ?q2)"
    using Cons.prems(2) dist(1) unfolding q2(3) by (force simp: e)
  have step: "tq_reset clock k (e # es) q = tq_reset clock (Suc (Suc k)) es ?q2" by (simp add: e Let_def)
  have same: "comeback clock (Suc (Suc k)) ?q2 es = comeback clock (Suc (Suc k)) q es"
    using dist(1) by (intro comeback_cong ballI) (auto simp: q2(2))
  have set: "set (timers ?q2) \<union> comeback clock (Suc (Suc k)) q es = set (timers q) \<union> comeback clock k q (e # es)"
    unfolding q2(3) e comeback_Cons by (simp only: Un_ac)
  from Cons.IH [OF q2(1) prem dist(2), of "Suc (Suc k)"] show ?case unfolding step same set .
qed

subsection \<open>Expiry\<close>

text \<open>
  Callbacks that note that they ran and add timers: each new timer is the address of its object, callback, expiry and interval,
  and the clock that \<open>addTimerInLoop\<close> reads.
\<close>

type_synonym 'f new_timer = "nat \<times> 'f \<times> timestamp \<times> rat \<times> 64 word"

definition add_timer :: "'f new_timer \<Rightarrow> 'f timer_queue \<Rightarrow> 'f timer_queue" where
  "add_timer = (\<lambda>(a, cb, when, interval, clock) q. addTimerInLoop clock a (addTimer a cb when interval q))"

definition new_entry :: "'f new_timer \<Rightarrow> entry" where
  "new_entry = (\<lambda>(a, cb, when, interval, clock). (when, a))"

definition adding_exec :: "('f \<Rightarrow> 'f new_timer list) \<Rightarrow> 'f \<Rightarrow> 'f timer_queue \<times> 'f list \<Rightarrow> 'f timer_queue \<times> 'f list" where
  "adding_exec new f st = (fold add_timer (new f) (fst st), snd st @ [f])"

lemma addTimerInLoop_frame: "timer_store (addTimerInLoop c a q) = timer_store q"
  by (simp add: addTimerInLoop_def tq_insert_def Let_def split_beta)

lemma add_store: "b \<noteq> fst t \<Longrightarrow> timer_store (add_timer t q) b = timer_store q b"
  by (simp add: add_timer_def addTimerInLoop_frame addTimer_def split_beta)

lemma add_store_many: "b \<notin> fst ` set ts \<Longrightarrow> timer_store (fold add_timer ts q) b = timer_store q b"
  by (induction ts arbitrary: q) (simp_all add: add_store)

lemma add_timer_ok:
  assumes "tq_ok q" "fst t < UINTPTR_MAX" "fst t \<notin> snd ` set (timers q)"
  shows "tq_ok (add_timer t q) \<and> set (timers (add_timer t q)) = insert (new_entry t) (set (timers q))"
proof -
  obtain a cb w iv c where t: "t = (a, cb, w, iv, c)" by (rule prod_cases5)
  have "tq_ok (addTimer a cb w iv q)" using assms by (force simp: t tq_ok_def addTimer_def)
  from tq_insert_ok [OF this, of a] show ?thesis
    using assms(2) by (auto simp: t add_timer_def new_entry_def addTimerInLoop_def addTimer_def timer_new_def split_beta Let_def)
qed

lemma add_timers_ok:
  "tq_ok q \<Longrightarrow> distinct (map fst ts) \<Longrightarrow> \<forall>t\<in>set ts. fst t < UINTPTR_MAX \<and> fst t \<notin> snd ` set (timers q) \<Longrightarrow>
   tq_ok (fold add_timer ts q) \<and> set (timers (fold add_timer ts q)) = new_entry ` set ts \<union> set (timers q)"
proof (induction ts arbitrary: q)
  case (Cons t ts)
  have t: "tq_ok (add_timer t q)" "set (timers (add_timer t q)) = insert (new_entry t) (set (timers q))"
    using add_timer_ok [OF Cons.prems(1)] Cons.prems(3) by auto
  have "snd (new_entry t) = fst t" by (simp add: new_entry_def split_beta)
  moreover have "fst u \<noteq> fst t" if "u \<in> set ts" for u using Cons.prems(2) that by (auto simp: image_iff)
  ultimately have "\<forall>u\<in>set ts. fst u < UINTPTR_MAX \<and> fst u \<notin> snd ` set (timers (add_timer t q))"
    using Cons.prems(3) unfolding t(2) by simp
  with Cons.IH [OF t(1)] Cons.prems(2) show ?case unfolding t(2) by auto
qed simp

text \<open>What the callbacks of a list of entries add.\<close>

definition added :: "('f \<Rightarrow> 'f new_timer list) \<Rightarrow> 'f timer_queue \<Rightarrow> entry list \<Rightarrow> 'f new_timer list" where
  "added new q es = concat (map (\<lambda>e. new (tm_callback (timer_store q (snd e)))) es)"

lemma run_expired_adding:
  "fst ` set (added new q es) \<inter> snd ` set es = {} \<Longrightarrow>
   run_expired (adding_exec new) es (q, l) = (fold add_timer (added new q es) q, l @ map (\<lambda>e. tm_callback (timer_store q (snd e))) es)"
proof (induction es arbitrary: q l)
  case (Cons e es)
  obtain w a where e: "e = (w, a)" by (cases e)
  let ?f = "tm_callback (timer_store q a)"
  let ?q = "fold add_timer (new ?f) q"
  have same: "timer_store ?q (snd x) = timer_store q (snd x)" if "x \<in> set es" for x
    using Cons.prems that by (intro add_store_many) (auto simp: added_def e)
  have "added new ?q es = added new q es" using same by (simp add: added_def cong: map_cong)
  moreover have "map (\<lambda>e. tm_callback (timer_store ?q (snd e))) es = map (\<lambda>e. tm_callback (timer_store q (snd e))) es" using same by simp
  moreover have "fst ` set (added new q es) \<inter> snd ` set es = {}" using Cons.prems by (auto simp: added_def)
  ultimately show ?case using Cons.IH [of ?q "l @ [?f]"] by (simp add: e adding_exec_def) (simp add: added_def)
qed (simp add: added_def)

lemma entries_of_addresses:
  assumes "tq_ok q"
  shows "inj_on snd (set (timers q))"
proof (rule inj_onI)
  fix x y assume xy: "x \<in> set (timers q)" "y \<in> set (timers q)" "snd x = snd y"
  obtain w a v where "x = (w, a)" "y = (v, a)" using xy(3) by (cases x; cases y) simp
  moreover have "\<forall>e\<in>set (timers q). fst e = tm_expiration (timer_store q (snd e))" using assms by (auto simp: tq_ok_def)
  ultimately show "x = y" using xy by (metis fst_conv snd_conv)
qed

text \<open>
  Property C29. When the timer descriptor fires, exactly the timers due by the first reading of the clock run, in the order of
  their expiry and each once; the one-shot ones among them leave the queue, each repeating one comes back at its interval after
  the reading of the clock that \<open>reset\<close> makes for it, and the others stay. The callbacks may add timers, at addresses the queue
  does not use, and these are in the queue afterwards too; there is nothing else in it, and it stays ordered by expiry, with
  every entry naming its timer's own expiry. The clock may give any values.
\<close>

theorem timers_fire:
  fixes q :: "'f timer_queue"
  assumes "tq_ok q" "tq_handleRead (adding_exec new) clock (q, []) = (q', fired)"
  defines "due \<equiv> [e \<leftarrow> timers q. fst e \<le> ts_now (clock 0)]"
  assumes "distinct (map fst (added new q due))" "\<forall>t\<in>set (added new q due). fst t < UINTPTR_MAX \<and> fst t \<notin> snd ` set (timers q)"
  shows "fired = map (\<lambda>e. tm_callback (timer_store q (snd e))) due
    \<and> set (timers q') = {e \<in> set (timers q). ts_now (clock 0) < fst e}
        \<union> {(addTime (ts_now (clock (1 + 2 * i))) (tm_interval (timer_store q a)), a) | i w a.
             i < length due \<and> due ! i = (w, a) \<and> tm_repeat (timer_store q a)}
        \<union> {(w, a). \<exists>cb interval c. (a, cb, w, interval, c) \<in> set (added new q due)}
    \<and> tq_ok q'"
proof -
  let ?now = "ts_now (clock 0)" and ?ts = "added new q due"
  obtain es q1 where g: "getExpired ?now q = (es, q1)" by (rule prod.exhaust)
  note ge = getExpired_eq [OF assms(1), of ?now]
  have es: "es = due" "timers q1 = [e \<leftarrow> timers q. ?now < fst e]" "timer_store q1 = timer_store q"
    using ge g by (auto simp: getExpired_def Let_def due_def)
  have sub: "set due \<subseteq> set (timers q)" "set (timers q1) \<subseteq> set (timers q)" by (auto simp: due_def es(2))
  have ok1: "tq_ok q1" using getExpired_ok [OF assms(1), of ?now] g by simp
  let ?q1 = "q1\<lparr>callingExpiredTimers := True\<rparr>"
  have ts: "added new ?q1 due = ?ts" "added new q1 due = ?ts" by (simp_all add: added_def es(3))
  have fresh: "fst ` set ?ts \<inter> snd ` set due = {}" using assms(5) sub(1) by blast
  define q2 where "q2 = (fold add_timer ?ts ?q1)\<lparr>callingExpiredTimers := False\<rparr>"
  have r: "fired = map (\<lambda>e. tm_callback (timer_store q (snd e))) due" "q' = tq_reset clock 1 due q2"
    using assms(2) g es(1,3) run_expired_adding [of new ?q1 due "[]"] fresh ts
    by (auto simp: tq_handleRead_def Let_def q2_def)
  have "tq_ok ?q1" using ok1 by (simp add: tq_ok_def)
  moreover have "\<forall>t\<in>set ?ts. fst t < UINTPTR_MAX \<and> fst t \<notin> snd ` set (timers ?q1)" using assms(5) sub(2) by auto
  ultimately have "tq_ok (fold add_timer ?ts ?q1)" "set (timers (fold add_timer ?ts ?q1)) = new_entry ` set ?ts \<union> set (timers ?q1)"
    using add_timers_ok [of ?q1 ?ts] assms(4) by blast+
  then have q2: "tq_ok q2" "set (timers q2) = new_entry ` set ?ts \<union> {e \<in> set (timers q). ?now < fst e}"
    by (simp_all add: q2_def tq_ok_def es(2))
  note inj = entries_of_addresses [OF assms(1)]
  have addr: "a < UINTPTR_MAX \<and> a \<notin> snd ` set (timers q2)" if "(w, a) \<in> set due" for w a
  proof
    have wa: "(w, a) \<in> set (timers q)" "w \<le> ?now" using that by (simp_all add: due_def)
    then show "a < UINTPTR_MAX" using assms(1) by (auto simp: tq_ok_def)
    show "a \<notin> snd ` set (timers q2)"
    proof
      assume "a \<in> snd ` set (timers q2)"
      then consider t where "t \<in> set ?ts" "fst t = a" | v where "(v, a) \<in> set (timers q)" "?now < v"
        unfolding q2(2) by (auto simp: new_entry_def)
      then show False
      proof cases
        case 1
        then show False using fresh that by force
      next
        case 2
        from inj_onD [OF inj _ wa(1) 2(1)] have "w = v" by simp
        with wa(2) 2(2) show False by simp
      qed
    qed
  qed
  have "distinct due" using assms(1) by (simp add: due_def tq_ok_def)
  moreover have "inj_on snd (set due)" using inj sub(1) by (rule inj_on_subset)
  ultimately have "distinct (map snd due)" by (simp add: distinct_map)
  moreover have "\<forall>(w, a)\<in>set due. a < UINTPTR_MAX \<and> a \<notin> snd ` set (timers q2)" using addr by blast
  ultimately have rs: "tq_ok q' \<and> set (timers q') = set (timers q2) \<union> comeback clock 1 q2 due"
    unfolding r(2) using tq_reset_set [OF q2(1)] by blast
  have "comeback clock 1 q2 due = comeback clock 1 q due"
  proof (intro comeback_cong ballI)
    fix e assume "e \<in> set due"
    then have "snd e \<notin> fst ` set ?ts" using fresh by blast
    from add_store_many [OF this, of ?q1] show "timer_store q2 (snd e) = timer_store q (snd e)" by (simp add: q2_def es(3))
  qed
  moreover have "new_entry ` set ?ts = {(w, a). \<exists>cb interval c. (a, cb, w, interval, c) \<in> set ?ts}"
    by (force simp: new_entry_def image_iff)
  ultimately have "set (timers q') = {e \<in> set (timers q). ?now < fst e} \<union> comeback clock 1 q due
      \<union> {(w, a). \<exists>cb interval c. (a, cb, w, interval, c) \<in> set ?ts}" "tq_ok q'"
    using rs unfolding q2(2) by (simp_all add: Un_ac)
  then show ?thesis using r(1) unfolding comeback_def by simp
qed

definition sample_queue :: "nat timer_queue" where
  "sample_queue = \<lparr>timerfd = 4, timerfdChannel = channel_new 70 4, timers = [(Timestamp 5, 1), (Timestamp 9, 2)],
     timer_store = (\<lambda>a. if a = 1 then timer_new 11 (Timestamp 5) 0 else timer_new 22 (Timestamp 9) 0),
     armed = None, callingExpiredTimers = False, stdin_waits = 0\<rparr>"

lemma sample_queue_ok: "tq_ok sample_queue"
  by (simp add: tq_ok_def sample_queue_def timer_new_def UINTPTR_MAX_def less_eq_value ts_value_def less_eq_prod_def less_value)

text \<open>In the example the callback of the due timer adds another one.\<close>

definition sample_adds :: "nat \<Rightarrow> nat new_timer list" where
  "sample_adds f = (if f = 11 then [(3, 33, Timestamp 8, 0, 6)] else [])"

lemma timers_fire_witness:
  "\<exists>q' fired. tq_handleRead (adding_exec sample_adds) (\<lambda>i. 5 + of_nat i) (sample_queue, []) = (q', fired) \<and> fired = [11] \<and> tq_ok q'
    \<and> set (timers q') = {(Timestamp 9, 2), (Timestamp 8, 3)}"
proof -
  obtain q' fired where r: "tq_handleRead (adding_exec sample_adds) (\<lambda>i. 5 + of_nat i) (sample_queue, []) = (q', fired)" by (rule prod.exhaust)
  have due: "[e \<leftarrow> timers sample_queue. fst e \<le> ts_now (5 + of_nat 0)] = [(Timestamp 5, 1)]"
    by (simp add: sample_queue_def ts_now_def less_eq_value ts_value_def)
  have adds: "added sample_adds sample_queue [(Timestamp 5, 1)] = [(3, 33, Timestamp 8, 0, 6)]"
    by (simp add: added_def sample_adds_def sample_queue_def timer_new_def)
  have fresh: "distinct (map fst (added sample_adds sample_queue [(Timestamp 5, 1)]))"
    "\<forall>t\<in>set (added sample_adds sample_queue [(Timestamp 5, 1)]). fst t < UINTPTR_MAX \<and> fst t \<notin> snd ` set (timers sample_queue)"
    unfolding adds by (simp_all add: sample_queue_def UINTPTR_MAX_def)
  note fire = timers_fire [OF sample_queue_ok r, unfolded due, OF fresh, unfolded adds]
  have cb: "tm_callback (timer_store sample_queue 1) = 11" "\<not> tm_repeat (timer_store sample_queue 1)"
    by (simp_all add: sample_queue_def timer_new_def)
  have "fired = [11]" "tq_ok q'" using fire cb by auto
  moreover have "set (timers q') = {e \<in> set (timers sample_queue). ts_now (5 + of_nat 0) < fst e} \<union> {(Timestamp 8, 3)}"
    using fire cb by (elim conjE) auto
  moreover have "{e \<in> set (timers sample_queue). ts_now (5 + of_nat 0) < fst e} = {(Timestamp 9, 2)}"
    by (auto simp: sample_queue_def ts_now_def less_value ts_value_def)
  ultimately show ?thesis using r by auto
qed

text \<open>
  The clock of the code: \<open>Timestamp::now()\<close> stores the seconds of \<open>time(NULL)\<close> in a value all
  other code treats as microseconds. \<open>delay_us\<close> is the delay of an entry as \<open>resetTimerfd\<close> programs it.
\<close>

definition armed_us :: "'f timer_queue \<Rightarrow> int" where
  "armed_us q = (case armed q of None \<Rightarrow> 0 | Some (s, ns) \<Rightarrow> s * kMicroSecondsPerSecond + ns div 1000)"

lemma armed_resetTimerfd:
  "armed_us (resetTimerfd clock e q) = max 100 (sint (microSecondsSinceEpoch e - clock))"
proof -
  let ?d = "max 100 (sint (microSecondsSinceEpoch e - clock))"
  have "0 \<le> ?d" by simp
  then have "c_div ?d kMicroSecondsPerSecond * kMicroSecondsPerSecond + c_mod ?d kMicroSecondsPerSecond = ?d"
    by (simp add: c_mod_def)
  moreover have "(if sint (microSecondsSinceEpoch e - clock) < 100 then 100 else sint (microSecondsSinceEpoch e - clock)) = ?d"
    by (simp add: max_def)
  ultimately show ?thesis
    by (simp add: armed_us_def resetTimerfd_def ts_now_def Let_def)
qed

text \<open>
  Timers do not fire: a timer of \<open>d\<close> seconds set on an empty queue when the clock shows
  \<open>n\<close> seconds programs the descriptor for \<open>d\<close> seconds; but when it fires, with the clock at \<open>n + d\<close>,
  nothing is due (the expiry is \<open>n + d * 10^6\<close>), no callback runs, and the descriptor is not programmed
  again, so the timer is stuck in the queue.
\<close>

theorem timer_never_fires:
  assumes "1 \<le> d" "d < 2 ^ 30" "0 \<le> n" "n < 2 ^ 40" "a < UINTPTR_MAX" "timers q = []"
    "q1 = addTimerInLoop (word_of_int n) a (addTimer a cb (addTime (ts_now (word_of_int n)) (of_int d)) 0 q)"
    "clock 0 = word_of_int (n + d)"
  shows "armed_us q1 = d * kMicroSecondsPerSecond
    \<and> tq_handleRead exec clock (q1, st) = (q1\<lparr>callingExpiredTimers := False\<rparr>, st)
    \<and> timers q1 = [(addTime (ts_now (word_of_int n)) (of_int d), a)]"
proof -
  let ?e = "addTime (ts_now (word_of_int n)) (of_int d)"
  have tr: "trunc_rat (of_int d * of_int kMicroSecondsPerSecond) = d * kMicroSecondsPerSecond"
    by (simp add: trunc_rat_def flip: of_int_mult)
  have small: "sint (word_of_int x :: 64 word) = x" if "- (2 ^ 63) \<le> x" "x < 2 ^ 63" for x
    using that by (simp add: sint_sbintrunc' signed_take_bit_int_eq_self)
  have vn: "ts_value (ts_now (word_of_int n)) = n" "ts_value (ts_now (word_of_int (n + d))) = n + d"
    using assms(1-4) small [of n] small [of "n + d"] by (simp_all add: ts_value_def ts_now_def)
  have ve: "ts_value ?e = n + d * kMicroSecondsPerSecond"
    using assms(1-4) vn tr by (subst ts_value_addTime) (simp_all add: kMicroSecondsPerSecond_def)
  have "microSecondsSinceEpoch ?e - word_of_int n = word_of_int (d * kMicroSecondsPerSecond)"
    by (simp add: addTime_def Let_def tr ts_now_def)
  then have diff: "sint (microSecondsSinceEpoch ?e - word_of_int n) = d * kMicroSecondsPerSecond"
    using assms(1,2) small [of "d * kMicroSecondsPerSecond"] by (simp add: kMicroSecondsPerSecond_def)
  have q1: "timers q1 = [(?e, a)]" "armed_us q1 = d * kMicroSecondsPerSecond"
    using assms(1,6,7) diff
    by (simp_all add: armed_resetTimerfd addTimerInLoop_def addTimer_def tq_insert_def timer_new_def Let_def insort_insert_key_def kMicroSecondsPerSecond_def)
  have late: "ts_now (word_of_int (n + d)) < ?e"
    using vn ve assms(1) by (simp add: less_value kMicroSecondsPerSecond_def)
  have "\<not> (?e, a) < (ts_now (word_of_int (n + d)), UINTPTR_MAX)"
    using below_sentry [OF assms(5)] late by simp
  then have "getExpired (ts_now (word_of_int (n + d))) q1 = ([], q1)"
    using q1(1) by (simp add: getExpired_def Let_def)
  then show ?thesis using q1 by (simp add: tq_handleRead_def Let_def assms(8) flip: of_int_add)
qed

lemma timer_never_fires_witness:
  "let q1 = addTimerInLoop (word_of_int 1700000000) 9 (addTimer 9 33 (addTime (ts_now (word_of_int 1700000000)) (of_int 8)) 0 (sample_queue\<lparr>timers := []\<rparr>))
   in armed_us q1 = 8 * kMicroSecondsPerSecond \<and> snd (tq_handleRead (adding_exec (\<lambda>_. [])) (\<lambda>i. word_of_int (1700000000 + 8 + int i)) (q1, [])) = []"
proof -
  let ?q = "sample_queue\<lparr>timers := []\<rparr>"
  let ?q1 = "addTimerInLoop (word_of_int 1700000000) 9 (addTimer 9 33 (addTime (ts_now (word_of_int 1700000000)) (of_int 8)) 0 ?q)"
  have "armed_us ?q1 = 8 * kMicroSecondsPerSecond
    \<and> tq_handleRead (adding_exec (\<lambda>_. [])) (\<lambda>i. word_of_int (1700000000 + 8 + int i)) (?q1, []) = (?q1\<lparr>callingExpiredTimers := False\<rparr>, [])
    \<and> timers ?q1 = [(addTime (ts_now (word_of_int 1700000000)) (of_int 8), 9)]"
    by (rule timer_never_fires [OF _ _ _ _ _ _ refl]) (simp_all add: UINTPTR_MAX_def)
  then show ?thesis unfolding Let_def by (metis snd_conv)
qed

end
