(* ===== verification/Tcp_Server.thy ===== *)
theory Tcp_Server
  imports Tcp_Connection_Props
begin

text \<open>
  \<open>src/src/muduo_core/Acceptor\<close>, \<open>EventLoopThread\<close>, \<open>EventLoopThreadPool\<close> and \<open>TcpServer\<close>: the
  listening socket in the base loop, the pool of io loops, and the server that hands every accepted
  socket to the next loop and keeps the table of live connections.

  Event loops and connections are objects in stores, named by numbers; a connection is stored with the
  number of its loop, and an operation of it runs on the pair of the two (\<open>with_conn\<close>).
\<close>

subsection \<open>The loop threads\<close>

text \<open>The thread function publishes the loop; \<open>startLoop\<close> waits until it has.\<close>

record loop_thread =
  lt_loop :: "nat option"
  lt_exiting :: bool
  lt_thread :: thread

definition loop_thread_new :: "int \<Rightarrow> bytes \<Rightarrow> int \<times> loop_thread" where
  "loop_thread_new numCreated name =
     (let (n, t) = thread_new numCreated name in (n, \<lparr>lt_loop = None, lt_exiting = False, lt_thread = t\<rparr>))"

text \<open>\<open>threadFunc\<close> in its parts: before the loop it runs the init callback and publishes, after the
  loop it takes the pointer back.\<close>

definition threadFunc_publish :: "nat \<Rightarrow> (nat \<Rightarrow> 's \<Rightarrow> 's) option \<Rightarrow> loop_thread \<times> 's \<Rightarrow> loop_thread \<times> 's" where
  "threadFunc_publish loopid callback st =
     (let s = (case callback of None \<Rightarrow> snd st | Some f \<Rightarrow> f loopid (snd st))
      in ((fst st)\<lparr>lt_loop := Some loopid\<rparr>, s))"

definition threadFunc_end :: "loop_thread \<Rightarrow> loop_thread" where
  "threadFunc_end t = t\<lparr>lt_loop := None\<rparr>"

text \<open>The value \<open>startLoop\<close> returns: it blocks (None) while no loop is published.\<close>

definition startLoop :: "int \<Rightarrow> nat \<Rightarrow> (nat \<Rightarrow> 's \<Rightarrow> 's) option \<Rightarrow> loop_thread \<times> 's \<Rightarrow> (nat \<times> loop_thread \<times> 's) option" where
  "startLoop gettid loopid callback st =
     (let t = (fst st)\<lparr>lt_thread := thread_start gettid (lt_thread (fst st))\<rparr>;
          (t, s) = threadFunc_publish loopid callback (t, snd st)
      in case lt_loop t of None \<Rightarrow> None | Some l \<Rightarrow> Some (l, t, s))"

text \<open>The destructor: whether the loop is told to quit, and the thread joined.\<close>

definition loop_thread_destroy :: "loop_thread \<Rightarrow> crash + (bool \<times> loop_thread)" where
  "loop_thread_destroy t =
     (let t = t\<lparr>lt_exiting := True\<rparr> in
      case lt_loop t of
        None \<Rightarrow> Inr (False, t\<lparr>lt_thread := thread_destroy (lt_thread t)\<rparr>)
      | Some l \<Rightarrow> (case thread_join (lt_thread t) of Inl e \<Rightarrow> Inl e
          | Inr th \<Rightarrow> Inr (True, t\<lparr>lt_thread := thread_destroy th\<rparr>)))"

subsection \<open>The pool\<close>

record loop_pool =
  baseLoop :: nat
  pool_name :: bytes
  pool_started :: bool
  numThreads :: int
  next_idx :: nat
  pool_threads :: "loop_thread list"
  pool_loops :: "nat list"

definition loop_pool_new :: "nat \<Rightarrow> bytes \<Rightarrow> loop_pool" where
  "loop_pool_new base nameArg = \<lparr>baseLoop = base, pool_name = nameArg, pool_started = False, numThreads = 0,
     next_idx = 0, pool_threads = [], pool_loops = []\<rparr>"

definition pool_setThreadNum :: "int \<Rightarrow> loop_pool \<Rightarrow> loop_pool" where
  "pool_setThreadNum n p = p\<lparr>numThreads := n\<rparr>"

text \<open>
  The loop of \<open>start\<close>, with the number of threads left; \<open>newid i\<close> is the object number the
  \<open>i\<close>-th thread's loop gets. The stack buffer holds \<open>size + 32\<close> bytes.
\<close>

fun pool_spawn :: "nat \<Rightarrow> nat \<Rightarrow> (nat \<Rightarrow> nat) \<Rightarrow> (nat \<Rightarrow> int) \<Rightarrow> int \<Rightarrow> (nat \<Rightarrow> 's \<Rightarrow> 's) option \<Rightarrow> loop_pool \<times> 's \<Rightarrow> loop_pool \<times> 's" where
  "pool_spawn 0 i newid gettid created cb st = st"
| "pool_spawn (Suc k) i newid gettid created cb st =
     (let buf = snprintf (length (pool_name (fst st)) + 32) (c_str (pool_name (fst st)) @ show_nat i);
          (created, t) = loop_thread_new created buf
      in case startLoop (gettid i) (newid i) cb (t, snd st) of
           None \<Rightarrow> st
         | Some (l, t, s) \<Rightarrow>
             pool_spawn k (Suc i) newid gettid created cb
               ((fst st)\<lparr>pool_threads := pool_threads (fst st) @ [t], pool_loops := pool_loops (fst st) @ [l]\<rparr>, s))"

definition pool_start :: "(nat \<Rightarrow> nat) \<Rightarrow> (nat \<Rightarrow> int) \<Rightarrow> int \<Rightarrow> (nat \<Rightarrow> 's \<Rightarrow> 's) option \<Rightarrow> loop_pool \<times> 's \<Rightarrow> loop_pool \<times> 's" where
  "pool_start newid gettid created cb st =
     (let p = (fst st)\<lparr>pool_started := True\<rparr>;
          (p, s) = pool_spawn (nat (numThreads p)) 0 newid gettid created cb (p, snd st)
      in if numThreads p = 0
         then (p, case cb of None \<Rightarrow> s | Some f \<Rightarrow> f (baseLoop p) s)
         else (p, s))"

definition getNextLoop :: "loop_pool \<Rightarrow> nat \<times> loop_pool" where
  "getNextLoop p =
     (let loop = baseLoop p in
      if pool_loops p \<noteq> []
      then (let loop = pool_loops p ! next_idx p;
                p = p\<lparr>next_idx := Suc (next_idx p)\<rparr>;
                p = (if next_idx p \<ge> length (pool_loops p) then p\<lparr>next_idx := 0\<rparr> else p)
            in (loop, p))
      else (loop, p))"

definition getAllLoops :: "loop_pool \<Rightarrow> nat list" where
  "getAllLoops p = (if pool_loops p = [] then [baseLoop p] else pool_loops p)"

lemma pool_spawn_ok:
  "pool_spawn k i newid gettid created cb (p, s) = (p', s') \<Longrightarrow>
   pool_loops p' = pool_loops p @ map newid [i..<i + k] \<and> length (pool_threads p') = length (pool_threads p) + k
   \<and> numThreads p' = numThreads p \<and> baseLoop p' = baseLoop p \<and> next_idx p' = next_idx p"
proof (induction k arbitrary: i created p s)
  case (Suc k)
  obtain c t where lt: "loop_thread_new created (snprintf (length (pool_name p) + 32) (c_str (pool_name p) @ show_nat i)) = (c, t)"
    by (rule prod.exhaust)
  obtain t2 s2 where st: "startLoop (gettid i) (newid i) cb (t, s) = Some (newid i, t2, s2)"
    by (simp add: startLoop_def threadFunc_publish_def Let_def)
  from Suc.prems lt st Suc.IH [of "Suc i" c "p\<lparr>pool_threads := pool_threads p @ [t2], pool_loops := pool_loops p @ [newid i]\<rparr>" s2]
  show ?case by (simp add: upt_conv_Cons del: upt_Suc)
qed simp

fun next_loops :: "nat \<Rightarrow> loop_pool \<Rightarrow> nat list \<times> loop_pool" where
  "next_loops 0 p = ([], p)"
| "next_loops (Suc n) p = (let (l, p) = getNextLoop p; (ls, p) = next_loops n p in (l # ls, p))"

lemma next_loops_eq:
  "pool_loops p \<noteq> [] \<Longrightarrow> next_idx p < length (pool_loops p) \<Longrightarrow>
   fst (next_loops n p) = map (\<lambda>i. pool_loops p ! ((next_idx p + i) mod length (pool_loops p))) [0..<n]"
proof (induction n arbitrary: p)
  case (Suc n)
  obtain l q where q: "getNextLoop p = (l, q)" by (rule prod.exhaust)
  have qs: "l = pool_loops p ! next_idx p" "pool_loops q = pool_loops p"
    "next_idx q = Suc (next_idx p) mod length (pool_loops p)" "next_idx q < length (pool_loops p)"
    using q Suc.prems by (cases "Suc (next_idx p) = length (pool_loops p)"; auto simp: getNextLoop_def Let_def split: if_splits)+
  have "fst (next_loops n q) = map (\<lambda>i. pool_loops p ! ((next_idx q + i) mod length (pool_loops p))) [0..<n]"
    using Suc.IH [of q] qs Suc.prems by simp
  also have "\<dots> = map (\<lambda>i. pool_loops p ! ((next_idx p + Suc i) mod length (pool_loops p))) [0..<n]"
    by (simp add: qs(3) mod_simps)
  finally have "fst (next_loops (Suc n) p) = pool_loops p ! next_idx p # map (\<lambda>i. pool_loops p ! ((next_idx p + Suc i) mod length (pool_loops p))) [0..<n]"
    by (simp add: q qs(1) split_beta)
  also have "\<dots> = map (\<lambda>i. pool_loops p ! ((next_idx p + i) mod length (pool_loops p))) (0 # map Suc [0..<n])"
    using Suc.prems by (simp add: comp_def)
  finally show ?case by (simp only: map_Suc_upt upt_conv_Cons zero_less_Suc)
qed simp

text \<open>
  Property C38. The pool assigns connections round robin: a pool started with \<open>k > 0\<close> threads has exactly \<open>k\<close> loops,
  the ones its threads published, in order, and the \<open>i\<close>-th connection after the start is given
  to loop \<open>i mod k\<close>; with no threads every connection goes to the base loop.
\<close>

theorem round_robin:
  assumes "pool_start newid gettid created cb (pool_setThreadNum (int k) (loop_pool_new base nm), s) = (p, s')"
  shows "length (pool_threads p) = k \<and> getAllLoops p = (if k = 0 then [base] else map newid [0..<k])
    \<and> fst (next_loops n p) = map (\<lambda>i. if k = 0 then base else newid (i mod k)) [0..<n]"
proof -
  let ?p0 = "(pool_setThreadNum (int k) (loop_pool_new base nm))\<lparr>pool_started := True\<rparr>"
  obtain p1 s1 where sp: "pool_spawn k 0 newid gettid created cb (?p0, s) = (p1, s1)" by (rule prod.exhaust)
  have p: "p = p1" using assms sp by (simp add: pool_start_def pool_setThreadNum_def split: if_splits)
  note f = pool_spawn_ok [OF sp, folded p]
  show ?thesis
  proof (cases "k = 0")
    case True
    then have z: "pool_loops p = []" "baseLoop p = base" "pool_threads p = []"
      using f sp p by (auto simp: loop_pool_new_def pool_setThreadNum_def)
    have "pool_loops q = [] \<Longrightarrow> baseLoop q = base \<Longrightarrow> fst (next_loops n q) = map (\<lambda>i. base) [0..<n]" for q
      by (induction n arbitrary: q) (simp_all add: getNextLoop_def Let_def split_beta map_replicate_const)
    with z True show ?thesis by (simp add: getAllLoops_def)
  next
    case False
    then have "pool_loops p = map newid [0..<k]" "next_idx p = 0" "length (pool_threads p) = k"
      using f by (simp_all add: loop_pool_new_def pool_setThreadNum_def)
    with False next_loops_eq [of p n] show ?thesis by (auto simp: getAllLoops_def)
  qed
qed

lemma round_robin_witness:
  "\<exists>p s'. pool_start (\<lambda>i. i + 10) (\<lambda>i. int i + 100) 0 None (pool_setThreadNum (int 2) (loop_pool_new 5 ''io''), ()) = (p, s')
     \<and> fst (next_loops 5 p) = [10, 11, 10, 11, 10]"
proof -
  obtain p s' where r: "pool_start (\<lambda>i. i + 10) (\<lambda>i. int i + 100) 0 None (pool_setThreadNum (int 2) (loop_pool_new 5 ''io''), ()) = (p, s')"
    by (rule prod.exhaust)
  with round_robin [OF r, of 5] show ?thesis by (auto simp: upt_rec)
qed

subsection \<open>The acceptor\<close>

record acceptor =
  accept_fd :: int
  accept_channel :: channel
  has_newConnection :: bool
  listenning :: bool

text \<open>\<open>createNonblocking\<close> and the constructor; the answers of \<open>socket\<close> and \<open>bind\<close> are arguments.
  The parameter \<open>reuseport\<close> is not used: the option is set in any case.\<close>

definition createNonblocking :: "int \<Rightarrow> trace \<Rightarrow> crash + (int \<times> trace)" where
  "createNonblocking answer tr = (let tr = tr @ [SysSocket] in if answer < 0 then Inl FatalExit else Inr (answer, tr))"

definition acceptor_new :: "int \<Rightarrow> int \<Rightarrow> nat \<Rightarrow> sockaddr_in \<Rightarrow> bool \<Rightarrow> trace \<Rightarrow> crash + (acceptor \<times> trace)" where
  "acceptor_new sock_answer bind_answer chaddr listenAddr reuseport tr =
     (case createNonblocking sock_answer tr of
        Inl e \<Rightarrow> Inl e
      | Inr (fd, tr) \<Rightarrow>
          (let ch = channel_new chaddr fd;
               tr = setReuseAddr True fd tr;
               tr = setReusePort True fd tr
           in case bindAddress bind_answer fd listenAddr tr of
                Inl e \<Rightarrow> Inl e
              | Inr tr \<Rightarrow> Inr (\<lparr>accept_fd = fd, accept_channel = ch, has_newConnection = False, listenning = False\<rparr>, tr)))"

definition acceptor_listen :: "int \<Rightarrow> acceptor \<Rightarrow> task event_loop \<Rightarrow> trace \<Rightarrow> crash + (acceptor \<times> task event_loop \<times> trace)" where
  "acceptor_listen answer a l tr =
     (let a = a\<lparr>listenning := True\<rparr> in
      case sock_listen answer (accept_fd a) tr of
        Inl e \<Rightarrow> Inl e
      | Inr tr \<Rightarrow> (let (ch, p) = enableReading (accept_channel a) (loop_poller l)
                   in Inr (a\<lparr>accept_channel := ch\<rparr>, l\<lparr>loop_poller := p\<rparr>, tr)))"

definition acceptor_destroy :: "acceptor \<Rightarrow> task event_loop \<Rightarrow> trace \<Rightarrow> acceptor \<times> task event_loop \<times> trace" where
  "acceptor_destroy a l tr =
     (let (ch, p) = disableAll (accept_channel a) (loop_poller l);
          (ch, p) = removeChannel ch p
      in (a\<lparr>accept_channel := ch\<rparr>, l\<lparr>loop_poller := p\<rparr>, socket_destroy (accept_fd a) tr))"

text \<open>\<open>handleRead\<close>: one accept per event; a socket nobody wants is closed. \<open>newConn\<close> is the callback.\<close>

definition acceptor_handleRead :: "int \<times> sockaddr_in \<Rightarrow> (int \<Rightarrow> sockaddr_in \<Rightarrow> 's \<Rightarrow> 's) \<Rightarrow> acceptor \<Rightarrow> trace \<times> 's \<Rightarrow> trace \<times> 's" where
  "acceptor_handleRead answer newConn a st =
     (let (connfd, peerAddr, tr) = sock_accept answer (accept_fd a) bzero_addr (fst st)
      in if 0 \<le> connfd
         then (if has_newConnection a then (tr, newConn connfd peerAddr (snd st))
               else (tr @ [SysClose connfd], snd st))
         else (tr, snd st))"

subsection \<open>The server\<close>

record tcp_server =
  srv_loop :: nat
  srv_ipPort :: bytes
  srv_name :: bytes
  srv_acceptor :: acceptor
  srv_pool :: loop_pool
  srv_started :: int
  nextConnId :: int
  connections :: "bytes \<rightharpoonup> nat"

datatype server_option = kNoReusePort | kReusePort

record 'a server_world =
  server :: tcp_server
  loops :: "nat \<Rightarrow> task event_loop"
  objects :: "nat \<rightharpoonup> (nat \<times> 'a conn_world)"
  sys_trace :: trace

definition tcp_server_new :: "int \<Rightarrow> int \<Rightarrow> nat \<Rightarrow> nat option \<Rightarrow> sockaddr_in \<Rightarrow> bytes \<Rightarrow> server_option \<Rightarrow> trace \<Rightarrow> crash + (tcp_server \<times> trace)" where
  "tcp_server_new sock_answer bind_answer chaddr base listenAddr nameArg option tr =
     (case base of
        None \<Rightarrow> Inl FatalExit
      | Some l \<Rightarrow>
          (case acceptor_new sock_answer bind_answer chaddr listenAddr (option = kReusePort) tr of
             Inl e \<Rightarrow> Inl e
           | Inr (a, tr) \<Rightarrow>
               Inr (\<lparr>srv_loop = l, srv_ipPort = toIpPort listenAddr, srv_name = nameArg,
                     srv_acceptor = a\<lparr>has_newConnection := True\<rparr>, srv_pool = loop_pool_new l nameArg,
                     srv_started = 0, nextConnId = 1, connections = Map.empty\<rparr>, tr)))"

definition server_setThreadNum :: "int \<Rightarrow> tcp_server \<Rightarrow> tcp_server" where
  "server_setThreadNum n s = s\<lparr>srv_pool := pool_setThreadNum n (srv_pool s)\<rparr>"

text \<open>Running an operation of the connection at address \<open>a\<close> with its own loop.\<close>

definition with_conn :: "nat \<Rightarrow> ('a conn_world \<Rightarrow> 'a conn_world) \<Rightarrow> 'a server_world \<Rightarrow> 'a server_world" where
  "with_conn a f sw =
     (case objects sw a of
        None \<Rightarrow> sw
      | Some (lid, cw) \<Rightarrow>
          (let cw = f (cw\<lparr>io_loop := loops sw lid\<rparr>)
           in sw\<lparr>objects := (objects sw)(a \<mapsto> (lid, cw)), loops := (loops sw)(lid := io_loop cw)\<rparr>))"

definition queue_on :: "int \<Rightarrow> nat \<Rightarrow> task \<Rightarrow> 'a server_world \<Rightarrow> 'a server_world" where
  "queue_on cur lid t sw = sw\<lparr>loops := (loops sw)(lid := queueInLoop cur t (loops sw lid))\<rparr>"

text \<open>\<open>start\<close>: only the first call starts the pool and the acceptor.\<close>

definition server_start :: "int \<Rightarrow> int \<Rightarrow> (nat \<Rightarrow> nat) \<Rightarrow> (nat \<Rightarrow> int) \<Rightarrow> int \<Rightarrow> (nat \<Rightarrow> 'a server_world \<Rightarrow> 'a server_world) option
    \<Rightarrow> 'a server_world \<Rightarrow> crash + 'a server_world" where
  "server_start cur listen_answer newid gettid created cb sw =
     (let first = (srv_started (server sw) = 0);
          sw = sw\<lparr>server := (server sw)\<lparr>srv_started := srv_started (server sw) + 1\<rparr>\<rparr>
      in if \<not> first then Inr sw
         else
           (let (p, sw) = pool_start newid gettid created cb (srv_pool (server sw), sw);
                sw = sw\<lparr>server := (server sw)\<lparr>srv_pool := p\<rparr>\<rparr>;
                b = srv_loop (server sw)
            in if isInLoopThread cur (loops sw b)
               then (case acceptor_listen listen_answer (srv_acceptor (server sw)) (loops sw b) (sys_trace sw) of
                       Inl e \<Rightarrow> Inl e
                     | Inr (a, l, tr) \<Rightarrow> Inr (sw\<lparr>server := (server sw)\<lparr>srv_acceptor := a\<rparr>, loops := (loops sw)(b := l), sys_trace := tr\<rparr>))
               else Inr (queue_on cur b AcceptorListen sw)))"

definition conn_name_of :: "tcp_server \<Rightarrow> bytes" where
  "conn_name_of s = srv_name s @ snprintf 64 (''-'' @ c_str (srv_ipPort s) @ ''#'' @ show_int (nextConnId s))"

text \<open>
  \<open>newConnection\<close>: \<open>addr\<close> and \<open>chaddr\<close> are the addresses of the new objects, \<open>loc\<close> is what
  \<open>getsockname\<close> reports, \<open>net\<close> the kernel's answers on the new socket, \<open>cbs\<close> the server's callbacks.
\<close>

definition newConnection :: "'a conn_callbacks \<Rightarrow> int \<Rightarrow> nat \<Rightarrow> nat \<Rightarrow> sockaddr_in \<Rightarrow> (nat \<Rightarrow> nat \<Rightarrow> int + nat) \<Rightarrow> bool
    \<Rightarrow> int \<Rightarrow> sockaddr_in \<Rightarrow> 'a server_world \<Rightarrow> 'a server_world" where
  "newConnection cbs cur addr chaddr loc net writeComplete sockfd peer sw =
     (let (ioLoop, p) = getNextLoop (srv_pool (server sw));
          connName = conn_name_of (server sw);
          sw = sw\<lparr>server := (server sw)\<lparr>srv_pool := p, nextConnId := nextConnId (server sw) + 1\<rparr>\<rparr>;
          (c, tr) = tcp_connection_new addr chaddr connName sockfd loc peer [];
          cw = \<lparr>conn = c\<lparr>has_writeComplete := writeComplete\<rparr>, io_loop = loops sw ioLoop, wire = [], calls = tr,
                net_answer = net, net_count = 0\<rparr>;
          sw = sw\<lparr>objects := (objects sw)(addr \<mapsto> (ioLoop, cw)),
                  server := (server sw)\<lparr>connections := (connections (server sw))(connName \<mapsto> addr)\<rparr>\<rparr>
      in if isInLoopThread cur (loops sw ioLoop) then with_conn addr (connectEstablished cbs) sw
         else queue_on cur ioLoop (ConnectEstablished addr) sw)"

definition removeConnectionInLoop :: "int \<Rightarrow> nat \<Rightarrow> 'a server_world \<Rightarrow> 'a server_world" where
  "removeConnectionInLoop cur a sw =
     (case objects sw a of
        None \<Rightarrow> sw
      | Some (ioLoop, cw) \<Rightarrow>
          (let sw = sw\<lparr>server := (server sw)\<lparr>connections := (connections (server sw))(conn_name (conn cw) := None)\<rparr>\<rparr>
           in queue_on cur ioLoop (ConnectDestroyed a) sw))"

definition removeConnection :: "int \<Rightarrow> nat \<Rightarrow> 'a server_world \<Rightarrow> 'a server_world" where
  "removeConnection cur a sw =
     (if isInLoopThread cur (loops sw (srv_loop (server sw))) then removeConnectionInLoop cur a sw
      else queue_on cur (srv_loop (server sw)) (RemoveConnectionInLoop a) sw)"

text \<open>The destructor over the entries of the table, in the order given.\<close>

fun server_destroy :: "'a conn_callbacks \<Rightarrow> int \<Rightarrow> (bytes \<times> nat) list \<Rightarrow> 'a server_world \<Rightarrow> 'a server_world" where
  "server_destroy cbs cur [] sw = sw"
| "server_destroy cbs cur ((nm, a) # items) sw =
     (case objects sw a of
        None \<Rightarrow> server_destroy cbs cur items sw
      | Some (ioLoop, cw) \<Rightarrow>
          server_destroy cbs cur items
            (if isInLoopThread cur (loops sw ioLoop) then with_conn a (connectDestroyed cbs) sw
             else queue_on cur ioLoop (ConnectDestroyed a) sw))"

subsection \<open>The table of connections\<close>

text \<open>
  The names are told apart by the number at their end, as long as the printed part is not cut: the printed
  text of an address is at most 21 bytes and the number at most 10.
\<close>

definition server_ok :: "'a server_world \<Rightarrow> bool" where
  "server_ok sw \<longleftrightarrow> 1 \<le> nextConnId (server sw) \<and> length (srv_ipPort (server sw)) \<le> 21
     \<and> (\<forall>nm a. connections (server sw) nm = Some a \<longrightarrow>
          (\<exists>lid cw k. objects sw a = Some (lid, cw) \<and> conn_name (conn cw) = nm \<and> 1 \<le> k \<and> k < nextConnId (server sw)
             \<and> nm = conn_name_of ((server sw)\<lparr>nextConnId := k\<rparr>)))"

lemma conn_name_inj:
  assumes "length (srv_ipPort s) \<le> 21" "1 \<le> i" "i < 2 ^ 31" "1 \<le> j" "j < 2 ^ 31"
    "conn_name_of (s\<lparr>nextConnId := i\<rparr>) = conn_name_of (s\<lparr>nextConnId := j\<rparr>)"
  shows "i = j"
proof -
  have c: "length (c_str (srv_ipPort s)) \<le> 21"
    using assms(1) length_takeWhile_le [of "\<lambda>c. c \<noteq> NUL" "srv_ipPort s"] by (simp add: c_str_def)
  have l: "length (show_int k) \<le> 10" if "1 \<le> k" "k < 2 ^ 31" for k
    using that length_show_nat [of "nat k" 10] by (simp add: show_int_def nat_less_iff)
  have full: "snprintf 64 (''-'' @ c_str (srv_ipPort s) @ ''#'' @ show_int k) = ''-'' @ c_str (srv_ipPort s) @ ''#'' @ show_int k"
    if "1 \<le> k" "k < 2 ^ 31" for k
    using c l [OF that] by (simp add: snprintf_def)
  have "show_int i = show_int j"
    using assms(6) full [OF assms(2,3)] full [OF assms(4,5)] by (simp add: conn_name_of_def)
  then show ?thesis using assms(2,4) show_nat_inj by (auto simp: show_int_def)
qed

lemma conn_name_server_cong:
  "srv_name s = srv_name s' \<Longrightarrow> srv_ipPort s = srv_ipPort s' \<Longrightarrow> conn_name_of (s\<lparr>nextConnId := k\<rparr>) = conn_name_of (s'\<lparr>nextConnId := k\<rparr>)"
  by (simp add: conn_name_of_def)

lemma with_conn_frame [simp]:
  "server (with_conn a f sw) = server sw"
  by (simp add: with_conn_def Let_def split: option.splits prod.splits)

lemma queue_on_frame [simp]:
  "server (queue_on cur lid t sw) = server sw" "objects (queue_on cur lid t sw) = objects sw"
  by (simp_all add: queue_on_def)

text \<open>An operation that keeps a connection's name.\<close>

definition keeps_name :: "('a conn_world \<Rightarrow> 'a conn_world) \<Rightarrow> bool" where
  "keeps_name f \<longleftrightarrow> (\<forall>cw. conn_name (conn (f cw)) = conn_name (conn cw))"

lemma with_conn_ok:
  assumes "server_ok sw" "keeps_name f"
  shows "server_ok (with_conn a f sw)"
proof (cases "objects sw a")
  case None
  then show ?thesis using assms(1) by (simp add: with_conn_def)
next
  case (Some lc)
  obtain lid cw where lc: "lc = (lid, cw)" by (cases lc)
  let ?cw = "f (cw\<lparr>io_loop := loops sw lid\<rparr>)"
  have obj: "objects (with_conn a f sw) = (objects sw)(a \<mapsto> (lid, ?cw))" using Some lc by (simp add: with_conn_def Let_def)
  have nm: "conn_name (conn ?cw) = conn_name (conn cw)" using assms(2) by (simp add: keeps_name_def)
  show ?thesis
    unfolding server_ok_def obj with_conn_frame
  proof (intro conjI allI impI)
    fix nm' a' assume "connections (server sw) nm' = Some a'"
    with assms(1) obtain lid' cw' k where k: "objects sw a' = Some (lid', cw')" "conn_name (conn cw') = nm'" "1 \<le> k"
      "k < nextConnId (server sw)" "nm' = conn_name_of ((server sw)\<lparr>nextConnId := k\<rparr>)"
      unfolding server_ok_def by blast
    show "\<exists>lid'' cw k. ((objects sw)(a \<mapsto> (lid, ?cw))) a' = Some (lid'', cw) \<and> conn_name (conn cw) = nm' \<and> 1 \<le> k
        \<and> k < nextConnId (server sw) \<and> nm' = conn_name_of ((server sw)\<lparr>nextConnId := k\<rparr>)"
      using k Some lc nm by (cases "a' = a") auto
  qed (use assms(1) in \<open>simp_all add: server_ok_def\<close>)
qed

lemma queue_on_ok [simp]: "server_ok (queue_on cur lid t sw) = server_ok sw"
  by (simp add: server_ok_def)

lemma established_name: "keeps_name (connectionCallback cbs) \<Longrightarrow> keeps_name (connectEstablished cbs)"
  by (simp add: keeps_name_def connectEstablished_def on_channel_def setState_def split_beta Let_def)

text \<open>The next name is free, and a new object under it fits the table.\<close>

lemma next_name_free:
  assumes "server_ok sw" "nextConnId (server sw) < 2 ^ 31 - 1"
  shows "connections (server sw) (conn_name_of (server sw)) = None"
proof (rule ccontr)
  have ip: "length (srv_ipPort (server sw)) \<le> 21" "1 \<le> nextConnId (server sw)" using assms(1) by (simp_all add: server_ok_def)
  assume "connections (server sw) (conn_name_of (server sw)) \<noteq> None"
  then obtain a where "connections (server sw) (conn_name_of (server sw)) = Some a" by auto
  with assms(1) obtain k where k: "1 \<le> k" "k < nextConnId (server sw)" "conn_name_of (server sw) = conn_name_of ((server sw)\<lparr>nextConnId := k\<rparr>)"
    unfolding server_ok_def by blast
  from conn_name_inj [OF ip(1,2) _ k(1), of] k assms(2) show False by simp
qed

lemma server_ok_insert:
  fixes sw :: "'a server_world" and cw :: "'a conn_world" and p :: "loop_pool"
  assumes "server_ok sw" "objects sw addr = None" "conn_name (conn cw) = conn_name_of (server sw)"
  defines "sv \<equiv> (server sw)\<lparr>srv_pool := p, nextConnId := nextConnId (server sw) + 1,
      connections := (connections (server sw))(conn_name_of (server sw) \<mapsto> addr)\<rparr>"
  shows "server_ok (sw\<lparr>objects := (objects sw)(addr \<mapsto> (io, cw)), server := sv\<rparr>)" (is "server_ok ?sw")
  unfolding server_ok_def
proof (intro conjI allI impI)
  fix nm a assume a: "connections (server ?sw) nm = Some a"
  have nmk: "conn_name_of ((server sw)\<lparr>srv_pool := p, nextConnId := k, connections := m\<rparr>) = conn_name_of ((server sw)\<lparr>nextConnId := k\<rparr>)" for k m
    by (simp add: conn_name_of_def)
  have own: "conn_name_of ((server sw)\<lparr>srv_pool := p, connections := m\<rparr>) = conn_name_of (server sw)" for m
    by (simp add: conn_name_of_def)
  show "\<exists>lid cw k. objects ?sw a = Some (lid, cw) \<and> conn_name (conn cw) = nm \<and> 1 \<le> k \<and> k < nextConnId (server ?sw)
           \<and> nm = conn_name_of ((server ?sw)\<lparr>nextConnId := k\<rparr>)"
  proof (cases "nm = conn_name_of (server sw)")
    case True
    with a assms(1,3) show ?thesis
      by (intro exI [of _ io] exI [of _ cw] exI [of _ "nextConnId (server sw)"] conjI) (simp_all add: nmk own sv_def server_ok_def)
  next
    case False
    then have "connections (server sw) nm = Some a" using a by (simp add: sv_def)
    with assms(1) obtain lid cw' k where k: "objects sw a = Some (lid, cw')" "conn_name (conn cw') = nm" "1 \<le> k"
      "k < nextConnId (server sw)" "nm = conn_name_of ((server sw)\<lparr>nextConnId := k\<rparr>)"
      unfolding server_ok_def by blast
    have "a \<noteq> addr" using k(1) assms(2) by auto
    with k(1-4) show ?thesis
      by (intro exI [of _ lid] exI [of _ cw'] exI [of _ k] conjI) (simp_all add: conn_name_of_def sv_def k(5))
  qed
qed (use assms(1) in \<open>simp_all add: sv_def server_ok_def\<close>)

lemma newConnection_ok:
  fixes sw :: "'a server_world" and cur sockfd :: int and chaddr :: nat and loc peer :: sockaddr_in and net :: "nat \<Rightarrow> nat \<Rightarrow> int + nat" and wc :: bool
  assumes "server_ok sw" "nextConnId (server sw) < 2 ^ 31 - 1" "objects sw addr = None" "keeps_name (connectionCallback cbs)"
  defines "sw' \<equiv> newConnection cbs cur addr chaddr loc net wc sockfd peer sw"
  shows "server_ok sw'"
    "connections (server sw) (conn_name_of (server sw)) = None"
    "connections (server sw') = (connections (server sw))(conn_name_of (server sw) \<mapsto> addr)"
    "nextConnId (server sw') = nextConnId (server sw) + 1"
proof -
  obtain io p where gl: "getNextLoop (srv_pool (server sw)) = (io, p)" by (rule prod.exhaust)
  define nm where "nm = conn_name_of (server sw)"
  obtain c :: "'a tcp_connection" and tr where ct: "tcp_connection_new addr chaddr nm sockfd loc peer [] = (c, tr)" by (rule prod.exhaust)
  define cw where "cw = \<lparr>conn = c\<lparr>has_writeComplete := wc\<rparr>, io_loop = loops sw io, wire = [], calls = tr, net_answer = net, net_count = 0\<rparr>"
  define sw1 where "sw1 = sw\<lparr>objects := (objects sw)(addr \<mapsto> (io, cw)), server := (server sw)\<lparr>srv_pool := p,
    nextConnId := nextConnId (server sw) + 1, connections := (connections (server sw))(nm \<mapsto> addr)\<rparr>\<rparr>"
  have sw': "sw' = (if isInLoopThread cur (loops sw1 io) then with_conn addr (connectEstablished cbs) sw1
      else queue_on cur io (ConnectEstablished addr) sw1)"
    using gl ct by (simp add: sw'_def newConnection_def sw1_def cw_def nm_def Let_def)
  have "conn_name (conn cw) = nm" using ct by (auto simp: cw_def tcp_connection_new_def)
  then have ok1: "server_ok sw1" unfolding sw1_def nm_def by (intro server_ok_insert [OF assms(1,3)]) simp
  show "connections (server sw) (conn_name_of (server sw)) = None" by (rule next_name_free [OF assms(1,2)])
  show "server_ok sw'" using ok1 with_conn_ok [OF ok1 established_name [OF assms(4)]] by (simp add: sw')
  show "connections (server sw') = (connections (server sw))(conn_name_of (server sw) \<mapsto> addr)"
    "nextConnId (server sw') = nextConnId (server sw) + 1"
    by (simp_all add: sw' sw1_def nm_def)
qed

lemma removeConnectionInLoop_ok:
  assumes "server_ok sw"
  shows "server_ok (removeConnectionInLoop cur a sw)"
proof (cases "objects sw a")
  case None
  then show ?thesis using assms by (simp add: removeConnectionInLoop_def)
next
  case (Some lc)
  obtain io cw where lc: "lc = (io, cw)" by (cases lc)
  have "server_ok (sw\<lparr>server := (server sw)\<lparr>connections := (connections (server sw))(conn_name (conn cw) := None)\<rparr>\<rparr>)"
    using assms unfolding server_ok_def by (auto simp: conn_name_of_def)
  then show ?thesis using Some lc by (simp add: removeConnectionInLoop_def Let_def)
qed

text \<open>What happens to the table over time: sockets accepted as new objects, connections removed.\<close>

datatype srv_op = Accepted nat nat int sockaddr_in | Removed nat

fun srv_run :: "'a conn_callbacks \<Rightarrow> int \<Rightarrow> (nat \<Rightarrow> nat \<Rightarrow> int + nat) \<Rightarrow> srv_op list \<Rightarrow> 'a server_world \<Rightarrow> 'a server_world" where
  "srv_run cbs cur net [] sw = sw"
| "srv_run cbs cur net (Accepted a ch fd peer # ops) sw =
     srv_run cbs cur net ops (newConnection cbs cur a ch bzero_addr net False fd peer sw)"
| "srv_run cbs cur net (Removed a # ops) sw = srv_run cbs cur net ops (removeConnectionInLoop cur a sw)"

fun srv_live :: "srv_op list \<Rightarrow> nat set \<Rightarrow> nat set" where
  "srv_live [] L = L"
| "srv_live (Accepted a ch fd peer # ops) L = srv_live ops (insert a L)"
| "srv_live (Removed a # ops) L = srv_live ops (L - {a})"

text \<open>Every accepted socket is a new object, and only live connections are removed.\<close>

fun srv_valid :: "srv_op list \<Rightarrow> nat set \<Rightarrow> nat set \<Rightarrow> bool" where
  "srv_valid [] used L = True"
| "srv_valid (Accepted a ch fd peer # ops) used L = (a \<notin> used \<and> srv_valid ops (insert a used) (insert a L))"
| "srv_valid (Removed a # ops) used L = (a \<in> L \<and> srv_valid ops used (L - {a}))"

definition live_set :: "'a server_world \<Rightarrow> nat set" where
  "live_set sw = {a. \<exists>nm. connections (server sw) nm = Some a}"

lemma objects_new: "{a. objects (newConnection cbs cur addr ch loc net wc fd peer sw) a \<noteq> None} = insert addr {a. objects sw a \<noteq> None}"
  by (auto simp: newConnection_def with_conn_def queue_on_def Let_def split: prod.splits option.splits if_splits)

lemma objects_removed: "objects (removeConnectionInLoop cur a sw) = objects sw" "nextConnId (server (removeConnectionInLoop cur a sw)) = nextConnId (server sw)"
  by (simp_all add: removeConnectionInLoop_def Let_def split: option.splits prod.splits)

lemma live_removed:
  assumes "server_ok sw" "a \<in> live_set sw"
  shows "live_set (removeConnectionInLoop cur a sw) = live_set sw - {a}"
proof -
  have nm: "conn_name (conn cw) = nm" if "connections (server sw) nm = Some b" "objects sw b = Some (lid, cw)" for nm b lid cw
    using assms(1) that unfolding server_ok_def by (metis option.inject prod.inject)
  obtain n0 where n0: "connections (server sw) n0 = Some a" using assms(2) by (auto simp: live_set_def)
  then obtain lid cw where o: "objects sw a = Some (lid, cw)" using assms(1) unfolding server_ok_def by blast
  have c: "connections (server (removeConnectionInLoop cur a sw)) = (connections (server sw))(n0 := None)"
    using o nm [OF n0 o] by (simp add: removeConnectionInLoop_def Let_def)
  have "m = n0" if "connections (server sw) m = Some a" for m
    using nm [OF that o] nm [OF n0 o] by simp
  then have "(\<exists>m. ((connections (server sw))(n0 := None)) m = Some x) \<longleftrightarrow> (\<exists>m. connections (server sw) m = Some x) \<and> x \<noteq> a" for x
    using n0 by (metis fun_upd_apply option.distinct(1) option.inject)
  then show ?thesis by (simp add: live_set_def c set_eq_iff)
qed

lemma live_added: "connections (server sw') = (connections (server sw))(nm \<mapsto> a) \<Longrightarrow> connections (server sw) nm = None \<Longrightarrow>
   live_set sw' = insert a (live_set sw)"
  unfolding live_set_def by (rule set_eqI) (simp, metis option.distinct(1))

lemma srv_run_ok:
  assumes "keeps_name (connectionCallback cbs)"
  shows "server_ok sw \<Longrightarrow> nextConnId (server sw) + int (length ops) < 2 ^ 31 - 1 \<Longrightarrow>
    srv_valid ops {a. objects sw a \<noteq> None} (live_set sw) \<Longrightarrow>
    server_ok (srv_run cbs cur net ops sw) \<and> live_set (srv_run cbs cur net ops sw) = srv_live ops (live_set sw)"
proof (induction ops arbitrary: sw)
  case (Cons op ops)
  show ?case
  proof (cases op)
    case (Accepted a ch fd peer)
    let ?sw = "newConnection cbs cur a ch bzero_addr net False fd peer sw"
    have free: "nextConnId (server sw) < 2 ^ 31 - 1" "objects sw a = None"
      using Cons.prems Accepted by (simp, cases "objects sw a") auto
    note n2 = newConnection_ok(2) [OF Cons.prems(1) free assms]
    note n = newConnection_ok(1,3,4) [OF Cons.prems(1) free assms, where cur = cur and chaddr = ch and loc = bzero_addr and net = net and wc = False and sockfd = fd and peer = peer]
    from Cons.IH [OF n(1)] Cons.prems Accepted objects_new [of cbs cur a ch bzero_addr net False fd peer sw] live_added [OF n(2) n2] n(3)
    show ?thesis by simp
  next
    case (Removed a)
    from Cons.IH [OF removeConnectionInLoop_ok [OF Cons.prems(1), of cur a]] live_removed [OF Cons.prems(1), of a cur] objects_removed [of cur a sw]
      Cons.prems Removed show ?thesis by simp
  qed
qed simp

text \<open>
  Property C22. The table of connections is exact: from the server's construction on, after accepting and removing
  any connections (fewer than \<open>2^31 - 2\<close> in the server's life), the table holds exactly the accepted connections that were
  not removed, each under its own name; no new connection ever replaces a live one.
\<close>

theorem connection_table:
  assumes "tcp_server_new sa ba ch0 (Some l) addr nm option tr = Inr (sv, tr')"
    "server sw = sv" "objects sw = Map.empty" "keeps_name (connectionCallback cbs)"
    "srv_valid ops {} {}" "length ops < 2 ^ 31 - 2"
  shows "live_set (srv_run cbs cur net ops sw) = srv_live ops {}
    \<and> (\<forall>n a. connections (server (srv_run cbs cur net ops sw)) n = Some a \<longrightarrow>
          (\<exists>lid cw. objects (srv_run cbs cur net ops sw) a = Some (lid, cw) \<and> conn_name (conn cw) = n))"
proof -
  have sv: "connections sv = Map.empty" "nextConnId sv = 1" "srv_ipPort sv = toIpPort addr"
    using assms(1) by (auto simp: tcp_server_new_def split: sum.splits)
  have "unat w < 10 ^ 5" for w :: "16 word" using unsigned_less [of w, where ?'a = nat] by simp
  from length_show_nat [OF this] have "length (show_nat (unat w)) \<le> 5" for w :: "16 word" by simp
  from this [of "ntohs (sin_port addr)"] length_inet_ntop [of "s_addr addr"]
  have "length (toIpPort addr) \<le> 21" by (simp add: toIpPort_def Let_def)
  then have ok: "server_ok sw" using sv assms(2) by (simp add: server_ok_def)
  have l: "live_set sw = {}" "{a. objects sw a \<noteq> None} = {}" using sv assms(2,3) by (simp_all add: live_set_def)
  have b: "nextConnId (server sw) + int (length ops) < 2 ^ 31 - 1" using sv assms(2,6) by simp
  have v: "srv_valid ops {a. objects sw a \<noteq> None} (live_set sw)" using assms(5) l by simp
  from srv_run_ok [OF assms(4) ok b v] show ?thesis
    unfolding l server_ok_def by blast
qed

lemma connection_table_witness:
  "\<exists>sw :: nat server_world. live_set (srv_run no_callbacks 1 (\<lambda>k n. Inr n) [Accepted 100 101 7 bzero_addr, Accepted 200 201 8 bzero_addr, Removed 100] sw) = {200}"
proof -
  obtain sv tr' where s: "tcp_server_new 5 0 60 (Some 0) bzero_addr ''srv'' kNoReusePort [] = Inr (sv, tr')"
    by (simp add: tcp_server_new_def acceptor_new_def createNonblocking_def bindAddress_def)
  let ?sw = "\<lparr>server = sv, loops = (\<lambda>i. sample_loop), objects = Map.empty, sys_trace = tr'\<rparr> :: nat server_world"
  have "keeps_name (connectionCallback no_callbacks)" by (simp add: keeps_name_def no_callbacks_def)
  from connection_table [OF s _ _ this, of ?sw "[Accepted 100 101 7 bzero_addr, Accepted 200 201 8 bzero_addr, Removed 100]" 1 "\<lambda>k n. Inr n"]
  show ?thesis by (intro exI [of _ ?sw]) auto
qed

text \<open>
  \<open>TcpServer::start\<close> is idempotent: after a first successful call, a second one only counts; it starts no
  second pool and does not listen again.
\<close>

theorem start_once:
  assumes "server_start cur ans newid gettid created cb sw = Inr sw'" "0 \<le> srv_started (server sw)"
    "\<And>f l s. cb = Some f \<Longrightarrow> server (f l s) = server s"
  shows "server_start cur ans' newid' gettid' created' cb sw' =
    Inr (sw'\<lparr>server := (server sw')\<lparr>srv_started := srv_started (server sw') + 1\<rparr>\<rparr>)"
proof -
  let ?sw1 = "sw\<lparr>server := (server sw)\<lparr>srv_started := srv_started (server sw) + 1\<rparr>\<rparr>"
  have spawn: "server (snd (pool_spawn k i newid gettid c cb (p, s))) = server s" for k i c p s
  proof (induction k arbitrary: i c p s)
    case (Suc k)
    obtain c' t where lt: "loop_thread_new c (snprintf (length (pool_name p) + 32) (c_str (pool_name p) @ show_nat i)) = (c', t)"
      by (rule prod.exhaust)
    obtain t2 s2 where st: "startLoop (gettid i) (newid i) cb (t, s) = Some (newid i, t2, s2)" "server s2 = server s"
      using assms(3) by (cases cb) (simp_all add: startLoop_def threadFunc_publish_def Let_def)
    then show ?case using Suc.IH lt by simp
  qed simp
  have started: "server (snd (pool_start newid gettid created cb (p, s))) = server s" for p s
    using spawn [of "nat (numThreads p)" 0 created "p\<lparr>pool_started := True\<rparr>" s] assms(3)
    by (cases cb) (simp_all add: pool_start_def Let_def split_beta)
  have "srv_started (server sw') = srv_started (server sw) + 1"
    using assms(1) started [of "srv_pool (server sw)" ?sw1]
    by (auto simp: server_start_def Let_def split_beta split: if_splits sum.splits prod.splits)
  then show ?thesis using assms(2) by (simp add: server_start_def)
qed

lemma start_once_witness:
  "\<exists>(sw :: nat server_world) sw'. server_start 1 0 (\<lambda>i. i) (\<lambda>i. 9) 0 None sw = Inr sw'
     \<and> server_start 1 0 (\<lambda>i. i) (\<lambda>i. 9) 0 None sw' = Inr (sw'\<lparr>server := (server sw')\<lparr>srv_started := srv_started (server sw') + 1\<rparr>\<rparr>)"
proof -
  obtain sv tr' where s: "tcp_server_new 5 0 60 (Some 0) bzero_addr ''srv'' kNoReusePort [] = Inr (sv, tr')" "srv_started sv = 0"
    by (simp add: tcp_server_new_def acceptor_new_def createNonblocking_def bindAddress_def)
  let ?sw = "\<lparr>server = sv, loops = (\<lambda>i. sample_loop), objects = Map.empty, sys_trace = tr'\<rparr> :: nat server_world"
  obtain sw' where r: "server_start 1 0 (\<lambda>i. i) (\<lambda>i. 9) 0 None ?sw = Inr sw'"
    by (cases "server_start 1 0 (\<lambda>i. i) (\<lambda>i. 9) 0 None ?sw")
      (auto simp: server_start_def acceptor_listen_def sock_listen_def split_beta Let_def split: sum.splits if_splits prod.splits)
  from start_once [OF r] s r show ?thesis by fastforce
qed

end
