(* ===== verification/Machine_Float.thy ===== *)
theory Machine_Float
  imports Complex_Main Prelude "HOL-Library.Log_Nat"
begin

text \<open>
  The parts of C++ floating point the sources use. A \<open>float\<close> or \<open>double\<close> is a rational number, an
  infinity or a NaN; arithmetic is the exact result rounded to the format (to nearest, ties to even), with
  gradual underflow and overflow to infinity. The sign of zero is not kept: no modelled code divides by a zero
  whose sign could matter. The library functions on top: \<open>std::max\<close> and \<open>std::min\<close> (as the two comparisons
  they are), \<open>floor\<close>, \<open>round\<close>, the conversion to \<open>int\<close>, the \<open>%g\<close> conversion of \<open>printf\<close> and streams,
  and \<open>strtof\<close>.
\<close>

section \<open>Numbers and their order\<close>

datatype fl = Fin rat | PosInf | NegInf | NotNum

fun fl_less :: "fl \<Rightarrow> fl \<Rightarrow> bool" where
  "fl_less NotNum _ = False"
| "fl_less _ NotNum = False"
| "fl_less (Fin a) (Fin b) = (a < b)"
| "fl_less PosInf _ = False"
| "fl_less _ NegInf = False"
| "fl_less NegInf _ = True"
| "fl_less _ PosInf = True"

fun fl_leq :: "fl \<Rightarrow> fl \<Rightarrow> bool" where
  "fl_leq NotNum _ = False"
| "fl_leq _ NotNum = False"
| "fl_leq (Fin a) (Fin b) = (a \<le> b)"
| "fl_leq NegInf _ = True"
| "fl_leq _ PosInf = True"
| "fl_leq _ _ = False"

lemma fl_less_irrefl [simp]: "\<not> fl_less a a"
  by (cases a) auto

lemma fl_less_trans: "fl_less a b \<Longrightarrow> fl_less b c \<Longrightarrow> fl_less a c"
  by (cases a; cases b; cases c) auto

lemma fl_less_asym: "fl_less a b \<Longrightarrow> \<not> fl_less b a"
  by (cases a; cases b) auto

lemma fl_leq_iff: "fl_leq a b \<longleftrightarrow> fl_less a b \<or> a = b \<and> a \<noteq> NotNum"
  by (cases a; cases b) auto

lemma fl_leq_trans: "fl_leq a b \<Longrightarrow> fl_leq b c \<Longrightarrow> fl_leq a c"
  by (cases a; cases b; cases c) auto

lemma fl_less_NotNum [simp]: "\<not> fl_less a NotNum"
  by (cases a) auto

lemma fl_not_less: "a \<noteq> NotNum \<Longrightarrow> b \<noteq> NotNum \<Longrightarrow> \<not> fl_less a b \<longleftrightarrow> fl_leq b a"
  by (cases a; cases b) auto

definition fl_max :: "fl \<Rightarrow> fl \<Rightarrow> fl" where
  "fl_max a b = (if fl_less a b then b else a)"

definition fl_min :: "fl \<Rightarrow> fl \<Rightarrow> fl" where
  "fl_min a b = (if fl_less b a then b else a)"

text \<open>With a NaN as second argument both return the first, so a clamp against a number is a number.\<close>

lemma fl_max_ge: "a \<noteq> NotNum \<Longrightarrow> fl_leq a (fl_max a b)"
  by (auto simp: fl_max_def fl_leq_iff)

lemma fl_min_le: "a \<noteq> NotNum \<Longrightarrow> fl_leq (fl_min a b) a"
  by (auto simp: fl_min_def fl_leq_iff)

section \<open>Rounding and arithmetic\<close>

text \<open>A format: precision in bits, least and greatest exponent.\<close>

record fl_format =
  precision :: nat
  emin :: int
  emax :: int

definition binary32 :: fl_format where
  "binary32 = \<lparr>precision = 24, emin = - 126, emax = 127\<rparr>"

definition binary64 :: fl_format where
  "binary64 = \<lparr>precision = 53, emin = - 1022, emax = 1023\<rparr>"

definition round_half_even :: "rat \<Rightarrow> int" where
  "round_half_even x =
     (let f = \<lfloor>x\<rfloor>; d = x - of_int f in
      if d < 1 / 2 \<or> d = 1 / 2 \<and> even f then f else f + 1)"

definition pow_rat :: "rat \<Rightarrow> int \<Rightarrow> rat" where
  "pow_rat b e = (if 0 \<le> e then b ^ nat e else 1 / b ^ nat (- e))"

text \<open>The binary exponent of a positive number.\<close>

definition exponent2 :: "rat \<Rightarrow> int" where
  "exponent2 x =
     (let (p, q) = quotient_of x; e = int (floorlog 2 (nat p)) - int (floorlog 2 (nat q)) in
      if pow_rat 2 e \<le> x then e else e - 1)"

definition fl_round :: "fl_format \<Rightarrow> rat \<Rightarrow> fl" where
  "fl_round F x =
     (if x = 0 then Fin 0
      else
        let e = max (exponent2 \<bar>x\<bar>) (emin F);
            ulp = pow_rat 2 (e - int (precision F) + 1);
            y = of_int (round_half_even (x / ulp)) * ulp
        in if pow_rat 2 (emax F + 1) \<le> \<bar>y\<bar> then (if 0 < x then PosInf else NegInf) else Fin y)"

fun fl_neg :: "fl \<Rightarrow> fl" where
  "fl_neg (Fin a) = Fin (- a)"
| "fl_neg PosInf = NegInf"
| "fl_neg NegInf = PosInf"
| "fl_neg NotNum = NotNum"

fun fl_add :: "fl_format \<Rightarrow> fl \<Rightarrow> fl \<Rightarrow> fl" where
  "fl_add F NotNum _ = NotNum"
| "fl_add F _ NotNum = NotNum"
| "fl_add F (Fin a) (Fin b) = fl_round F (a + b)"
| "fl_add F (Fin _) b = b"
| "fl_add F a (Fin _) = a"
| "fl_add F PosInf PosInf = PosInf"
| "fl_add F NegInf NegInf = NegInf"
| "fl_add F _ _ = NotNum"

definition fl_sub :: "fl_format \<Rightarrow> fl \<Rightarrow> fl \<Rightarrow> fl" where
  "fl_sub F a b = fl_add F a (fl_neg b)"

definition fl_sgn :: "fl \<Rightarrow> rat" where
  "fl_sgn a = (case a of Fin x \<Rightarrow> sgn x | PosInf \<Rightarrow> 1 | NegInf \<Rightarrow> - 1 | NotNum \<Rightarrow> 0)"

definition signed_inf :: "rat \<Rightarrow> fl" where
  "signed_inf s = (if s = 0 then NotNum else if 0 < s then PosInf else NegInf)"

fun fl_mul :: "fl_format \<Rightarrow> fl \<Rightarrow> fl \<Rightarrow> fl" where
  "fl_mul F NotNum _ = NotNum"
| "fl_mul F _ NotNum = NotNum"
| "fl_mul F (Fin a) (Fin b) = fl_round F (a * b)"
| "fl_mul F a b = signed_inf (fl_sgn a * fl_sgn b)"

fun fl_div :: "fl_format \<Rightarrow> fl \<Rightarrow> fl \<Rightarrow> fl" where
  "fl_div F NotNum _ = NotNum"
| "fl_div F _ NotNum = NotNum"
| "fl_div F (Fin a) (Fin b) = (if b = 0 then signed_inf (sgn a) else fl_round F (a / b))"
| "fl_div F (Fin a) _ = Fin 0"
| "fl_div F a (Fin b) = signed_inf (fl_sgn a * (if b = 0 then 1 else sgn b))"
| "fl_div F _ _ = NotNum"

text \<open>Conversions between integers and floating point.\<close>

definition fl_of_int :: "fl_format \<Rightarrow> int \<Rightarrow> fl" where
  "fl_of_int F i = fl_round F (of_int i)"

fun fl_floor :: "fl \<Rightarrow> fl" where
  "fl_floor (Fin a) = Fin (of_int \<lfloor>a\<rfloor>)"
| "fl_floor a = a"

text \<open>\<open>std::round\<close>: halves away from zero.\<close>

fun fl_roundi :: "fl \<Rightarrow> fl" where
  "fl_roundi (Fin a) = Fin (if a < 0 then - of_int \<lfloor>- a + 1 / 2\<rfloor> else of_int \<lfloor>a + 1 / 2\<rfloor>)"
| "fl_roundi a = a"

text \<open>\<open>static_cast<int>\<close> drops the fraction; out of range it is undefined behaviour, None here.\<close>

fun fl_to_int :: "fl \<Rightarrow> int option" where
  "fl_to_int (Fin a) =
     (let i = (if a < 0 then - \<lfloor>- a\<rfloor> else \<lfloor>a\<rfloor>) in
      if - (2 ^ 31) \<le> i \<and> i < 2 ^ 31 then Some i else None)"
| "fl_to_int _ = None"

section \<open>Text\<close>

text \<open>The decimal exponent of a positive number.\<close>

definition exponent10 :: "rat \<Rightarrow> int" where
  "exponent10 x =
     (let (p, q) = quotient_of x; e = int (length (show_nat (nat p))) - int (length (show_nat (nat q))) in
      if pow_rat 10 e \<le> x then e else e - 1)"

definition strip_zeros :: "bytes \<Rightarrow> bytes" where
  "strip_zeros s = rev (dropWhile (\<lambda>c. c = CHR ''0'') (rev s))"

definition with_fraction :: "bytes \<Rightarrow> bytes \<Rightarrow> bytes" where
  "with_fraction ip fp = (let f = strip_zeros fp in if f = [] then ip else ip @ ''.'' @ f)"

text \<open>The \<open>%.<P>g\<close> conversion of a positive number, then of any value.\<close>

definition fmt_g_pos :: "nat \<Rightarrow> rat \<Rightarrow> bytes" where
  "fmt_g_pos P x =
     (let e0 = exponent10 x;
          m0 = nat (round_half_even (x / pow_rat 10 (e0 - int P + 1)));
          (m, e) = (if m0 = 10 ^ P then (10 ^ (P - 1), e0 + 1) else (m0, e0));
          ds = show_nat m
      in if - 4 \<le> e \<and> e < int P then
           (if 0 \<le> e then with_fraction (take (nat e + 1) ds) (drop (nat e + 1) ds)
            else with_fraction ''0'' (replicate (nat (- e) - 1) (CHR ''0'') @ ds))
         else
           with_fraction (take 1 ds) (drop 1 ds) @ ''e'' @ (if e < 0 then ''-'' else ''+'')
             @ (let s = show_nat (nat \<bar>e\<bar>) in if length s < 2 then CHR ''0'' # s else s))"

definition fmt_g :: "nat \<Rightarrow> fl \<Rightarrow> bytes" where
  "fmt_g P v = (case v of
      Fin x \<Rightarrow> if x = 0 then ''0'' else if x < 0 then CHR ''-'' # fmt_g_pos P (- x) else fmt_g_pos P x
    | PosInf \<Rightarrow> ''inf'' | NegInf \<Rightarrow> ''-inf'' | NotNum \<Rightarrow> ''nan'')"

text \<open>
  \<open>strtof(s, &end)\<close>: the value, the offset of \<open>end\<close>, and whether \<open>errno\<close> became \<open>ERANGE\<close> (overflow, or a tiny
  inexact result, as glibc does). The accepted forms are decimal and hexadecimal numbers, \<open>inf\<close>, \<open>infinity\<close>
  and \<open>nan\<close> with an optional parenthesised tag, in any case, after white space and a sign.
\<close>

definition is_xdigit :: "char \<Rightarrow> bool" where
  "is_xdigit c \<longleftrightarrow> is_digit c \<or> (let n = of_char (tolower_char c) :: nat in 97 \<le> n \<and> n \<le> 102)"

definition xdigit_val :: "char \<Rightarrow> nat" where
  "xdigit_val c = (if is_digit c then digit_val c else of_char (tolower_char c) - 87)"

definition read_radix :: "nat \<Rightarrow> bytes \<Rightarrow> nat" where
  "read_radix b ds = foldl (\<lambda>a c. b * a + xdigit_val c) 0 ds"

text \<open>The optional exponent: its value and the characters it takes.\<close>

definition read_exponent :: "char \<Rightarrow> bytes \<Rightarrow> int \<times> nat" where
  "read_exponent mark s =
     (case s of [] \<Rightarrow> (0, 0) | c # r \<Rightarrow>
        if tolower_char c \<noteq> mark then (0, 0)
        else
          let sgn = (r \<noteq> [] \<and> (hd r = CHR ''-'' \<or> hd r = CHR ''+''));
              ds = takeWhile is_digit (if sgn then tl r else r);
              v = int (read_digits 0 ds)
          in if ds = [] then (0, 0)
             else (if sgn \<and> hd r = CHR ''-'' then - v else v, 1 + (if sgn then 1 else 0) + length ds))"

text \<open>A mantissa with an optional point, then the exponent: the number and its length, if it is one.\<close>

definition read_number :: "nat \<Rightarrow> (char \<Rightarrow> bool) \<Rightarrow> char \<Rightarrow> rat \<Rightarrow> bytes \<Rightarrow> (rat \<times> nat) option" where
  "read_number b digit mark base s =
     (let ip = takeWhile digit s; r = drop (length ip) s;
          point = (r \<noteq> [] \<and> hd r = CHR ''.'');
          fp = (if point then takeWhile digit (tl r) else []);
          r2 = drop (if point then 1 + length fp else 0) r;
          (e, n) = read_exponent mark r2
      in if ip = [] \<and> fp = [] then None
         else Some (of_nat (read_radix b (ip @ fp)) / of_nat b ^ length fp * pow_rat base e,
                    length ip + (if point then 1 + length fp else 0) + n))"

definition is_tag_char :: "char \<Rightarrow> bool" where
  "is_tag_char c \<longleftrightarrow> is_digit c \<or> c = CHR ''_'' \<or> (let n = of_char (tolower_char c) :: nat in 97 \<le> n \<and> n \<le> 122)"

definition nan_tag :: "bytes \<Rightarrow> nat" where
  "nan_tag s = (case s of [] \<Rightarrow> 0 | c # r \<Rightarrow>
      let t = takeWhile is_tag_char r in
      if c = CHR ''('' \<and> length t < length r \<and> r ! length t = CHR '')'' then length t + 2 else 0)"

definition read_unsigned :: "bytes \<Rightarrow> (fl \<times> nat) option" where
  "read_unsigned s =
     (let l = to_lower s in
      if take 8 l = ''infinity'' then Some (PosInf, 8)
      else if take 3 l = ''inf'' then Some (PosInf, 3)
      else if take 3 l = ''nan'' then Some (NotNum, 3 + nan_tag (drop 3 s))
      else
        case (if take 2 l = ''0x'' then read_number 16 is_xdigit (CHR ''p'') 2 (drop 2 s) else None) of
          Some (x, n) \<Rightarrow> Some (Fin x, n + 2)
        | None \<Rightarrow> map_option (\<lambda>(x, n). (Fin x, n)) (read_number 10 is_digit (CHR ''e'') 10 s))"

definition strtof :: "bytes \<Rightarrow> fl \<times> nat \<times> bool" where
  "strtof s =
     (let ws = length (takeWhile isspace s); s1 = drop ws s;
          sgn = (s1 \<noteq> [] \<and> (hd s1 = CHR ''-'' \<or> hd s1 = CHR ''+''));
          neg = (sgn \<and> hd s1 = CHR ''-'');
          s2 = (if sgn then tl s1 else s1)
      in case read_unsigned s2 of
           None \<Rightarrow> (Fin 0, 0, False)
         | Some (v, n) \<Rightarrow>
             let e = ws + (if sgn then 1 else 0) + n in
             (case v of
                Fin x \<Rightarrow>
                  let r = fl_round binary32 x;
                      range = (r = PosInf \<or> \<bar>x\<bar> < pow_rat 2 (emin binary32) \<and> r \<noteq> Fin x)
                  in (if neg then fl_neg r else r, e, range)
              | _ \<Rightarrow> (if neg then fl_neg v else v, e, False)))"

end
