(* ===== verification/Inference_Types.thy ===== *)
theory Inference_Types
  imports Machine_Float
begin

text \<open>
  The data of the inference service (\<open>src/inference/InferenceTypes.h\<close>), the interface every backend
  implements (\<open>IInferenceBackend.h\<close>) and the mock backend (\<open>MockBackend.cc\<close>).

  A backend object lives in a state \<open>'s\<close> of the program; its virtual functions are the fields of a record of
  functions on that state. The clock readings a call takes are arguments. A C++ \<open>std::string* error\<close> is the
  string before the call and the string after it.
\<close>

section \<open>Data\<close>

datatype backend_type = kAuto | kTensorFlow | kTensorRT

fun backendTypeName :: "backend_type \<Rightarrow> bytes" where
  "backendTypeName kTensorFlow = ''tensorflow''"
| "backendTypeName kTensorRT = ''tensorrt''"
| "backendTypeName kAuto = ''auto''"

definition parseBackendType :: "bytes \<Rightarrow> backend_type option" where
  "parseBackendType v =
     (if v = [] \<or> v = ''auto'' then Some kAuto
      else if v = ''tensorflow'' then Some kTensorFlow
      else if v = ''tensorrt'' then Some kTensorRT
      else None)"

record model_config =
  mc_name :: bytes
  mc_version :: bytes
  mc_path :: bytes
  mc_backend :: backend_type
  mc_deviceId :: int
  mc_maxConcurrency :: nat

definition model_config_new :: model_config where
  "model_config_new = \<lparr>mc_name = [], mc_version = [], mc_path = [], mc_backend = kAuto, mc_deviceId = 0,
     mc_maxConcurrency = 1\<rparr>"

text \<open>The encoded image is shared and may be absent.\<close>

record image_data =
  encoded :: "bytes option"
  im_fileName :: bytes
  im_contentType :: bytes

record inference_request =
  rq_requestId :: bytes
  rq_modelName :: bytes
  rq_backend :: backend_type
  confidenceThreshold :: fl
  rq_image :: image_data

definition inference_request_new :: inference_request where
  "inference_request_new = \<lparr>rq_requestId = [], rq_modelName = [], rq_backend = kAuto,
     confidenceThreshold = Fin (1 / 4), rq_image = \<lparr>encoded = None, im_fileName = [], im_contentType = []\<rparr>\<rparr>"

record detection =
  classId :: int
  label :: bytes
  confidence :: fl
  x1 :: fl
  y1 :: fl
  x2 :: fl
  y2 :: fl

record latency_info =
  queueMs :: fl
  preprocessMs :: fl
  inferenceMs :: fl
  postprocessMs :: fl
  totalMs :: fl

definition latency_new :: latency_info where
  "latency_new = \<lparr>queueMs = Fin 0, preprocessMs = Fin 0, inferenceMs = Fin 0, postprocessMs = Fin 0, totalMs = Fin 0\<rparr>"

record inference_result =
  rs_success :: bool
  rs_requestId :: bytes
  rs_modelName :: bytes
  rs_modelVersion :: bytes
  rs_backend :: backend_type
  rs_imageWidth :: int
  rs_imageHeight :: int
  rs_detections :: "detection list"
  rs_latency :: latency_info
  rs_errorCode :: bytes
  rs_errorMessage :: bytes

definition inference_result_new :: inference_result where
  "inference_result_new = \<lparr>rs_success = False, rs_requestId = [], rs_modelName = [], rs_modelVersion = [],
     rs_backend = kAuto, rs_imageWidth = 0, rs_imageHeight = 0, rs_detections = [], rs_latency = latency_new,
     rs_errorCode = [], rs_errorMessage = []\<rparr>"

text \<open>
  \<open>std::chrono::duration<double, std::milli>\<close> of the difference of two readings of the steady clock,
  in nanoseconds.
\<close>

definition ms_between :: "int \<Rightarrow> int \<Rightarrow> fl" where
  "ms_between from to = fl_div binary64 (fl_of_int binary64 (to - from)) (Fin 1000000)"

lemma parseBackendType_name [simp]: "parseBackendType (backendTypeName t) = Some t"
  by (cases t) (auto simp: parseBackendType_def)

section \<open>The interface of a backend\<close>

text \<open>\<open>infer\<close> takes the clock readings it makes, in order.\<close>

record 's backend_class =
  be_load :: "model_config \<Rightarrow> bytes \<Rightarrow> 's \<Rightarrow> bool \<times> bytes \<times> 's"
  be_warmup :: "bytes \<Rightarrow> 's \<Rightarrow> bool \<times> bytes \<times> 's"
  be_infer :: "int list \<Rightarrow> inference_request \<Rightarrow> 's \<Rightarrow> inference_result \<times> 's"
  be_healthy :: "'s \<Rightarrow> bool"
  be_type :: "'s \<Rightarrow> backend_type"

text \<open>
  What the scheduler, the registry and the controllers rely on. A backend is ready exactly when its last \<open>load\<close>
  succeeded, \<open>infer\<close> answers the request it was given, says so when it is not ready, has an error code exactly
  when it fails, and never changes readiness.
\<close>

locale inference_backend =
  fixes cls :: "'s backend_class"
  assumes load_healthy: "be_load cls cfg e s = (ok, e', s') \<Longrightarrow> be_healthy cls s' = ok"
    and warmup_needs_load: "be_warmup cls e s = (True, e', s') \<Longrightarrow> be_healthy cls s"
    and warmup_keeps: "be_warmup cls e s = (ok, e', s') \<Longrightarrow> be_healthy cls s' = be_healthy cls s"
    and infer_keeps: "be_infer cls ts r s = (res, s') \<Longrightarrow> be_healthy cls s' = be_healthy cls s"
    and infer_names: "be_infer cls ts r s = (res, s') \<Longrightarrow>
          rs_requestId res = rq_requestId r \<and> rs_modelName res = rq_modelName r \<and> rs_backend res = be_type cls s"
    and infer_not_ready: "be_infer cls ts r s = (res, s') \<Longrightarrow> \<not> be_healthy cls s \<Longrightarrow>
          \<not> rs_success res \<and> rs_errorCode res = ''BACKEND_NOT_READY''"
    and infer_code: "be_infer cls ts r s = (res, s') \<Longrightarrow> rs_success res = (rs_errorCode res = [])"
begin

text \<open>A sequence of requests, as a worker makes them.\<close>

fun infer_all :: "(int list \<times> inference_request) list \<Rightarrow> 's \<Rightarrow> inference_result list" where
  "infer_all [] s = []"
| "infer_all ((ts, r) # rs) s = (let (res, s') = be_infer cls ts r s in res # infer_all rs s')"

text \<open>Once loaded and warmed up, a backend never answers that it is not ready; without a load it answers nothing else.\<close>

lemma ready_stays:
  "be_healthy cls s = ready \<Longrightarrow>
   map rs_requestId (infer_all rs s) = map (rq_requestId \<circ> snd) rs
   \<and> (\<not> ready \<longrightarrow> (\<forall>res\<in>set (infer_all rs s). rs_errorCode res = ''BACKEND_NOT_READY''))"
proof (induction rs arbitrary: s)
  case Nil
  then show ?case by simp
next
  case (Cons q rs)
  obtain ts r where q: "q = (ts, r)" by (cases q)
  obtain res s' where i: "be_infer cls ts r s = (res, s')" by (cases "be_infer cls ts r s")
  have "be_healthy cls s' = ready" using infer_keeps [OF i] Cons.prems by simp
  from Cons.IH [OF this] show ?case
    using infer_names [OF i] infer_not_ready [OF i] Cons.prems by (simp add: q i)
qed

lemma load_then_ready:
  assumes "be_load cls cfg e s = (True, e1, s1)" "be_warmup cls e1 s1 = (ok, e2, s2)"
  shows "be_healthy cls s2"
  using load_healthy [OF assms(1)] warmup_keeps [OF assms(2)] by simp

end

section \<open>The mock backend\<close>

record mock_backend =
  mb_delay :: int
  mb_loaded :: bool

definition mock_backend_new :: "int \<Rightarrow> mock_backend" where
  "mock_backend_new ms = \<lparr>mb_delay = ms, mb_loaded = False\<rparr>"

definition mock_load :: "model_config \<Rightarrow> bytes \<Rightarrow> mock_backend \<Rightarrow> bool \<times> bytes \<times> mock_backend" where
  "mock_load cfg e b = (True, e, b\<lparr>mb_loaded := True\<rparr>)"

definition mock_warmup :: "bytes \<Rightarrow> mock_backend \<Rightarrow> bool \<times> bytes \<times> mock_backend" where
  "mock_warmup e b = (if \<not> mb_loaded b then (False, ''mock backend is not loaded'', b) else (True, e, b))"

definition mock_healthy :: "mock_backend \<Rightarrow> bool" where
  "mock_healthy b = mb_loaded b"

definition mock_infer :: "int list \<Rightarrow> inference_request \<Rightarrow> mock_backend \<Rightarrow> inference_result \<times> mock_backend" where
  "mock_infer ts r b =
     (let res = inference_result_new\<lparr>rs_requestId := rq_requestId r, rs_modelName := rq_modelName r,
                  rs_modelVersion := ''mock-1'', rs_backend := kAuto\<rparr> in
      if \<not> mb_loaded b
      then (res\<lparr>rs_errorCode := ''BACKEND_NOT_READY'', rs_errorMessage := ''mock backend is not loaded''\<rparr>, b)
      else (res\<lparr>rs_success := True, rs_imageWidth := 640, rs_imageHeight := 480,
                 rs_detections := rs_detections res @ [\<lparr>classId = 0, label = ''mock-object'',
                   confidence = fl_round binary32 (9 / 10), x1 = Fin 64, y1 = Fin 48, x2 = Fin 320, y2 = Fin 240\<rparr>],
                 rs_latency := latency_new\<lparr>inferenceMs := ms_between (ts ! 0) (ts ! 1)\<rparr>\<rparr>, b))"

definition mock_class :: "mock_backend backend_class" where
  "mock_class = \<lparr>be_load = mock_load, be_warmup = mock_warmup, be_infer = mock_infer, be_healthy = mock_healthy,
     be_type = (\<lambda>_. kAuto)\<rparr>"

lemmas mock_defs = mock_class_def mock_load_def mock_warmup_def mock_infer_def mock_healthy_def
  inference_result_new_def

interpretation mock: inference_backend mock_class
  by unfold_locales (auto simp: mock_defs Let_def split: if_splits)

end
