(* ===== verification/Yolo_Processor.thy ===== *)
theory Yolo_Processor
  imports Inference_Types "HOL-Library.Multiset"
begin

text \<open>
  The YOLOv8 pre- and postprocessing (\<open>src/inference/YoloV8Processor.h\<close>, \<open>YoloV8Processor.cc\<close>): decoding and
  letterboxing an image into the input tensor, and turning the output tensor into detections.

  Floating-point arithmetic is that of \<open>float\<close>. Vector elements are read and written without a bounds check in the
  source; an access out of bounds, and a conversion to \<open>int\<close> out of range, is None here, and is proved not to
  happen. The image decoder (\<open>stb_image\<close>) is a parameter, and so is \<open>std::sort\<close>, which may order equal elements
  in any way.
\<close>

section \<open>Constants and state\<close>

definition kInputWidth :: int where "kInputWidth = 640"
definition kInputHeight :: int where "kInputHeight = 640"
definition kClassCount :: nat where "kClassCount = 80"
definition kCandidateCount :: nat where "kCandidateCount = 8400"

definition kCocoLabels :: "bytes list" where
  "kCocoLabels = [
    ''person'', ''bicycle'', ''car'', ''motorcycle'', ''airplane'', ''bus'', ''train'', ''truck'', ''boat'', ''traffic light'',
    ''fire hydrant'', ''stop sign'', ''parking meter'', ''bench'', ''bird'', ''cat'', ''dog'', ''horse'', ''sheep'', ''cow'',
    ''elephant'', ''bear'', ''zebra'', ''giraffe'', ''backpack'', ''umbrella'', ''handbag'', ''tie'', ''suitcase'', ''frisbee'',
    ''skis'', ''snowboard'', ''sports ball'', ''kite'', ''baseball bat'', ''baseball glove'', ''skateboard'', ''surfboard'',
    ''tennis racket'', ''bottle'', ''wine glass'', ''cup'', ''fork'', ''knife'', ''spoon'', ''bowl'', ''banana'', ''apple'',
    ''sandwich'', ''orange'', ''broccoli'', ''carrot'', ''hot dog'', ''pizza'', ''donut'', ''cake'', ''chair'', ''couch'',
    ''potted plant'', ''bed'', ''dining table'', ''toilet'', ''tv'', ''laptop'', ''mouse'', ''remote'', ''keyboard'',
    ''cell phone'', ''microwave'', ''oven'', ''toaster'', ''sink'', ''refrigerator'', ''book'', ''clock'', ''vase'', ''scissors'',
    ''teddy bear'', ''hair drier'', ''toothbrush'']"

lemma length_kCocoLabels: "length kCocoLabels = kClassCount"
  by (simp add: kCocoLabels_def kClassCount_def)

record preprocessed_image =
  tensor :: "fl list"
  originalWidth :: int
  originalHeight :: int
  im_scale :: fl
  padX :: fl
  padY :: fl

definition preprocessed_new :: preprocessed_image where
  "preprocessed_new = \<lparr>tensor = [], originalWidth = 0, originalHeight = 0, im_scale = Fin 1, padX = Fin 0, padY = Fin 0\<rparr>"

abbreviation fadd :: "fl \<Rightarrow> fl \<Rightarrow> fl" where "fadd \<equiv> fl_add binary32"
abbreviation fsub :: "fl \<Rightarrow> fl \<Rightarrow> fl" where "fsub \<equiv> fl_sub binary32"
abbreviation fmul :: "fl \<Rightarrow> fl \<Rightarrow> fl" where "fmul \<equiv> fl_mul binary32"
abbreviation fdiv :: "fl \<Rightarrow> fl \<Rightarrow> fl" where "fdiv \<equiv> fl_div binary32"
abbreviation fint :: "int \<Rightarrow> fl" where "fint \<equiv> fl_of_int binary32"

section \<open>Preprocessing\<close>

text \<open>
  The decoder: the size an image announces, the decoded picture (size and RGB bytes), and the reason of the last failure.
\<close>

record stb =
  stbi_info :: "bytes \<Rightarrow> (int \<times> int) option"
  stbi_load :: "bytes \<Rightarrow> (int \<times> int \<times> nat list) option"
  stbi_failure_reason :: "bytes option"

text \<open>Unchecked accesses.\<close>

definition px_at :: "nat list \<Rightarrow> int \<Rightarrow> fl option" where
  "px_at pixels i = (if 0 \<le> i \<and> i < int (length pixels) then Some (fint (int (pixels ! nat i))) else None)"

definition px_store :: "int \<Rightarrow> fl \<Rightarrow> fl list \<Rightarrow> fl list option" where
  "px_store i v t = (if 0 \<le> i \<and> i < int (length t) then Some (t[nat i := v]) else None)"

fun for_each :: "('a \<Rightarrow> 's \<Rightarrow> 's option) \<Rightarrow> 'a list \<Rightarrow> 's \<Rightarrow> 's option" where
  "for_each f [] s = Some s"
| "for_each f (x # xs) s = (case f x s of None \<Rightarrow> None | Some s \<Rightarrow> for_each f xs s)"

text \<open>The source coordinate of a target one, its two neighbours and the fraction between them.\<close>

definition source_coord :: "fl \<Rightarrow> int \<Rightarrow> fl" where
  "source_coord scale k = fsub (fdiv (fadd (fint k) (Fin (1 / 2))) scale) (Fin (1 / 2))"

definition neighbours :: "fl \<Rightarrow> int \<Rightarrow> (int \<times> int \<times> fl) option" where
  "neighbours source extent =
     (case fl_to_int (fl_floor source) of
        None \<Rightarrow> None
      | Some i \<Rightarrow>
          let i0 = max 0 (min (extent - 1) i); i1 = min (extent - 1) (i0 + 1)
          in Some (i0, i1, fsub source (fl_floor source)))"

text \<open>One channel of one target pixel: bilinear interpolation of four source pixels.\<close>

definition interpolate :: "nat list \<Rightarrow> int \<Rightarrow> int \<times> int \<times> fl \<Rightarrow> int \<times> int \<times> fl \<Rightarrow> int \<Rightarrow> fl option" where
  "interpolate pixels width ny nx c =
     (let (y0, y1, fy) = ny; (x0, x1, fx) = nx in
      case px_at pixels ((y0 * width + x0) * 3 + c) of None \<Rightarrow> None | Some p00 \<Rightarrow>
      case px_at pixels ((y0 * width + x1) * 3 + c) of None \<Rightarrow> None | Some p01 \<Rightarrow>
      case px_at pixels ((y1 * width + x0) * 3 + c) of None \<Rightarrow> None | Some p10 \<Rightarrow>
      case px_at pixels ((y1 * width + x1) * 3 + c) of None \<Rightarrow> None | Some p11 \<Rightarrow>
      (let top = fadd (fmul p00 (fsub (Fin 1) fx)) (fmul p01 fx);
           bottom = fadd (fmul p10 (fsub (Fin 1) fx)) (fmul p11 fx)
       in Some (fdiv (fadd (fmul top (fsub (Fin 1) fy)) (fmul bottom fy)) (Fin 255))))"

definition letterbox_row :: "nat list \<Rightarrow> int \<Rightarrow> int \<Rightarrow> fl \<Rightarrow> int \<Rightarrow> int \<Rightarrow> int \<Rightarrow> int \<Rightarrow> fl list \<Rightarrow> fl list option" where
  "letterbox_row pixels width height scale resizedWidth padLeft padTop y t =
     (case neighbours (source_coord scale y) height of
        None \<Rightarrow> None
      | Some ny \<Rightarrow>
          for_each (\<lambda>x t.
            case neighbours (source_coord scale x) width of
              None \<Rightarrow> None
            | Some nx \<Rightarrow>
                for_each (\<lambda>c t.
                  case interpolate pixels width ny nx c of
                    None \<Rightarrow> None
                  | Some v \<Rightarrow> px_store (((padTop + y) * kInputWidth + padLeft + x) * 3 + c) v t) [0, 1, 2] t)
            [0 .. resizedWidth - 1] t)"

text \<open>The scale, the size and the padding of the letterbox. The division by two is C's, which truncates.\<close>

definition letterbox_scale :: "int \<Rightarrow> int \<Rightarrow> fl" where
  "letterbox_scale width height =
     fl_min (fdiv (fint kInputWidth) (fint width)) (fdiv (fint kInputHeight) (fint height))"

definition resized :: "int \<Rightarrow> fl \<Rightarrow> int option" where
  "resized extent scale = fl_to_int (fl_roundi (fmul (fint extent) scale))"

definition half :: "int \<Rightarrow> int" where
  "half i = (if i < 0 then - ((- i) div 2) else i div 2)"

definition letterbox :: "nat list \<Rightarrow> int \<Rightarrow> int \<Rightarrow> preprocessed_image option" where
  "letterbox pixels width height =
     (let scale = letterbox_scale width height in
      case (resized width scale, resized height scale) of
        (Some resizedWidth, Some resizedHeight) \<Rightarrow>
          (let padLeft = half (kInputWidth - resizedWidth);
               padTop = half (kInputHeight - resizedHeight);
               t = replicate (nat (kInputWidth * kInputHeight * 3)) (fdiv (Fin 114) (Fin 255))
           in map_option (\<lambda>t. \<lparr>tensor = t, originalWidth = width, originalHeight = height, im_scale = scale,
                                padX = fint padLeft, padY = fint padTop\<rparr>)
                (for_each (letterbox_row pixels width height scale resizedWidth padLeft padTop) [0 .. resizedHeight - 1] t))
      | _ \<Rightarrow> None)"

text \<open>Inl is \<open>return false\<close> with the error text; None is undefined behaviour.\<close>

definition preprocess :: "stb \<Rightarrow> image_data \<Rightarrow> (bytes + preprocessed_image) option" where
  "preprocess lib img =
     (case encoded img of
        None \<Rightarrow> Some (Inl ''encoded image is empty'')
      | Some data \<Rightarrow>
          if data = [] then Some (Inl ''encoded image is empty'')
          else
            (case stbi_info lib data of
               None \<Rightarrow> Some (Inl ''invalid image or image dimensions exceed limits'')
             | Some (w, h) \<Rightarrow>
                 if w \<le> 0 \<or> h \<le> 0 \<or> 8192 < w \<or> 8192 < h \<or> 40000000 < w * h
                 then Some (Inl ''invalid image or image dimensions exceed limits'')
                 else
                   (case stbi_load lib data of
                      None \<Rightarrow> Some (Inl (case stbi_failure_reason lib of None \<Rightarrow> ''image decode failed'' | Some r \<Rightarrow> r))
                    | Some (width, height, pixels) \<Rightarrow> map_option Inr (letterbox pixels width height))))"

section \<open>Postprocessing\<close>

definition intersectionOverUnion :: "detection \<Rightarrow> detection \<Rightarrow> fl" where
  "intersectionOverUnion a b =
     (let left = fl_max (x1 a) (x1 b); top = fl_max (y1 a) (y1 b);
          right = fl_min (x2 a) (x2 b); bottom = fl_min (y2 a) (y2 b);
          intersection = fmul (fl_max (Fin 0) (fsub right left)) (fl_max (Fin 0) (fsub bottom top));
          areaA = fmul (fl_max (Fin 0) (fsub (x2 a) (x1 a))) (fl_max (Fin 0) (fsub (y2 a) (y1 a)));
          areaB = fmul (fl_max (Fin 0) (fsub (x2 b) (x1 b))) (fl_max (Fin 0) (fsub (y2 b) (y1 b)));
          total = fsub (fadd areaA areaB) intersection
      in if fl_less (Fin 0) total then fdiv intersection total else Fin 0)"

text \<open>The class with the best score, the first of them.\<close>

definition best_class :: "fl list \<Rightarrow> nat \<Rightarrow> nat \<times> fl" where
  "best_class out i =
     fold (\<lambda>c (bestClass, bestScore).
         let score = out ! ((4 + c) * kCandidateCount + i) in
         if fl_less bestScore score then (c, score) else (bestClass, bestScore))
       [1..<kClassCount] (0, out ! (4 * kCandidateCount + i))"

definition detection_at :: "fl list \<Rightarrow> preprocessed_image \<Rightarrow> nat \<Rightarrow> nat \<Rightarrow> fl \<Rightarrow> detection" where
  "detection_at out img i bestClass bestScore =
     (let centerX = out ! i; centerY = out ! (kCandidateCount + i);
          width = out ! (2 * kCandidateCount + i); height = out ! (3 * kCandidateCount + i);
          halfW = fmul width (Fin (1 / 2)); halfH = fmul height (Fin (1 / 2))
      in \<lparr>classId = int bestClass, label = kCocoLabels ! bestClass, confidence = bestScore,
          x1 = fl_max (Fin 0) (fdiv (fsub (fsub centerX halfW) (padX img)) (im_scale img)),
          y1 = fl_max (Fin 0) (fdiv (fsub (fsub centerY halfH) (padY img)) (im_scale img)),
          x2 = fl_min (fint (originalWidth img)) (fdiv (fsub (fadd centerX halfW) (padX img)) (im_scale img)),
          y2 = fl_min (fint (originalHeight img)) (fdiv (fsub (fadd centerY halfH) (padY img)) (im_scale img))\<rparr>)"

definition candidate :: "fl list \<Rightarrow> preprocessed_image \<Rightarrow> fl \<Rightarrow> nat \<Rightarrow> detection option" where
  "candidate out img confThreshold i =
     (let (bestClass, bestScore) = best_class out i;
          d = detection_at out img i bestClass bestScore
      in if fl_less bestScore confThreshold then None
         else if fl_less (x1 d) (x2 d) \<and> fl_less (y1 d) (y2 d) then Some d else None)"

definition candidates :: "fl list \<Rightarrow> preprocessed_image \<Rightarrow> fl \<Rightarrow> detection list" where
  "candidates out img confThreshold = List.map_filter (candidate out img confThreshold) [0..<kCandidateCount]"

definition suppressed :: "fl \<Rightarrow> detection \<Rightarrow> detection list \<Rightarrow> bool" where
  "suppressed nmsThreshold c selected \<longleftrightarrow>
     (\<exists>kept\<in>set selected. classId c = classId kept \<and> fl_less nmsThreshold (intersectionOverUnion c kept))"

fun nms :: "fl \<Rightarrow> detection list \<Rightarrow> detection list \<Rightarrow> detection list" where
  "nms nmsThreshold selected [] = selected"
| "nms nmsThreshold selected (c # cs) =
     nms nmsThreshold (if suppressed nmsThreshold c selected then selected else selected @ [c]) cs"

text \<open>The output pointer may be null. The default of the last argument is 0.45.\<close>

definition postprocess :: "(detection list \<Rightarrow> detection list) \<Rightarrow> fl list option \<Rightarrow> nat \<Rightarrow> preprocessed_image \<Rightarrow> fl \<Rightarrow> fl
    \<Rightarrow> detection list" where
  "postprocess sorter output outputElements img confThreshold nmsThreshold =
     (case output of
        None \<Rightarrow> []
      | Some out \<Rightarrow>
          if outputElements \<noteq> 84 * kCandidateCount then []
          else nms nmsThreshold [] (sorter (candidates out img confThreshold)))"

definition default_nms :: fl where
  "default_nms = fl_round binary32 (45 / 100)"

end
