(* ===== verification/Model_Registry.thy ===== *)
theory Model_Registry
  imports Inference_Types
begin

text \<open>
  The model registry (\<open>src/inference/ModelRegistry.h\<close>, \<open>ModelRegistry.cc\<close>): reading the configuration file,
  registering backends, loading them, and choosing the backend for a request.

  A backend is named by its address; \<open>cls\<close> gives the virtual functions of the object at an address and \<open>'s\<close> is
  the state of all of them. The JSON library is the parameter \<open>js\<close>: its accessors return the left side of a sum,
  with the text of \<open>what()\<close>, where they throw. Opening and reading a file is the parameter \<open>file\<close>.
\<close>

section \<open>State\<close>

record registration =
  rg_config :: model_config
  rg_backend :: "nat option"
  priority :: int
  available :: bool
  loadError :: bytes

record registry =
  defaultModel :: bytes
  registrations :: "registration list"

definition registry_new :: registry where
  "registry_new = \<lparr>defaultModel = [], registrations = []\<rparr>"

record 'j json_lib =
  j_parse :: "bytes \<Rightarrow> bytes + 'j"
  j_is_object :: "'j \<Rightarrow> bool"
  j_is_string :: "'j \<Rightarrow> bool"
  j_is_array :: "'j \<Rightarrow> bool"
  j_contains :: "'j \<Rightarrow> bytes \<Rightarrow> bool"
  j_item :: "'j \<Rightarrow> bytes \<Rightarrow> 'j"
  j_elements :: "'j \<Rightarrow> 'j list"
  j_at :: "'j \<Rightarrow> bytes \<Rightarrow> bytes + 'j"
  j_get_bool :: "'j \<Rightarrow> bytes + bool"
  j_get_string :: "'j \<Rightarrow> bytes + bytes"
  j_int_or :: "'j \<Rightarrow> bytes \<Rightarrow> int \<Rightarrow> bytes + int"
  j_size_or :: "'j \<Rightarrow> bytes \<Rightarrow> nat \<Rightarrow> bytes + nat"

section \<open>Paths and construction of backends\<close>

definition directoryOf :: "bytes \<Rightarrow> bytes" where
  "directoryOf path =
     (if CHR ''/'' \<in> set path then rev (tl (dropWhile (\<lambda>c. c \<noteq> CHR ''/'') (rev path))) else ''.'')"

definition absolutePath :: "bytes \<Rightarrow> bool" where
  "absolutePath path \<longleftrightarrow> path \<noteq> [] \<and> hd path = CHR ''/''"

text \<open>
  \<open>build\<close> tells which backends were compiled in. The objects made so far are the list of their types; the
  address of a new one is its position.
\<close>

definition createBackend :: "backend_type set \<Rightarrow> backend_type \<Rightarrow> backend_type list \<Rightarrow> nat option \<times> backend_type list" where
  "createBackend build t objs =
     (if t = kTensorFlow \<and> kTensorFlow \<in> build \<or> t = kTensorRT \<and> kTensorRT \<in> build
      then (Some (length objs), objs @ [t]) else (None, objs))"

section \<open>Registration\<close>

definition add :: "model_config \<Rightarrow> nat option \<Rightarrow> int \<Rightarrow> bytes \<Rightarrow> registry \<Rightarrow> bool \<times> bytes \<times> registry" where
  "add config be prio err reg =
     (if \<exists>r\<in>set (registrations reg). mc_name (rg_config r) = mc_name config \<and> mc_backend (rg_config r) = mc_backend config
      then (False, ''duplicate model/backend registration'', reg)
      else
        let r = \<lparr>rg_config = config, rg_backend = be, priority = prio, available = False, loadError = []\<rparr>;
            reg = reg\<lparr>registrations := registrations reg @ [r]\<rparr>
        in (True, err, if defaultModel reg = [] then reg\<lparr>defaultModel := mc_name config\<rparr> else reg))"

definition set_back_error :: "bytes \<Rightarrow> registry \<Rightarrow> registry" where
  "set_back_error e reg =
     reg\<lparr>registrations := butlast (registrations reg) @ [(last (registrations reg))\<lparr>loadError := e\<rparr>]\<rparr>"

definition hasModel :: "bytes \<Rightarrow> registry \<Rightarrow> bool" where
  "hasModel modelName reg =
     (let resolved = (if modelName = ''default'' then defaultModel reg else modelName) in
      \<exists>r\<in>set (registrations reg). mc_name (rg_config r) = resolved)"

definition hasBackend :: "bytes \<Rightarrow> backend_type \<Rightarrow> registry \<Rightarrow> bool" where
  "hasBackend modelName be reg =
     (let resolved = (if modelName = ''default'' then defaultModel reg else modelName) in
      \<exists>r\<in>set (registrations reg). mc_name (rg_config r) = resolved \<and> mc_backend (rg_config r) = be \<and> available r)"

definition availableBackendCount :: "registry \<Rightarrow> nat" where
  "availableBackendCount reg = length (filter available (registrations reg))"

definition is_healthy :: "(nat \<Rightarrow> 's backend_class) \<Rightarrow> 's \<Rightarrow> registration \<Rightarrow> bool" where
  "is_healthy cls s r \<longleftrightarrow>
     available r \<and> (case rg_backend r of None \<Rightarrow> False | Some a \<Rightarrow> be_healthy (cls a) s)"

definition healthyBackendCount :: "(nat \<Rightarrow> 's backend_class) \<Rightarrow> 's \<Rightarrow> registry \<Rightarrow> nat" where
  "healthyBackendCount cls s reg = length (filter (is_healthy cls s) (registrations reg))"

section \<open>The configuration file\<close>

text \<open>
  One entry of \<open>models\<close> as far as the registration: Inl is the exception it throws, \<open>Inr None\<close> an entry that is
  not enabled.
\<close>

definition item_config :: "'j json_lib \<Rightarrow> bytes \<Rightarrow> 'j \<Rightarrow> bytes + (model_config \<times> int) option" where
  "item_config js baseDirectory item =
     (let str = (\<lambda>k. tryE (j_at js item k) (j_get_string js)) in
      tryE (if j_contains js item ''enabled'' then j_get_bool js (j_item js item ''enabled'') else Inr True) (\<lambda>enabled.
      if \<not> enabled then Inr None
      else
        tryE (str ''name'') (\<lambda>name. tryE (str ''version'') (\<lambda>version. tryE (str ''path'') (\<lambda>path.
        tryE (str ''backend'') (\<lambda>backendName.
        case parseBackendType backendName of
          None \<Rightarrow> Inl ''backend must be tensorflow or tensorrt''
        | Some t \<Rightarrow>
            if t = kAuto then Inl ''backend must be tensorflow or tensorrt''
            else
              tryE (j_int_or js item ''device_id'' 0) (\<lambda>dev. tryE (j_size_or js item ''max_concurrency'' 1) (\<lambda>conc.
              if name = [] \<or> version = [] \<or> path = [] then Inl ''name, version, and path must not be empty''
              else
                tryE (j_int_or js item ''priority'' 0) (\<lambda>prio.
                Inr (Some (\<lparr>mc_name = name, mc_version = version,
                      mc_path = (if absolutePath path then path else baseDirectory @ ''/'' @ path),
                      mc_backend = t, mc_deviceId = dev, mc_maxConcurrency = conc\<rparr>, prio)))))))))))"

text \<open>The loop over the entries. The boolean is false where the loop left the function with \<open>return false\<close>.\<close>

fun load_items :: "'j json_lib \<Rightarrow> backend_type set \<Rightarrow> bytes \<Rightarrow> 'j list \<Rightarrow> bytes \<Rightarrow> backend_type list \<times> registry
    \<Rightarrow> bool \<times> bytes \<times> backend_type list \<times> registry" where
  "load_items js build dir [] err (objs, reg) = (True, err, objs, reg)"
| "load_items js build dir (item # items) err (objs, reg) =
     (case item_config js dir item of
        Inl what \<Rightarrow> (False, ''invalid model entry: '' @ what, objs, reg\<lparr>registrations := []\<rparr>)
      | Inr None \<Rightarrow> load_items js build dir items err (objs, reg)
      | Inr (Some (config, prio)) \<Rightarrow>
          (let (be, objs') = createBackend build (mc_backend config) objs;
               (ok, err', reg') = add config be prio err reg
           in if \<not> ok then (False, err', objs', reg')
              else load_items js build dir items err' (objs',
                     if be = None then set_back_error ''backend was disabled at build time'' reg' else reg')))"

definition loadFromFile :: "'j json_lib \<Rightarrow> (bytes \<Rightarrow> bytes option) \<Rightarrow> backend_type set \<Rightarrow> bytes \<Rightarrow> bytes
    \<Rightarrow> backend_type list \<times> registry \<Rightarrow> bool \<times> bytes \<times> backend_type list \<times> registry" where
  "loadFromFile js file build path err st =
     (case file path of
        None \<Rightarrow> (False, ''cannot open model registry config: '' @ path, st)
      | Some text \<Rightarrow>
     (case j_parse js text of
        Inl what \<Rightarrow> (False, ''invalid model registry JSON: '' @ what, st)
      | Inr doc \<Rightarrow>
          if \<not> j_is_object js doc \<or> \<not> j_contains js doc ''default_model''
             \<or> \<not> j_is_string js (j_item js doc ''default_model'') \<or> \<not> j_contains js doc ''models''
             \<or> \<not> j_is_array js (j_item js doc ''models'')
          then (False, ''registry requires string default_model and array models'', st)
          else
            let (objs, reg) = st;
                dm = (case j_get_string js (j_item js doc ''default_model'') of Inl _ \<Rightarrow> [] | Inr d \<Rightarrow> d);
                reg = reg\<lparr>defaultModel := dm, registrations := []\<rparr>;
                (ok, err, objs, reg) =
                  load_items js build (directoryOf path) (j_elements js (j_item js doc ''models'')) err (objs, reg)
            in if \<not> ok then (False, err, objs, reg)
               else if registrations reg = [] then (False, ''model registry contains no enabled entries'', objs, reg)
               else if \<not> hasModel (defaultModel reg) reg
               then (False, ''default_model does not reference an enabled model'', objs, reg\<lparr>registrations := []\<rparr>)
               else (True, err, objs, reg)))"

section \<open>Loading and choosing\<close>

definition load_one :: "(nat \<Rightarrow> 's backend_class) \<Rightarrow> registration \<Rightarrow> 's \<Rightarrow> registration \<times> 's" where
  "load_one cls r s =
     (case rg_backend r of
        None \<Rightarrow> (r, s)
      | Some a \<Rightarrow>
          (let (ok, e, s) = be_load (cls a) (rg_config r) [] s;
               (ok, e, s) = (if ok then be_warmup (cls a) e s else (False, e, s))
           in if ok then (r\<lparr>available := True\<rparr>, s)
              else (r\<lparr>available := False, loadError := (if e = [] then ''backend initialization failed'' else e)\<rparr>, s)))"

definition failure_text :: "registration \<Rightarrow> bytes" where
  "failure_text r = mc_name (rg_config r) @ ''/'' @ backendTypeName (mc_backend (rg_config r)) @ '': '' @ loadError r @ ''; ''"

fun load_all :: "(nat \<Rightarrow> 's backend_class) \<Rightarrow> registration list \<Rightarrow> 's \<Rightarrow> nat \<times> bytes \<times> registration list \<times> 's" where
  "load_all cls [] s = (0, [], [], s)"
| "load_all cls (r # rs) s =
     (let (r', s') = load_one cls r s;
          (n, failures, rs', s'') = load_all cls rs s';
          loaded = (rg_backend r \<noteq> None \<and> available r')
      in (if loaded then n + 1 else n,
          (if rg_backend r = None \<or> loaded then [] else failure_text r') @ failures, r' # rs', s''))"

definition initialize :: "(nat \<Rightarrow> 's backend_class) \<Rightarrow> bytes \<Rightarrow> registry \<Rightarrow> 's \<Rightarrow> bool \<times> bytes \<times> registry \<times> 's" where
  "initialize cls err reg s =
     (let (n, failures, rs, s) = load_all cls (registrations reg) s;
          reg = reg\<lparr>registrations := rs\<rparr>
      in if n = 0 then (False, ''no inference backend is available: '' @ failures, reg, s)
         else (True, err, reg, s))"

definition resolve_name :: "registry \<Rightarrow> bytes \<Rightarrow> bytes" where
  "resolve_name reg nm = (if nm = ''default'' then defaultModel reg else nm)"

fun select :: "bytes \<Rightarrow> backend_type \<Rightarrow> registration option \<Rightarrow> registration list \<Rightarrow> registration option" where
  "select nm requested best [] = best"
| "select nm requested best (r # rs) =
     (if \<not> available r \<or> mc_name (rg_config r) \<noteq> nm then select nm requested best rs
      else if requested \<noteq> kAuto \<and> mc_backend (rg_config r) \<noteq> requested then select nm requested best rs
      else if best = None \<or> priority (the best) < priority r then select nm requested (Some r) rs
      else select nm requested best rs)"

text \<open>The first component is the model name, which the caller passes by reference.\<close>

definition resolve :: "bytes \<Rightarrow> backend_type \<Rightarrow> registry \<Rightarrow> bytes \<times> nat option" where
  "resolve modelName requested reg =
     (let nm = resolve_name reg modelName in
      (nm, case select nm requested None (registrations reg) of None \<Rightarrow> None | Some r \<Rightarrow> rg_backend r))"

section \<open>Choosing the best backend\<close>

definition matches :: "bytes \<Rightarrow> backend_type \<Rightarrow> registration \<Rightarrow> bool" where
  "matches nm requested r \<longleftrightarrow>
     available r \<and> mc_name (rg_config r) = nm \<and> (requested = kAuto \<or> mc_backend (rg_config r) = requested)"

text \<open>\<open>r\<close> is the first of the greatest priority among the matching entries.\<close>

definition first_best :: "bytes \<Rightarrow> backend_type \<Rightarrow> registration list \<Rightarrow> registration \<Rightarrow> bool" where
  "first_best nm requested rs r \<longleftrightarrow>
     (\<exists>before after. rs = before @ r # after \<and> matches nm requested r
        \<and> (\<forall>q\<in>set before. matches nm requested q \<longrightarrow> priority q < priority r)
        \<and> (\<forall>q\<in>set after. matches nm requested q \<longrightarrow> priority q \<le> priority r))"

lemma select_step:
  "select nm requested best (r # rs) =
     select nm requested (if matches nm requested r \<and> (best = None \<or> priority (the best) < priority r) then Some r else best) rs"
  by (auto simp: matches_def)

lemma select_spec:
  "(case best of None \<Rightarrow> \<forall>q\<in>set seen. \<not> matches nm requested q | Some b \<Rightarrow> first_best nm requested seen b) \<Longrightarrow>
   (case select nm requested best rs of None \<Rightarrow> \<forall>q\<in>set (seen @ rs). \<not> matches nm requested q
    | Some r \<Rightarrow> first_best nm requested (seen @ rs) r)"
proof (induction rs arbitrary: best seen)
  case Nil
  then show ?case by (cases best) simp_all
next
  case (Cons r rs)
  let ?best = "if matches nm requested r \<and> (best = None \<or> priority (the best) < priority r) then Some r else best"
  have "case ?best of None \<Rightarrow> \<forall>q\<in>set (seen @ [r]). \<not> matches nm requested q
        | Some b \<Rightarrow> first_best nm requested (seen @ [r]) b"
  proof (cases best)
    case None
    show ?thesis
    proof (cases "matches nm requested r")
      case True
      then have "first_best nm requested (seen @ [r]) r"
        unfolding first_best_def using Cons.prems None by (intro exI [of _ seen] exI [of _ "[]"]) auto
      then show ?thesis using True None by simp
    next
      case False
      then show ?thesis using Cons.prems None by simp
    qed
  next
    case (Some b)
    with Cons.prems obtain before after where b: "seen = before @ b # after" "matches nm requested b"
      "\<forall>q\<in>set before. matches nm requested q \<longrightarrow> priority q < priority b"
      "\<forall>q\<in>set after. matches nm requested q \<longrightarrow> priority q \<le> priority b"
      by (auto simp: first_best_def)
    show ?thesis
    proof (cases "matches nm requested r \<and> priority b < priority r")
      case True
      have "\<forall>q\<in>set seen. matches nm requested q \<longrightarrow> priority q < priority r"
        using b True by fastforce
      with True have "first_best nm requested (seen @ [r]) r"
        unfolding first_best_def by (intro exI [of _ seen] exI [of _ "[]"]) auto
      then show ?thesis using True Some by simp
    next
      case False
      with b have "first_best nm requested (seen @ [r]) b"
        unfolding first_best_def by (intro exI [of _ before] exI [of _ "after @ [r]"]) auto
      then show ?thesis using False Some by auto
    qed
  qed
  from Cons.IH [OF this] show ?case unfolding select_step append.assoc append_Cons append_Nil .
qed

text \<open>
  Property C24. Choosing a backend: \<open>resolve\<close> replaces \<open>default\<close> by the default model, and returns the backend of the first
  entry of the greatest priority among the available entries of that model, of the requested type if one was requested; if
  it returns none, no such entry exists.
\<close>

theorem resolve_best:
  assumes "\<forall>r\<in>set (registrations reg). available r \<longrightarrow> rg_backend r \<noteq> None"
  shows "case resolve modelName requested reg of
      (nm, None) \<Rightarrow> nm = resolve_name reg modelName \<and> (\<forall>r\<in>set (registrations reg). \<not> matches nm requested r)
    | (nm, Some a) \<Rightarrow> nm = resolve_name reg modelName
        \<and> (\<exists>r. first_best nm requested (registrations reg) r \<and> rg_backend r = Some a)"
proof -
  let ?nm = "resolve_name reg modelName"
  have s: "case select ?nm requested None (registrations reg) of
      None \<Rightarrow> \<forall>q\<in>set (registrations reg). \<not> matches ?nm requested q
    | Some r \<Rightarrow> first_best ?nm requested (registrations reg) r"
    using select_spec [where best = None and seen = "[]" and nm = ?nm and requested = requested and rs = "registrations reg"]
    unfolding append_Nil by simp
  show ?thesis
  proof (cases "select ?nm requested None (registrations reg)")
    case None
    then show ?thesis using s by (simp add: resolve_def)
  next
    case (Some r)
    with s have r: "first_best ?nm requested (registrations reg) r" by simp
    then have "r \<in> set (registrations reg)" "available r" by (auto simp: first_best_def matches_def)
    with assms obtain a where "rg_backend r = Some a" by blast
    then show ?thesis using Some r by (auto simp: resolve_def)
  qed
qed

definition sample_registry :: registry where
  "sample_registry = \<lparr>defaultModel = ''yolo'', registrations =
     [\<lparr>rg_config = model_config_new\<lparr>mc_name := ''yolo'', mc_backend := kTensorFlow\<rparr>, rg_backend = Some 0, priority = 1,
        available = True, loadError = []\<rparr>,
      \<lparr>rg_config = model_config_new\<lparr>mc_name := ''yolo'', mc_backend := kTensorRT\<rparr>, rg_backend = Some 1, priority = 5,
        available = True, loadError = []\<rparr>]\<rparr>"

lemma resolve_best_witness:
  "resolve ''default'' kAuto sample_registry = (''yolo'', Some 1)
   \<and> (\<exists>r. first_best ''yolo'' kAuto (registrations sample_registry) r \<and> rg_backend r = Some 1)"
proof -
  have r: "resolve ''default'' kAuto sample_registry = (''yolo'', Some 1)"
    by (simp add: resolve_def resolve_name_def sample_registry_def model_config_new_def)
  have "\<forall>r\<in>set (registrations sample_registry). available r \<longrightarrow> rg_backend r \<noteq> None"
    by (simp add: sample_registry_def)
  from resolve_best [OF this, of "''default''" kAuto] show ?thesis
    unfolding r prod.case option.case by blast
qed

end
