(* ===== verification/Inference_Backends.thy ===== *)
theory Inference_Backends
  imports Yolo_Processor Model_Registry
begin

text \<open>
  The two real backends (\<open>src/inference/TensorFlowBackend.cc\<close>, \<open>TensorRTBackend.cc\<close>) and the objects the registry
  points to.

  The TensorFlow C API, TensorRT and CUDA are parameters: records of functions that say how each call the code makes
  ends. Handles are numbers and every acquisition and release is logged. The locks only serialise the calls,
  which are atomic here. Undefined behaviour of the preprocessing, which does not occur (\<open>Yolo_Pre\<close>), is an error text.
\<close>

section \<open>Resources\<close>

datatype resource = Graph | Session | SessionOptions | Status | Runtime | Engine | Context | Stream | DeviceInput | DeviceOutput

datatype resource_event = Acquire resource nat | Release resource nat

text \<open>A new handle is the number of events so far, so it is never reused.\<close>

definition acquire :: "resource \<Rightarrow> resource_event list \<Rightarrow> nat \<times> resource_event list" where
  "acquire k ev = (length ev, ev @ [Acquire k (length ev)])"

definition release :: "resource \<Rightarrow> nat option \<Rightarrow> resource_event list \<Rightarrow> resource_event list" where
  "release k h ev = (case h of None \<Rightarrow> ev | Some n \<Rightarrow> ev @ [Release k n])"

definition preprocess_or :: "stb \<Rightarrow> image_data \<Rightarrow> bytes + preprocessed_image" where
  "preprocess_or lib img = (case preprocess lib img of Some r \<Rightarrow> r | None \<Rightarrow> Inl ''undefined behaviour'')"

text \<open>The result both backends start from.\<close>

definition named_result :: "inference_request \<Rightarrow> bytes \<Rightarrow> backend_type \<Rightarrow> inference_result" where
  "named_result r version t = inference_result_new\<lparr>rs_requestId := rq_requestId r, rs_modelName := rq_modelName r,
     rs_modelVersion := version, rs_backend := t\<rparr>"

definition failed_result :: "inference_result \<Rightarrow> bytes \<Rightarrow> bytes \<Rightarrow> inference_result" where
  "failed_result res code message = res\<lparr>rs_errorCode := code, rs_errorMessage := message\<rparr>"

definition detected_result :: "inference_result \<Rightarrow> preprocessed_image \<Rightarrow> detection list \<Rightarrow> int list \<Rightarrow> inference_result" where
  "detected_result res img ds ts =
     res\<lparr>rs_detections := ds, rs_success := True, rs_imageWidth := originalWidth img, rs_imageHeight := originalHeight img,
        rs_latency := latency_new\<lparr>preprocessMs := ms_between (ts ! 0) (ts ! 1), inferenceMs := ms_between (ts ! 1) (ts ! 2),
          postprocessMs := ms_between (ts ! 2) (ts ! 3)\<rparr>\<rparr>"

text \<open>The fill value of the warm-up tensor.\<close>

definition gray :: fl where
  "gray = fdiv (Fin 114) (Fin 255)"

section \<open>TensorFlow\<close>

text \<open>
  \<open>tf_load_session\<close>: whether a session is returned, and the status message unless it is \<open>TF_OK\<close>; \<open>tf_run\<close>: the status message
  unless it is \<open>TF_OK\<close>, and the output tensor if there is one.
\<close>

record tf_api =
  tf_load_session :: "bytes \<Rightarrow> bool \<times> bytes option"
  tf_operation :: "bytes \<Rightarrow> bool"
  tf_malloc :: "nat \<Rightarrow> bool"
  tf_new_tensor :: bool
  tf_run :: "fl list \<Rightarrow> bytes option \<times> fl list option"

record tf_backend =
  graph :: "nat option"
  session :: "nat option"
  tf_status :: nat
  input_oper :: bool
  output_oper :: bool
  tf_loaded :: bool
  tf_config :: model_config
  tf_events :: "resource_event list"

definition tf_backend_new :: tf_backend where
  "tf_backend_new = \<lparr>graph = None, session = None, tf_status = 0, input_oper = False, output_oper = False, tf_loaded = False,
     tf_config = model_config_new, tf_events = [Acquire Status 0]\<rparr>"

text \<open>\<open>TF_Message\<close> is never null, so the text for that case is never given; of \<open>TF_OK\<close> it is empty.\<close>

definition statusMessage :: "bytes option \<Rightarrow> bytes" where
  "statusMessage m = (case m of None \<Rightarrow> [] | Some t \<Rightarrow> t)"

definition tf_close :: "tf_backend \<Rightarrow> tf_backend" where
  "tf_close b =
     b\<lparr>tf_loaded := False, session := None, graph := None,
       tf_events := release Graph (graph b) (release Session (session b) (tf_events b))\<rparr>"

definition tf_destroy :: "tf_backend \<Rightarrow> tf_backend" where
  "tf_destroy b = (let b = tf_close b in b\<lparr>tf_events := release Status (Some (tf_status b)) (tf_events b)\<rparr>)"

definition tf_load :: "tf_api \<Rightarrow> model_config \<Rightarrow> bytes \<Rightarrow> tf_backend \<Rightarrow> bool \<times> bytes \<times> tf_backend" where
  "tf_load api config err b =
     (let b = tf_close b;
          (g, ev) = acquire Graph (tf_events b);
          (options, ev) = acquire SessionOptions ev;
          (has_session, status) = tf_load_session api (mc_path config);
          (s, ev) = (if has_session then (let (n, ev) = acquire Session ev in (Some n, ev)) else (None, ev));
          ev = release SessionOptions (Some options) ev;
          b = b\<lparr>tf_config := config, graph := Some g, session := s, tf_events := ev\<rparr>
      in if status \<noteq> None then (False, statusMessage status, tf_close b)
         else
           let b = b\<lparr>input_oper := tf_operation api ''serving_default_images'', output_oper := tf_operation api ''PartitionedCall''\<rparr>
           in if \<not> input_oper b \<or> \<not> output_oper b
              then (False, ''SavedModel does not contain expected serving_default input/output operations'', tf_close b)
              else (True, err, b\<lparr>tf_loaded := True\<rparr>))"

text \<open>Inl is the error text.\<close>

definition tf_run_model :: "tf_api \<Rightarrow> fl list \<Rightarrow> bytes + fl list" where
  "tf_run_model api input =
     (if \<not> tf_malloc api (length input * 4) then Inl ''failed to allocate input tensor''
      else if \<not> tf_new_tensor api then Inl ''failed to create input tensor''
      else case tf_run api input of
          (None, Some values) \<Rightarrow> Inr values
        | (status, _) \<Rightarrow> Inl (statusMessage status))"

definition tf_warmup :: "tf_api \<Rightarrow> bytes \<Rightarrow> tf_backend \<Rightarrow> bool \<times> bytes \<times> tf_backend" where
  "tf_warmup api err b =
     (if \<not> tf_loaded b then (False, ''TensorFlow backend is not loaded'', b)
      else case tf_run_model api (replicate (640 * 640 * 3) gray) of
          Inl e \<Rightarrow> (False, e, b)
        | Inr values \<Rightarrow> (length values = 84 * 8400, err, b))"

definition tf_infer :: "tf_api \<Rightarrow> stb \<Rightarrow> (detection list \<Rightarrow> detection list) \<Rightarrow> int list \<Rightarrow> inference_request \<Rightarrow> tf_backend
    \<Rightarrow> inference_result \<times> tf_backend" where
  "tf_infer api lib sorter ts r b =
     (let res = named_result r (mc_version (tf_config b)) kTensorFlow in
      if \<not> tf_loaded b then (failed_result res ''BACKEND_NOT_READY'' ''TensorFlow backend is not loaded'', b)
      else
        case preprocess_or lib (rq_image r) of
          Inl e \<Rightarrow> (failed_result res ''IMAGE_DECODE_FAILED'' e, b)
        | Inr img \<Rightarrow>
            (case tf_run_model api (tensor img) of
               Inl e \<Rightarrow> (failed_result res ''TENSORFLOW_INFERENCE_FAILED'' e, b)
             | Inr raw \<Rightarrow>
                 (detected_result res img
                    (postprocess sorter (Some raw) (length raw) img (confidenceThreshold r) default_nms) ts, b)))"

definition tf_class :: "tf_api \<Rightarrow> stb \<Rightarrow> (detection list \<Rightarrow> detection list) \<Rightarrow> tf_backend backend_class" where
  "tf_class api lib sorter = \<lparr>be_load = tf_load api, be_warmup = tf_warmup api, be_infer = tf_infer api lib sorter,
     be_healthy = tf_loaded, be_type = (\<lambda>_. kTensorFlow)\<rparr>"

lemmas tf_defs = tf_class_def tf_load_def tf_close_def tf_warmup_def tf_infer_def named_result_def failed_result_def
  detected_result_def inference_result_new_def

interpretation tf: inference_backend "tf_class api lib sorter" for api lib sorter
  by unfold_locales
    (auto simp: tf_defs Let_def split: prod.splits sum.splits if_splits)

section \<open>TensorRT\<close>

datatype io_mode = IoInput | IoOutput | IoNone

text \<open>Each CUDA call returns None for \<open>cudaSuccess\<close> and otherwise the text of its error.\<close>

record trt_api =
  cudaSetDevice :: "int \<Rightarrow> bytes option"
  engine_file :: "bytes \<Rightarrow> bytes option"
  file_read :: "bytes \<Rightarrow> bool"
  createInferRuntime :: bool
  deserializeCudaEngine :: "bytes \<Rightarrow> bool"
  createExecutionContext :: bool
  getTensorIOMode :: "bytes \<Rightarrow> io_mode"
  is_kFLOAT :: "bytes \<Rightarrow> bool"
  getTensorShape :: "bytes \<Rightarrow> int list"
  cudaStreamCreate :: "bytes option"
  cudaMalloc :: "resource \<Rightarrow> nat \<Rightarrow> bytes option"
  setTensorAddress :: "bytes \<Rightarrow> bool"
  copy_input :: "fl list \<Rightarrow> bytes option"
  enqueueV3 :: bool
  copy_output :: "bytes option"
  cudaStreamSynchronize :: "bytes option"
  device_result :: "fl list \<Rightarrow> nat \<Rightarrow> fl"

record trt_backend =
  runtime :: "nat option"
  engine :: "nat option"
  exec_context :: "nat option"
  stream :: "nat option"
  deviceInput :: "nat option"
  deviceOutput :: "nat option"
  inputBytes :: nat
  outputBytes :: nat
  trt_loaded :: bool
  trt_config :: model_config
  trt_events :: "resource_event list"

definition kInputName :: bytes where "kInputName = ''images''"
definition kOutputName :: bytes where "kOutputName = ''output0''"
definition kInputElements :: nat where "kInputElements = 1 * 3 * 640 * 640"
definition kOutputElements :: nat where "kOutputElements = 1 * 84 * 8400"

text \<open>The result of a CUDA call as a boolean, and the error text after it.\<close>

definition cudaOk :: "bytes option \<Rightarrow> bytes \<Rightarrow> bytes \<Rightarrow> bool \<times> bytes" where
  "cudaOk status operation err = (case status of None \<Rightarrow> (True, err) | Some e \<Rightarrow> (False, operation @ '': '' @ e))"

definition dimensionsEqual :: "int list \<Rightarrow> int list \<Rightarrow> bool" where
  "dimensionsEqual ds expected \<longleftrightarrow> length ds = length expected \<and> (\<forall>i < length ds. ds ! i = expected ! i)"

definition trt_backend_new :: trt_backend where
  "trt_backend_new = \<lparr>runtime = None, engine = None, exec_context = None, stream = None, deviceInput = None,
     deviceOutput = None, inputBytes = 0, outputBytes = 0, trt_loaded = False, trt_config = model_config_new, trt_events = []\<rparr>"

definition trt_close :: "trt_backend \<Rightarrow> trt_backend" where
  "trt_close b =
     b\<lparr>trt_loaded := False, deviceOutput := None, deviceInput := None, stream := None, exec_context := None, engine := None,
       runtime := None,
       trt_events := release Runtime (runtime b) (release Engine (engine b) (release Context (exec_context b)
         (release Stream (stream b) (release DeviceInput (deviceInput b) (release DeviceOutput (deviceOutput b) (trt_events b))))))\<rparr>"

definition trt_destroy :: "trt_backend \<Rightarrow> trt_backend" where
  "trt_destroy b = trt_close b"

text \<open>An acquisition that may fail.\<close>

definition try_acquire :: "bool \<Rightarrow> resource \<Rightarrow> resource_event list \<Rightarrow> nat option \<times> resource_event list" where
  "try_acquire ok k ev = (if ok then (let (n, ev) = acquire k ev in (Some n, ev)) else (None, ev))"

definition trt_open_engine :: "trt_api \<Rightarrow> bytes \<Rightarrow> trt_backend \<Rightarrow> trt_backend" where
  "trt_open_engine api serialized b =
     (let (r, ev) = try_acquire (createInferRuntime api) Runtime (trt_events b);
          (e, ev) = try_acquire (r \<noteq> None \<and> deserializeCudaEngine api serialized) Engine ev;
          (c, ev) = try_acquire (e \<noteq> None \<and> createExecutionContext api) Context ev
      in b\<lparr>runtime := r, engine := e, exec_context := c, trt_events := ev\<rparr>)"

definition trt_contract :: "trt_api \<Rightarrow> bool" where
  "trt_contract api \<longleftrightarrow>
     getTensorIOMode api kInputName = IoInput \<and> getTensorIOMode api kOutputName = IoOutput
     \<and> is_kFLOAT api kInputName \<and> is_kFLOAT api kOutputName
     \<and> dimensionsEqual (getTensorShape api kInputName) [1, 3, 640, 640]
     \<and> dimensionsEqual (getTensorShape api kOutputName) [1, 84, 8400]"

text \<open>The stream and the two buffers, in order; the first failure stops.\<close>

definition trt_buffers :: "trt_api \<Rightarrow> bytes \<Rightarrow> trt_backend \<Rightarrow> bool \<times> bytes \<times> trt_backend" where
  "trt_buffers api err b =
     (let (ok, err) = cudaOk (cudaStreamCreate api) ''cudaStreamCreate'' err;
          (s, ev) = try_acquire ok Stream (trt_events b)
      in if \<not> ok then (False, err, b)
         else
           let b = b\<lparr>stream := s, trt_events := ev\<rparr>;
               (ok, err) = cudaOk (cudaMalloc api DeviceInput (inputBytes b)) ''cudaMalloc(input)'' err;
               (d, ev) = try_acquire ok DeviceInput (trt_events b)
           in if \<not> ok then (False, err, b)
              else
                let b = b\<lparr>deviceInput := d, trt_events := ev\<rparr>;
                    (ok, err) = cudaOk (cudaMalloc api DeviceOutput (outputBytes b)) ''cudaMalloc(output)'' err;
                    (d, ev) = try_acquire ok DeviceOutput (trt_events b)
                in if \<not> ok then (False, err, b) else (True, err, b\<lparr>deviceOutput := d, trt_events := ev\<rparr>))"

definition trt_load :: "trt_api \<Rightarrow> model_config \<Rightarrow> bytes \<Rightarrow> trt_backend \<Rightarrow> bool \<times> bytes \<times> trt_backend" where
  "trt_load api config err b =
     (let b = (trt_close b)\<lparr>trt_config := config\<rparr>;
          (ok, err) = cudaOk (cudaSetDevice api (mc_deviceId config)) ''cudaSetDevice'' err
      in if \<not> ok then (False, err, b)
         else
           case engine_file api (mc_path config) of
             None \<Rightarrow> (False, ''cannot open TensorRT engine: '' @ mc_path config, b)
           | Some serialized \<Rightarrow>
               if serialized = [] then (False, ''TensorRT engine is empty'', b)
               else if \<not> file_read api (mc_path config) then (False, ''failed to read TensorRT engine'', b)
               else
                 let b = trt_open_engine api serialized b in
                 if runtime b = None \<or> engine b = None \<or> exec_context b = None
                 then (False, ''failed to deserialize TensorRT engine or create execution context'', trt_close b)
                 else if \<not> trt_contract api
                 then (False, ''TensorRT engine does not match images/output0 FP32 YOLOv8 tensor contract'', trt_close b)
                 else
                   let b = b\<lparr>inputBytes := kInputElements * 4, outputBytes := kOutputElements * 4\<rparr>;
                       (ok, err, b) = trt_buffers api err b
                   in if \<not> ok then (False, err, trt_close b)
                      else if \<not> setTensorAddress api kInputName \<or> \<not> setTensorAddress api kOutputName
                      then (False, ''failed to bind TensorRT input/output buffers'', trt_close b)
                      else (True, err, b\<lparr>trt_loaded := True\<rparr>))"

text \<open>The transposition from pixel order to channel order, over \<open>n\<close> pixels.\<close>

definition to_nchw :: "nat \<Rightarrow> fl list \<Rightarrow> fl list" where
  "to_nchw n nhwc =
     fold (\<lambda>pixel. fold (\<lambda>channel nchw. nchw[channel * n + pixel := nhwc ! (pixel * 3 + channel)]) [0..<3])
       [0..<n] (replicate (3 * n) (Fin 0))"

definition trt_run :: "trt_api \<Rightarrow> fl list \<Rightarrow> bytes \<Rightarrow> trt_backend \<Rightarrow> bytes + fl list" where
  "trt_run api nhwcInput err b =
     (if length nhwcInput \<noteq> kInputElements then Inl ''unexpected TensorRT input element count''
      else
        let nchw = to_nchw (640 * 640) nhwcInput in
        if \<not> trt_loaded b then Inl ''TensorRT backend is not loaded''
        else
          let (ok1, err) = cudaOk (copy_input api nchw) ''copy input to GPU'' err;
              ok2 = (ok1 \<and> enqueueV3 api);
              (ok3, err) = (if ok2 then cudaOk (copy_output api) ''copy output to host'' err else (False, err));
              (ok4, err) = (if ok3 then cudaOk (cudaStreamSynchronize api) ''cudaStreamSynchronize'' err else (False, err))
          in if ok4 then Inr (map (device_result api nchw) [0..<kOutputElements])
             else Inl (if err = [] then ''TensorRT enqueueV3 failed'' else err))"

definition trt_warmup :: "trt_api \<Rightarrow> bytes \<Rightarrow> trt_backend \<Rightarrow> bool \<times> bytes \<times> trt_backend" where
  "trt_warmup api err b =
     (if \<not> trt_loaded b then (False, ''TensorRT backend is not loaded'', b)
      else case trt_run api (replicate kInputElements gray) err b of
          Inl e \<Rightarrow> (False, e, b)
        | Inr values \<Rightarrow> (length values = kOutputElements, err, b))"

definition trt_infer :: "trt_api \<Rightarrow> stb \<Rightarrow> (detection list \<Rightarrow> detection list) \<Rightarrow> int list \<Rightarrow> inference_request \<Rightarrow> trt_backend
    \<Rightarrow> inference_result \<times> trt_backend" where
  "trt_infer api lib sorter ts r b =
     (let res = named_result r (mc_version (trt_config b)) kTensorRT in
      if \<not> trt_loaded b then (failed_result res ''BACKEND_NOT_READY'' ''TensorRT backend is not loaded'', b)
      else
        case preprocess_or lib (rq_image r) of
          Inl e \<Rightarrow> (failed_result res ''IMAGE_DECODE_FAILED'' e, b)
        | Inr img \<Rightarrow>
            (case trt_run api (tensor img) [] b of
               Inl e \<Rightarrow> (failed_result res ''TENSORRT_INFERENCE_FAILED'' e, b)
             | Inr raw \<Rightarrow>
                 (detected_result res img
                    (postprocess sorter (Some raw) (length raw) img (confidenceThreshold r) default_nms) ts, b)))"

definition trt_class :: "trt_api \<Rightarrow> stb \<Rightarrow> (detection list \<Rightarrow> detection list) \<Rightarrow> trt_backend backend_class" where
  "trt_class api lib sorter = \<lparr>be_load = trt_load api, be_warmup = trt_warmup api, be_infer = trt_infer api lib sorter,
     be_healthy = trt_loaded, be_type = (\<lambda>_. kTensorRT)\<rparr>"

lemmas trt_result_defs = named_result_def failed_result_def detected_result_def inference_result_new_def

lemma trt_load_flag: "trt_load api config err b = (ok, err', b') \<Longrightarrow> trt_loaded b' = ok"
  by (auto simp: trt_load_def trt_close_def Let_def split: prod.splits option.splits if_splits)

interpretation trt: inference_backend "trt_class api lib sorter" for api lib sorter
proof
  show "be_load (trt_class api lib sorter) cfg e s = (ok, e', s') \<Longrightarrow> be_healthy (trt_class api lib sorter) s' = ok" for cfg e s ok e' s'
    by (simp add: trt_class_def trt_load_flag)
qed (auto simp: trt_class_def trt_warmup_def trt_infer_def trt_result_defs Let_def split: sum.splits if_splits)

end
