(* ===== verification/Registry_File.thy ===== *)
theory Registry_File
  imports Model_Registry
begin

text \<open>
  What reading the configuration file guarantees: the JSON values the service builds and reads, the well-formedness of a
  registry that was loaded, and that nothing half-built is left behind except after a duplicate entry.
\<close>

section \<open>JSON values\<close>

text \<open>Numbers are kept as the C++ value they hold: an integer or a double.\<close>

datatype json =
  JNull | JBool bool | JInt int | JReal fl | JStr bytes | JArr "json list" | JObj "(bytes \<times> json) list"

text \<open>A JSON library over these values, with a parser that knows one document; used to run the model.\<close>

definition find_member :: "json \<Rightarrow> bytes \<Rightarrow> json option" where
  "find_member j k = (case j of JObj ms \<Rightarrow> map_of ms k | _ \<Rightarrow> None)"

definition sample_lib :: "json \<Rightarrow> json json_lib" where
  "sample_lib doc = \<lparr>j_parse = (\<lambda>_. Inr doc),
     j_is_object = (\<lambda>j. case j of JObj _ \<Rightarrow> True | _ \<Rightarrow> False),
     j_is_string = (\<lambda>j. case j of JStr _ \<Rightarrow> True | _ \<Rightarrow> False),
     j_is_array = (\<lambda>j. case j of JArr _ \<Rightarrow> True | _ \<Rightarrow> False),
     j_contains = (\<lambda>j k. find_member j k \<noteq> None),
     j_item = (\<lambda>j k. case find_member j k of None \<Rightarrow> JNull | Some v \<Rightarrow> v),
     j_elements = (\<lambda>j. case j of JArr es \<Rightarrow> es | _ \<Rightarrow> []),
     j_at = (\<lambda>j k. case find_member j k of None \<Rightarrow> Inl ''key not found'' | Some v \<Rightarrow> Inr v),
     j_get_bool = (\<lambda>j. case j of JBool b \<Rightarrow> Inr b | _ \<Rightarrow> Inl ''type must be boolean''),
     j_get_string = (\<lambda>j. case j of JStr s \<Rightarrow> Inr s | _ \<Rightarrow> Inl ''type must be string''),
     j_int_or = (\<lambda>j k d. case find_member j k of None \<Rightarrow> Inr d | Some (JInt i) \<Rightarrow> Inr i | _ \<Rightarrow> Inl ''type must be number''),
     j_size_or = (\<lambda>j k d. case find_member j k of None \<Rightarrow> Inr d | Some (JInt i) \<Rightarrow> Inr (nat i) | _ \<Rightarrow> Inl ''type must be number'')\<rparr>"

section \<open>Well-formed registries\<close>

definition reg_key :: "registration \<Rightarrow> bytes \<times> backend_type" where
  "reg_key r = (mc_name (rg_config r), mc_backend (rg_config r))"

definition addresses :: "registration list \<Rightarrow> nat list" where
  "addresses rs = List.map_filter rg_backend rs"

definition path_ok :: "bytes \<Rightarrow> bytes \<Rightarrow> bool" where
  "path_ok dir p \<longleftrightarrow> absolutePath p \<or> (\<exists>rel. rel \<noteq> [] \<and> \<not> absolutePath rel \<and> p = dir @ ''/'' @ rel)"

text \<open>
  An entry as the file gives it: complete, of a definite type, with a path that is absolute or below the directory of the
  file, not loaded yet, and with a backend object of its own exactly when that type was compiled in.
\<close>

definition entry_ok :: "backend_type set \<Rightarrow> bytes \<Rightarrow> backend_type list \<Rightarrow> registration \<Rightarrow> bool" where
  "entry_ok build dir objs r \<longleftrightarrow>
     mc_name (rg_config r) \<noteq> [] \<and> mc_version (rg_config r) \<noteq> [] \<and> path_ok dir (mc_path (rg_config r))
     \<and> mc_backend (rg_config r) \<noteq> kAuto \<and> \<not> available r
     \<and> (case rg_backend r of
          None \<Rightarrow> mc_backend (rg_config r) \<notin> build \<and> loadError r = ''backend was disabled at build time''
        | Some a \<Rightarrow> mc_backend (rg_config r) \<in> build \<and> a < length objs \<and> objs ! a = mc_backend (rg_config r))"

definition registry_ok :: "backend_type set \<Rightarrow> bytes \<Rightarrow> backend_type list \<Rightarrow> registry \<Rightarrow> bool" where
  "registry_ok build dir objs reg \<longleftrightarrow>
     distinct (map reg_key (registrations reg)) \<and> (\<forall>r\<in>set (registrations reg). entry_ok build dir objs r)
     \<and> distinct (addresses (registrations reg))"

lemma registry_ok_empty [simp]: "registry_ok build dir objs (reg\<lparr>registrations := []\<rparr>)"
  by (simp add: registry_ok_def addresses_def)

lemma addresses_simps [simp]:
  "addresses [] = []"
  "addresses (rs @ rs') = addresses rs @ addresses rs'"
  "addresses (r # rs) = (case rg_backend r of None \<Rightarrow> [] | Some a \<Rightarrow> [a]) @ addresses rs"
  by (auto simp: addresses_def map_filter_def split: option.splits)

lemma addresses_bound:
  "\<forall>r\<in>set rs. entry_ok build dir objs r \<Longrightarrow> a \<in> set (addresses rs) \<Longrightarrow> a < length objs"
  by (induction rs) (auto simp: entry_ok_def split: option.splits)

lemma entry_ok_grow: "entry_ok build dir objs r \<Longrightarrow> entry_ok build dir (objs @ extra) r"
  by (auto simp: entry_ok_def nth_append split: option.splits)

lemma item_config_ok:
  assumes "item_config js dir item = Inr (Some (config, prio))"
  shows "mc_name config \<noteq> [] \<and> mc_version config \<noteq> [] \<and> path_ok dir (mc_path config) \<and> mc_backend config \<noteq> kAuto"
  using assms unfolding item_config_def Let_def by (elim success_elims) (auto simp: path_ok_def; blast)

lemma parse_not_auto: "t \<noteq> kAuto \<Longrightarrow> t = kTensorFlow \<or> t = kTensorRT"
  by (cases t) auto

text \<open>Registering one entry of the file.\<close>

definition register_entry :: "backend_type set \<Rightarrow> model_config \<Rightarrow> int \<Rightarrow> bytes \<Rightarrow> backend_type list \<times> registry
    \<Rightarrow> bool \<times> bytes \<times> backend_type list \<times> registry" where
  "register_entry build config prio err st =
     (let (objs, reg) = st;
          (be, objs') = createBackend build (mc_backend config) objs;
          (ok, err', reg') = add config be prio err reg
      in if \<not> ok then (False, err', objs', reg')
         else (True, err', objs', if be = None then set_back_error ''backend was disabled at build time'' reg' else reg'))"

lemma register_entry_ok:
  assumes "registry_ok build dir objs reg" "register_entry build config prio err (objs, reg) = (ok, err', objs', reg')"
    "mc_name config \<noteq> []" "mc_version config \<noteq> []" "path_ok dir (mc_path config)" "mc_backend config \<noteq> kAuto"
  shows "registry_ok build dir objs' reg' \<and> (\<not> ok \<longrightarrow> err' = ''duplicate model/backend registration'')"
proof -
  obtain be where be: "createBackend build (mc_backend config) objs = (be, objs')"
    using assms(2) by (auto simp: register_entry_def split: prod.splits if_splits)
  have objs: "be = None \<and> objs' = objs \<and> mc_backend config \<notin> build
      \<or> be = Some (length objs) \<and> objs' = objs @ [mc_backend config] \<and> mc_backend config \<in> build"
    using be parse_not_auto [OF assms(6)] by (auto simp: createBackend_def split: if_splits)
  then have grow: "\<forall>r\<in>set (registrations reg). entry_ok build dir objs' r"
    using assms(1) entry_ok_grow by (auto simp: registry_ok_def)
  show ?thesis
  proof (cases "reg_key \<lparr>rg_config = config, rg_backend = be, priority = prio, available = False, loadError = []\<rparr> \<in> reg_key ` set (registrations reg)")
    case True
    then have "reg' = reg \<and> \<not> ok \<and> err' = ''duplicate model/backend registration''"
      using assms(2) by (auto simp: register_entry_def be add_def reg_key_def split: if_splits)
    then show ?thesis using assms(1) grow by (auto simp: registry_ok_def)
  next
    case False
    let ?r = "\<lparr>rg_config = config, rg_backend = be, priority = prio, available = False,
      loadError = (if be = None then ''backend was disabled at build time'' else [])\<rparr>"
    have new: "\<not> (\<exists>r\<in>set (registrations reg). mc_name (rg_config r) = mc_name config \<and> mc_backend (rg_config r) = mc_backend config)"
      using False by (force simp: reg_key_def)
    have r: "registrations reg' = registrations reg @ [?r]" "ok"
      using assms(2) new by (auto simp: register_entry_def be add_def Let_def set_back_error_def split: if_splits)
    have "entry_ok build dir objs' ?r" using objs assms(3-6) by (auto simp: entry_ok_def)
    moreover have "length objs \<notin> set (addresses (registrations reg))"
      using addresses_bound assms(1) unfolding registry_ok_def by blast
    moreover have "reg_key ?r \<notin> reg_key ` set (registrations reg)" using False by (auto simp: reg_key_def)
    ultimately show ?thesis using assms(1) grow objs r by (auto simp: registry_ok_def)
  qed
qed

lemma load_items_step:
  "load_items js build dir (item # items) err (objs, reg) =
     (case item_config js dir item of
        Inl what \<Rightarrow> (False, ''invalid model entry: '' @ what, objs, reg\<lparr>registrations := []\<rparr>)
      | Inr None \<Rightarrow> load_items js build dir items err (objs, reg)
      | Inr (Some (config, prio)) \<Rightarrow>
          (case register_entry build config prio err (objs, reg) of
             (ok, err', st') \<Rightarrow> if \<not> ok then (False, err', st') else load_items js build dir items err' st'))"
  by (auto simp: register_entry_def Let_def split: sum.splits option.splits prod.splits)

lemma load_items_ok:
  assumes "registry_ok build dir objs reg" "load_items js build dir items err (objs, reg) = (ok, err', objs', reg')"
  shows "registry_ok build dir objs' reg'
    \<and> (\<not> ok \<longrightarrow> registrations reg' = [] \<or> err' = ''duplicate model/backend registration'')"
  using assms
proof (induction items arbitrary: err objs reg)
  case Nil
  then show ?case by simp
next
  case (Cons item items)
  note IH = Cons.IH
  consider (bad) what where "item_config js dir item = Inl what" | (off) "item_config js dir item = Inr None"
    | (on) config prio where "item_config js dir item = Inr (Some (config, prio))"
    by (cases "item_config js dir item") (auto, metis option.exhaust surj_pair)
  then show ?case
  proof cases
    case bad
    then show ?thesis using Cons.prems(2) by auto
  next
    case off
    with Cons.prems(2) have "load_items js build dir items err (objs, reg) = (ok, err', objs', reg')" by simp
    with IH Cons.prems(1) show ?thesis by blast
  next
    case on
    obtain ok1 err1 objs1 reg1 where e: "register_entry build config prio err (objs, reg) = (ok1, err1, objs1, reg1)"
      by (metis prod_cases4)
    from register_entry_ok [OF Cons.prems(1) e] item_config_ok [OF on]
    have ok: "registry_ok build dir objs1 reg1 \<and> (\<not> ok1 \<longrightarrow> err1 = ''duplicate model/backend registration'')" by blast
    show ?thesis
    proof (cases ok1)
      case True
      with Cons.prems(2) have "load_items js build dir items err1 (objs1, reg1) = (ok, err', objs', reg')"
        unfolding load_items_step by (simp add: on e)
      with Cons.IH ok show ?thesis by blast
    next
      case False
      with Cons.prems(2) have "(ok, err', objs', reg') = (False, err1, objs1, reg1)"
        unfolding load_items_step by (simp add: on e)
      with ok False show ?thesis by simp
    qed
  qed
qed

lemma loadFromFile_cases:
  assumes "loadFromFile js file build path err (objs, reg) = (ok, err', objs', reg')"
  shows "if ok then registry_ok build (directoryOf path) objs' reg' \<and> registrations reg' \<noteq> []
           \<and> hasModel (defaultModel reg') reg'
         else (objs', reg') = (objs, reg) \<or> registrations reg' = []
           \<or> err' = ''duplicate model/backend registration'' \<and> registry_ok build (directoryOf path) objs' reg'"
proof (cases "(objs', reg') = (objs, reg) \<and> \<not> ok")
  case True
  then show ?thesis by simp
next
  case False
  then obtain str doc where t: "file path = Some str" "j_parse js str = Inr doc"
    using assms by (auto simp: loadFromFile_def split: option.splits sum.splits)
  let ?dm = "case j_get_string js (j_item js doc ''default_model'') of Inl _ \<Rightarrow> [] | Inr d \<Rightarrow> d"
  obtain ok1 err1 objs1 reg1 where l: "load_items js build (directoryOf path) (j_elements js (j_item js doc ''models'')) err
      (objs, reg\<lparr>defaultModel := ?dm, registrations := []\<rparr>) = (ok1, err1, objs1, reg1)"
    by (metis prod_cases4)
  have r1: "registry_ok build (directoryOf path) objs1 reg1
      \<and> (\<not> ok1 \<longrightarrow> registrations reg1 = [] \<or> err1 = ''duplicate model/backend registration'')"
    using load_items_ok [OF _ l] registry_ok_empty [of build "directoryOf path" objs "reg\<lparr>defaultModel := ?dm\<rparr>"] by simp
  have "(ok, err', objs', reg') =
      (if \<not> ok1 then (False, err1, objs1, reg1)
       else if registrations reg1 = [] then (False, ''model registry contains no enabled entries'', objs1, reg1)
       else if \<not> hasModel (defaultModel reg1) reg1
       then (False, ''default_model does not reference an enabled model'', objs1, reg1\<lparr>registrations := []\<rparr>)
       else (True, err1, objs1, reg1))"
    using assms False t l by (auto simp: loadFromFile_def Let_def split: if_splits)
  then show ?thesis using r1 by (auto split: if_splits)
qed

text \<open>
  Property C25. Reading the model configuration is all or nothing: if it succeeds, the registry has an entry, its default
  model is registered, no model is registered twice for one type of backend, and every entry is complete, with its own
  backend object exactly when that type was compiled in; if it fails, the registry is as before or empty, except after a
  duplicate entry, when the entries read so far stay.
\<close>

theorem loadFromFile_ok:
  assumes "loadFromFile js file build path err (objs, reg) = (ok, err', objs', reg')"
  shows "if ok then registry_ok build (directoryOf path) objs' reg' \<and> registrations reg' \<noteq> []
           \<and> hasModel (defaultModel reg') reg'
         else (objs', reg') = (objs, reg) \<or> registrations reg' = []
           \<or> err' = ''duplicate model/backend registration'' \<and> registry_ok build (directoryOf path) objs' reg'"
  by (rule loadFromFile_cases [OF assms])

definition sample_doc :: json where
  "sample_doc = JObj [(''default_model'', JStr ''yolo''), (''models'', JArr [
     JObj [(''name'', JStr ''yolo''), (''version'', JStr ''8''), (''path'', JStr ''m.engine''), (''backend'', JStr ''tensorrt'')],
     JObj [(''name'', JStr ''yolo''), (''version'', JStr ''8''), (''path'', JStr ''/m''), (''backend'', JStr ''tensorflow''),
           (''priority'', JInt 3)]])]"

lemma loadFromFile_ok_witness:
  "\<exists>objs' reg'. loadFromFile (sample_lib sample_doc) (\<lambda>p. Some p) {kTensorFlow} ''/etc/reg.json'' [] ([], registry_new) = (True, [], objs', reg')
     \<and> registry_ok {kTensorFlow} ''/etc'' objs' reg' \<and> registrations reg' \<noteq> []"
proof -
  have l: "\<exists>objs' reg'. loadFromFile (sample_lib sample_doc) (\<lambda>p. Some p) {kTensorFlow} ''/etc/reg.json'' [] ([], registry_new)
      = (True, [], objs', reg')"
    by (simp add: loadFromFile_def sample_lib_def sample_doc_def registry_new_def item_config_def find_member_def
      parseBackendType_def createBackend_def add_def set_back_error_def hasModel_def absolutePath_def directoryOf_def Let_def)
  then obtain objs' reg' where r: "loadFromFile (sample_lib sample_doc) (\<lambda>p. Some p) {kTensorFlow} ''/etc/reg.json'' [] ([], registry_new)
      = (True, [], objs', reg')" by blast
  have "directoryOf ''/etc/reg.json'' = ''/etc''" by (simp add: directoryOf_def)
  with loadFromFile_ok [OF r] r show ?thesis by auto
qed

end
