(* ===== verification/Registry_Load.thy ===== *)
theory Registry_Load
  imports Inference_Backends Registry_File
begin

text \<open>
  Loading all registered backends (\<open>ModelRegistry::initialize\<close>) over the objects of the program: a heap of mock,
  TensorFlow and TensorRT objects, on which a virtual call dispatches by the class of the object.
\<close>

section \<open>A table of independent backends\<close>

text \<open>Every address holds a backend, and a call on one object does not touch another.\<close>

locale backend_table =
  fixes cls :: "nat \<Rightarrow> 's backend_class"
  assumes each: "inference_backend (cls a)"
    and load_frame: "be_load (cls a) cfg e s = (ok, e', s') \<Longrightarrow> a \<noteq> b \<Longrightarrow> be_healthy (cls b) s' = be_healthy (cls b) s"
    and warmup_frame: "be_warmup (cls a) e s = (ok, e', s') \<Longrightarrow> a \<noteq> b \<Longrightarrow> be_healthy (cls b) s' = be_healthy (cls b) s"
    and infer_frame: "be_infer (cls a) ts r s = (res, s') \<Longrightarrow> a \<noteq> b \<Longrightarrow> be_healthy (cls b) s' = be_healthy (cls b) s"
begin

lemma load_one_ok:
  assumes "load_one cls r s = (r', s')"
  shows "rg_config r' = rg_config r \<and> rg_backend r' = rg_backend r \<and> priority r' = priority r
    \<and> (rg_backend r = None \<longrightarrow> r' = r)
    \<and> (rg_backend r \<noteq> None \<longrightarrow> \<not> available r' \<longrightarrow> loadError r' \<noteq> [])
    \<and> (\<forall>a. rg_backend r = Some a \<longrightarrow> available r' \<longrightarrow> be_healthy (cls a) s')
    \<and> (\<forall>b. rg_backend r \<noteq> Some b \<longrightarrow> be_healthy (cls b) s' = be_healthy (cls b) s)"
proof (cases "rg_backend r")
  case None
  then show ?thesis using assms by (simp add: load_one_def)
next
  case (Some a)
  obtain ok1 e1 s1 where l: "be_load (cls a) (rg_config r) [] s = (ok1, e1, s1)" by (metis prod_cases3)
  obtain ok2 e2 s2 where w: "be_warmup (cls a) e1 s1 = (ok2, e2, s2)" by (metis prod_cases3)
  have r: "(r', s') = (if ok1 \<and> ok2 then (r\<lparr>available := True\<rparr>, s2)
      else (r\<lparr>available := False, loadError := (let e = if ok1 then e2 else e1 in if e = [] then ''backend initialization failed'' else e)\<rparr>,
            if ok1 then s2 else s1))"
    unfolding assms [symmetric] by (cases ok1) (simp_all add: load_one_def Some l w Let_def)
  have h: "be_healthy (cls a) s2" if "ok1"
    using inference_backend.load_then_ready [OF each [of a] l [unfolded that [THEN eqTrueI]] w] .
  have f: "be_healthy (cls b) s' = be_healthy (cls b) s" if "b \<noteq> a" for b
    using r load_frame [OF l, of b] warmup_frame [OF w, of b] that by (auto split: if_splits)
  show ?thesis using r h f by (auto simp: Some Let_def split: if_splits)
qed

lemma load_all_ok:
  assumes "load_all cls rs s = (n, failures, rs', s')" "distinct (addresses rs)"
    "\<forall>r\<in>set rs. rg_backend r = None \<longrightarrow> \<not> available r"
  shows "map rg_config rs' = map rg_config rs \<and> map rg_backend rs' = map rg_backend rs
    \<and> n = length (filter available rs')
    \<and> (\<forall>r\<in>set rs'. (available r \<longrightarrow> is_healthy cls s' r) \<and> (rg_backend r \<noteq> None \<longrightarrow> \<not> available r \<longrightarrow> loadError r \<noteq> []))
    \<and> (\<forall>b. b \<notin> set (addresses rs) \<longrightarrow> be_healthy (cls b) s' = be_healthy (cls b) s)"
  using assms
proof (induction rs arbitrary: n failures rs' s s')
  case Nil
  then show ?case by simp
next
  case (Cons r rs)
  obtain r1 s1 where r1: "load_one cls r s = (r1, s1)" by (cases "load_one cls r s")
  obtain n2 f2 rs2 s2 where l2: "load_all cls rs s1 = (n2, f2, rs2, s2)" by (metis prod_cases4)
  have eqs: "rs' = r1 # rs2" "s' = s2" "n = (if rg_backend r \<noteq> None \<and> available r1 then n2 + 1 else n2)"
    using Cons.prems(1) by (simp_all add: r1 l2 Let_def)
  have d: "distinct (addresses rs)" "\<forall>a. rg_backend r = Some a \<longrightarrow> a \<notin> set (addresses rs)"
    using Cons.prems(2) by (auto split: option.splits)
  have IH: "map rg_config rs2 = map rg_config rs" "map rg_backend rs2 = map rg_backend rs" "n2 = length (filter available rs2)"
    "\<forall>r\<in>set rs2. (available r \<longrightarrow> is_healthy cls s2 r) \<and> (rg_backend r \<noteq> None \<longrightarrow> \<not> available r \<longrightarrow> loadError r \<noteq> [])"
    "\<forall>b. b \<notin> set (addresses rs) \<longrightarrow> be_healthy (cls b) s2 = be_healthy (cls b) s1"
    using Cons.IH [OF l2 d(1)] Cons.prems(3) by auto
  note o = load_one_ok [OF r1]
  have healthy: "available r1 \<Longrightarrow> is_healthy cls s2 r1"
    using o d(2) IH(5) Cons.prems(3) by (cases "rg_backend r") (auto simp: is_healthy_def)
  have none: "rg_backend r = None \<Longrightarrow> \<not> available r1" using o Cons.prems(3) by simp
  have frame: "\<forall>b. b \<notin> set (addresses (r # rs)) \<longrightarrow> be_healthy (cls b) s2 = be_healthy (cls b) s"
    using o IH(5) by (auto split: option.splits)
  show ?case
    unfolding eqs using o IH(1-4) healthy none frame by auto
qed

lemma initialize_table:
  assumes "initialize cls err reg s = (ok, err', reg', s')" "distinct (addresses (registrations reg))"
    "\<forall>r\<in>set (registrations reg). rg_backend r = None \<longrightarrow> \<not> available r"
  shows "ok = (0 < availableBackendCount reg')
    \<and> healthyBackendCount cls s' reg' = availableBackendCount reg'
    \<and> map rg_config (registrations reg') = map rg_config (registrations reg)
    \<and> defaultModel reg' = defaultModel reg
    \<and> (\<forall>r\<in>set (registrations reg'). (available r \<longrightarrow> rg_backend r \<noteq> None)
         \<and> (rg_backend r \<noteq> None \<longrightarrow> \<not> available r \<longrightarrow> loadError r \<noteq> []))"
proof -
  obtain n f rs s2 where l: "load_all cls (registrations reg) s = (n, f, rs, s2)" by (metis prod_cases4)
  from load_all_ok [OF l assms(2,3)] have r: "map rg_config rs = map rg_config (registrations reg)" "n = length (filter available rs)"
    "\<forall>r\<in>set rs. (available r \<longrightarrow> is_healthy cls s2 r) \<and> (rg_backend r \<noteq> None \<longrightarrow> \<not> available r \<longrightarrow> loadError r \<noteq> [])" by auto
  have eqs: "reg' = reg\<lparr>registrations := rs\<rparr>" "s' = s2" "ok = (n \<noteq> 0)"
    using assms(1) by (auto simp: initialize_def l Let_def split: if_splits)
  have "filter (is_healthy cls s2) rs = filter available rs"
    using r(3) by (intro filter_cong) (auto simp: is_healthy_def)
  moreover have "\<forall>r\<in>set rs. available r \<longrightarrow> rg_backend r \<noteq> None"
    using r(3) by (auto simp: is_healthy_def split: option.splits)
  ultimately show ?thesis
    using r by (simp add: eqs availableBackendCount_def healthyBackendCount_def)
qed

end

section \<open>The objects of the program\<close>

datatype backend_obj = MockObj mock_backend | TfObj tf_backend | TrtObj trt_backend

type_synonym heap = "nat \<Rightarrow> backend_obj"

record backend_env =
  env_tf :: tf_api
  env_trt :: trt_api
  env_stb :: stb
  env_sort :: "detection list \<Rightarrow> detection list"

text \<open>A virtual call on the object at an address.\<close>

definition obj_load :: "backend_env \<Rightarrow> model_config \<Rightarrow> bytes \<Rightarrow> backend_obj \<Rightarrow> bool \<times> bytes \<times> backend_obj" where
  "obj_load env cfg e ob = (case ob of
      MockObj b \<Rightarrow> (case mock_load cfg e b of (ok, e, b) \<Rightarrow> (ok, e, MockObj b))
    | TfObj b \<Rightarrow> (case tf_load (env_tf env) cfg e b of (ok, e, b) \<Rightarrow> (ok, e, TfObj b))
    | TrtObj b \<Rightarrow> (case trt_load (env_trt env) cfg e b of (ok, e, b) \<Rightarrow> (ok, e, TrtObj b)))"

definition obj_warmup :: "backend_env \<Rightarrow> bytes \<Rightarrow> backend_obj \<Rightarrow> bool \<times> bytes \<times> backend_obj" where
  "obj_warmup env e ob = (case ob of
      MockObj b \<Rightarrow> (case mock_warmup e b of (ok, e, b) \<Rightarrow> (ok, e, MockObj b))
    | TfObj b \<Rightarrow> (case tf_warmup (env_tf env) e b of (ok, e, b) \<Rightarrow> (ok, e, TfObj b))
    | TrtObj b \<Rightarrow> (case trt_warmup (env_trt env) e b of (ok, e, b) \<Rightarrow> (ok, e, TrtObj b)))"

definition obj_infer :: "backend_env \<Rightarrow> int list \<Rightarrow> inference_request \<Rightarrow> backend_obj \<Rightarrow> inference_result \<times> backend_obj" where
  "obj_infer env ts r ob = (case ob of
      MockObj b \<Rightarrow> (case mock_infer ts r b of (res, b) \<Rightarrow> (res, MockObj b))
    | TfObj b \<Rightarrow> (case tf_infer (env_tf env) (env_stb env) (env_sort env) ts r b of (res, b) \<Rightarrow> (res, TfObj b))
    | TrtObj b \<Rightarrow> (case trt_infer (env_trt env) (env_stb env) (env_sort env) ts r b of (res, b) \<Rightarrow> (res, TrtObj b)))"

definition obj_healthy :: "backend_obj \<Rightarrow> bool" where
  "obj_healthy ob = (case ob of MockObj b \<Rightarrow> mock_healthy b | TfObj b \<Rightarrow> tf_loaded b | TrtObj b \<Rightarrow> trt_loaded b)"

definition obj_type :: "backend_obj \<Rightarrow> backend_type" where
  "obj_type ob = (case ob of MockObj _ \<Rightarrow> kAuto | TfObj _ \<Rightarrow> kTensorFlow | TrtObj _ \<Rightarrow> kTensorRT)"

definition heap_class :: "backend_env \<Rightarrow> nat \<Rightarrow> heap backend_class" where
  "heap_class env a = \<lparr>
     be_load = (\<lambda>cfg e h. case obj_load env cfg e (h a) of (ok, e, ob) \<Rightarrow> (ok, e, h(a := ob))),
     be_warmup = (\<lambda>e h. case obj_warmup env e (h a) of (ok, e, ob) \<Rightarrow> (ok, e, h(a := ob))),
     be_infer = (\<lambda>ts r h. case obj_infer env ts r (h a) of (res, ob) \<Rightarrow> (res, h(a := ob))),
     be_healthy = (\<lambda>h. obj_healthy (h a)),
     be_type = (\<lambda>h. obj_type (h a))\<rparr>"

text \<open>The laws of one class, for its operations alone.\<close>

lemma obj_laws:
  "obj_load env cfg e ob = (ok, e', ob') \<Longrightarrow> obj_healthy ob' = ok"
  "obj_warmup env e ob = (True, e', ob') \<Longrightarrow> obj_healthy ob"
  "obj_warmup env e ob = (ok, e', ob') \<Longrightarrow> obj_healthy ob' = obj_healthy ob"
  "obj_infer env ts r ob = (res, ob') \<Longrightarrow> obj_healthy ob' = obj_healthy ob"
  "obj_infer env ts r ob = (res, ob') \<Longrightarrow>
     rs_requestId res = rq_requestId r \<and> rs_modelName res = rq_modelName r \<and> rs_backend res = obj_type ob"
  "obj_infer env ts r ob = (res, ob') \<Longrightarrow> \<not> obj_healthy ob \<Longrightarrow> \<not> rs_success res \<and> rs_errorCode res = ''BACKEND_NOT_READY''"
  "obj_infer env ts r ob = (res, ob') \<Longrightarrow> rs_success res = (rs_errorCode res = [])"
proof -
  note tf = tf.load_healthy [of "env_tf env", unfolded tf_class_def, simplified]
    tf.warmup_needs_load [of "env_tf env", unfolded tf_class_def, simplified]
    tf.warmup_keeps [of "env_tf env", unfolded tf_class_def, simplified]
    tf.infer_keeps [of "env_tf env", unfolded tf_class_def, simplified]
    tf.infer_names [of "env_tf env", unfolded tf_class_def, simplified]
    tf.infer_not_ready [of "env_tf env", unfolded tf_class_def, simplified]
    tf.infer_code [of "env_tf env", unfolded tf_class_def, simplified]
  note trt = trt.load_healthy [of "env_trt env", unfolded trt_class_def, simplified]
    trt.warmup_needs_load [of "env_trt env", unfolded trt_class_def, simplified]
    trt.warmup_keeps [of "env_trt env", unfolded trt_class_def, simplified]
    trt.infer_keeps [of "env_trt env", unfolded trt_class_def, simplified]
    trt.infer_names [of "env_trt env", unfolded trt_class_def, simplified]
    trt.infer_not_ready [of "env_trt env", unfolded trt_class_def, simplified]
    trt.infer_code [of "env_trt env", unfolded trt_class_def, simplified]
  note mock = mock.load_healthy [unfolded mock_class_def, simplified] mock.warmup_needs_load [unfolded mock_class_def, simplified]
    mock.warmup_keeps [unfolded mock_class_def, simplified] mock.infer_keeps [unfolded mock_class_def, simplified]
    mock.infer_names [unfolded mock_class_def, simplified] mock.infer_not_ready [unfolded mock_class_def, simplified]
    mock.infer_code [unfolded mock_class_def, simplified]
  note defs = obj_load_def obj_warmup_def obj_infer_def obj_healthy_def obj_type_def
  show "obj_load env cfg e ob = (ok, e', ob') \<Longrightarrow> obj_healthy ob' = ok"
    using tf(1) trt(1) mock(1) by (cases ob) (auto simp: defs split: prod.splits)
  show "obj_warmup env e ob = (True, e', ob') \<Longrightarrow> obj_healthy ob"
    using tf(2) trt(2) mock(2) by (cases ob) (auto simp: defs split: prod.splits)
  show "obj_warmup env e ob = (ok, e', ob') \<Longrightarrow> obj_healthy ob' = obj_healthy ob"
    using tf(3) trt(3) mock(3) by (cases ob) (auto simp: defs split: prod.splits)
  show "obj_infer env ts r ob = (res, ob') \<Longrightarrow> obj_healthy ob' = obj_healthy ob"
    using tf(4) trt(4) mock(4) by (cases ob) (auto simp: defs split: prod.splits)
  show "obj_infer env ts r ob = (res, ob') \<Longrightarrow>
     rs_requestId res = rq_requestId r \<and> rs_modelName res = rq_modelName r \<and> rs_backend res = obj_type ob"
    using tf(5) trt(5) mock(5) by (cases ob) (auto simp: defs split: prod.splits)
  show "obj_infer env ts r ob = (res, ob') \<Longrightarrow> \<not> obj_healthy ob \<Longrightarrow> \<not> rs_success res \<and> rs_errorCode res = ''BACKEND_NOT_READY''"
    using tf(6) trt(6) mock(6) by (cases ob) (auto simp: defs split: prod.splits)
  show "obj_infer env ts r ob = (res, ob') \<Longrightarrow> rs_success res = (rs_errorCode res = [])"
    using tf(7) trt(7) mock(7) by (cases ob) (auto simp: defs split: prod.splits)
qed

lemma heap_backend: "inference_backend (heap_class env a)"
proof (unfold_locales, goal_cases)
  case 1
  then show ?case by (auto simp: heap_class_def split: prod.splits dest: obj_laws(1))
next
  case 2
  then show ?case by (auto simp: heap_class_def split: prod.splits dest: obj_laws(2))
next
  case 3
  then show ?case by (auto simp: heap_class_def split: prod.splits dest: obj_laws(3))
next
  case 4
  then show ?case by (auto simp: heap_class_def split: prod.splits dest: obj_laws(4))
next
  case 5
  then show ?case by (auto simp: heap_class_def split: prod.splits dest: obj_laws(5))
next
  case 6
  then show ?case by (auto simp: heap_class_def split: prod.splits dest: obj_laws(6))
next
  case 7
  then show ?case by (auto simp: heap_class_def split: prod.splits dest: obj_laws(7))
qed

interpretation heap: backend_table "heap_class env" for env
  by (rule backend_table.intro) (rule heap_backend, (auto simp: heap_class_def split: prod.splits)+)

text \<open>
  Starting the backends: \<open>initialize\<close> succeeds exactly if some backend became available; afterwards every
  available backend has its object and is healthy, every other one that has an object has the reason why not, and the
  configuration is untouched.
\<close>

theorem initialize_ok:
  assumes "initialize (heap_class env) err reg h = (ok, err', reg', h')" "distinct (addresses (registrations reg))"
    "\<forall>r\<in>set (registrations reg). rg_backend r = None \<longrightarrow> \<not> available r"
  shows "ok = (0 < availableBackendCount reg')
    \<and> healthyBackendCount (heap_class env) h' reg' = availableBackendCount reg'
    \<and> map rg_config (registrations reg') = map rg_config (registrations reg) \<and> defaultModel reg' = defaultModel reg
    \<and> (\<forall>r\<in>set (registrations reg'). (available r \<longrightarrow> rg_backend r \<noteq> None)
         \<and> (rg_backend r \<noteq> None \<longrightarrow> \<not> available r \<longrightarrow> loadError r \<noteq> []))"
  by (rule heap.initialize_table [OF assms])

definition mock_registry :: registry where
  "mock_registry = snd (snd (add (model_config_new\<lparr>mc_name := ''mock'', mc_version := ''mock-1''\<rparr>) (Some 0) 0 [] registry_new))"

lemma initialize_ok_witness:
  "\<forall>env. \<exists>reg' h'. initialize (heap_class env) [] mock_registry (\<lambda>_. MockObj (mock_backend_new 20)) = (True, [], reg', h')
     \<and> healthyBackendCount (heap_class env) h' reg' = 1"
proof
  fix env
  let ?h = "\<lambda>_. MockObj (mock_backend_new 20)"
  obtain ok err' reg' h' where r: "initialize (heap_class env) [] mock_registry ?h = (ok, err', reg', h')" by (metis prod_cases4)
  have v: "ok \<and> err' = [] \<and> availableBackendCount reg' = 1"
    using r by (auto simp: initialize_def load_one_def mock_registry_def add_def registry_new_def heap_class_def obj_load_def
      obj_warmup_def mock_load_def mock_warmup_def model_config_new_def availableBackendCount_def Let_def)
  have "distinct (addresses (registrations mock_registry))"
    "\<forall>r\<in>set (registrations mock_registry). rg_backend r = None \<longrightarrow> \<not> available r"
    by (simp_all add: mock_registry_def add_def registry_new_def Let_def)
  from initialize_ok [OF r this] r v
  show "\<exists>reg' h'. initialize (heap_class env) [] mock_registry ?h = (True, [], reg', h')
     \<and> healthyBackendCount (heap_class env) h' reg' = 1" by auto
qed

end
