(* ===== verification/Inference_Metrics.thy ===== *)
theory Inference_Metrics
  imports Inference_Types
begin

text \<open>
  The metrics (\<open>src/inference/InferenceMetrics.h\<close>, \<open>InferenceMetrics.cc\<close>): counters and histograms by label, and their text in
  the Prometheus format. A \<open>std::map\<close> is an association list sorted by its keys, in which \<open>operator[]\<close> inserts a default
  value. Counters are \<open>unsigned long long\<close> and wrap. Every operation holds the mutex, so it is one step.
\<close>

section \<open>Sorted maps\<close>

fun bytes_less :: "bytes \<Rightarrow> bytes \<Rightarrow> bool" where
  "bytes_less [] ys = (ys \<noteq> [])"
| "bytes_less (x # xs) [] = False"
| "bytes_less (x # xs) (y # ys) = ((of_char x :: nat) < of_char y \<or> x = y \<and> bytes_less xs ys)"

fun at_key :: "bytes \<Rightarrow> 'a \<Rightarrow> ('a \<Rightarrow> 'a) \<Rightarrow> (bytes \<times> 'a) list \<Rightarrow> (bytes \<times> 'a) list" where
  "at_key k d f [] = [(k, f d)]"
| "at_key k d f ((k', v) # m) =
     (if k = k' then (k, f v) # m
      else if bytes_less k k' then (k, f d) # (k', v) # m
      else (k', v) # at_key k d f m)"

definition map_sorted :: "(bytes \<times> 'a) list \<Rightarrow> bool" where
  "map_sorted m \<longleftrightarrow> sorted_wrt bytes_less (map fst m)"

lemma bytes_less_irrefl [simp]: "\<not> bytes_less xs xs"
  by (induction xs) auto

lemma bytes_less_trans: "bytes_less xs ys \<Longrightarrow> bytes_less ys zs \<Longrightarrow> bytes_less xs zs"
proof (induction xs ys arbitrary: zs rule: bytes_less.induct)
  case (1 ys)
  then show ?case by (cases zs) (auto simp: neq_Nil_conv)
next
  case (3 x xs y ys)
  then show ?case by (cases zs) auto
qed simp

lemma bytes_less_total: "xs \<noteq> ys \<Longrightarrow> bytes_less xs ys \<or> bytes_less ys xs"
proof (induction xs ys rule: bytes_less.induct)
  case (3 x xs y ys)
  show ?case
  proof (cases "x = y")
    case True
    with 3 show ?thesis by auto
  next
    case False
    then have "(of_char x :: nat) \<noteq> of_char y" by simp
    then have "(of_char x :: nat) < of_char y \<or> of_char y < (of_char x :: nat)" by linarith
    then show ?thesis by auto
  qed
qed auto

lemma set_at_key: "fst ` set (at_key k d f m) = insert k (fst ` set m)"
proof (induction m)
  case (Cons p m)
  then show ?case by (cases p) (simp add: insert_commute)
qed simp

lemma map_sorted_at_key:
  assumes "map_sorted m"
  shows "map_sorted (at_key k d f m)"
  using assms
proof (induction m)
  case Nil
  then show ?case by (simp add: map_sorted_def)
next
  case (Cons p m)
  obtain k' v where p: "p = (k', v)" by (cases p)
  have m: "map_sorted m" "\<forall>j\<in>fst ` set m. bytes_less k' j" using Cons.prems by (auto simp: map_sorted_def p)
  consider "k = k'" | "k \<noteq> k'" "bytes_less k k'" | "k \<noteq> k'" "bytes_less k' k" "\<not> bytes_less k k'"
    using bytes_less_total [of k k'] by blast
  then show ?case
  proof cases
    case 1
    then show ?thesis using Cons.prems by (simp add: map_sorted_def p)
  next
    case 2
    then show ?thesis using Cons.prems bytes_less_trans by (fastforce simp: map_sorted_def p)
  next
    case 3
    have "\<forall>j\<in>fst ` set (at_key k d f m). bytes_less k' j" using m(2) 3 by (simp add: set_at_key)
    then show ?thesis using Cons.IH [OF m(1)] 3 by (simp add: map_sorted_def p)
  qed
qed

lemma map_of_at_key:
  assumes "map_sorted m"
  shows "map_of (at_key k d f m) j = (if j = k then Some (f (case map_of m k of None \<Rightarrow> d | Some v \<Rightarrow> v)) else map_of m j)"
  using assms
proof (induction m)
  case Nil
  then show ?case by simp
next
  case (Cons p m)
  obtain k' v where p: "p = (k', v)" by (cases p)
  have m: "map_sorted m" "\<forall>j\<in>fst ` set m. bytes_less k' j" using Cons.prems by (auto simp: map_sorted_def p)
  show ?case
  proof (cases "k \<noteq> k' \<and> bytes_less k k'")
    case True
    then have "k \<notin> fst ` set m" using m(2) bytes_less_trans by fastforce
    then have "map_of m k = None" by (simp add: map_of_eq_None_iff)
    with True show ?thesis by (simp add: p)
  next
    case False
    then show ?thesis using Cons.IH [OF m(1)] by (auto simp: p)
  qed
qed

section \<open>State\<close>

record histogram =
  buckets :: "nat list"
  hcount :: nat
  hsum :: fl

record metrics =
  requests :: "(bytes \<times> nat) list"
  rejections :: "(bytes \<times> nat) list"
  totalDuration :: "(bytes \<times> histogram) list"
  queueDuration :: "(bytes \<times> histogram) list"
  backendDuration :: "(bytes \<times> histogram) list"
  queueDepth :: nat
  queueCapacity :: nat

definition bucket_bounds :: "fl list" where
  "bucket_bounds = map (fl_round binary64)
     [1 / 1000, 5 / 1000, 1 / 100, 25 / 1000, 5 / 100, 1 / 10, 25 / 100, 1 / 2, 1, 5 / 2, 5, 10]"

definition metrics_new :: metrics where
  "metrics_new = \<lparr>requests = [], rejections = [], totalDuration = [], queueDuration = [], backendDuration = [],
     queueDepth = 0, queueCapacity = 0\<rparr>"

definition histogram_new :: histogram where
  "histogram_new = \<lparr>buckets = [], hcount = 0, hsum = Fin 0\<rparr>"

section \<open>Labels\<close>

fun escapeLabel :: "bytes \<Rightarrow> bytes" where
  "escapeLabel [] = []"
| "escapeLabel (ch # s) =
     (if ch = CHR 0x5C \<or> ch = QUOTE then [CHR 0x5C] else []) @ (if ch = LF then [CHR 0x5C, CHR ''n''] else [ch])
       @ escapeLabel s"

definition labels :: "bytes \<Rightarrow> bytes \<Rightarrow> bytes \<Rightarrow> bytes" where
  "labels model be status =
     ''model='' @ [QUOTE] @ escapeLabel model @ [QUOTE] @ '',backend='' @ [QUOTE] @ escapeLabel be @ [QUOTE]
       @ '',status='' @ [QUOTE] @ escapeLabel status @ [QUOTE]"

section \<open>Recording\<close>

definition inc64 :: "nat \<Rightarrow> nat" where
  "inc64 n = (n + 1) mod 2 ^ 64"

definition bump :: "bytes \<Rightarrow> (bytes \<times> nat) list \<Rightarrow> (bytes \<times> nat) list" where
  "bump k m = at_key k 0 inc64 m"

definition observe_one :: "fl \<Rightarrow> histogram \<Rightarrow> histogram" where
  "observe_one seconds h =
     (let bs = (if buckets h = [] then replicate (length bucket_bounds) 0 else buckets h)
      in \<lparr>buckets = map2 (\<lambda>b n. if fl_leq seconds b then inc64 n else n) bucket_bounds bs,
          hcount = inc64 (hcount h), hsum = fl_add binary64 (hsum h) seconds\<rparr>)"

definition observe :: "bytes \<Rightarrow> fl \<Rightarrow> (bytes \<times> histogram) list \<Rightarrow> (bytes \<times> histogram) list" where
  "observe k seconds hs = at_key k histogram_new (observe_one seconds) hs"

definition recordValidationFailure :: "bytes \<Rightarrow> metrics \<Rightarrow> metrics" where
  "recordValidationFailure reason m =
     m\<lparr>requests := bump (labels ''unknown'' ''unknown'' ''invalid_request'') (requests m),
       rejections := bump reason (rejections m)\<rparr>"

definition recordSubmissionFailure :: "bytes \<Rightarrow> backend_type \<Rightarrow> bytes \<Rightarrow> metrics \<Rightarrow> metrics" where
  "recordSubmissionFailure model be reason m =
     m\<lparr>requests := bump (labels model (backendTypeName be) ''rejected'') (requests m),
       rejections := bump reason (rejections m)\<rparr>"

definition seconds_of :: "fl \<Rightarrow> fl" where
  "seconds_of ms = fl_div binary64 ms (Fin 1000)"

definition duration_label :: "inference_result \<Rightarrow> bytes" where
  "duration_label r = labels (rs_modelName r) (backendTypeName (rs_backend r)) ''all''"

definition recordCompletion :: "inference_result \<Rightarrow> metrics \<Rightarrow> metrics" where
  "recordCompletion r m =
     m\<lparr>requests := bump (labels (rs_modelName r) (backendTypeName (rs_backend r))
                          (if rs_success r then ''success'' else ''error'')) (requests m),
       totalDuration := observe (duration_label r) (seconds_of (totalMs (rs_latency r))) (totalDuration m),
       queueDuration := observe (duration_label r) (seconds_of (queueMs (rs_latency r))) (queueDuration m),
       backendDuration := observe (duration_label r) (seconds_of (inferenceMs (rs_latency r))) (backendDuration m)\<rparr>"

definition setQueueDepth :: "nat \<Rightarrow> metrics \<Rightarrow> metrics" where
  "setQueueDepth n m = m\<lparr>queueDepth := n\<rparr>"

definition setQueueCapacity :: "nat \<Rightarrow> metrics \<Rightarrow> metrics" where
  "setQueueCapacity n m = m\<lparr>queueCapacity := n\<rparr>"

section \<open>The text\<close>

definition render_counters :: "bytes \<Rightarrow> (bytes \<times> nat) list \<Rightarrow> bytes" where
  "render_counters prefix m = concat (map (\<lambda>(k, n). prefix @ k @ ''} '' @ show_nat n @ [LF]) m)"

definition render_rejections :: "(bytes \<times> nat) list \<Rightarrow> bytes" where
  "render_rejections m =
     concat (map (\<lambda>(k, n). ''mywebserver_inference_rejections_total{reason='' @ [QUOTE] @ escapeLabel k @ [QUOTE] @ ''} ''
       @ show_nat n @ [LF]) m)"

definition render_one :: "bytes \<Rightarrow> bytes \<times> histogram \<Rightarrow> bytes" where
  "render_one name item =
     (let (k, h) = item in
      concat (map (\<lambda>i. name @ ''_bucket{'' @ k @ '',le='' @ [QUOTE] @ fmt_g 10 (bucket_bounds ! i) @ [QUOTE] @ ''} ''
                 @ show_nat (buckets h ! i) @ [LF]) [0..<length bucket_bounds])
      @ name @ ''_bucket{'' @ k @ '',le='' @ [QUOTE] @ ''+Inf'' @ [QUOTE] @ ''} '' @ show_nat (hcount h) @ [LF]
      @ name @ ''_sum{'' @ k @ ''} '' @ fmt_g 10 (hsum h) @ [LF]
      @ name @ ''_count{'' @ k @ ''} '' @ show_nat (hcount h) @ [LF])"

definition renderHistogram :: "bytes \<Rightarrow> bytes \<Rightarrow> (bytes \<times> histogram) list \<Rightarrow> bytes" where
  "renderHistogram name help vals =
     ''# HELP '' @ name @ '' '' @ help @ [LF] @ ''# TYPE '' @ name @ '' histogram'' @ [LF] @ concat (map (render_one name) vals)"

definition renderPrometheus :: "metrics \<Rightarrow> bytes" where
  "renderPrometheus m =
     ''# HELP mywebserver_inference_requests_total Inference requests by final outcome.'' @ [LF]
     @ ''# TYPE mywebserver_inference_requests_total counter'' @ [LF]
     @ render_counters ''mywebserver_inference_requests_total{'' (requests m)
     @ ''# HELP mywebserver_inference_rejections_total Requests rejected before inference.'' @ [LF]
     @ ''# TYPE mywebserver_inference_rejections_total counter'' @ [LF]
     @ render_rejections (rejections m)
     @ ''# HELP mywebserver_inference_queue_depth Current queued inference tasks.'' @ [LF]
     @ ''# TYPE mywebserver_inference_queue_depth gauge'' @ [LF]
     @ ''mywebserver_inference_queue_depth '' @ show_nat (queueDepth m) @ [LF]
     @ ''# HELP mywebserver_inference_queue_capacity Maximum queued inference tasks.'' @ [LF]
     @ ''# TYPE mywebserver_inference_queue_capacity gauge'' @ [LF]
     @ ''mywebserver_inference_queue_capacity '' @ show_nat (queueCapacity m) @ [LF]
     @ renderHistogram ''mywebserver_inference_request_duration_seconds''
         ''End-to-end inference request duration in seconds.'' (totalDuration m)
     @ renderHistogram ''mywebserver_inference_queue_duration_seconds''
         ''Time spent waiting in the scheduler queue in seconds.'' (queueDuration m)
     @ renderHistogram ''mywebserver_inference_backend_duration_seconds''
         ''Model execution duration in seconds.'' (backendDuration m)"

section \<open>Reading labels back\<close>

text \<open>How a Prometheus reader takes one quoted value: up to the first quote that is not escaped.\<close>

fun read_value :: "bytes \<Rightarrow> (bytes \<times> bytes) option" where
  "read_value [] = None"
| "read_value (c # s) =
     (if c = QUOTE then Some ([], s)
      else if c = CHR 0x5C then
        (case s of [] \<Rightarrow> None | d # s' \<Rightarrow>
           map_option (\<lambda>(v, r). ((if d = CHR ''n'' then LF else d) # v, r)) (read_value s'))
      else map_option (\<lambda>(v, r). (c # v, r)) (read_value s))"

definition read_label :: "bytes \<Rightarrow> bytes \<Rightarrow> (bytes \<times> bytes) option" where
  "read_label key s =
     (let pre = key @ ''='' @ [QUOTE] in
      if take (length pre) s = pre then read_value (drop (length pre) s) else None)"

definition read_labels :: "bytes \<Rightarrow> (bytes \<times> bytes \<times> bytes \<times> bytes) option" where
  "read_labels s =
     (case read_label ''model'' s of None \<Rightarrow> None | Some (m, s) \<Rightarrow>
      case read_label '',backend'' s of None \<Rightarrow> None | Some (b, s) \<Rightarrow>
      case read_label '',status'' s of None \<Rightarrow> None | Some (st, s) \<Rightarrow> Some (m, b, st, s))"

lemma read_escaped: "read_value (escapeLabel v @ QUOTE # r) = Some (v, r)"
  by (induction v) auto

lemma read_label_escaped: "read_label key (key @ ''='' @ [QUOTE] @ escapeLabel v @ [QUOTE] @ r) = Some (v, r)"
  by (simp add: read_label_def read_escaped)

text \<open>
  Property C36. Labels keep requests apart: from the label text of any model name (which a client chooses), backend and
  status, whatever follows it, a reader of the format gets exactly these three back; quotes, backslashes and newlines in
  a model name cannot forge another label.
\<close>

theorem labels_roundtrip:
  "read_labels (labels model be status @ rest) = Some (model, be, status, rest)"
  using read_label_escaped [of "''model''"] read_label_escaped [of "'',backend''"] read_label_escaped [of "'',status''"]
  by (simp add: read_labels_def labels_def)

section \<open>The counts\<close>

datatype metric_event =
    ValidationFailed bytes
  | SubmissionFailed bytes backend_type bytes
  | Completed inference_result

fun record_event :: "metric_event \<Rightarrow> metrics \<Rightarrow> metrics" where
  "record_event (ValidationFailed reason) = recordValidationFailure reason"
| "record_event (SubmissionFailed model be reason) = recordSubmissionFailure model be reason"
| "record_event (Completed r) = recordCompletion r"

fun request_label :: "metric_event \<Rightarrow> bytes" where
  "request_label (ValidationFailed reason) = labels ''unknown'' ''unknown'' ''invalid_request''"
| "request_label (SubmissionFailed model be reason) = labels model (backendTypeName be) ''rejected''"
| "request_label (Completed r) =
     labels (rs_modelName r) (backendTypeName (rs_backend r)) (if rs_success r then ''success'' else ''error'')"

fun rejection_reason :: "metric_event \<Rightarrow> bytes option" where
  "rejection_reason (ValidationFailed reason) = Some reason"
| "rejection_reason (SubmissionFailed model be reason) = Some reason"
| "rejection_reason (Completed r) = None"

text \<open>The duration of a completion with a given label.\<close>

definition duration_in :: "(latency_info \<Rightarrow> fl) \<Rightarrow> bytes \<Rightarrow> metric_event \<Rightarrow> fl option" where
  "duration_in f l e = (case e of
      Completed r \<Rightarrow> if duration_label r = l then Some (seconds_of (f (rs_latency r))) else None
    | _ \<Rightarrow> None)"

definition count_of :: "(bytes \<times> nat) list \<Rightarrow> bytes \<Rightarrow> nat" where
  "count_of m k = (case map_of m k of None \<Rightarrow> 0 | Some n \<Rightarrow> n)"

text \<open>What a histogram should hold for a list of durations.\<close>

definition counts_durations :: "histogram option \<Rightarrow> fl list \<Rightarrow> bool" where
  "counts_durations h ds = (case h of
      None \<Rightarrow> ds = []
    | Some h \<Rightarrow> ds \<noteq> [] \<and> hcount h = length ds
        \<and> buckets h = map (\<lambda>b. length (filter (\<lambda>d. fl_leq d b) ds)) bucket_bounds)"

lemma count_bump:
  "map_sorted m \<Longrightarrow> count_of (bump k m) j = (if j = k then inc64 (count_of m k) else count_of m j)"
  by (simp add: bump_def count_of_def map_of_at_key)

lemma inc64_small: "n + 1 < 2 ^ 64 \<Longrightarrow> inc64 n = n + 1"
  by (simp add: inc64_def)

lemma observe_counts:
  assumes "map_sorted hs" "\<forall>l. counts_durations (map_of hs l) (List.map_filter (d l) evs)" "length evs + 1 < 2 ^ 64"
    "\<forall>l. d l e = (if l = k then Some sec else None)"
  shows "counts_durations (map_of (observe k sec hs) l) (List.map_filter (d l) (evs @ [e]))"
proof -
  let ?ds = "List.map_filter (d k) evs"
  have len: "length (filter p ?ds) \<le> length evs" for p
    by (rule le_trans [OF length_filter_le]) (simp add: map_filter_def)
  have "length ?ds \<le> length evs" by (simp add: map_filter_def)
  have ext: "List.map_filter (d l) (evs @ [e]) = List.map_filter (d l) evs @ (if l = k then [sec] else [])" for l
    using assms(4) by (simp add: map_filter_def)
  have inc: "inc64 (length (filter p ?ds)) = length (filter p ?ds) + 1" for p
    using len [of p] assms(3) by (intro inc64_small) simp
  have inc': "inc64 (length ?ds) = length ?ds + 1"
    using \<open>length ?ds \<le> length evs\<close> assms(3) by (intro inc64_small) simp
  show ?thesis
  proof (cases "l = k")
    case False
    then show ?thesis using assms(1,2) by (simp add: observe_def map_of_at_key ext)
  next
    case True
    have ne: "bucket_bounds \<noteq> []" by (simp add: bucket_bounds_def)
    have "counts_durations (Some (observe_one sec (case map_of hs k of None \<Rightarrow> histogram_new | Some v \<Rightarrow> v))) (?ds @ [sec])"
    proof (cases "map_of hs k")
      case None
      then have "?ds = []" using assms(2) by (auto simp: counts_durations_def dest: spec [of _ k])
      then show ?thesis
        using None inc' by (simp add: counts_durations_def observe_one_def histogram_new_def Let_def map2_map_map
          zip_replicate2 o_def inc64_def)
    next
      case (Some h)
      then have h: "hcount h = length ?ds" "buckets h = map (\<lambda>b. length (filter (\<lambda>d. fl_leq d b) ?ds)) bucket_bounds"
        using assms(2) by (auto simp: counts_durations_def dest: spec [of _ k])
      have "map2 (\<lambda>b n. if fl_leq sec b then inc64 n else n) bucket_bounds (buckets h)
          = map (\<lambda>b. length (filter (\<lambda>d. fl_leq d b) (?ds @ [sec]))) bucket_bounds"
        unfolding h(2) by (simp add: zip_map2 zip_same_conv_map o_def inc)
      then show ?thesis
        using Some h(1) inc' ne by (simp add: counts_durations_def observe_one_def h(2) Let_def)
    qed
    then show ?thesis using True assms(1) by (simp add: observe_def map_of_at_key ext)
  qed
qed

definition metrics_count :: "metric_event list \<Rightarrow> metrics \<Rightarrow> bool" where
  "metrics_count evs m \<longleftrightarrow>
     (\<forall>l. count_of (requests m) l = length (filter (\<lambda>e. request_label e = l) evs))
     \<and> (\<forall>r. count_of (rejections m) r = length (filter (\<lambda>e. rejection_reason e = Some r) evs))
     \<and> (\<forall>l. counts_durations (map_of (totalDuration m) l) (List.map_filter (duration_in totalMs l) evs))
     \<and> (\<forall>l. counts_durations (map_of (queueDuration m) l) (List.map_filter (duration_in queueMs l) evs))
     \<and> (\<forall>l. counts_durations (map_of (backendDuration m) l) (List.map_filter (duration_in inferenceMs l) evs))"

definition metrics_sorted :: "metrics \<Rightarrow> bool" where
  "metrics_sorted m \<longleftrightarrow> map_sorted (requests m) \<and> map_sorted (rejections m) \<and> map_sorted (totalDuration m)
     \<and> map_sorted (queueDuration m) \<and> map_sorted (backendDuration m)"

lemma sorted_record: "metrics_sorted m \<Longrightarrow> metrics_sorted (record_event e m)"
  by (cases e) (auto simp: metrics_sorted_def recordValidationFailure_def recordSubmissionFailure_def recordCompletion_def
    bump_def observe_def map_sorted_at_key)

lemma count_record:
  assumes "metrics_sorted m" "metrics_count evs m" "length evs + 1 < 2 ^ 64"
  shows "metrics_count (evs @ [e]) (record_event e m)"
proof -
  have inc: "inc64 (length (filter p evs)) = length (filter p evs) + 1" for p
    by (intro inc64_small le_less_trans [OF _ assms(3)] add_le_mono1 length_filter_le)
  note s = assms(1) [unfolded metrics_sorted_def] and c = assms(2) [unfolded metrics_count_def]
  have req: "count_of (bump (request_label e) (requests m)) l = length (filter (\<lambda>e. request_label e = l) (evs @ [e]))" for l
    using s c inc by (simp add: count_bump)
  have rej: "count_of (bump r (rejections m)) q = length (filter (\<lambda>e. rejection_reason e = Some q) (evs @ [e]))"
    if "rejection_reason e = Some r" for r q
    using s c inc that by (simp add: count_bump)
  show ?thesis
  proof (cases e)
    case (Completed r)
    have d: "\<forall>l. duration_in f l e = (if l = duration_label r then Some (seconds_of (f (rs_latency r))) else None)" for f
      by (auto simp: duration_in_def Completed)
    have "\<forall>l. counts_durations (map_of (observe (duration_label r) (seconds_of (f (rs_latency r))) hs) l)
        (List.map_filter (duration_in f l) (evs @ [e]))"
      if "map_sorted hs" "\<forall>l. counts_durations (map_of hs l) (List.map_filter (duration_in f l) evs)" for f hs
      using observe_counts [OF that assms(3) d] by blast
    then show ?thesis
      using req s c by (simp add: metrics_count_def recordCompletion_def Completed)
  next
    case (ValidationFailed reason)
    have skip: "List.map_filter (duration_in f l) (evs @ [e]) = List.map_filter (duration_in f l) evs" for f l
      by (simp add: map_filter_def duration_in_def ValidationFailed)
    show ?thesis
      using req rej c skip by (simp add: metrics_count_def recordValidationFailure_def ValidationFailed)
  next
    case (SubmissionFailed model be reason)
    have skip: "List.map_filter (duration_in f l) (evs @ [e]) = List.map_filter (duration_in f l) evs" for f l
      by (simp add: map_filter_def duration_in_def SubmissionFailed)
    show ?thesis
      using req rej c skip by (simp add: metrics_count_def recordSubmissionFailure_def SubmissionFailed)
  qed
qed

text \<open>
  Property C23. The metrics are exact: after any sequence of validation failures, rejected submissions and completions (fewer
  than \<open>2^64 - 1\<close>), every counter is the number of events with its label or reason, and each of the three histograms has, for
  every label, the number of completions with that label, and in the bucket of each bound the number of those that
  took at most that long.
\<close>

theorem metrics_exact:
  assumes "length evs < 2 ^ 64 - 1"
  shows "metrics_count evs (fold record_event evs metrics_new)"
proof -
  have "metrics_sorted (fold record_event evs metrics_new) \<and> metrics_count evs (fold record_event evs metrics_new)"
    using assms
  proof (induction evs rule: rev_induct)
    case Nil
    then show ?case
      by (simp add: metrics_sorted_def metrics_count_def metrics_new_def map_sorted_def count_of_def counts_durations_def map_filter_def)
  next
    case (snoc e evs)
    then have "metrics_sorted (fold record_event evs metrics_new)" "metrics_count evs (fold record_event evs metrics_new)"
      by simp_all
    with count_record [of _ evs e] sorted_record snoc.prems show ?case by simp
  qed
  then show ?thesis ..
qed

lemma metrics_exact_witness:
  "count_of (rejections (fold record_event [ValidationFailed ''INVALID_IMAGE'', SubmissionFailed ''m'' kAuto ''INVALID_IMAGE'']
     metrics_new)) ''INVALID_IMAGE'' = 2"
  using metrics_exact [of "[ValidationFailed ''INVALID_IMAGE'', SubmissionFailed ''m'' kAuto ''INVALID_IMAGE'']"]
  by (simp add: metrics_count_def)

end
