(* ===== verification/Inference_Scheduler.thy ===== *)
theory Inference_Scheduler
  imports Registry_Load Inference_Metrics
begin

text \<open>
  The inference scheduler (\<open>src/inference/InferenceScheduler.h\<close>, \<open>InferenceScheduler.cc\<close>): a bounded queue of tasks and a
  fixed set of worker threads.

  Every critical section of the source is one function. A worker thread is in one of four places of
  \<open>workerLoop\<close>: about to test the predicate of the condition variable, asleep in it, running a task outside the
  lock, or returned. Interleavings are the step relation at the end; which sleeper \<open>notify_one\<close> wakes, and
  spurious wake-ups, are free. The clock readings are arguments. The lists \<open>accepted\<close>, \<open>taken\<close> and \<open>finished\<close> only
  record history.
\<close>

section \<open>State\<close>

datatype submit_result = kAccepted | kQueueFull | kStopped | kBackendUnavailable | kModelUnavailable

record 'c itask =
  tk_request :: inference_request
  tk_completion :: "'c option"
  tk_backend :: nat
  enqueuedAt :: int

datatype 'c worker = Checking | Sleeping | Busy "'c itask" | Exited

record ('c, 's) scheduler =
  sc_registry :: "registry option"
  sc_metrics :: "metrics option"
  workerCount :: nat
  sc_capacity :: nat
  tasks :: "'c itask list"
  workers :: "'c worker list"
  running_flag :: bool
  stopping :: bool
  notifying :: bool
  objects_state :: 's
  completions :: "('c \<times> inference_result) list"
  accepted :: "'c itask list"
  taken :: "'c itask list"
  finished :: "('c itask \<times> inference_result) list"

section \<open>Construction, start and stop\<close>

definition scheduler_base :: "registry option \<Rightarrow> metrics option \<Rightarrow> nat \<Rightarrow> nat \<Rightarrow> 's \<Rightarrow> ('c, 's) scheduler" where
  "scheduler_base reg m n cap s = \<lparr>sc_registry = reg, sc_metrics = m, workerCount = n, sc_capacity = cap, tasks = [],
     workers = [], running_flag = False, stopping = False, notifying = False, objects_state = s, completions = [],
     accepted = [], taken = [], finished = []\<rparr>"

text \<open>The constructor with one backend, and the one with a registry.\<close>

definition scheduler_with_backend :: "nat option \<Rightarrow> nat \<Rightarrow> nat \<Rightarrow> model_config \<Rightarrow> 's \<Rightarrow> ('c, 's) scheduler" where
  "scheduler_with_backend be n cap config s =
     scheduler_base (Some (snd (snd (add config be 0 [] registry_new)))) None n cap s"

definition scheduler_new :: "registry option \<Rightarrow> nat \<Rightarrow> nat \<Rightarrow> metrics option \<Rightarrow> 's \<Rightarrow> ('c, 's) scheduler" where
  "scheduler_new reg n cap m s = scheduler_base reg (map_option (setQueueCapacity cap) m) n cap s"

definition start :: "(nat \<Rightarrow> 's backend_class) \<Rightarrow> bytes \<Rightarrow> ('c, 's) scheduler \<Rightarrow> bool \<times> bytes \<times> ('c, 's) scheduler" where
  "start cls err sc =
     (if running_flag sc then (True, err, sc)
      else case sc_registry sc of
          None \<Rightarrow> (False, ''scheduler requires a backend, workers, and queue capacity'', sc)
        | Some reg \<Rightarrow>
            if workerCount sc = 0 \<or> sc_capacity sc = 0
            then (False, ''scheduler requires a backend, workers, and queue capacity'', sc)
            else
              let (ok, err, reg, s) = initialize cls err reg (objects_state sc);
                  sc = sc\<lparr>sc_registry := Some reg, objects_state := s\<rparr>
              in if \<not> ok then (False, err, sc)
                 else (True, err, sc\<lparr>stopping := False, running_flag := True,
                         workers := workers sc @ replicate (workerCount sc) Checking\<rparr>))"

text \<open>\<open>stop\<close>: the first critical section, \<open>notify_all\<close>, and what follows the joins.\<close>

definition stop_begin :: "('c, 's) scheduler \<Rightarrow> ('c, 's) scheduler" where
  "stop_begin sc = (if running_flag sc then sc\<lparr>stopping := True, notifying := True\<rparr> else sc)"

definition wake :: "'c worker \<Rightarrow> 'c worker" where
  "wake w = (case w of Sleeping \<Rightarrow> Checking | _ \<Rightarrow> w)"

definition stop_notify :: "('c, 's) scheduler \<Rightarrow> ('c, 's) scheduler" where
  "stop_notify sc = sc\<lparr>workers := map wake (workers sc), notifying := False\<rparr>"

definition stop_end :: "('c, 's) scheduler \<Rightarrow> ('c, 's) scheduler" where
  "stop_end sc = sc\<lparr>workers := [], running_flag := False, stopping := False\<rparr>"

section \<open>Submission\<close>

definition set_depth :: "('c, 's) scheduler \<Rightarrow> ('c, 's) scheduler" where
  "set_depth sc = sc\<lparr>sc_metrics := map_option (setQueueDepth (length (tasks sc))) (sc_metrics sc)\<rparr>"

text \<open>\<open>w\<close> is the worker that \<open>notify_one\<close> wakes, if it is asleep.\<close>

definition notify_one :: "nat \<Rightarrow> ('c, 's) scheduler \<Rightarrow> ('c, 's) scheduler" where
  "notify_one w sc = sc\<lparr>workers := (workers sc)[w := wake (workers sc ! w)]\<rparr>"

definition submit :: "int \<Rightarrow> nat \<Rightarrow> inference_request \<Rightarrow> 'c option \<Rightarrow> ('c, 's) scheduler \<Rightarrow> submit_result \<times> ('c, 's) scheduler" where
  "submit now w r completion sc =
     (if \<not> running_flag sc \<or> stopping sc then (kStopped, sc)
      else case sc_registry sc of
          None \<Rightarrow> (kStopped, sc)
        | Some reg \<Rightarrow>
            if \<not> hasModel (rq_modelName r) reg then (kModelUnavailable, sc)
            else
              case resolve (rq_modelName r) (rq_backend r) reg of
                (_, None) \<Rightarrow> (kBackendUnavailable, sc)
              | (nm, Some a) \<Rightarrow>
                  if sc_capacity sc \<le> length (tasks sc) then (kQueueFull, sc)
                  else
                    let t = \<lparr>tk_request = r\<lparr>rq_modelName := nm\<rparr>, tk_completion = completion, tk_backend = a, enqueuedAt = now\<rparr>;
                        sc = sc\<lparr>tasks := tasks sc @ [t], accepted := accepted sc @ [t]\<rparr>
                    in (kAccepted, notify_one w (set_depth sc)))"

definition pendingTasks :: "('c, 's) scheduler \<Rightarrow> nat" where
  "pendingTasks sc = length (tasks sc)"

definition running :: "('c, 's) scheduler \<Rightarrow> bool" where
  "running sc \<longleftrightarrow> running_flag sc \<and> \<not> stopping sc"

section \<open>The worker loop\<close>

text \<open>One test of the predicate, under the lock: sleep, return, or take the first task.\<close>

definition worker_check :: "nat \<Rightarrow> ('c, 's) scheduler \<Rightarrow> ('c, 's) scheduler" where
  "worker_check i sc =
     (if \<not> stopping sc \<and> tasks sc = [] then sc\<lparr>workers := (workers sc)[i := Sleeping]\<rparr>
      else if stopping sc \<and> tasks sc = [] then sc\<lparr>workers := (workers sc)[i := Exited]\<rparr>
      else set_depth (sc\<lparr>workers := (workers sc)[i := Busy (hd (tasks sc))], tasks := tl (tasks sc),
                         taken := taken sc @ [hd (tasks sc)]\<rparr>))"

text \<open>Running a task: \<open>started\<close> and \<open>ended\<close> are the clock before and after, \<open>ts\<close> the readings the backend makes.\<close>

definition worker_run :: "(nat \<Rightarrow> 's backend_class) \<Rightarrow> int \<Rightarrow> int list \<Rightarrow> int \<Rightarrow> nat \<Rightarrow> 'c itask \<Rightarrow> ('c, 's) scheduler \<Rightarrow> ('c, 's) scheduler" where
  "worker_run cls started ts ended i t sc =
     (let (res, s) = be_infer (cls (tk_backend t)) ts (tk_request t) (objects_state sc);
          res = res\<lparr>rs_latency := (rs_latency res)\<lparr>queueMs := ms_between (enqueuedAt t) started,
                                                  totalMs := ms_between (enqueuedAt t) ended\<rparr>\<rparr>
      in sc\<lparr>objects_state := s, sc_metrics := map_option (recordCompletion res) (sc_metrics sc),
            completions := completions sc @ (case tk_completion t of None \<Rightarrow> [] | Some c \<Rightarrow> [(c, res)]),
            finished := finished sc @ [(t, res)], workers := (workers sc)[i := Checking]\<rparr>)"

section \<open>Interleavings\<close>

text \<open>A worker step of the running threads, including the notification of a stop that is under way.\<close>

inductive worker_step :: "(nat \<Rightarrow> 's backend_class) \<Rightarrow> ('c, 's) scheduler \<Rightarrow> ('c, 's) scheduler \<Rightarrow> bool"
  for cls :: "nat \<Rightarrow> 's backend_class" where
  check: "i < length (workers sc) \<Longrightarrow> workers sc ! i = Checking \<Longrightarrow> worker_step cls sc (worker_check i sc)"
| run: "i < length (workers sc) \<Longrightarrow> workers sc ! i = Busy t \<Longrightarrow> worker_step cls sc (worker_run cls started ts ended i t sc)"
| notify: "notifying sc \<Longrightarrow> worker_step cls sc (stop_notify sc)"

text \<open>
  All steps. A second \<open>stop\<close> during the first is left out: the source would join the same threads twice.
\<close>

inductive sched_step :: "(nat \<Rightarrow> 's backend_class) \<Rightarrow> ('c, 's) scheduler \<Rightarrow> ('c, 's) scheduler \<Rightarrow> bool"
  for cls :: "nat \<Rightarrow> 's backend_class" where
  worker: "worker_step cls sc sc' \<Longrightarrow> sched_step cls sc sc'"
| start: "start cls err sc = (ok, err', sc') \<Longrightarrow> sched_step cls sc sc'"
| submit: "(\<exists>i < length (workers sc). workers sc ! i = Sleeping) \<longrightarrow> w < length (workers sc) \<and> workers sc ! w = Sleeping \<Longrightarrow>
     submit now w r c sc = (res, sc') \<Longrightarrow> sched_step cls sc sc'"
| spurious: "i < length (workers sc) \<Longrightarrow> workers sc ! i = Sleeping \<Longrightarrow> sched_step cls sc (notify_one i sc)"
| stop1: "\<not> stopping sc \<Longrightarrow> sched_step cls sc (stop_begin sc)"
| stop2: "stopping sc \<Longrightarrow> \<not> notifying sc \<Longrightarrow> \<forall>w\<in>set (workers sc). w = Exited \<Longrightarrow> sched_step cls sc (stop_end sc)"

inductive_cases worker_stepE: "worker_step cls sc sc'"

end
