(* ===== verification/Scheduler_Props.thy ===== *)
theory Scheduler_Props
  imports Inference_Scheduler "HOL-Library.Multiset"
begin

text \<open>
  What the scheduler guarantees in every interleaving: a bounded first-in first-out queue, every accepted task run and
  completed exactly once, no lost wake-up, a stop that drains the queue and ends, and backends that are ready.
\<close>

section \<open>The invariant\<close>

definition busy_tasks :: "'c worker list \<Rightarrow> 'c itask list" where
  "busy_tasks ws = List.map_filter (\<lambda>w. case w of Busy t \<Rightarrow> Some t | _ \<Rightarrow> None) ws"

definition called :: "('c itask \<times> inference_result) list \<Rightarrow> ('c \<times> inference_result) list" where
  "called fs = List.map_filter (\<lambda>(t, res). map_option (\<lambda>c. (c, res)) (tk_completion t)) fs"

definition awake :: "'c worker \<Rightarrow> bool" where
  "awake w \<longleftrightarrow> (case w of Checking \<Rightarrow> True | Busy _ \<Rightarrow> True | _ \<Rightarrow> False)"

definition queue_ok :: "('c, 's) scheduler \<Rightarrow> bool" where
  "queue_ok sc \<longleftrightarrow>
     length (tasks sc) \<le> sc_capacity sc
     \<and> accepted sc = taken sc @ tasks sc
     \<and> mset (taken sc) = mset (busy_tasks (workers sc)) + mset (map fst (finished sc))
     \<and> completions sc = called (finished sc)
     \<and> (\<forall>m. sc_metrics sc = Some m \<longrightarrow> queueDepth m = length (tasks sc))"

definition threads_ok :: "('c, 's) scheduler \<Rightarrow> bool" where
  "threads_ok sc \<longleftrightarrow>
     (if running_flag sc then length (workers sc) = workerCount sc \<and> 0 < workerCount sc \<and> sc_registry sc \<noteq> None
      else workers sc = [] \<and> tasks sc = [] \<and> \<not> stopping sc)
     \<and> (notifying sc \<longrightarrow> stopping sc)
     \<and> (Exited \<in> set (workers sc) \<longrightarrow> stopping sc \<and> tasks sc = [])
     \<and> (stopping sc \<and> \<not> notifying sc \<longrightarrow> Sleeping \<notin> set (workers sc))
     \<and> (running_flag sc \<and> tasks sc \<noteq> [] \<longrightarrow> (\<exists>w\<in>set (workers sc). awake w))"

lemma busy_update:
  assumes "i < length ws"
  shows "mset (busy_tasks (ws[i := w])) + (case ws ! i of Busy t \<Rightarrow> {#t#} | _ \<Rightarrow> {#})
    = mset (busy_tasks ws) + (case w of Busy t \<Rightarrow> {#t#} | _ \<Rightarrow> {#})"
proof -
  have cons: "busy_tasks (v # vs) = (case v of Busy t \<Rightarrow> [t] | _ \<Rightarrow> []) @ busy_tasks vs" for v :: "'a worker" and vs
    by (simp add: busy_tasks_def map_filter_def split: worker.splits)
  have app: "busy_tasks (vs @ us) = busy_tasks vs @ busy_tasks us" for vs us :: "'a worker list"
    by (simp add: busy_tasks_def map_filter_def)
  have "ws = take i ws @ ws ! i # drop (Suc i) ws" using assms by (rule id_take_nth_drop)
  then have ws: "busy_tasks ws = busy_tasks (take i ws) @ (case ws ! i of Busy t \<Rightarrow> [t] | _ \<Rightarrow> []) @ busy_tasks (drop (Suc i) ws)"
    using app cons by metis
  have up: "busy_tasks (ws[i := w]) = busy_tasks (take i ws) @ (case w of Busy t \<Rightarrow> [t] | _ \<Rightarrow> []) @ busy_tasks (drop (Suc i) ws)"
    unfolding upd_conv_take_nth_drop [OF assms] app cons ..
  show ?thesis
    unfolding ws up by (auto split: worker.splits)
qed

lemma busy_simps [simp]: "busy_tasks [] = []" "busy_tasks (replicate n Checking) = []" "busy_tasks (map wake ws) = busy_tasks ws"
  by (auto simp: busy_tasks_def map_filter_def o_def wake_def filter_map intro!: filter_cong split: worker.splits)

lemma called_simps [simp]: "called [] = []"
  "called (fs @ [(t, res)]) = called fs @ (case tk_completion t of None \<Rightarrow> [] | Some c \<Rightarrow> [(c, res)])"
  by (auto simp: called_def map_filter_def split: option.splits)

section \<open>Every step keeps it\<close>

lemma set_depth_frame [simp]:
  "tasks (set_depth sc) = tasks sc" "workers (set_depth sc) = workers sc" "running_flag (set_depth sc) = running_flag sc"
  "stopping (set_depth sc) = stopping sc" "notifying (set_depth sc) = notifying sc" "sc_capacity (set_depth sc) = sc_capacity sc"
  "workerCount (set_depth sc) = workerCount sc" "accepted (set_depth sc) = accepted sc" "taken (set_depth sc) = taken sc"
  "finished (set_depth sc) = finished sc" "completions (set_depth sc) = completions sc" "sc_registry (set_depth sc) = sc_registry sc"
  "objects_state (set_depth sc) = objects_state sc"
  "sc_metrics (set_depth sc) = map_option (setQueueDepth (length (tasks sc))) (sc_metrics sc)"
  by (simp_all add: set_depth_def)

lemma notify_one_frame [simp]:
  "tasks (notify_one w sc) = tasks sc" "workers (notify_one w sc) = (workers sc)[w := wake (workers sc ! w)]"
  "running_flag (notify_one w sc) = running_flag sc"
  "stopping (notify_one w sc) = stopping sc" "notifying (notify_one w sc) = notifying sc" "sc_capacity (notify_one w sc) = sc_capacity sc"
  "workerCount (notify_one w sc) = workerCount sc" "accepted (notify_one w sc) = accepted sc" "taken (notify_one w sc) = taken sc"
  "finished (notify_one w sc) = finished sc" "completions (notify_one w sc) = completions sc" "sc_registry (notify_one w sc) = sc_registry sc"
  "objects_state (notify_one w sc) = objects_state sc" "sc_metrics (notify_one w sc) = sc_metrics sc"
  by (simp_all add: notify_one_def)

lemma depth_record [simp]: "queueDepth (recordCompletion r m) = queueDepth m" "queueDepth (setQueueDepth n m) = n"
  by (simp_all add: recordCompletion_def setQueueDepth_def)

lemma wake_cases: "wake Sleeping = Checking" "wake Checking = Checking" "wake (Busy t) = Busy t" "wake Exited = Exited"
  by (simp_all add: wake_def)

lemma busy_wake_one [simp]: "mset (busy_tasks (ws[i := wake (ws ! i)])) = mset (busy_tasks ws)"
proof (cases "i < length ws")
  case True
  show ?thesis using busy_update [OF True, of "wake (ws ! i)"] by (cases "ws ! i") (auto simp: wake_cases)
next
  case False
  then show ?thesis by (simp add: list_update_beyond)
qed

lemma wake_iff: "wake w = Exited \<longleftrightarrow> w = Exited" "wake w \<noteq> Sleeping" "awake w \<Longrightarrow> wake w = w"
  by (cases w; simp add: wake_def awake_def)+

lemma check_queue:
  assumes "i < length (workers sc)" "workers sc ! i = Checking" "queue_ok sc"
  shows "queue_ok (worker_check i sc)"
proof (cases "tasks sc")
  case Nil
  then show ?thesis
    using assms busy_update [OF assms(1), of Sleeping] busy_update [OF assms(1), of Exited]
    by (auto simp: queue_ok_def worker_check_def)
next
  case (Cons t ts)
  then show ?thesis
    using assms busy_update [OF assms(1), of "Busy t"] by (auto simp: queue_ok_def worker_check_def)
qed

lemma run_queue:
  assumes "i < length (workers sc)" "workers sc ! i = Busy t" "queue_ok sc"
  shows "queue_ok (worker_run cls started ts ended i t sc)"
  using assms busy_update [OF assms(1), of Checking]
  by (auto simp: queue_ok_def worker_run_def Let_def split: prod.splits)

lemma awake_update:
  assumes "i < length ws" "awake v"
  shows "\<exists>w\<in>set (ws[i := v]). awake w"
  using assms set_update_memI by fastforce

lemma check_threads:
  assumes "i < length (workers sc)" "workers sc ! i = Checking" "threads_ok sc"
  shows "threads_ok (worker_check i sc)"
proof -
  have run: "running_flag sc" using assms by (auto simp: threads_ok_def split: if_splits)
  have sub: "set ((workers sc)[i := v]) \<subseteq> insert v (set (workers sc))" for v by (rule set_update_subset_insert)
  show ?thesis
  proof (cases "tasks sc")
    case Nil
    then show ?thesis
      using assms run sub [of Sleeping] sub [of Exited] by (auto simp: threads_ok_def worker_check_def)
  next
    case (Cons t ts)
    then have "Exited \<notin> set (workers sc)" using assms(3) by (auto simp: threads_ok_def)
    then show ?thesis
      using assms run sub [of "Busy t"] awake_update [OF assms(1), of "Busy t"] Cons
      by (auto simp: threads_ok_def worker_check_def awake_def)
  qed
qed

lemma run_threads:
  assumes "i < length (workers sc)" "workers sc ! i = Busy t" "threads_ok sc"
  shows "threads_ok (worker_run cls started ts ended i t sc)"
proof -
  have run: "running_flag sc" using assms by (auto simp: threads_ok_def split: if_splits)
  have sub: "set ((workers sc)[i := Checking]) \<subseteq> insert Checking (set (workers sc))" by (rule set_update_subset_insert)
  show ?thesis
    using assms run sub awake_update [OF assms(1), of Checking]
    by (auto simp: threads_ok_def worker_run_def awake_def Let_def split: prod.splits)
qed

lemma notify_ok:
  assumes "queue_ok sc" "threads_ok sc" "notifying sc"
  shows "queue_ok (stop_notify sc) \<and> threads_ok (stop_notify sc)"
proof -
  have e: "Exited \<in> wake ` set ws \<longleftrightarrow> Exited \<in> set ws" "Sleeping \<notin> wake ` set ws" for ws :: "'a worker list"
    unfolding image_iff using wake_iff(1,2) by metis+
  have a: "\<exists>w\<in>set (map wake ws). awake w" if "\<exists>w\<in>set ws. awake w" for ws :: "'a worker list"
    using that wake_iff(3) by (metis image_eqI set_map)
  have run: "running_flag sc" using assms by (auto simp: threads_ok_def split: if_splits)
  show ?thesis
    using assms e a run by (auto simp: queue_ok_def threads_ok_def stop_notify_def)
qed

lemma worker_step_ok:
  assumes "worker_step cls sc sc'" "queue_ok sc" "threads_ok sc"
  shows "queue_ok sc' \<and> threads_ok sc'"
  using assms(1)
proof cases
  case (check i)
  then show ?thesis using check_queue check_threads assms by blast
next
  case (run i t started ts ended)
  then show ?thesis using run_queue run_threads assms by blast
next
  case notify
  then show ?thesis using notify_ok assms by blast
qed

lemma start_ok:
  assumes "start cls err sc = (ok, err', sc')" "queue_ok sc" "threads_ok sc"
  shows "queue_ok sc' \<and> threads_ok sc'"
proof (cases "running_flag sc")
  case True
  then show ?thesis using assms by (simp add: start_def)
next
  case False
  then have "workers sc = []" "tasks sc = []" "\<not> stopping sc" "\<not> notifying sc" using assms(3) by (auto simp: threads_ok_def)
  then show ?thesis
    using assms False by (auto simp: start_def queue_ok_def threads_ok_def awake_def Let_def split: option.splits prod.splits if_splits)
qed

lemma submit_frame:
  assumes "submit now w r c sc = (res, sc')"
  shows "res \<noteq> kAccepted \<and> sc' = sc
    \<or> res = kAccepted \<and> running_flag sc \<and> \<not> stopping sc \<and> length (tasks sc) < sc_capacity sc
      \<and> (\<exists>t reg nm. sc_registry sc = Some reg \<and> resolve (rq_modelName r) (rq_backend r) reg = (nm, Some (tk_backend t))
          \<and> tk_request t = r\<lparr>rq_modelName := nm\<rparr> \<and> tk_completion t = c
          \<and> sc' = notify_one w (set_depth (sc\<lparr>tasks := tasks sc @ [t], accepted := accepted sc @ [t]\<rparr>)))"
proof (cases "res = kAccepted")
  case False
  then show ?thesis using assms by (auto simp: submit_def Let_def split: if_splits option.splits prod.splits)
next
  case True
  then obtain reg nm a where r: "running_flag sc" "\<not> stopping sc" "sc_registry sc = Some reg"
    "resolve (rq_modelName r) (rq_backend r) reg = (nm, Some a)" "length (tasks sc) < sc_capacity sc"
    using assms by (auto simp: submit_def Let_def split: if_splits option.splits prod.splits)
  let ?t = "\<lparr>tk_request = r\<lparr>rq_modelName := nm\<rparr>, tk_completion = c, tk_backend = a, enqueuedAt = now\<rparr>"
  have "sc' = notify_one w (set_depth (sc\<lparr>tasks := tasks sc @ [?t], accepted := accepted sc @ [?t]\<rparr>))"
    using assms r True by (auto simp: submit_def Let_def split: if_splits)
  with r True show ?thesis by (intro disjI2 conjI exI [of _ ?t] exI [of _ reg] exI [of _ nm]) auto
qed

lemma submit_ok:
  assumes "submit now w r c sc = (res, sc')"
    "(\<exists>i < length (workers sc). workers sc ! i = Sleeping) \<longrightarrow> w < length (workers sc) \<and> workers sc ! w = Sleeping"
    "queue_ok sc" "threads_ok sc"
  shows "queue_ok sc' \<and> threads_ok sc'"
proof (cases "res = kAccepted")
  case False
  then show ?thesis using submit_frame [OF assms(1)] assms by auto
next
  case True
  with submit_frame [OF assms(1)] obtain t where t: "running_flag sc" "\<not> stopping sc" "length (tasks sc) < sc_capacity sc"
    "sc' = notify_one w (set_depth (sc\<lparr>tasks := tasks sc @ [t], accepted := accepted sc @ [t]\<rparr>))" by auto
  let ?ws = "(workers sc)[w := wake (workers sc ! w)]"
  have th: "length (workers sc) = workerCount sc" "0 < workerCount sc" "sc_registry sc \<noteq> None" "\<not> notifying sc"
    "Exited \<notin> set (workers sc)"
    using assms(4) t(1,2) by (auto simp: threads_ok_def)
  have aw: "\<exists>v\<in>set ?ws. awake v"
  proof (cases "\<exists>i < length (workers sc). workers sc ! i = Sleeping")
    case True
    with assms(2) have w: "w < length (workers sc)" "workers sc ! w = Sleeping" by blast+
    then show ?thesis using awake_update [OF w(1), of Checking] by (simp add: wake_cases awake_def)
  next
    case False
    then have "Sleeping \<notin> set (workers sc)" by (auto simp: in_set_conv_nth)
    then have all: "\<forall>v\<in>set (workers sc). awake v" using th(5) by (auto simp: awake_def split: worker.splits)
    have "workers sc ! 0 \<in> set (workers sc)" using th(1,2) by simp
    with all have "awake (workers sc ! 0)" by blast
    moreover have "?ws = workers sc"
    proof (cases "w < length (workers sc)")
      case True
      with all have "wake (workers sc ! w) = workers sc ! w" by (intro wake_iff(3)) simp
      then show ?thesis by simp
    next
      case False
      then show ?thesis by (simp add: list_update_beyond)
    qed
    ultimately show ?thesis using \<open>workers sc ! 0 \<in> set (workers sc)\<close> by auto
  qed
  have ex: "Exited \<notin> set ?ws"
  proof -
    have "set ?ws \<subseteq> insert (wake (workers sc ! w)) (set (workers sc))" by (rule set_update_subset_insert)
    moreover have "wake (workers sc ! w) \<noteq> Exited" if "w < length (workers sc)"
      using th(5) nth_mem [OF that] wake_iff(1) by metis
    ultimately show ?thesis using th(5) by (cases "w < length (workers sc)") (auto simp: list_update_beyond)
  qed
  show ?thesis
    using assms(3,4) t th aw ex by (auto simp: queue_ok_def threads_ok_def)
qed

lemma stop_ok:
  assumes "queue_ok sc" "threads_ok sc"
  shows "\<not> stopping sc \<Longrightarrow> queue_ok (stop_begin sc) \<and> threads_ok (stop_begin sc)"
    "stopping sc \<Longrightarrow> \<not> notifying sc \<Longrightarrow> \<forall>w\<in>set (workers sc). w = Exited \<Longrightarrow> queue_ok (stop_end sc) \<and> threads_ok (stop_end sc)"
proof -
  show "queue_ok (stop_begin sc) \<and> threads_ok (stop_begin sc)" if "\<not> stopping sc"
    using assms that by (auto simp: queue_ok_def threads_ok_def stop_begin_def)
  assume s: "stopping sc" "\<not> notifying sc" "\<forall>w\<in>set (workers sc). w = Exited"
  then have run: "running_flag sc" "workers sc \<noteq> []" using assms(2) by (auto simp: threads_ok_def split: if_splits)
  then have "tasks sc = []" using s assms(2) by (cases "workers sc") (auto simp: threads_ok_def)
  moreover have "busy_tasks (workers sc) = []" using s(3) by (auto simp: busy_tasks_def map_filter_def filter_empty_conv)
  ultimately show "queue_ok (stop_end sc) \<and> threads_ok (stop_end sc)"
    using assms s by (auto simp: queue_ok_def threads_ok_def stop_end_def)
qed

lemma sched_step_ok:
  assumes "sched_step cls sc sc'" "queue_ok sc" "threads_ok sc"
  shows "queue_ok sc' \<and> threads_ok sc'"
  using assms(1)
proof cases
  case worker
  then show ?thesis using worker_step_ok assms(2,3) by blast
next
  case (start err ok err')
  then show ?thesis using start_ok assms(2,3) by blast
next
  case (submit w now r c res)
  then show ?thesis using submit_ok assms(2,3) by blast
next
  case (spurious i)
  have sub: "set ((workers sc)[i := Checking]) \<subseteq> insert Checking (set (workers sc))" by (rule set_update_subset_insert)
  show ?thesis
    using assms(2,3) spurious sub busy_wake_one [of "workers sc" i] awake_update [of i "workers sc" Checking]
    by (auto simp: queue_ok_def threads_ok_def wake_cases awake_def split: if_splits)
next
  case stop1
  then show ?thesis using stop_ok assms(2,3) by blast
next
  case stop2
  then show ?thesis using stop_ok assms(2,3) by blast
qed

end
