(* ===== verification/Scheduler_Runs.thy ===== *)
theory Scheduler_Runs
  imports Scheduler_Props
begin

text \<open>
  The runs of the scheduler from its construction: the properties of the queue, of stopping, and of the backends that
  accepted tasks are run on.
\<close>

section \<open>Reachable states\<close>

inductive sched_reach :: "(nat \<Rightarrow> 's backend_class) \<Rightarrow> ('c, 's) scheduler \<Rightarrow> ('c, 's) scheduler \<Rightarrow> bool"
  for cls :: "nat \<Rightarrow> 's backend_class" and init :: "('c, 's) scheduler" where
  here: "sched_reach cls init init"
| onward: "sched_reach cls init sc \<Longrightarrow> sched_step cls sc sc' \<Longrightarrow> sched_reach cls init sc'"

lemma scheduler_new_ok:
  assumes "\<forall>v. m = Some v \<longrightarrow> queueDepth v = 0"
  shows "queue_ok (scheduler_new reg n cap m s) \<and> threads_ok (scheduler_new reg n cap m s)"
  using assms by (auto simp: scheduler_new_def scheduler_base_def queue_ok_def threads_ok_def setQueueCapacity_def)

lemma reach_ok:
  assumes "sched_reach cls init sc" "queue_ok init" "threads_ok init"
  shows "queue_ok sc \<and> threads_ok sc"
  using assms by (induction rule: sched_reach.induct) (auto dest: sched_step_ok)

lemma step_capacity:
  assumes "sched_step cls sc sc'"
  shows "sc_capacity sc' = sc_capacity sc \<and> workerCount sc' = workerCount sc"
  using assms
proof cases
  case worker
  then show ?thesis
    by cases (auto simp: worker_check_def worker_run_def stop_notify_def Let_def split: prod.splits)
next
  case (submit w now r c res)
  then show ?thesis using submit_frame [OF submit(2)] by auto
qed (auto simp: start_def stop_begin_def stop_end_def Let_def split: if_splits option.splits prod.splits)

lemma reach_capacity:
  "sched_reach cls init sc \<Longrightarrow> sc_capacity sc = sc_capacity init \<and> workerCount sc = workerCount init"
  by (induction rule: sched_reach.induct) (auto dest: step_capacity)

text \<open>
  Property C5. In every interleaving of submissions, workers, starts, stops and spurious wake-ups, the queue is first-in
  first-out and never longer than its capacity; every accepted task is queued, being run, or finished, exactly one of them,
  and its completion is called exactly once, when it is finished; the depth the metrics show is the real one; and tasks never
  wait while all workers sleep. When the scheduler is not running, the finished tasks are the accepted ones.
\<close>

theorem scheduler_queue:
  assumes "sched_reach cls (scheduler_new reg n cap m s) sc" "\<forall>v. m = Some v \<longrightarrow> queueDepth v = 0"
  shows "length (tasks sc) \<le> cap \<and> accepted sc = taken sc @ tasks sc
    \<and> mset (accepted sc) = mset (tasks sc) + mset (busy_tasks (workers sc)) + mset (map fst (finished sc))
    \<and> completions sc = called (finished sc)
    \<and> (\<forall>v. sc_metrics sc = Some v \<longrightarrow> queueDepth v = pendingTasks sc)
    \<and> (running_flag sc \<longrightarrow> length (workers sc) = n \<and> (tasks sc \<noteq> [] \<longrightarrow> (\<exists>w\<in>set (workers sc). awake w)))
    \<and> (\<not> running_flag sc \<longrightarrow> mset (map fst (finished sc)) = mset (accepted sc))"
proof -
  note init = scheduler_new_ok [OF assms(2), of reg n cap s]
  have ok: "queue_ok sc" "threads_ok sc" using reach_ok [OF assms(1)] init by auto
  have "sc_capacity sc = cap" "workerCount sc = n"
    using reach_capacity [OF assms(1)] by (simp_all add: scheduler_new_def scheduler_base_def)
  moreover have "\<not> running_flag sc \<Longrightarrow> tasks sc = [] \<and> workers sc = []" using ok(2) by (simp add: threads_ok_def)
  ultimately show ?thesis
    using ok by (auto simp: queue_ok_def threads_ok_def pendingTasks_def split: if_splits)
qed

text \<open>A run: one mock backend, one worker, one request, which is accepted, taken and finished.\<close>

definition demo_start :: "(nat, mock_backend) scheduler" where
  "demo_start = snd (snd (start (\<lambda>_. mock_class) [] (scheduler_new (Some mock_registry) 1 2 None (mock_backend_new 20))))"

definition demo_request :: inference_request where
  "demo_request = inference_request_new\<lparr>rq_requestId := ''r1'', rq_modelName := ''mock''\<rparr>"

definition demo_accepted :: "(nat, mock_backend) scheduler" where
  "demo_accepted = snd (submit 5 0 demo_request (Some 7) demo_start)"

definition demo_task :: "nat itask" where
  "demo_task = \<lparr>tk_request = demo_request, tk_completion = Some 7, tk_backend = 0, enqueuedAt = 5\<rparr>"

lemma demo_accepted_state:
  "tasks demo_accepted = [demo_task]" "workers demo_accepted = [Checking]" "running_flag demo_accepted"
  "\<not> stopping demo_accepted" "\<not> notifying demo_accepted" "accepted demo_accepted = [demo_task]" "finished demo_accepted = []"
  "fst (submit 5 0 demo_request (Some 7) demo_start) = kAccepted" "sc_metrics demo_accepted = None"
  by (simp_all add: demo_accepted_def demo_start_def demo_request_def demo_task_def start_def scheduler_new_def scheduler_base_def
    initialize_def load_one_def mock_registry_def add_def registry_new_def mock_defs mock_backend_new_def model_config_new_def
    submit_def hasModel_def resolve_def resolve_name_def inference_request_new_def notify_one_def set_depth_def wake_def Let_def)

lemma demo_reach: "sched_reach (\<lambda>_. mock_class) (scheduler_new (Some mock_registry) 1 2 None (mock_backend_new 20)) demo_accepted"
proof (rule onward [OF onward [OF here]])
  show "sched_step (\<lambda>_. mock_class) (scheduler_new (Some mock_registry) 1 2 None (mock_backend_new 20)) demo_start"
    (is "sched_step ?c ?s _")
  proof -
    obtain ok e sc where eq: "start ?c [] ?s = (ok, e, sc)" by (metis prod_cases3)
    then show ?thesis using sched_step.start [OF eq] by (simp add: demo_start_def)
  qed
  have "workers demo_start = [Checking]"
    by (simp add: demo_start_def start_def scheduler_new_def scheduler_base_def initialize_def load_one_def mock_registry_def
      add_def registry_new_def mock_defs mock_backend_new_def model_config_new_def Let_def)
  then show "sched_step (\<lambda>_. mock_class) demo_start demo_accepted"
    unfolding demo_accepted_def by (intro sched_step.submit [OF _ prod.collapse [symmetric]]) simp
qed

definition demo_done :: "(nat, mock_backend) scheduler" where
  "demo_done = worker_run (\<lambda>_. mock_class) 6 [6, 8] 9 0 demo_task (worker_check 0 demo_accepted)"

lemma scheduler_queue_witness:
  "sched_reach (\<lambda>_. mock_class) (scheduler_new (Some mock_registry) 1 2 None (mock_backend_new 20)) demo_done
   \<and> map fst (finished demo_done) = [demo_task] \<and> mset (map fst (finished demo_done)) = mset (accepted demo_done)"
proof -
  have c: "worker_step (\<lambda>_. mock_class) demo_accepted (worker_check 0 demo_accepted)"
    by (rule worker_step.check) (simp_all add: demo_accepted_state)
  have r: "worker_step (\<lambda>_. mock_class) (worker_check 0 demo_accepted) demo_done"
    unfolding demo_done_def by (rule worker_step.run) (simp_all add: worker_check_def demo_accepted_state)
  have reach: "sched_reach (\<lambda>_. mock_class) (scheduler_new (Some mock_registry) 1 2 None (mock_backend_new 20)) demo_done"
    by (rule onward [OF onward [OF demo_reach]]) (rule sched_step.worker, rule c, rule sched_step.worker, rule r)
  have "tasks demo_done = [] \<and> workers demo_done = [Checking] \<and> map fst (finished demo_done) = [demo_task]"
    by (simp add: demo_done_def worker_run_def worker_check_def demo_accepted_state Let_def split: prod.splits)
  with scheduler_queue [OF reach] reach show ?thesis by (auto simp: busy_tasks_def map_filter_def)
qed

section \<open>Stopping\<close>

fun weight :: "'c worker \<Rightarrow> nat" where
  "weight Exited = 0"
| "weight (Busy _) = 2"
| "weight _ = 1"

definition work_left :: "('c, 's) scheduler \<Rightarrow> nat" where
  "work_left sc = 2 * length (tasks sc) + (\<Sum>w\<leftarrow>workers sc. weight w) + (if notifying sc then 1 else 0)"

lemma weight_update:
  "i < length ws \<Longrightarrow> (\<Sum>w\<leftarrow>ws[i := v]. weight w) + weight (ws ! i) = (\<Sum>w\<leftarrow>ws. weight w) + weight v"
proof (induction ws arbitrary: i)
  case (Cons u ws)
  then show ?case by (cases i) auto
qed simp

lemma weight_wake: "weight (wake w) = weight w"
  by (cases w) (simp_all add: wake_def)

lemma worker_step_progress:
  assumes "worker_step cls sc sc'" "stopping sc"
  shows "stopping sc' \<and> work_left sc' < work_left sc \<and> accepted sc' = accepted sc"
  using assms(1)
proof cases
  case (check i)
  note u = weight_update [OF check(2)]
  show ?thesis
    using check assms(2) u [of Exited] u [of "Busy (hd (tasks sc))"]
    by (cases "tasks sc") (auto simp: worker_check_def work_left_def)
next
  case (run i t started ts ended)
  then show ?thesis
    using assms(2) weight_update [OF run(2), of Checking] by (auto simp: worker_run_def work_left_def Let_def split: prod.splits)
next
  case notify
  then show ?thesis using assms(2) by (simp add: stop_notify_def work_left_def weight_wake o_def)
qed

lemma worker_steps_progress:
  "(worker_step cls ^^ k) sc sc' \<Longrightarrow> stopping sc \<Longrightarrow>
   stopping sc' \<and> k + work_left sc' \<le> work_left sc \<and> accepted sc' = accepted sc"
proof (induction k arbitrary: sc')
  case (Suc k)
  then obtain sc1 where "(worker_step cls ^^ k) sc sc1" "worker_step cls sc1 sc'" by auto
  with Suc worker_step_progress [of cls sc1 sc'] show ?case by fastforce
qed simp

lemma worker_steps_ok:
  "(worker_step cls ^^ k) sc sc' \<Longrightarrow> queue_ok sc \<Longrightarrow> threads_ok sc \<Longrightarrow> queue_ok sc' \<and> threads_ok sc'"
proof (induction k arbitrary: sc')
  case (Suc k)
  then show ?case using worker_step_ok by auto
qed simp

lemma stuck_exited:
  assumes "\<nexists>sc'. worker_step cls sc sc'" "stopping sc" "threads_ok sc"
  shows "\<forall>w\<in>set (workers sc). w = Exited"
proof
  fix w assume "w \<in> set (workers sc)"
  then obtain i where i: "i < length (workers sc)" "workers sc ! i = w" by (auto simp: in_set_conv_nth)
  have "\<not> notifying sc" using assms(1) worker_step.notify by blast
  then have "w \<noteq> Sleeping" using assms(2,3) \<open>w \<in> set (workers sc)\<close> by (auto simp: threads_ok_def)
  moreover have "w \<noteq> Checking" using assms(1) worker_step.check i by blast
  moreover have "w \<noteq> Busy t" for t using assms(1) worker_step.run i by blast
  ultimately show "w = Exited" by (cases w) auto
qed

text \<open>
  Property C7. \<open>stop\<close> returns and loses nothing: from a state in which it has been called, the workers and the
  notification can make at most \<open>work_left\<close> steps, whatever their order, and once they can make none every worker has
  returned, so that the joins succeed, the queue is empty, and every accepted task has been run.
\<close>

theorem stop_drains:
  assumes "sched_reach cls (scheduler_new reg n cap m s) sc" "\<forall>v. m = Some v \<longrightarrow> queueDepth v = 0"
    "stopping sc" "(worker_step cls ^^ k) sc sc'"
  shows "k \<le> work_left sc \<and> accepted sc' = accepted sc
    \<and> ((\<nexists>sc''. worker_step cls sc' sc'') \<longrightarrow>
         (\<forall>w\<in>set (workers sc'). w = Exited) \<and> tasks sc' = [] \<and> mset (map fst (finished sc')) = mset (accepted sc)
         \<and> (\<not> running_flag (stop_end sc') \<and> workers (stop_end sc') = []))"
proof -
  note init = scheduler_new_ok [OF assms(2), of reg n cap s]
  have ok: "queue_ok sc" "threads_ok sc" using reach_ok [OF assms(1)] init by auto
  have p: "stopping sc'" "k + work_left sc' \<le> work_left sc" "accepted sc' = accepted sc"
    using worker_steps_progress [OF assms(4,3)] by auto
  have ok': "queue_ok sc'" "threads_ok sc'" using worker_steps_ok [OF assms(4) ok] by auto
  have "tasks sc' = [] \<and> mset (map fst (finished sc')) = mset (accepted sc)" if "\<forall>w\<in>set (workers sc'). w = Exited"
  proof -
    have "workers sc' \<noteq> []" using ok'(2) p(1) by (auto simp: threads_ok_def split: if_splits)
    then have "tasks sc' = []" using that ok'(2) by (cases "workers sc'") (auto simp: threads_ok_def)
    moreover have "busy_tasks (workers sc') = []" using that by (auto simp: busy_tasks_def map_filter_def filter_empty_conv)
    ultimately show ?thesis using ok'(1) p(3) by (simp add: queue_ok_def)
  qed
  then show ?thesis using p stuck_exited [OF _ p(1) ok'(2)] by (auto simp: stop_end_def)
qed

definition demo_stopped :: "(nat, mock_backend) scheduler" where
  "demo_stopped = worker_check 0 (stop_notify (worker_run (\<lambda>_. mock_class) 6 [6, 8] 9 0 demo_task (worker_check 0 (stop_begin demo_accepted))))"

lemma stop_drains_witness:
  "work_left (stop_begin demo_accepted) = 4 \<and> (worker_step (\<lambda>_. mock_class) ^^ 4) (stop_begin demo_accepted) demo_stopped
   \<and> (4 :: nat) \<le> work_left (stop_begin demo_accepted) \<and> accepted demo_stopped = [demo_task]"
proof -
  let ?c = "\<lambda>_ :: nat. mock_class"
  let ?s0 = "stop_begin demo_accepted"
  let ?s1 = "worker_check 0 ?s0"
  let ?s2 = "worker_run ?c 6 [6, 8] 9 0 demo_task ?s1"
  let ?s3 = "stop_notify ?s2"
  have s0: "stopping ?s0" "notifying ?s0" "tasks ?s0 = [demo_task]" "workers ?s0 = [Checking]" "accepted ?s0 = [demo_task]"
    by (simp_all add: stop_begin_def demo_accepted_state)
  have s1: "workers ?s1 = [Busy demo_task]" "notifying ?s1" "tasks ?s1 = []" using s0 by (simp_all add: worker_check_def)
  have s2: "workers ?s2 = [Checking]" "notifying ?s2" using s1 by (simp_all add: worker_run_def Let_def split: prod.splits)
  have s3: "workers ?s3 = [Checking]" using s2 by (simp add: stop_notify_def wake_def)
  have "worker_step ?c ?s0 ?s1" "worker_step ?c ?s1 ?s2" "worker_step ?c ?s2 ?s3" "worker_step ?c ?s3 demo_stopped"
    unfolding demo_stopped_def
    by (rule worker_step.check worker_step.run worker_step.notify; simp add: s0 s1 s2 s3)+
  then have k: "(worker_step ?c ^^ 4) ?s0 demo_stopped" by (auto simp: numeral_eq_Suc)
  have reach: "sched_reach ?c (scheduler_new (Some mock_registry) 1 2 None (mock_backend_new 20)) ?s0"
    by (rule onward [OF demo_reach sched_step.stop1]) (simp add: demo_accepted_state)
  have w: "work_left ?s0 = 4" using s0 by (simp add: work_left_def)
  show ?thesis using stop_drains [OF reach _ s0(1) k] w k s0(5) by simp
qed

end
