(* ===== verification/Scheduler_Backends.thy ===== *)
theory Scheduler_Backends
  imports Scheduler_Runs
begin

text \<open>
  The scheduler over the registry and the objects of the program: accepted tasks are run on backends that are ready, and a
  result carries the names of its own request.
\<close>

section \<open>Tasks and ready backends\<close>

definition registry_ready :: "(nat \<Rightarrow> 's backend_class) \<Rightarrow> ('c, 's) scheduler \<Rightarrow> bool" where
  "registry_ready cls sc \<longleftrightarrow> (\<forall>reg. sc_registry sc = Some reg \<longrightarrow>
     distinct (addresses (registrations reg)) \<and> (\<forall>r\<in>set (registrations reg). rg_backend r = None \<longrightarrow> \<not> available r)
     \<and> (running_flag sc \<longrightarrow> (\<forall>r\<in>set (registrations reg). available r \<longrightarrow> is_healthy cls (objects_state sc) r)))"

definition tasks_ready :: "(nat \<Rightarrow> 's backend_class) \<Rightarrow> ('c, 's) scheduler \<Rightarrow> bool" where
  "tasks_ready cls sc \<longleftrightarrow> (\<forall>t. t \<in> set (tasks sc) \<or> Busy t \<in> set (workers sc) \<longrightarrow> be_healthy (cls (tk_backend t)) (objects_state sc))"

definition own_result :: "'c itask \<times> inference_result \<Rightarrow> bool" where
  "own_result f \<longleftrightarrow> (case f of (t, res) \<Rightarrow>
     rs_requestId res = rq_requestId (tk_request t) \<and> rs_modelName res = rq_modelName (tk_request t)
     \<and> rs_success res = (rs_errorCode res = []))"

lemma resolve_available:
  assumes "resolve nm be reg = (nm', Some a)"
  obtains r where "r \<in> set (registrations reg)" "available r" "rg_backend r = Some a"
proof -
  have "case select (resolve_name reg nm) be None (registrations reg) of
      None \<Rightarrow> True | Some r \<Rightarrow> first_best (resolve_name reg nm) be (registrations reg) r"
    using select_spec [where best = None and seen = "[]" and nm = "resolve_name reg nm" and requested = be and rs = "registrations reg"]
    by (auto split: option.splits)
  with assms have "\<exists>r\<in>set (registrations reg). available r \<and> rg_backend r = Some a"
    by (auto simp: resolve_def first_best_def matches_def Let_def split: option.splits)
  then show thesis using that by blast
qed

context backend_table
begin

lemma initialize_ready:
  assumes "initialize cls err reg s = (ok, err', reg', s')" "distinct (addresses (registrations reg))"
    "\<forall>r\<in>set (registrations reg). rg_backend r = None \<longrightarrow> \<not> available r"
  shows "distinct (addresses (registrations reg')) \<and> (\<forall>r\<in>set (registrations reg'). available r \<longrightarrow> is_healthy cls s' r)"
proof -
  obtain n f rs s2 where l: "load_all cls (registrations reg) s = (n, f, rs, s2)" by (metis prod_cases4)
  from load_all_ok [OF l assms(2,3)] have "map rg_backend rs = map rg_backend (registrations reg)"
    "\<forall>r\<in>set rs. available r \<longrightarrow> is_healthy cls s2 r" by auto
  moreover have "reg' = reg\<lparr>registrations := rs\<rparr>" "s' = s2"
    using assms(1) by (auto simp: initialize_def l Let_def split: if_splits)
  moreover have "addresses rs = List.map_filter id (map rg_backend rs)" for rs
    by (simp add: addresses_def map_filter_def filter_map o_def)
  ultimately show ?thesis using assms(2) by simp
qed

lemma unhealthy_none: "is_healthy c s r \<Longrightarrow> rg_backend r \<noteq> None"
  by (auto simp: is_healthy_def split: option.splits)

lemma check_ready:
  assumes "sc' = worker_check i sc" "registry_ready cls sc" "tasks_ready cls sc" "\<forall>f\<in>set (finished sc). own_result f"
  shows "registry_ready cls sc' \<and> tasks_ready cls sc' \<and> (\<forall>f\<in>set (finished sc'). own_result f)"
proof -
  have sub: "set ((workers sc)[i := v]) \<subseteq> insert v (set (workers sc))" for v by (rule set_update_subset_insert)
  have hd: "tasks sc \<noteq> [] \<Longrightarrow> hd (tasks sc) \<in> set (tasks sc)" "set (tl (tasks sc)) \<subseteq> set (tasks sc)"
    by (cases "tasks sc"; auto)+
  have o: "objects_state sc' = objects_state sc" "finished sc' = finished sc" "sc_registry sc' = sc_registry sc"
    "running_flag sc' = running_flag sc"
    using assms(1) by (simp_all add: worker_check_def)
  have "set (tasks sc') \<subseteq> set (tasks sc)" using assms(1) hd(2) by (simp add: worker_check_def)
  moreover have "Busy t \<in> set (workers sc') \<Longrightarrow> Busy t \<in> set (workers sc) \<or> t \<in> set (tasks sc)" for t
    using assms(1) sub [of Sleeping] sub [of Exited] sub [of "Busy (hd (tasks sc))"] hd(1)
    by (fastforce simp: worker_check_def split: if_splits)
  ultimately have "tasks_ready cls sc'" using assms(3) o(1) unfolding tasks_ready_def by fastforce
  moreover have "registry_ready cls sc'" using assms(2) unfolding registry_ready_def o .
  ultimately show ?thesis using assms(4) o(2) by simp
qed

lemma run_ready:
  assumes "sc' = worker_run cls started ts ended i t sc" "registry_ready cls sc" "tasks_ready cls sc" "\<forall>f\<in>set (finished sc). own_result f"
  shows "registry_ready cls sc' \<and> tasks_ready cls sc' \<and> (\<forall>f\<in>set (finished sc'). own_result f)"
proof -
  obtain res s where inf: "be_infer (cls (tk_backend t)) ts (tk_request t) (objects_state sc) = (res, s)" by (metis surj_pair)
  have h: "be_healthy (cls b) s = be_healthy (cls b) (objects_state sc)" for b
    using infer_frame [OF inf, of b] inference_backend.infer_keeps [OF each inf] by (cases "b = tk_backend t") auto
  have hr: "is_healthy cls s r = is_healthy cls (objects_state sc) r" for r
    by (simp add: is_healthy_def h split: option.splits)
  have sub: "set ((workers sc)[i := Checking]) \<subseteq> insert Checking (set (workers sc))" by (rule set_update_subset_insert)
  obtain res' where o: "objects_state sc' = s" "finished sc' = finished sc @ [(t, res')]" "sc_registry sc' = sc_registry sc"
    "running_flag sc' = running_flag sc" "tasks sc' = tasks sc" "workers sc' = (workers sc)[i := Checking]"
    "rs_requestId res' = rs_requestId res" "rs_modelName res' = rs_modelName res" "rs_success res' = rs_success res"
    "rs_errorCode res' = rs_errorCode res"
    using assms(1) by (simp add: worker_run_def inf Let_def)
  have "own_result (t, res')"
    using inference_backend.infer_names [OF each inf] inference_backend.infer_code [OF each inf] o by (simp add: own_result_def)
  moreover have "tasks_ready cls sc'" using assms(3) sub h unfolding tasks_ready_def o by blast
  moreover have "registry_ready cls sc'" using assms(2) unfolding registry_ready_def o hr .
  ultimately show ?thesis using assms(4) o(2) by simp
qed

lemma start_ready:
  assumes "start cls err sc = (ok, err', sc')" "threads_ok sc" "registry_ready cls sc" "tasks_ready cls sc"
    "\<forall>f\<in>set (finished sc). own_result f"
  shows "registry_ready cls sc' \<and> tasks_ready cls sc' \<and> (\<forall>f\<in>set (finished sc'). own_result f)"
proof (cases "running_flag sc \<or> sc_registry sc = None \<or> workerCount sc = 0 \<or> sc_capacity sc = 0")
  case True
  then have "sc' = sc" using assms(1) by (auto simp: start_def split: if_splits option.splits)
  then show ?thesis using assms(3-5) by simp
next
  case False
  then obtain reg where reg: "sc_registry sc = Some reg" by auto
  obtain k e reg' s' where i: "initialize cls err reg (objects_state sc) = (k, e, reg', s')" by (metis prod_cases4)
  have w: "workers sc = []" "tasks sc = []" using False assms(2) by (auto simp: threads_ok_def)
  have r: "distinct (addresses (registrations reg'))" "\<forall>r\<in>set (registrations reg'). available r \<longrightarrow> is_healthy cls s' r"
    using initialize_ready [OF i] assms(3) reg by (auto simp: registry_ready_def)
  have o: "objects_state sc' = s'" "finished sc' = finished sc" "sc_registry sc' = Some reg'" "tasks sc' = []"
    "set (workers sc') \<subseteq> {Checking}"
    using assms(1) False reg w by (auto simp: start_def i Let_def split: if_splits)
  have "\<forall>q\<in>set (registrations reg'). rg_backend q = None \<longrightarrow> \<not> available q"
    using r(2) unhealthy_none [of cls s'] by blast
  then have "registry_ready cls sc'" using r o by (simp add: registry_ready_def)
  moreover have "tasks_ready cls sc'" using o by (auto simp: tasks_ready_def)
  ultimately show ?thesis using o assms(5) by simp
qed

lemma busy_woken:
  assumes "Busy u \<in> set ((workers sc)[w := wake (workers sc ! w)])"
  shows "Busy u \<in> set (workers sc)"
proof (cases "w < length (workers sc)")
  case True
  then show ?thesis
    using assms set_update_subset_insert [of "workers sc" w "wake (workers sc ! w)"] nth_mem [OF True]
    by (cases "workers sc ! w") (auto simp: wake_def)
qed (use assms in \<open>simp add: list_update_beyond\<close>)

lemma submit_ready:
  assumes "submit now w r c sc = (res, sc')" "registry_ready cls sc" "tasks_ready cls sc" "\<forall>f\<in>set (finished sc). own_result f"
  shows "registry_ready cls sc' \<and> tasks_ready cls sc' \<and> (\<forall>f\<in>set (finished sc'). own_result f)"
proof (cases "res = kAccepted")
  case False
  then show ?thesis using submit_frame [OF assms(1)] assms(2-4) by auto
next
  case True
  with submit_frame [OF assms(1)] obtain t reg nm where t: "running_flag sc" "sc_registry sc = Some reg"
    "resolve (rq_modelName r) (rq_backend r) reg = (nm, Some (tk_backend t))"
    "sc' = notify_one w (set_depth (sc\<lparr>tasks := tasks sc @ [t], accepted := accepted sc @ [t]\<rparr>))" by auto
  obtain g where "g \<in> set (registrations reg)" "available g" "rg_backend g = Some (tk_backend t)"
    using resolve_available [OF t(3)] by blast
  then have "be_healthy (cls (tk_backend t)) (objects_state sc)"
    using assms(2) t(1,2) by (auto simp: registry_ready_def is_healthy_def)
  then have "tasks_ready cls sc'" using assms(3) t(4) busy_woken [of _ sc w] by (auto simp: tasks_ready_def)
  moreover have "registry_ready cls sc'" using assms(2) t(4) by (simp add: registry_ready_def)
  ultimately show ?thesis using assms(4) t(4) by simp
qed

lemma step_ready:
  assumes "sched_step cls sc sc'" "threads_ok sc" "registry_ready cls sc" "tasks_ready cls sc" "\<forall>f\<in>set (finished sc). own_result f"
  shows "registry_ready cls sc' \<and> tasks_ready cls sc' \<and> (\<forall>f\<in>set (finished sc'). own_result f)"
  using assms(1)
proof cases
  case worker
  then show ?thesis
  proof cases
    case (check i)
    show ?thesis by (rule check_ready [OF check(1) assms(3-5)])
  next
    case (run i t started ts ended)
    show ?thesis by (rule run_ready [OF run(1) assms(3-5)])
  next
    case notify
    have "wake v = Busy t \<longleftrightarrow> v = Busy t" for v t by (cases v) (simp_all add: wake_def)
    then have b: "Busy t \<in> wake ` W \<longleftrightarrow> Busy t \<in> W" for t W unfolding image_iff by metis
    show ?thesis using notify assms(3-5) by (simp add: stop_notify_def registry_ready_def tasks_ready_def b)
  qed
next
  case (start err ok err')
  show ?thesis by (rule start_ready [OF start(1) assms(2-5)])
next
  case (submit w now r c res)
  show ?thesis by (rule submit_ready [OF submit(2) assms(3-5)])
next
  case (spurious i)
  have "set ((workers sc)[i := Checking]) \<subseteq> insert Checking (set (workers sc))" by (rule set_update_subset_insert)
  then show ?thesis
    using assms(3-5) spurious by (auto simp: registry_ready_def tasks_ready_def wake_cases)
next
  case stop1
  then show ?thesis using assms(3-5) by (simp add: stop_begin_def registry_ready_def tasks_ready_def)
next
  case stop2
  then show ?thesis using assms(3-5) by (simp add: stop_end_def registry_ready_def tasks_ready_def)
qed

lemma reach_ready:
  assumes "sched_reach cls init sc" "queue_ok init" "threads_ok init" "registry_ready cls init" "tasks_ready cls init"
    "finished init = []"
  shows "registry_ready cls sc \<and> tasks_ready cls sc \<and> (\<forall>f\<in>set (finished sc). own_result f)"
proof -
  have "queue_ok sc \<and> threads_ok sc \<and> registry_ready cls sc \<and> tasks_ready cls sc \<and> (\<forall>f\<in>set (finished sc). own_result f)"
    using assms
  proof (induction rule: sched_reach.induct)
    case (onward sc sc')
    then show ?case using sched_step_ok [OF onward(2)] step_ready [OF onward(2)] by auto
  qed simp
  then show ?thesis by simp
qed

end

text \<open>While the scheduler runs, some backend is available, and every available backend is healthy.\<close>

definition some_available :: "('c, 's) scheduler \<Rightarrow> bool" where
  "some_available sc \<longleftrightarrow> (running_flag sc \<longrightarrow> (\<exists>reg. sc_registry sc = Some reg \<and> 0 < availableBackendCount reg))"

lemma initialize_available:
  assumes "initialize cls err reg s = (True, err', reg', s')"
  shows "0 < length (filter (\<lambda>r. rg_backend r \<noteq> None \<and> available r) (registrations reg'))"
proof -
  obtain n f rs s2 where l: "load_all cls (registrations reg) s = (n, f, rs, s2)" by (metis prod_cases4)
  have count: "load_all cls gs s = (n, f, rs, s2) \<Longrightarrow> n = length (filter (\<lambda>r. rg_backend r \<noteq> None \<and> available r) rs)" for gs s n f rs s2
  proof (induction gs arbitrary: s n f rs s2)
    case (Cons g gs)
    obtain g1 s1 where g1: "load_one cls g s = (g1, s1)" by (metis surj_pair)
    obtain n2 f2 rs2 s3 where l2: "load_all cls gs s1 = (n2, f2, rs2, s3)" by (metis prod_cases4)
    have "rg_backend g1 = rg_backend g" using g1 by (auto simp: load_one_def Let_def split: option.splits prod.splits if_splits)
    then show ?case using Cons.prems Cons.IH [OF l2] by (auto simp: g1 l2 Let_def)
  qed simp
  from count [OF l] show ?thesis using assms by (auto simp: initialize_def l Let_def split: if_splits)
qed

lemma step_available:
  assumes "sched_step cls sc sc'" "some_available sc"
  shows "some_available sc'"
  using assms(1)
proof cases
  case worker
  then show ?thesis using assms(2)
    by cases (auto simp: some_available_def worker_check_def worker_run_def stop_notify_def Let_def split: prod.splits)
next
  case (start err ok err')
  show ?thesis
  proof (cases "running_flag sc \<or> \<not> running_flag sc'")
    case True
    then show ?thesis using start assms(2) by (auto simp: start_def some_available_def)
  next
    case False
    then obtain reg where reg: "sc_registry sc = Some reg" "workerCount sc \<noteq> 0" "sc_capacity sc \<noteq> 0"
      using start by (auto simp: start_def split: option.splits if_splits)
    obtain k e reg' s' where i: "initialize cls err reg (objects_state sc) = (k, e, reg', s')" by (metis prod_cases4)
    have k: "k" "sc_registry sc' = Some reg'" using start False reg by (auto simp: start_def i Let_def split: if_splits)
    have "length (filter (\<lambda>r. rg_backend r \<noteq> None \<and> available r) (registrations reg')) \<le> availableBackendCount reg'"
      unfolding availableBackendCount_def by (induction "registrations reg'" rule: list.induct) (auto simp: length_filter_conv_card intro!: card_mono)
    moreover have "0 < length (filter (\<lambda>r. rg_backend r \<noteq> None \<and> available r) (registrations reg'))"
      using initialize_available [of cls err reg "objects_state sc" e reg' s'] i k(1) by simp
    ultimately have "0 < availableBackendCount reg'" by linarith
    then show ?thesis using k(2) by (auto simp: some_available_def)
  qed
next
  case (submit w now r c res)
  then show ?thesis using submit_frame [OF submit(2)] assms(2) by (auto simp: some_available_def)
qed (use assms(2) in \<open>auto simp: some_available_def stop_begin_def stop_end_def\<close>)

lemma reach_available:
  "sched_reach cls init sc \<Longrightarrow> some_available init \<Longrightarrow> some_available sc"
  by (induction rule: sched_reach.induct) (auto intro: step_available)

lemma reach_trans:
  "sched_reach cls b c \<Longrightarrow> sched_reach cls a b \<Longrightarrow> sched_reach cls a c"
  by (induction rule: sched_reach.induct) (auto intro: sched_reach.onward)

lemma healthy_available:
  assumes "registry_ready cls sc" "running_flag sc" "sc_registry sc = Some reg"
  shows "healthyBackendCount cls (objects_state sc) reg = availableBackendCount reg"
proof -
  have "filter (is_healthy cls (objects_state sc)) (registrations reg) = filter available (registrations reg)"
    using assms by (intro filter_cong) (auto simp: registry_ready_def is_healthy_def)
  then show ?thesis by (simp add: healthyBackendCount_def availableBackendCount_def)
qed

text \<open>
  Property C12. The scheduler and its backends: with the objects of the program, in every interleaving the backend of a task
  that is queued or being run has been loaded and is healthy, so that no accepted task is refused for a backend that is not
  ready, and every result handed out has the request id and the model name of its own request, and an error code exactly
  when it is a failure.
\<close>

theorem accepted_ready:
  assumes "sched_reach (heap_class env) (scheduler_new (Some reg) n cap m h) sc" "\<forall>v. m = Some v \<longrightarrow> queueDepth v = 0"
    "distinct (addresses (registrations reg))" "\<forall>r\<in>set (registrations reg). rg_backend r = None \<longrightarrow> \<not> available r"
  shows "(\<forall>t\<in>set (tasks sc) \<union> set (busy_tasks (workers sc)). obj_healthy (objects_state sc (tk_backend t)))
    \<and> (\<forall>(t, res)\<in>set (finished sc). rs_requestId res = rq_requestId (tk_request t)
         \<and> rs_modelName res = rq_modelName (tk_request t) \<and> rs_success res = (rs_errorCode res = []))"
proof -
  let ?init = "scheduler_new (Some reg) n cap m h"
  have "registry_ready (heap_class env) ?init" "tasks_ready (heap_class env) ?init" "finished ?init = []"
    using assms(3,4) by (simp_all add: scheduler_new_def scheduler_base_def registry_ready_def tasks_ready_def)
  with heap.reach_ready [OF assms(1)] scheduler_new_ok [OF assms(2), of "Some reg" n cap h]
  have r: "tasks_ready (heap_class env) sc" "\<forall>f\<in>set (finished sc). own_result f" by auto
  have "t \<in> set (busy_tasks ws) \<Longrightarrow> Busy t \<in> set ws" for t ws
    by (induction ws) (auto simp: busy_tasks_def map_filter_def split: worker.splits if_splits)
  with r show ?thesis by (auto simp: tasks_ready_def own_result_def heap_class_def)
qed

lemma accepted_ready_witness:
  "\<forall>env. \<exists>sc :: (nat, heap) scheduler.
     sched_reach (heap_class env) (scheduler_new (Some mock_registry) 1 2 None (\<lambda>_. MockObj (mock_backend_new 20))) sc
     \<and> length (tasks sc) = 1 \<and> (\<forall>t\<in>set (tasks sc). obj_healthy (objects_state sc (tk_backend t)))"
proof
  fix env
  let ?init = "scheduler_new (Some mock_registry) 1 2 None (\<lambda>_. MockObj (mock_backend_new 20)) :: (nat, heap) scheduler"
  obtain ok e sc1 where 1: "start (heap_class env) [] ?init = (ok, e, sc1)" by (metis prod_cases3)
  obtain res sc2 where 2: "submit 5 0 demo_request (Some 7) sc1 = (res, sc2)" by (metis surj_pair)
  have sc1: "sc1 = snd (snd (start (heap_class env) [] ?init))" and sc2: "sc2 = snd (submit 5 0 demo_request (Some 7) sc1)"
    using arg_cong [OF 1, of "snd \<circ> snd"] arg_cong [OF 2, of snd] unfolding o_apply snd_conv by blast+
  have w: "workers sc1 = [Checking]" "length (tasks sc2) = 1"
    unfolding sc2 sc1
    by (simp_all add: start_def scheduler_new_def scheduler_base_def initialize_def load_one_def mock_registry_def add_def
      registry_new_def heap_class_def obj_load_def obj_warmup_def mock_load_def mock_warmup_def mock_backend_new_def
      model_config_new_def submit_def demo_request_def hasModel_def resolve_def resolve_name_def inference_request_new_def
      notify_one_def set_depth_def wake_def Let_def)
  have reach: "sched_reach (heap_class env) ?init sc2"
    by (rule onward [OF onward [OF here sched_step.start [OF 1]] sched_step.submit [OF _ 2]]) (simp add: w)
  have "distinct (addresses (registrations mock_registry))"
    "\<forall>r\<in>set (registrations mock_registry). rg_backend r = None \<longrightarrow> \<not> available r"
    by (simp_all add: mock_registry_def add_def registry_new_def Let_def)
  from accepted_ready [OF reach _ this] w reach show "\<exists>sc :: (nat, heap) scheduler. sched_reach (heap_class env) ?init sc
     \<and> length (tasks sc) = 1 \<and> (\<forall>t\<in>set (tasks sc). obj_healthy (objects_state sc (tk_backend t)))"
    by (intro exI [of _ sc2]) auto
qed

end
