(* ===== verification/Inference_Api.thy ===== *)
theory Inference_Api
  imports Http_Server Scheduler_Backends
begin

text \<open>
  The inference API (\<open>src/api/InferenceJson.cc\<close>, \<open>InferenceController.h\<close>, \<open>InferenceController.cc\<close>): from an HTTP request to
  a task of the scheduler, and from its result to an HTTP response.

  \<open>dump\<close> is the serialiser of the JSON library, a parameter; it is applied to the value the source builds, with the
  members in the order of the source. A completion is the address of the connection it holds weakly, and \<open>completion_body\<close>
  is the function it queues in the loop of that connection. The controller and its scheduler share the metrics, as in \<open>main\<close>.
\<close>

section \<open>JSON bodies\<close>

definition serializeApiError :: "(json \<Rightarrow> bytes) \<Rightarrow> bytes \<Rightarrow> bytes \<Rightarrow> bytes \<Rightarrow> bytes" where
  "serializeApiError dump requestId code message =
     dump (JObj [(''success'', JBool False), (''request_id'', JStr requestId),
       (''error'', JObj [(''code'', JStr code), (''message'', JStr message)])])"

definition detection_json :: "detection \<Rightarrow> json" where
  "detection_json d =
     JObj [(''class_id'', JInt (classId d)), (''label'', JStr (label d)), (''score'', JReal (confidence d)),
       (''bbox'', JArr [JReal (x1 d), JReal (y1 d), JReal (x2 d), JReal (y2 d)])]"

definition result_json :: "inference_result \<Rightarrow> json" where
  "result_json r =
     JObj ([(''success'', JBool (rs_success r)), (''request_id'', JStr (rs_requestId r)), (''model'', JStr (rs_modelName r)),
       (''model_version'', JStr (rs_modelVersion r)), (''backend'', JStr (backendTypeName (rs_backend r))),
       (''image'', JObj [(''width'', JInt (rs_imageWidth r)), (''height'', JInt (rs_imageHeight r))]),
       (''latency_ms'', JObj [(''queue'', JReal (queueMs (rs_latency r))), (''preprocess'', JReal (preprocessMs (rs_latency r))),
          (''inference'', JReal (inferenceMs (rs_latency r))), (''postprocess'', JReal (postprocessMs (rs_latency r))),
          (''total'', JReal (totalMs (rs_latency r)))]),
       (''detections'', JArr (map detection_json (rs_detections r)))]
      @ (if rs_success r then []
         else [(''error'', JObj [(''code'', JStr (rs_errorCode r)), (''message'', JStr (rs_errorMessage r))])]))"

definition serializeInferenceResult :: "(json \<Rightarrow> bytes) \<Rightarrow> inference_result \<Rightarrow> bytes" where
  "serializeInferenceResult dump r = dump (result_json r)"

section \<open>The controller\<close>

record 's api =
  api_scheduler :: "(nat, 's) scheduler option"
  api_metrics :: "metrics option"
  api_sequence :: "64 word"

definition on_metrics :: "(metrics \<Rightarrow> metrics) \<Rightarrow> 's api \<Rightarrow> 's api" where
  "on_metrics f st =
     (case api_scheduler st of
        None \<Rightarrow> st\<lparr>api_metrics := map_option f (api_metrics st)\<rparr>
      | Some sc \<Rightarrow> st\<lparr>api_scheduler := Some (sc\<lparr>sc_metrics := map_option f (sc_metrics sc)\<rparr>)\<rparr>)"

definition hex_char :: "nat \<Rightarrow> char" where
  "hex_char n = ''0123456789abcdef'' ! n"

fun hex_digits :: "nat \<Rightarrow> bytes" where
  "hex_digits n = (if n < 16 then [hex_char n] else hex_digits (n div 16) @ [hex_char (n mod 16)])"

declare hex_digits.simps [simp del]

text \<open>\<open>std::hex\<close> stays in force for the sequence number.\<close>

definition nextRequestId :: "64 word \<Rightarrow> 's api \<Rightarrow> bytes \<times> 's api" where
  "nextRequestId now st =
     (hex_digits (unat now) @ ''-'' @ hex_digits (unat (api_sequence st)), st\<lparr>api_sequence := api_sequence st + 1\<rparr>)"

definition setJsonError :: "(json \<Rightarrow> bytes) \<Rightarrow> http_status \<Rightarrow> bytes \<Rightarrow> bytes \<Rightarrow> bytes \<Rightarrow> bytes \<Rightarrow> http_response \<Rightarrow> http_response" where
  "setJsonError dump status phrase requestId code message resp =
     (let resp = setStatusCode status resp;
          resp = setStatusMessage phrase resp;
          resp = setContentType ''application/json; charset=utf-8'' resp
      in rsp_setBody (serializeApiError dump requestId code message) resp)"

text \<open>The threshold field: None is an invalid one.\<close>

definition parse_threshold :: "bytes \<Rightarrow> fl option" where
  "parse_threshold threshold =
     (let s = c_str threshold; (parsed, n, range) = strtof s in
      if range \<or> n = 0 \<or> n < length s \<or> fl_less parsed (Fin 0) \<or> fl_less (Fin 1) parsed then None else Some parsed)"

definition buildRequest :: "http_request \<Rightarrow> inference_request \<Rightarrow> (bytes \<times> bytes) + inference_request" where
  "buildRequest req r =
     (if req_method req \<noteq> kPost then Inl (''METHOD_NOT_ALLOWED'', ''POST method is required'')
      else if length (req_files req) \<noteq> 1 then Inl (''INVALID_IMAGE_COUNT'', ''exactly one image file is required'')
      else
        let file = hd (req_files req) in
        if uf_fieldName file \<noteq> ''image'' \<or> uf_content file = []
        then Inl (''INVALID_IMAGE'', ''a non-empty multipart file field named image is required'')
        else if uf_contentType file \<noteq> ''image/jpeg'' \<and> uf_contentType file \<noteq> ''image/png''
        then Inl (''UNSUPPORTED_IMAGE_TYPE'', ''only image/jpeg and image/png are supported'')
        else
          let model = getBodyForm ''model'' req;
              r = r\<lparr>rq_modelName := if model = [] then ''default'' else model\<rparr> in
          case parseBackendType (getBodyForm ''backend'' req) of
            None \<Rightarrow> Inl (''INVALID_BACKEND'', ''backend must be auto, tensorflow, or tensorrt'')
          | Some be \<Rightarrow>
              let r = r\<lparr>rq_backend := be\<rparr>;
                  threshold = getBodyForm ''threshold'' req in
              case (if threshold = [] then Some (confidenceThreshold r) else parse_threshold threshold) of
                None \<Rightarrow> Inl (''INVALID_THRESHOLD'', ''threshold must be a number between 0 and 1'')
              | Some t \<Rightarrow>
                  Inr (r\<lparr>confidenceThreshold := t, rq_image := \<lparr>encoded = Some (uf_content file),
                         im_fileName = uf_fileName file, im_contentType = uf_contentType file\<rparr>\<rparr>))"

text \<open>The response to an invalid request, which \<open>handle\<close> and \<open>handleAsync\<close> both build.\<close>

definition invalid_response :: "(json \<Rightarrow> bytes) \<Rightarrow> bytes \<Rightarrow> bytes \<times> bytes \<Rightarrow> http_response \<Rightarrow> http_response" where
  "invalid_response dump requestId e resp =
     (let (errorCode, errorMessage) = e;
          (status, phrase, resp) =
            (if errorCode = ''METHOD_NOT_ALLOWED''
             then (k405MethodNotAllowed, ''Method Not Allowed'', rsp_addHeader ''Allow'' ''POST'' resp)
             else if errorCode = ''UNSUPPORTED_IMAGE_TYPE''
             then (k415UnsupportedMediaType, ''Unsupported Media Type'', resp)
             else (k400BadRequest, ''Bad Request'', resp))
      in setJsonError dump status phrase requestId errorCode errorMessage resp)"

definition infer_handle :: "(json \<Rightarrow> bytes) \<Rightarrow> 64 word \<Rightarrow> http_request \<Rightarrow> http_response \<Rightarrow> 's api \<Rightarrow> http_response \<times> 's api" where
  "infer_handle dump now req resp st =
     (let (requestId, st) = nextRequestId now st in
      case buildRequest req (inference_request_new\<lparr>rq_requestId := requestId\<rparr>) of
        Inl e \<Rightarrow> (invalid_response dump requestId e resp, on_metrics (recordValidationFailure (fst e)) st)
      | Inr _ \<Rightarrow> (setJsonError dump k501NotImplemented ''Not Implemented'' requestId ''BACKEND_NOT_IMPLEMENTED''
                   ''the inference API is valid, but no inference backend is connected yet'' resp, st))"

definition sendResponseAndClose :: "(http_response \<Rightarrow> (bytes \<times> bytes) list) \<Rightarrow> int \<Rightarrow> http_response \<Rightarrow> http_world \<Rightarrow> http_world" where
  "sendResponseAndClose order cur resp w =
     (let buf = appendToBuffer (order resp) resp (buffer_new kInitialSize);
          w = send cur (fst (retrieveAllAsString buf)) w
      in shutdown cur w)"

text \<open>What the completion queues in the loop, if the connection still exists.\<close>

definition result_response :: "(json \<Rightarrow> bytes) \<Rightarrow> inference_result \<Rightarrow> http_response" where
  "result_response dump res =
     (let resp = setContentType ''application/json; charset=utf-8'' (http_response_new True);
          invalidImage = (rs_errorCode res = ''IMAGE_DECODE_FAILED'');
          resp = (if rs_success res then setStatusMessage ''OK'' (setStatusCode k200Ok resp)
                  else setStatusMessage (if invalidImage then ''Unprocessable Entity'' else ''Internal Server Error'')
                         (setStatusCode (if invalidImage then k422UnprocessableEntity else k500InternalServerError) resp))
      in rsp_setBody (serializeInferenceResult dump res) resp)"

definition completion_body :: "(json \<Rightarrow> bytes) \<Rightarrow> (http_response \<Rightarrow> (bytes \<times> bytes) list) \<Rightarrow> int \<Rightarrow> inference_result \<Rightarrow> http_world \<Rightarrow> http_world" where
  "completion_body dump order cur res w =
     (if \<not> connected (conn w) then w else sendResponseAndClose order cur (result_response dump res) w)"

definition refusal :: "submit_result \<Rightarrow> bytes \<times> bytes \<times> bool" where
  "refusal submitted =
     (let backendUnavailable = (submitted = kBackendUnavailable);
          modelUnavailable = (submitted = kModelUnavailable)
      in (if backendUnavailable then ''BACKEND_UNAVAILABLE''
          else if modelUnavailable then ''MODEL_UNAVAILABLE''
          else if submitted = kQueueFull then ''INFERENCE_QUEUE_FULL'' else ''SCHEDULER_UNAVAILABLE'',
          if backendUnavailable then ''requested inference backend is not available''
          else if modelUnavailable then ''requested model is not available''
          else if submitted = kQueueFull then ''inference queue is full'' else ''inference scheduler is not running'',
          backendUnavailable \<or> modelUnavailable))"

text \<open>\<open>now\<close> is the system clock, \<open>enq\<close> the steady clock, \<open>wk\<close> the worker that \<open>notify_one\<close> wakes.\<close>

definition handleAsync :: "(json \<Rightarrow> bytes) \<Rightarrow> (http_response \<Rightarrow> (bytes \<times> bytes) list) \<Rightarrow> int \<Rightarrow> 64 word \<Rightarrow> int \<Rightarrow> nat
    \<Rightarrow> http_request \<Rightarrow> 's api \<times> http_world \<Rightarrow> bool \<times> 's api \<times> http_world" where
  "handleAsync dump order cur now enq wk req sw =
     (let (st, w) = sw in
      if req_path req \<noteq> ''/v1/infer'' then (False, st, w)
      else
        let (requestId, st) = nextRequestId now st in
        case buildRequest req (inference_request_new\<lparr>rq_requestId := requestId\<rparr>) of
          Inl e \<Rightarrow> (True, st, sendResponseAndClose order cur (invalid_response dump requestId e (http_response_new True)) w)
        | Inr r \<Rightarrow>
          (case api_scheduler st of
             None \<Rightarrow>
               let st = on_metrics (recordSubmissionFailure (rq_modelName r) (rq_backend r) ''scheduler_unavailable'') st;
                   resp = setJsonError dump k503ServiceUnavailable ''Service Unavailable'' requestId
                            ''SCHEDULER_UNAVAILABLE'' ''inference scheduler is not running'' (http_response_new True)
               in (True, st, sendResponseAndClose order cur resp w)
           | Some sc \<Rightarrow>
               let (submitted, sc) = submit enq wk r (Some (conn_addr (conn w))) sc;
                   st = st\<lparr>api_scheduler := Some sc\<rparr>
               in if submitted \<noteq> kAccepted
                  then
                    let (code, message, unprocessable) = refusal submitted;
                        st = on_metrics (recordSubmissionFailure (rq_modelName r) (rq_backend r) code) st;
                        resp = setJsonError dump (if unprocessable then k422UnprocessableEntity else k503ServiceUnavailable)
                                 (if unprocessable then ''Unprocessable Entity'' else ''Service Unavailable'')
                                 requestId code message (http_response_new True);
                        resp = (if \<not> unprocessable then rsp_addHeader ''Retry-After'' ''1'' resp else resp)
                    in (True, st, sendResponseAndClose order cur resp w)
                  else (True, st, stopRead cur w)))"

end
