(* ===== verification/Inference_Api_Props.thy ===== *)
theory Inference_Api_Props
  imports Inference_Api
begin

text \<open>
  What the inference API guarantees: every request is answered once or handed to the scheduler once, only valid requests
  reach it, and request ids do not repeat.
\<close>

section \<open>Answers\<close>

definition answered :: "(http_response \<Rightarrow> (bytes \<times> bytes) list) \<Rightarrow> http_world \<Rightarrow> http_world \<Rightarrow> http_response \<Rightarrow> bool" where
  "answered order w w' resp \<longleftrightarrow>
     wire w' @ out_pending w' = wire w @ out_pending w @ response_bytes (order resp) resp
     \<and> conn_state (conn w') = kDisconnecting \<and> closeConnection resp"

text \<open>The same when the write may meet a broken connection, with which the response is dropped.\<close>

definition replied :: "(http_response \<Rightarrow> (bytes \<times> bytes) list) \<Rightarrow> int \<Rightarrow> http_world \<Rightarrow> http_world \<Rightarrow> http_response \<Rightarrow> bool" where
  "replied order cur w w' resp \<longleftrightarrow>
     wire w' @ out_pending w' = wire w @ out_pending w
       @ (if accepts cur (response_bytes (order resp) resp) w then response_bytes (order resp) resp else [])
     \<and> conn_state (conn w') = kDisconnecting \<and> closeConnection resp"

lemma replied_answered: "serving cur w \<Longrightarrow> replied order cur w w' resp \<Longrightarrow> answered order w w' resp"
  using calm_accepts [of w cur] by (simp add: replied_def answered_def serving_def)

lemma shutdown_stream [simp]:
  "wire (shutdown cur w) = wire w" "out_pending (shutdown cur w) = out_pending w"
  "conn_state (conn w) = kConnected \<Longrightarrow> conn_state (conn (shutdown cur w)) = kDisconnecting"
  by (simp_all add: shutdown_def setState_def shutdownInLoop_def queue_task_def out_pending_def Let_def)

lemma sendResponseAndClose_replies:
  assumes "working cur w" "length (rsp_body resp) < 10 ^ 13" "closeConnection resp"
  shows "replied order cur w (sendResponseAndClose order cur resp w) resp"
proof -
  let ?w = "send cur (fst (retrieveAllAsString (appendToBuffer (order resp) resp (buffer_new kInitialSize)))) w"
  have "working cur ?w" "wire ?w @ out_pending ?w = wire w @ out_pending w
      @ (if accepts cur (response_bytes (order resp) resp) w then response_bytes (order resp) resp else [])"
    using send_response_any [OF assms(1,2) refl] by auto
  then show ?thesis using assms(3) by (simp add: replied_def sendResponseAndClose_def working_def Let_def)
qed

lemmas rsp_setters = setStatusCode_def setStatusMessage_def setContentType_def rsp_addHeader_def rsp_setBody_def
  http_response_new_def setCloseConnection_def

lemma setJsonError_frame [simp]:
  "rsp_status (setJsonError dump s m i c e r) = s" "closeConnection (setJsonError dump s m i c e r) = closeConnection r"
  "rsp_body (setJsonError dump s m i c e r) = serializeApiError dump i c e"
  "rsp_headers (setJsonError dump s m i c e r) = (rsp_headers r)(''Content-Type'' \<mapsto> ''application/json; charset=utf-8'')"
  by (simp_all add: setJsonError_def rsp_setters Let_def)

lemma stopRead_frame:
  assumes "isInLoopThread cur (io_loop w)"
  shows "wire (stopRead cur w) = wire w" "out_pending (stopRead cur w) = out_pending w"
    "conn_state (conn (stopRead cur w)) = conn_state (conn w)" "\<not> reading (conn (stopRead cur w))"
  using assms by (simp_all add: stopRead_def stopReadInLoop_def out_pending_def)

lemma submit_request:
  assumes "submit now wk r c sc = (kAccepted, sc')"
  shows "\<exists>t. accepted sc' = accepted sc @ [t] \<and> tasks sc' = tasks sc @ [t] \<and> tk_completion t = c
    \<and> rq_requestId (tk_request t) = rq_requestId r \<and> rq_image (tk_request t) = rq_image r
    \<and> confidenceThreshold (tk_request t) = confidenceThreshold r"
  using submit_frame [OF assms] by auto

lemma submit_refused: "submit now wk r c sc = (res, sc') \<Longrightarrow> res \<noteq> kAccepted \<Longrightarrow> sc' = sc"
  using submit_frame by blast

lemma buildRequest_id: "buildRequest req r = Inr r' \<Longrightarrow> rq_requestId r' = rq_requestId r"
  by (auto simp: buildRequest_def Let_def split: if_splits option.splits)

text \<open>The three outcomes of a request.\<close>

lemma handleAsync_outcome:
  assumes "req_path req = ''/v1/infer''" "api_scheduler st = Some sc" "working cur w" "\<forall>j. length (dump j) < 10 ^ 13"
    "handleAsync dump order cur now enq wk req (st, w) = (took, st', w')"
  obtains (invalid) e resp where "took" "buildRequest req (inference_request_new\<lparr>rq_requestId := fst (nextRequestId now st)\<rparr>) = Inl e"
      "st' = snd (nextRequestId now st)" "replied order cur w w' resp"
      "rsp_status resp = (if fst e = ''METHOD_NOT_ALLOWED'' then k405MethodNotAllowed
         else if fst e = ''UNSUPPORTED_IMAGE_TYPE'' then k415UnsupportedMediaType else k400BadRequest)"
  | (accepted) r sc' where "took" "buildRequest req (inference_request_new\<lparr>rq_requestId := fst (nextRequestId now st)\<rparr>) = Inr r"
      "submit enq wk r (Some (conn_addr (conn w))) sc = (kAccepted, sc')"
      "st' = (snd (nextRequestId now st))\<lparr>api_scheduler := Some sc'\<rparr>" "w' = stopRead cur w"
  | (refused) r res code resp where "took" "buildRequest req (inference_request_new\<lparr>rq_requestId := fst (nextRequestId now st)\<rparr>) = Inr r"
      "submit enq wk r (Some (conn_addr (conn w))) sc = (res, sc)" "res \<noteq> kAccepted"
      "st' = on_metrics (recordSubmissionFailure (rq_modelName r) (rq_backend r) code) (snd (nextRequestId now st))"
      "replied order cur w w' resp" "rsp_status resp \<in> {k422UnprocessableEntity, k503ServiceUnavailable}"
      "rsp_headers resp ''Retry-After'' = (if rsp_status resp = k503ServiceUnavailable then Some ''1'' else None)"
proof -
  obtain id st1 where id: "nextRequestId now st = (id, st1)" by (metis surj_pair)
  have st1: "api_scheduler st1 = Some sc" using id assms(2) by (auto simp: nextRequestId_def)
  have ans: "replied order cur w (sendResponseAndClose order cur resp w) resp"
    if "closeConnection resp" "\<exists>j. rsp_body resp = dump j" for resp
    using sendResponseAndClose_replies [OF assms(3) _ that(1)] that(2) assms(4) by auto
  show thesis
  proof (cases "buildRequest req (inference_request_new\<lparr>rq_requestId := id\<rparr>)")
    case (Inl e)
    let ?resp = "invalid_response dump id e (http_response_new True)"
    have eq: "took" "st' = st1" "w' = sendResponseAndClose order cur ?resp w"
      using assms(5) by (simp_all add: handleAsync_def assms(1) id Inl)
    have "closeConnection ?resp \<and> (\<exists>j. rsp_body ?resp = dump j) \<and> rsp_status ?resp =
        (if fst e = ''METHOD_NOT_ALLOWED'' then k405MethodNotAllowed
         else if fst e = ''UNSUPPORTED_IMAGE_TYPE'' then k415UnsupportedMediaType else k400BadRequest)"
      by (cases e) (auto simp: invalid_response_def rsp_setters serializeApiError_def)
    then show thesis using ans [of ?resp] Inl eq id by (intro invalid [of e ?resp]) simp_all
  next
    case (Inr r)
    obtain res sc' where sub: "submit enq wk r (Some (conn_addr (conn w))) sc = (res, sc')" by (metis surj_pair)
    show thesis
    proof (cases "res = kAccepted")
      case True
      then show thesis using assms(5) sub Inr id by (intro accepted [of r sc']) (simp_all add: handleAsync_def assms(1) st1)
    next
      case False
      then have sc': "sc' = sc" using submit_refused [OF sub] by simp
      obtain code msg unp where rf: "refusal res = (code, msg, unp)" by (metis prod_cases3)
      define resp0 where "resp0 = setJsonError dump (if unp then k422UnprocessableEntity else k503ServiceUnavailable)
          (if unp then ''Unprocessable Entity'' else ''Service Unavailable'') id code msg (http_response_new True)"
      define resp where "resp = (if \<not> unp then rsp_addHeader ''Retry-After'' ''1'' resp0 else resp0)"
      have same: "st1\<lparr>api_scheduler := Some sc\<rparr> = st1" using st1 by (cases st1) simp
      have eq: "took" "st' = on_metrics (recordSubmissionFailure (rq_modelName r) (rq_backend r) code) st1"
        "w' = sendResponseAndClose order cur resp w"
        using assms(5) False by (cases unp; simp add: handleAsync_def assms(1) id Inr st1 sub sc' rf resp_def resp0_def same Let_def)+
      have resp: "closeConnection resp" "\<exists>j. rsp_body resp = dump j" "rsp_status resp \<in> {k422UnprocessableEntity, k503ServiceUnavailable}"
        "rsp_headers resp ''Retry-After'' = (if rsp_status resp = k503ServiceUnavailable then Some ''1'' else None)"
        by (auto simp: resp_def resp0_def rsp_addHeader_def serializeApiError_def http_response_new_def)
      show thesis using ans [OF resp(1,2)] resp(3,4) eq id Inr sub sc' False by (intro refused [of r res code resp]) simp_all
    qed
  qed
qed

lemma api_frame [simp]:
  "api_scheduler (snd (nextRequestId now st)) = api_scheduler st" "api_metrics (snd (nextRequestId now st)) = api_metrics st"
  "api_scheduler st = Some sc \<Longrightarrow> on_metrics f st = st\<lparr>api_scheduler := Some (sc\<lparr>sc_metrics := map_option f (sc_metrics sc)\<rparr>)\<rparr>"
  by (simp_all add: nextRequestId_def on_metrics_def)

text \<open>
  Property C3. One answer each: a request for \<open>/v1/infer\<close> on a connection that is being served, while no write of the kernel
  meets a broken connection and the library's JSON texts stay below 10^13 bytes, is always taken. If it is
  invalid, it is answered with 405, 415 or 400 and neither the scheduler nor any metric changes; if the scheduler accepts it,
  exactly one task with its id and its connection is queued, nothing is sent, and the connection is no longer read; if not,
  the queue is unchanged and the answer is 422, or 503 with \<open>Retry-After\<close>. Every answer is exactly one response, followed
  by a close.
\<close>

theorem infer_answered:
  assumes "req_path req = ''/v1/infer''" "api_scheduler st = Some sc" "serving cur w" "\<forall>j. length (dump j) < 10 ^ 13"
    "handleAsync dump order cur now enq wk req (st, w) = (took, st', w')"
  shows "took \<and> (\<exists>sc'. api_scheduler st' = Some sc' \<and> api_metrics st' = api_metrics st \<and>
    (case buildRequest req (inference_request_new\<lparr>rq_requestId := fst (nextRequestId now st)\<rparr>) of
       Inl e \<Rightarrow> sc' = sc \<and> (\<exists>resp. answered order w w' resp \<and> rsp_status resp =
          (if fst e = ''METHOD_NOT_ALLOWED'' then k405MethodNotAllowed
           else if fst e = ''UNSUPPORTED_IMAGE_TYPE'' then k415UnsupportedMediaType else k400BadRequest))
     | Inr r \<Rightarrow>
         (\<exists>t. accepted sc' = accepted sc @ [t] \<and> tasks sc' = tasks sc @ [t] \<and> tk_completion t = Some (conn_addr (conn w))
            \<and> rq_requestId (tk_request t) = fst (nextRequestId now st) \<and> rq_image (tk_request t) = rq_image r
            \<and> wire w' = wire w \<and> out_pending w' = out_pending w \<and> connected (conn w') \<and> \<not> reading (conn w'))
         \<or> (accepted sc' = accepted sc \<and> tasks sc' = tasks sc
            \<and> (\<exists>resp. answered order w w' resp \<and> rsp_status resp \<in> {k422UnprocessableEntity, k503ServiceUnavailable}
                 \<and> rsp_headers resp ''Retry-After'' = (if rsp_status resp = k503ServiceUnavailable then Some ''1'' else None)))))"
proof (cases rule: handleAsync_outcome [OF assms(1,2) _ assms(4,5)])
  case 1
  show ?case using assms(3) by (simp add: serving_working)
next
  case (2 e resp)
  then show ?thesis using assms(2) replied_answered [OF assms(3) 2(4)] by auto
next
  case accepted: (3 r sc')
  have loop: "isInLoopThread cur (io_loop w)" "conn_state (conn w) = kConnected" using assms(3) by (simp_all add: serving_def)
  show ?thesis
    using submit_request [OF accepted(3)] stopRead_frame [OF loop(1)] loop(2) accepted buildRequest_id [OF accepted(2)]
    by (auto simp: connected_def)
next
  case (4 r res code resp)
  then show ?thesis using assms(2) replied_answered [OF assms(3) 4(6)] by auto
qed

definition demo_api :: "mock_backend api" where
  "demo_api = \<lparr>api_scheduler = Some demo_start, api_metrics = None, api_sequence = 0\<rparr>"

definition get_infer :: http_request where
  "get_infer = http_request_new\<lparr>req_method := kGet, req_path := ''/v1/infer''\<rparr>"

lemma infer_answered_witness:
  "\<exists>w st' w' resp. serving 1 w \<and> handleAsync (\<lambda>_. ''{}'') (\<lambda>_. []) 1 17 5 0 get_infer (demo_api, w) = (True, st', w')
     \<and> answered (\<lambda>_. []) w w' resp \<and> rsp_status resp = k405MethodNotAllowed"
proof -
  let ?v = "connectEstablished no_callbacks http_world"
  let ?w = "?v\<lparr>conn := (conn ?v)\<lparr>inputBuffer := append [] (buffer_new 16), appContext := None\<rparr>\<rparr>"
  have "net_calm (net_answer http_world)"
    by (simp add: http_world_def net_calm_def tcp_connection_new_def Let_def)
  then have s: "serving 1 ?w" using serving_sample [OF http_world_fresh(1)] http_world_fresh(2) by metis
  obtain took st' w' where h: "handleAsync (\<lambda>_. ''{}'') (\<lambda>_. []) 1 17 5 0 get_infer (demo_api, ?w) = (took, st', w')"
    by (metis prod_cases3)
  have p: "req_path get_infer = ''/v1/infer''" "api_scheduler demo_api = Some demo_start" "\<forall>j :: json. length ''{}'' < 10 ^ 13"
    by (simp_all add: get_infer_def demo_api_def)
  have b: "buildRequest get_infer r = Inl (''METHOD_NOT_ALLOWED'', ''POST method is required'')" for r
    by (simp add: buildRequest_def get_infer_def)
  from infer_answered [OF p(1,2) s p(3) h] have "took = True" "\<exists>resp. answered (\<lambda>_. []) ?w w' resp \<and> rsp_status resp = k405MethodNotAllowed"
    unfolding b by auto
  then obtain resp where "answered (\<lambda>_. []) ?w w' resp \<and> rsp_status resp = k405MethodNotAllowed" by blast
  with h [unfolded \<open>took = True\<close>] s show ?thesis by (intro exI [of _ ?w] exI [of _ st'] exI [of _ w'] exI [of _ resp] conjI) simp_all
qed

section \<open>Validation\<close>

text \<open>
  Property C26. Only valid requests get through: what \<open>buildRequest\<close> accepts is a POST with exactly one file, a non-empty JPEG
  or PNG in the field \<open>image\<close>, which becomes the image of the task; its model name is not empty, its backend is the one
  named, and its threshold is a number between 0 and 1, or not a number at all.
\<close>

theorem infer_request_valid:
  assumes "buildRequest req r = Inr r'" "fl_leq (Fin 0) (confidenceThreshold r)" "fl_leq (confidenceThreshold r) (Fin 1)"
  shows "req_method req = kPost
    \<and> (\<exists>f. req_files req = [f] \<and> uf_fieldName f = ''image'' \<and> uf_content f \<noteq> []
         \<and> (uf_contentType f = ''image/jpeg'' \<or> uf_contentType f = ''image/png'') \<and> encoded (rq_image r') = Some (uf_content f))
    \<and> rq_modelName r' \<noteq> [] \<and> parseBackendType (getBodyForm ''backend'' req) = Some (rq_backend r')
    \<and> (confidenceThreshold r' = NotNum
       \<or> fl_leq (Fin 0) (confidenceThreshold r') \<and> fl_leq (confidenceThreshold r') (Fin 1))"
proof -
  have range: "t = NotNum \<or> fl_leq (Fin 0) t \<and> fl_leq t (Fin 1)" if "parse_threshold s = Some t" for s t
  proof -
    obtain v n e where st: "strtof (c_str s) = (v, n, e)" by (metis prod_cases3)
    then have "t = v" "\<not> fl_less v (Fin 0)" "\<not> fl_less (Fin 1) v"
      using that by (auto simp: parse_threshold_def st Let_def split: if_splits)
    then show ?thesis using fl_not_less [of v "Fin 0"] fl_not_less [of "Fin 1" v] by auto
  qed
  have one: "req_files req = [hd (req_files req)]" if "length (req_files req) = 1"
    using that by (cases "req_files req") auto
  have post: "req_method req = kPost" and len: "length (req_files req) = 1"
    using assms(1) by (simp_all add: buildRequest_def split: if_splits)
  let ?f = "hd (req_files req)"
  have upl: "uf_fieldName ?f = ''image''" "uf_content ?f \<noteq> []"
    by (rule ccontr, use assms(1) post len in \<open>simp add: buildRequest_def Let_def\<close>)+
  have type: "uf_contentType ?f = ''image/jpeg'' \<or> uf_contentType ?f = ''image/png''"
    by (rule ccontr) (use assms(1) post len upl in \<open>simp add: buildRequest_def Let_def\<close>)
  then have nt: "\<not> (uf_contentType ?f \<noteq> ''image/jpeg'' \<and> uf_contentType ?f \<noteq> ''image/png'')" by blast
  obtain be where be: "parseBackendType (getBodyForm ''backend'' req) = Some be"
    using assms(1) post len upl nt by (cases "parseBackendType (getBodyForm ''backend'' req)") (simp_all add: buildRequest_def Let_def)
  let ?t = "if getBodyForm ''threshold'' req = [] then Some (confidenceThreshold r) else parse_threshold (getBodyForm ''threshold'' req)"
  obtain t where t: "?t = Some t" "confidenceThreshold r' = t" "rq_backend r' = be" "encoded (rq_image r') = Some (uf_content ?f)"
    "rq_modelName r' = (if getBodyForm ''model'' req = [] then ''default'' else getBodyForm ''model'' req)"
    using assms(1) post len upl nt be by (cases ?t) (auto simp: buildRequest_def Let_def split: if_splits)
  have "t = NotNum \<or> fl_leq (Fin 0) t \<and> fl_leq t (Fin 1)"
    using t(1) range assms(2,3) by (auto split: if_splits)
  then show ?thesis using post one [OF len] upl type be t(2-5) by (intro conjI exI [of _ ?f]) auto
qed

definition post_infer :: http_request where
  "post_infer = http_request_new\<lparr>req_method := kPost, req_path := ''/v1/infer'', req_bodyform := [''threshold'' \<mapsto> ''0.5''],
     req_files := [\<lparr>uf_fieldName = ''image'', uf_fileName = ''a.png'', uf_contentType = ''image/png'', uf_content = ''PNG''\<rparr>]\<rparr>"

lemma infer_request_valid_witness:
  "\<exists>r'. buildRequest post_infer inference_request_new = Inr r' \<and> encoded (rq_image r') = Some ''PNG''"
proof -
  have t: "parse_threshold ''0.5'' = Some (Fin (1 / 2))" by code_simp
  have f: "req_method post_infer = kPost" "req_files post_infer =
      [\<lparr>uf_fieldName = ''image'', uf_fileName = ''a.png'', uf_contentType = ''image/png'', uf_content = ''PNG''\<rparr>]"
    "getBodyForm ''model'' post_infer = []" "getBodyForm ''backend'' post_infer = []" "getBodyForm ''threshold'' post_infer = ''0.5''"
    by (simp_all add: post_infer_def getBodyForm_def http_request_new_def)
  obtain r' where r': "buildRequest post_infer inference_request_new = Inr r'"
    unfolding buildRequest_def f by (simp add: parseBackendType_def t Let_def)
  have c: "fl_leq (Fin 0) (confidenceThreshold inference_request_new)" "fl_leq (confidenceThreshold inference_request_new) (Fin 1)"
    by (simp_all add: inference_request_new_def)
  from infer_request_valid [OF r' c] have "encoded (rq_image r') = Some ''PNG''" by (auto simp: post_infer_def)
  with r' show ?thesis by blast
qed

text \<open>
  A threshold that is no threshold: the form value \<open>nan\<close> passes the validation, and under it postprocessing
  keeps every candidate box of a positive extent, whatever its score.
\<close>

theorem nan_threshold:
  "parse_threshold ''nan'' = Some NotNum
   \<and> candidate out img NotNum i =
       (let (c, score) = best_class out i; d = detection_at out img i c score
        in if fl_less (x1 d) (x2 d) \<and> fl_less (y1 d) (y2 d) then Some d else None)"
proof -
  have "parse_threshold ''nan'' = Some NotNum" 
    by (simp add: parse_threshold_def strtof_def read_unsigned_def to_lower_def tolower_char_def nan_tag_def c_str_def isspace_def)
  then show ?thesis by (simp add: candidate_def split: prod.splits)
qed

section \<open>Request ids\<close>

fun issue_ids :: "64 word list \<Rightarrow> 's api \<Rightarrow> bytes list" where
  "issue_ids [] st = []"
| "issue_ids (now # nows) st = (let (id, st) = nextRequestId now st in id # issue_ids nows st)"

lemma hex_digits_ne: "hex_digits n \<noteq> []"
  by (subst hex_digits.simps) simp

lemma hex_char_facts:
  "n < 16 \<Longrightarrow> hex_char n \<noteq> CHR ''-''" "i < 16 \<Longrightarrow> j < 16 \<Longrightarrow> hex_char i = hex_char j \<longleftrightarrow> i = j"
proof -
  have "hex_char n \<in> set ''0123456789abcdef''" if "n < 16" unfolding hex_char_def by (rule nth_mem) (use that in simp)
  moreover have "CHR ''-'' \<notin> set ''0123456789abcdef''" by simp
  ultimately show "n < 16 \<Longrightarrow> hex_char n \<noteq> CHR ''-''" by metis
  show "i < 16 \<Longrightarrow> j < 16 \<Longrightarrow> hex_char i = hex_char j \<longleftrightarrow> i = j"
    unfolding hex_char_def by (rule nth_eq_iff_index_eq) simp_all
qed

lemma hex_chars: "c \<in> set (hex_digits n) \<Longrightarrow> c \<noteq> CHR ''-''"
proof (induction n rule: hex_digits.induct)
  case (1 n)
  show ?case
  proof (cases "n < 16")
    case True
    then have "c = hex_char n" using 1(2) by (subst (asm) hex_digits.simps) simp
    then show ?thesis using hex_char_facts(1) [OF True] by simp
  next
    case False
    then have "c \<in> set (hex_digits (n div 16)) \<or> c = hex_char (n mod 16)"
      using 1(2) by (subst (asm) hex_digits.simps) auto
    then show ?thesis using 1(1) [OF False] hex_char_facts(1) [of "n mod 16"] by auto
  qed
qed

lemma hex_digits_inj: "hex_digits n = hex_digits m \<Longrightarrow> n = m"
proof (induction n arbitrary: m rule: hex_digits.induct)
  case (1 n)
  have eq: "hex_digits k = (if k < 16 then [] else hex_digits (k div 16)) @ [hex_char (k mod 16)]" for k
    by (subst hex_digits.simps) simp
  have last: "n mod 16 = m mod 16" and init: "(if n < 16 then [] else hex_digits (n div 16)) = (if m < 16 then [] else hex_digits (m div 16))"
    using 1(2) eq [of n] eq [of m] hex_char_facts(2) [of "n mod 16" "m mod 16"] by (auto simp: append1_eq_conv)
  show ?case
  proof (cases "n < 16")
    case True
    with init have "m < 16" using hex_digits_ne [of "m div 16"] by (auto split: if_splits)
    then show ?thesis using True last by simp
  next
    case False
    with init have "m \<ge> 16" using hex_digits_ne [of "n div 16"] by (auto split: if_splits)
    with init False have "n div 16 = m div 16" by (intro 1(1)) simp_all
    then show ?thesis using last by (metis div_mult_mod_eq)
  qed
qed

lemma id_sequence:
  assumes "hex_digits a @ CHR ''-'' # hex_digits b = hex_digits c @ CHR ''-'' # hex_digits d"
  shows "b = d"
proof -
  have "dropWhile (\<lambda>c. c \<noteq> CHR ''-'') (hex_digits n @ CHR ''-'' # ys) = CHR ''-'' # ys" for n ys
    using hex_chars [of _ n] by (subst dropWhile_append2) auto
  with assms have "hex_digits b = hex_digits d" by (metis list.inject)
  then show ?thesis by (rule hex_digits_inj)
qed

lemma issued:
  "nm \<in> set (issue_ids nows st) \<Longrightarrow>
   \<exists>a k. k < length nows \<and> nm = hex_digits a @ CHR ''-'' # hex_digits (unat (api_sequence st + of_nat k))"
proof (induction nows arbitrary: st)
  case (Cons now nows)
  show ?case
  proof (cases "nm = fst (nextRequestId now st)")
    case True
    then show ?thesis by (intro exI [of _ "unat now"] exI [of _ 0]) (simp add: nextRequestId_def)
  next
    case False
    with Cons.prems have "nm \<in> set (issue_ids nows (st\<lparr>api_sequence := api_sequence st + 1\<rparr>))"
      by (simp add: nextRequestId_def)
    from Cons.IH [OF this] obtain a k where "k < length nows"
      "nm = hex_digits a @ CHR ''-'' # hex_digits (unat (api_sequence st + 1 + of_nat k))" by auto
    then show ?thesis by (intro exI [of _ a] exI [of _ "Suc k"]) (simp add: algebra_simps)
  qed
qed simp

text \<open>
  Request ids do not repeat: whatever the clock shows, also when it stands still or goes back, the ids of up to
  2^64 consecutive requests are distinct.
\<close>

theorem request_ids_distinct:
  assumes "length nows \<le> 2 ^ 64"
  shows "distinct (issue_ids nows st)"
  using assms
proof (induction nows arbitrary: st)
  case (Cons now nows)
  let ?st = "st\<lparr>api_sequence := api_sequence st + 1\<rparr>"
  have "hex_digits (unat now) @ CHR ''-'' # hex_digits (unat (api_sequence st)) \<notin> set (issue_ids nows ?st)"
  proof
    assume "hex_digits (unat now) @ CHR ''-'' # hex_digits (unat (api_sequence st)) \<in> set (issue_ids nows ?st)"
    from issued [OF this] obtain a k where k: "k < length nows"
      "hex_digits (unat now) @ CHR ''-'' # hex_digits (unat (api_sequence st))
        = hex_digits a @ CHR ''-'' # hex_digits (unat (api_sequence st + 1 + of_nat k))" by auto
    from id_sequence [OF k(2)] have "api_sequence st = api_sequence st + 1 + of_nat k" using word_unat_eq_iff by blast
    then have "api_sequence st = api_sequence st + (1 + of_nat k)" by (simp only: add.assoc)
    then have "of_nat (Suc k) = (0 :: 64 word)" by simp
    then have "(2 :: nat) ^ 64 dvd Suc k" by (simp add: word_of_nat_eq_0_iff del: of_nat_Suc)
    then have "2 ^ 64 \<le> Suc k" by (rule dvd_imp_le) simp
    then show False using k(1) Cons.prems by simp
  qed
  then show ?case using Cons.IH [of ?st] Cons.prems by (simp add: nextRequestId_def)
qed simp

lemma request_ids_distinct_witness:
  "\<forall>st :: unit api. distinct (issue_ids [5, 5, 4] st)"
  by (rule allI, rule request_ids_distinct) simp

end
