(* ===== verification/Infer_Flow.thy ===== *)
theory Infer_Flow
  imports Inference_Api_Props
begin

text \<open>
  What becomes of the inference requests of all clients: the controller, the scheduler with its workers, the queue of each
  loop and the connections, run together (\<open>InferenceController.cc\<close> with \<open>InferenceScheduler.cc\<close>).

  Connections are known by their addresses; one that is gone is None. A step is a new connection, a request on a connection
  that is read, whatever other requests on it change, a step of the scheduler or of a worker, a queued functor run by its loop, the peer hanging up, or the end of
  a connection no functor refers to. A write may fail with any error: with EPIPE or ECONNRESET \<open>sendInLoop\<close> drops the response.
  That the output buffer drains to the socket is a matter of the connection alone and
  left out: a response counts as soon as it is on the wire or in the buffer. A hang-up may come at any time, also
  while the connection waits and is not watched, when the code learns of it only by the failing write.
\<close>

section \<open>The system\<close>

text \<open>
  \<open>inbox\<close> holds the functors the completions queued; \<open>answered\<close> and \<open>dropped\<close> are histories, of the functors that sent
  a response, and of the results for which there was nobody left; \<open>lost\<close> holds the connections that went away: whose peer hung
  up, that ended, or on which a write failed; \<open>before\<close> is what had been sent on a connection when its request came.
\<close>

record 's infer_system =
  sys_api :: "'s api"
  sys_conns :: "nat \<Rightarrow> http_world option"
  sys_seen :: "nat set"
  sys_inbox :: "(nat \<times> inference_result) list"
  sys_answered :: "(nat \<times> inference_result) list"
  sys_dropped :: "(nat \<times> inference_result) list"
  sys_lost :: "nat set"
  sys_before :: "nat \<Rightarrow> bytes"

definition sent :: "http_world \<Rightarrow> bytes" where
  "sent w = wire w @ out_pending w"

text \<open>The completion a worker calls: \<open>weakConnection.lock()\<close>, and \<open>queueInLoop\<close> if the connection still exists.\<close>

definition completion_call :: "nat \<times> inference_result \<Rightarrow> 's infer_system \<Rightarrow> 's infer_system" where
  "completion_call c sys =
     (if sys_conns sys (fst c) = None then sys\<lparr>sys_dropped := sys_dropped sys @ [c]\<rparr>
      else sys\<lparr>sys_inbox := sys_inbox sys @ [c]\<rparr>)"

text \<open>The direct write of a response finds the connection whole.\<close>

definition writes :: "(json \<Rightarrow> bytes) \<Rightarrow> (http_response \<Rightarrow> (bytes \<times> bytes) list) \<Rightarrow> int \<Rightarrow> inference_result \<Rightarrow> http_world \<Rightarrow> bool" where
  "writes dump order cur res w =
     (\<not> snd (snd (fst (send_direct cur (response_bytes (order (result_response dump res)) (result_response dump res)) w))))"

inductive infer_step :: "(json \<Rightarrow> bytes) \<Rightarrow> (http_response \<Rightarrow> (bytes \<times> bytes) list) \<Rightarrow> (nat \<Rightarrow> 's backend_class)
    \<Rightarrow> 's infer_system \<Rightarrow> 's infer_system \<Rightarrow> bool"
  for dump :: "json \<Rightarrow> bytes" and order :: "http_response \<Rightarrow> (bytes \<times> bytes) list" and cls :: "nat \<Rightarrow> 's backend_class" where
  connect: "a \<notin> sys_seen sys \<Longrightarrow> working cur w \<Longrightarrow> conn_addr (conn w) = a \<Longrightarrow> reading (conn w) \<Longrightarrow>
     infer_step dump order cls sys (sys\<lparr>sys_seen := insert a (sys_seen sys), sys_conns := (sys_conns sys)(a \<mapsto> w)\<rparr>)"
| other: "sys_conns sys a = Some w \<Longrightarrow> working cur w \<Longrightarrow> reading (conn w) \<Longrightarrow> working cur w' \<and> conn_addr (conn w') = a \<or> \<not> connected (conn w') \<Longrightarrow>
     infer_step dump order cls sys (sys\<lparr>sys_conns := (sys_conns sys)(a \<mapsto> w')\<rparr>)"
| request: "sys_conns sys a = Some w \<Longrightarrow> working cur w \<Longrightarrow> reading (conn w) \<Longrightarrow> req_path req = ''/v1/infer'' \<Longrightarrow>
     api_scheduler (sys_api sys) = Some sc \<Longrightarrow>
     (\<exists>i < length (workers sc). workers sc ! i = Sleeping) \<longrightarrow> wk < length (workers sc) \<and> workers sc ! wk = Sleeping \<Longrightarrow>
     handleAsync dump order cur now enq wk req (sys_api sys, w) = (took, st', w') \<Longrightarrow>
     infer_step dump order cls sys (sys\<lparr>sys_api := st', sys_conns := (sys_conns sys)(a \<mapsto> w'),
       sys_before := (sys_before sys)(a := sent w)\<rparr>)"
| schedule: "api_scheduler (sys_api sys) = Some sc \<Longrightarrow> sched_step cls sc sc' \<Longrightarrow> accepted sc' = accepted sc \<Longrightarrow>
     infer_step dump order cls sys (fold completion_call (drop (length (completions sc)) (completions sc'))
       (sys\<lparr>sys_api := (sys_api sys)\<lparr>api_scheduler := Some sc'\<rparr>\<rparr>))"
| answer: "sys_inbox sys = p @ (a, res) # q \<Longrightarrow> sys_conns sys a = Some w \<Longrightarrow> isInLoopThread cur (io_loop w) \<Longrightarrow>
     infer_step dump order cls sys
       (let sys' = sys\<lparr>sys_conns := (sys_conns sys)(a \<mapsto> completion_body dump order cur res w), sys_inbox := p @ q\<rparr>
        in if \<not> connected (conn w) then sys'\<lparr>sys_dropped := sys_dropped sys @ [(a, res)]\<rparr>
           else if writes dump order cur res w then sys'\<lparr>sys_answered := sys_answered sys @ [(a, res)]\<rparr>
           else sys'\<lparr>sys_dropped := sys_dropped sys @ [(a, res)], sys_lost := insert a (sys_lost sys)\<rparr>)"
| hangup: "sys_conns sys a = Some w \<Longrightarrow>
     infer_step dump order cls sys (sys\<lparr>sys_lost := insert a (sys_lost sys),
       sys_conns := (sys_conns sys)(a \<mapsto> w\<lparr>conn := (conn w)\<lparr>conn_state := kDisconnected\<rparr>\<rparr>)\<rparr>)"
| gone: "a \<notin> fst ` set (sys_inbox sys) \<Longrightarrow>
     infer_step dump order cls sys (sys\<lparr>sys_conns := (sys_conns sys)(a := None), sys_lost := insert a (sys_lost sys)\<rparr>)"

inductive infer_reach :: "(json \<Rightarrow> bytes) \<Rightarrow> (http_response \<Rightarrow> (bytes \<times> bytes) list) \<Rightarrow> (nat \<Rightarrow> 's backend_class)
    \<Rightarrow> 's infer_system \<Rightarrow> 's infer_system \<Rightarrow> bool"
  for dump order cls init where
  initial: "infer_reach dump order cls init init"
| further: "infer_reach dump order cls init sys \<Longrightarrow> infer_step dump order cls sys sys' \<Longrightarrow> infer_reach dump order cls init sys'"

text \<open>A service before its first connection.\<close>

definition infer_new :: "'s api \<Rightarrow> 's infer_system" where
  "infer_new st = \<lparr>sys_api = st, sys_conns = (\<lambda>_. None), sys_seen = {}, sys_inbox = [],
     sys_answered = [], sys_dropped = [], sys_lost = {}, sys_before = (\<lambda>_. [])\<rparr>"

section \<open>Accounts\<close>

text \<open>The connections whose requests were accepted.\<close>

definition asked :: "(nat, 's) scheduler \<Rightarrow> nat list" where
  "asked sc = List.map_filter tk_completion (accepted sc)"

lemma mset_map_filter: "mset (List.map_filter f xs) = image_mset (the \<circ> f) (filter_mset (\<lambda>x. f x \<noteq> None) (mset xs))"
  by (simp add: map_filter_def)

lemma called_asked: "map fst (called fs) = List.map_filter tk_completion (map fst fs)"
  by (induction fs) (auto simp: called_def map_filter_simps split: option.splits)

text \<open>Every accepted request is queued, being run, or has had its completion called.\<close>

lemma asked_accounts:
  assumes "queue_ok sc"
  shows "mset (asked sc) = mset (List.map_filter tk_completion (tasks sc)) + mset (List.map_filter tk_completion (busy_tasks (workers sc)))
    + mset (map fst (completions sc))"
proof -
  have "mset (accepted sc) = mset (tasks sc) + mset (busy_tasks (workers sc)) + mset (map fst (finished sc))"
    "completions sc = called (finished sc)" using assms by (auto simp: queue_ok_def)
  then show ?thesis by (simp add: asked_def mset_map_filter called_asked)
qed

lemma step_completions: "sched_step cls sc sc' \<Longrightarrow> \<exists>new. completions sc' = completions sc @ new"
proof (induction rule: sched_step.induct)
  case (worker sc sc')
  then show ?case
    by cases (auto simp: worker_check_def set_depth_def worker_run_def stop_notify_def Let_def split: prod.splits)
next
  case (submit sc w now r c res sc')
  then show ?case using submit_frame [OF submit(2)] by (cases "res = kAccepted") auto
qed (auto simp: start_def stop_begin_def stop_end_def notify_one_def Let_def split: option.splits prod.splits if_splits)

section \<open>What each step keeps\<close>

definition sched_inv :: "(nat \<Rightarrow> 's backend_class) \<Rightarrow> (nat, 's) scheduler \<Rightarrow> bool" where
  "sched_inv cls sc \<longleftrightarrow> queue_ok sc \<and> threads_ok sc \<and> registry_ready cls sc \<and> tasks_ready cls sc \<and> (\<forall>f\<in>set (finished sc). own_result f)"

lemma sched_inv_step: "sched_step (heap_class env) sc sc' \<Longrightarrow> sched_inv (heap_class env) sc \<Longrightarrow> sched_inv (heap_class env) sc'"
  using sched_step_ok heap.step_ready unfolding sched_inv_def by metis

lemma sched_inv_failure:
  "sched_inv cls sc \<Longrightarrow> sched_inv cls (sc\<lparr>sc_metrics := map_option (recordSubmissionFailure m be e) (sc_metrics sc)\<rparr>)"
  by (auto simp: sched_inv_def queue_ok_def threads_ok_def registry_ready_def tasks_ready_def recordSubmissionFailure_def)

lemma stopRead_working:
  assumes "working cur w"
  shows "working cur (stopRead cur w)" "conn_addr (conn (stopRead cur w)) = conn_addr (conn w)"
proof -
  have stopReadInLoop_input: "inputBuffer (conn (stopReadInLoop w)) = inputBuffer (conn w)"
    by (simp add: stopReadInLoop_def)
  show "conn_addr (conn (stopRead cur w)) = conn_addr (conn w)"
    using assms by (simp add: working_def stopRead_def stopReadInLoop_def)
  show "working cur (stopRead cur w)"
    using assms stopReadInLoop_ok [of w] stopReadInLoop_input
    by (simp add: working_def run_ok_def stopRead_def isInLoopThread_def)
qed

text \<open>The completions a worker calls are queued or, where the connection is gone, dropped.\<close>

lemma call_conns [simp]: "sys_conns (completion_call c sys) = sys_conns sys"
  by (simp add: completion_call_def)

lemma calls_frame:
  "sys_api (fold completion_call cs sys) = sys_api sys" "sys_conns (fold completion_call cs sys) = sys_conns sys"
  "sys_seen (fold completion_call cs sys) = sys_seen sys" "sys_answered (fold completion_call cs sys) = sys_answered sys"
  "sys_before (fold completion_call cs sys) = sys_before sys" "sys_lost (fold completion_call cs sys) = sys_lost sys"
  by (induction cs arbitrary: sys) (simp_all add: completion_call_def)

lemma calls_queue:
  "mset (sys_inbox (fold completion_call cs sys)) + mset (sys_dropped (fold completion_call cs sys))
     = mset (sys_inbox sys) + mset (sys_dropped sys) + mset cs"
  "(\<forall>c\<in>set (sys_inbox sys). sys_conns sys (fst c) \<noteq> None) \<Longrightarrow>
     \<forall>c\<in>set (sys_inbox (fold completion_call cs sys)). sys_conns sys (fst c) \<noteq> None"
  "c \<in> set (sys_dropped (fold completion_call cs sys)) \<Longrightarrow> c \<in> set (sys_dropped sys) \<or> sys_conns sys (fst c) = None"
proof -
  show "mset (sys_inbox (fold completion_call cs sys)) + mset (sys_dropped (fold completion_call cs sys))
     = mset (sys_inbox sys) + mset (sys_dropped sys) + mset cs"
    by (induction cs arbitrary: sys) (simp_all add: completion_call_def)
  show "\<forall>c\<in>set (sys_inbox (fold completion_call cs sys)). sys_conns sys (fst c) \<noteq> None"
    if "\<forall>c\<in>set (sys_inbox sys). sys_conns sys (fst c) \<noteq> None"
    using that
  proof (induction cs arbitrary: sys)
    case (Cons c cs)
    have "\<forall>d\<in>set (sys_inbox (completion_call c sys)). sys_conns (completion_call c sys) (fst d) \<noteq> None"
      using Cons.prems by (auto simp: completion_call_def)
    from Cons.IH [OF this] show ?case by simp
  qed simp
  show "c \<in> set (sys_dropped (fold completion_call cs sys)) \<Longrightarrow> c \<in> set (sys_dropped sys) \<or> sys_conns sys (fst c) = None"
  proof (induction cs arbitrary: sys)
    case (Cons d cs)
    with Cons.IH [of "completion_call d sys"]
    have "c \<in> set (sys_dropped (completion_call d sys)) \<or> sys_conns sys (fst c) = None" by simp
    then show ?case by (auto simp: completion_call_def split: if_splits)
  qed simp
qed

section \<open>The invariant\<close>

text \<open>The responses a connection gets: those of the results answered to it.\<close>

definition answers_to :: "(json \<Rightarrow> bytes) \<Rightarrow> (http_response \<Rightarrow> (bytes \<times> bytes) list) \<Rightarrow> nat \<Rightarrow> (nat \<times> inference_result) list \<Rightarrow> bytes" where
  "answers_to dump order a cs =
     concat (map (\<lambda>(_, res). response_bytes (order (result_response dump res)) (result_response dump res)) (filter (\<lambda>c. fst c = a) cs))"

lemma answers_to_simps [simp]:
  "answers_to dump order a [] = []" "a' \<noteq> a \<Longrightarrow> answers_to dump order a (cs @ [(a', res)]) = answers_to dump order a cs"
  "answers_to dump order a (cs @ [(a, res)]) = answers_to dump order a cs
     @ response_bytes (order (result_response dump res)) (result_response dump res)"
  by (simp_all add: answers_to_def)

lemma answers_to_none: "a \<notin> fst ` set cs \<Longrightarrow> answers_to dump order a cs = []"
  by (auto simp: answers_to_def image_iff)

text \<open>A connection: while it is up and read, it has no accepted request; afterwards it has sent what is due.\<close>

definition conn_inv :: "bytes \<Rightarrow> bool \<Rightarrow> nat \<Rightarrow> http_world \<Rightarrow> bool" where
  "conn_inv due waits a w \<longleftrightarrow>
     (connected (conn w) \<longrightarrow> (\<exists>cur. working cur w))
     \<and> (connected (conn w) \<and> reading (conn w) \<longrightarrow> conn_addr (conn w) = a \<and> \<not> waits)
     \<and> (waits \<longrightarrow> sent w = due)"

text \<open>Only what was lost is dropped, and who waits is up or was lost.\<close>

definition lost_ok :: "'s infer_system \<Rightarrow> (nat, 's) scheduler \<Rightarrow> bool" where
  "lost_ok sys sc \<longleftrightarrow> fst ` set (sys_dropped sys) \<subseteq> sys_lost sys
     \<and> (\<forall>a\<in>sys_seen sys. sys_conns sys a = None \<longrightarrow> a \<in> sys_lost sys)
     \<and> (\<forall>a\<in>set (asked sc). \<forall>w. sys_conns sys a = Some w \<longrightarrow>
          connected (conn w) \<or> a \<in> sys_lost sys \<or> a \<in> fst ` set (sys_answered sys))"

definition infer_inv :: "(json \<Rightarrow> bytes) \<Rightarrow> (http_response \<Rightarrow> (bytes \<times> bytes) list) \<Rightarrow> (nat \<Rightarrow> 's backend_class)
    \<Rightarrow> 's infer_system \<Rightarrow> (nat, 's) scheduler \<Rightarrow> bool" where
  "infer_inv dump order cls sys sc \<longleftrightarrow>
     api_scheduler (sys_api sys) = Some sc \<and> sched_inv cls sc
     \<and> mset (completions sc) = mset (sys_inbox sys) + mset (sys_answered sys) + mset (sys_dropped sys)
     \<and> distinct (asked sc) \<and> set (asked sc) \<subseteq> sys_seen sys \<and> dom (sys_conns sys) \<subseteq> sys_seen sys
     \<and> (\<forall>c\<in>set (sys_inbox sys). sys_conns sys (fst c) \<noteq> None)
     \<and> (\<forall>c\<in>set (sys_dropped sys). \<forall>w. sys_conns sys (fst c) = Some w \<longrightarrow> \<not> connected (conn w))
     \<and> lost_ok sys sc
     \<and> (\<forall>a w. sys_conns sys a = Some w \<longrightarrow>
          conn_inv (sys_before sys a @ answers_to dump order a (sys_answered sys)) (a \<in> set (asked sc)) a w)"

lemma completed_of_queue: "queue_ok sc \<Longrightarrow> (a, res) \<in> set (completions sc) \<Longrightarrow> a \<in> set (asked sc)"
proof -
  assume q: "queue_ok sc" and c: "(a, res) \<in> set (completions sc)"
  from arg_cong [OF asked_accounts [OF q], of set_mset]
  have "set (map fst (completions sc)) \<subseteq> set (asked sc)" by auto
  with c show ?thesis by force
qed

lemma completed_asked: "infer_inv dump order cls sys sc \<Longrightarrow> (a, res) \<in> set (completions sc) \<Longrightarrow> a \<in> set (asked sc)"
  by (rule completed_of_queue) (simp_all add: infer_inv_def sched_inv_def)

lemma histories_asked:
  assumes "infer_inv dump order cls sys sc" "(a, res) \<in> set (sys_inbox sys) \<union> set (sys_answered sys) \<union> set (sys_dropped sys)"
  shows "a \<in> set (asked sc)"
proof -
  have "set_mset (mset (completions sc)) = set_mset (mset (sys_inbox sys) + mset (sys_answered sys) + mset (sys_dropped sys))"
    using assms(1) by (simp only: infer_inv_def)
  then show ?thesis using assms(2) completed_asked [OF assms(1), of a res] by auto
qed

text \<open>A change of one connection that waits for nothing, or whose stream and state stay within the invariant.\<close>

lemma inv_conn_change:
  assumes "infer_inv dump order cls sys sc"
    "conn_inv (sys_before sys a @ answers_to dump order a (sys_answered sys)) (a \<in> set (asked sc)) a w'"
    "connected (conn w') \<Longrightarrow> a \<notin> fst ` set (sys_dropped sys)"
    "a \<in> set (asked sc) \<Longrightarrow> connected (conn w') \<or> a \<in> sys_lost sys \<or> a \<in> fst ` set (sys_answered sys)"
  shows "infer_inv dump order cls (sys\<lparr>sys_seen := insert a (sys_seen sys), sys_conns := (sys_conns sys)(a \<mapsto> w')\<rparr>) sc"
proof -
  have "lost_ok (sys\<lparr>sys_seen := insert a (sys_seen sys), sys_conns := (sys_conns sys)(a \<mapsto> w')\<rparr>) sc"
    using assms(1,4) by (auto simp: infer_inv_def lost_ok_def)
  then show ?thesis using assms(1-3) unfolding infer_inv_def by (auto simp: image_iff split: if_splits)
qed

lemma dropped_connected:
  "infer_inv dump order cls sys sc \<Longrightarrow> sys_conns sys a = Some w \<Longrightarrow> connected (conn w) \<Longrightarrow> a \<notin> fst ` set (sys_dropped sys)"
  by (auto simp: infer_inv_def)

lemma inv_conn:
  assumes "infer_inv dump order cls sys sc" "sys_conns sys a = Some w"
  shows "conn_inv (sys_before sys a @ answers_to dump order a (sys_answered sys)) (a \<in> set (asked sc)) a w" "a \<in> sys_seen sys"
  using assms unfolding infer_inv_def by auto

lemma working_connected: "working cur w \<Longrightarrow> connected (conn w)"
  by (simp add: working_def connected_def)

lemma inv_connect:
  assumes "infer_inv dump order cls sys sc" "a \<notin> sys_seen sys" "working cur w" "conn_addr (conn w) = a"
  shows "infer_inv dump order cls (sys\<lparr>sys_seen := insert a (sys_seen sys), sys_conns := (sys_conns sys)(a \<mapsto> w)\<rparr>) sc"
proof -
  have a: "a \<notin> set (asked sc)" "a \<notin> fst ` set (sys_dropped sys)"
    using assms(1,2) histories_asked [OF assms(1)] unfolding infer_inv_def by (fastforce simp: image_iff)+
  from inv_conn_change [OF assms(1), of a w] a assms(3,4) show ?thesis
    by (cases "\<exists>cur. working cur w") (auto simp: conn_inv_def)
qed

lemma seen_idem: "a \<in> sys_seen sys \<Longrightarrow> sys\<lparr>sys_seen := insert a (sys_seen sys), sys_conns := f\<rparr> = sys\<lparr>sys_conns := f\<rparr>"
  by (cases sys) (simp add: insert_absorb)

lemma inv_other:
  assumes "infer_inv dump order cls sys sc" "sys_conns sys a = Some w" "working cur w" "reading (conn w)"
    "working cur w' \<and> conn_addr (conn w') = a \<or> \<not> connected (conn w')"
  shows "infer_inv dump order cls (sys\<lparr>sys_conns := (sys_conns sys)(a \<mapsto> w')\<rparr>) sc"
proof -
  note c = inv_conn [OF assms(1,2)]
  have a: "a \<notin> set (asked sc)" using c(1) assms(3,4) working_connected [OF assms(3)] by (simp add: conn_inv_def)
  have "conn_inv (sys_before sys a @ answers_to dump order a (sys_answered sys)) (a \<in> set (asked sc)) a w'"
    using a assms(5) by (auto simp: conn_inv_def)
  from inv_conn_change [OF assms(1) this dropped_connected [OF assms(1,2) working_connected [OF assms(3)]]] a
  show ?thesis by (simp add: seen_idem [OF c(2)])
qed

lemma inv_hangup:
  assumes "infer_inv dump order cls sys sc" "sys_conns sys a = Some w"
  shows "infer_inv dump order cls (sys\<lparr>sys_lost := insert a (sys_lost sys),
    sys_conns := (sys_conns sys)(a \<mapsto> w\<lparr>conn := (conn w)\<lparr>conn_state := kDisconnected\<rparr>\<rparr>)\<rparr>) sc"
proof -
  let ?sys = "sys\<lparr>sys_lost := insert a (sys_lost sys)\<rparr>" and ?w = "w\<lparr>conn := (conn w)\<lparr>conn_state := kDisconnected\<rparr>\<rparr>"
  have "infer_inv dump order cls ?sys sc" using assms(1) unfolding infer_inv_def lost_ok_def by auto
  moreover have "conn_inv (sys_before ?sys a @ answers_to dump order a (sys_answered ?sys)) (a \<in> set (asked sc)) a ?w"
    using inv_conn(1) [OF assms] by (auto simp: conn_inv_def connected_def sent_def out_pending_def)
  moreover have "\<not> connected (conn ?w)" by (simp add: connected_def)
  ultimately have "infer_inv dump order cls (?sys\<lparr>sys_seen := insert a (sys_seen ?sys), sys_conns := (sys_conns ?sys)(a \<mapsto> ?w)\<rparr>) sc"
    by (intro inv_conn_change) simp_all
  then show ?thesis using seen_idem [of a ?sys] inv_conn(2) [OF assms] by simp
qed

lemma inv_gone:
  assumes "infer_inv dump order cls sys sc" "a \<notin> fst ` set (sys_inbox sys)"
  shows "infer_inv dump order cls (sys\<lparr>sys_conns := (sys_conns sys)(a := None), sys_lost := insert a (sys_lost sys)\<rparr>) sc"
proof -
  have "lost_ok (sys\<lparr>sys_conns := (sys_conns sys)(a := None), sys_lost := insert a (sys_lost sys)\<rparr>) sc"
    using assms(1) by (auto simp: infer_inv_def lost_ok_def)
  then show ?thesis using assms unfolding infer_inv_def by (auto simp: image_iff split: if_splits)
qed

lemma distinct_subset: "mset xs \<subseteq># mset ys \<Longrightarrow> distinct ys \<Longrightarrow> distinct xs"
proof -
  assume s: "mset xs \<subseteq># mset ys" "distinct ys"
  obtain zs where "mset zs = mset ys - mset xs" using ex_mset by blast
  with s(1) have "mset ys = mset (xs @ zs)" by simp
  from mset_eq_imp_distinct_iff [OF this] s(2) show "distinct xs" by simp
qed

lemma answered_distinct:
  assumes "infer_inv dump order cls sys sc"
  shows "distinct (map fst (sys_answered sys @ sys_inbox sys @ sys_dropped sys))"
proof -
  have "queue_ok sc" using assms by (simp add: infer_inv_def sched_inv_def)
  from asked_accounts [OF this] have "mset (map fst (completions sc)) \<subseteq># mset (asked sc)" by simp
  moreover have "mset (map fst (completions sc)) = mset (map fst (sys_answered sys @ sys_inbox sys @ sys_dropped sys))"
    using assms by (simp add: infer_inv_def)
  moreover have "distinct (asked sc)" using assms unfolding infer_inv_def by blast
  ultimately show ?thesis using distinct_subset by metis
qed

lemma inv_answer:
  assumes "infer_inv dump order cls sys sc" "sys_inbox sys = p @ (a, res) # q" "sys_conns sys a = Some w"
    "isInLoopThread cur (io_loop w)" "\<forall>j. length (dump j) < 10 ^ 13"
  shows "infer_inv dump order cls
    (let sys' = sys\<lparr>sys_conns := (sys_conns sys)(a \<mapsto> completion_body dump order cur res w), sys_inbox := p @ q\<rparr>
     in if \<not> connected (conn w) then sys'\<lparr>sys_dropped := sys_dropped sys @ [(a, res)]\<rparr>
        else if writes dump order cur res w then sys'\<lparr>sys_answered := sys_answered sys @ [(a, res)]\<rparr>
        else sys'\<lparr>sys_dropped := sys_dropped sys @ [(a, res)], sys_lost := insert a (sys_lost sys)\<rparr>) sc"
proof (cases "connected (conn w)")
  case True
  let ?w = "completion_body dump order cur res w" and ?rsp = "result_response dump res"
  note c = inv_conn [OF assms(1,3)]
  have w: "a \<in> set (asked sc)" using histories_asked [OF assms(1), of a res] assms(2) by simp
  have s: "working cur w" using c(1) True assms(4) by (auto simp: conn_inv_def working_def)
  have len: "length (rsp_body ?rsp) < 10 ^ 13" "closeConnection ?rsp"
    using assms(5) by (simp_all add: result_response_def rsp_setters serializeInferenceResult_def Let_def)
  have r: "replied order cur w ?w ?rsp"
    using sendResponseAndClose_replies [OF s len] True by (simp add: completion_body_def)
  then have down: "\<not> connected (conn ?w)" by (simp add: replied_def connected_def)
  have acc: "accepts cur (response_bytes (order ?rsp) ?rsp) w \<longleftrightarrow> writes dump order cur res w"
    using s by (simp add: accepts_def writes_def working_def)
  have sent: "sent ?w = sys_before sys a @ answers_to dump order a
      (if writes dump order cur res w then sys_answered sys @ [(a, res)] else sys_answered sys)"
    using c(1) w r unfolding replied_def acc by (auto simp: conn_inv_def sent_def)
  then have "conn_inv (sys_before sys a @ answers_to dump order a
      (if writes dump order cur res w then sys_answered sys @ [(a, res)] else sys_answered sys)) (a \<in> set (asked sc)) a ?w"
    using down by (simp add: conn_inv_def)
  note here = this
  let ?ans = "sys\<lparr>sys_conns := (sys_conns sys)(a \<mapsto> ?w), sys_inbox := p @ q, sys_answered := sys_answered sys @ [(a, res)]\<rparr>"
  let ?lost = "sys\<lparr>sys_conns := (sys_conns sys)(a \<mapsto> ?w), sys_inbox := p @ q, sys_dropped := sys_dropped sys @ [(a, res)],
    sys_lost := insert a (sys_lost sys)\<rparr>"
  show ?thesis
  proof (cases "writes dump order cur res w")
    case wr: True
    have "lost_ok ?ans sc" using assms(1) by (auto simp: infer_inv_def lost_ok_def)
    then have "infer_inv dump order cls ?ans sc"
      using assms(1-3) here wr down unfolding infer_inv_def by (auto split: if_splits)
    then show ?thesis using True wr by simp
  next
    case wr: False
    have "lost_ok ?lost sc" using assms(1) by (auto simp: infer_inv_def lost_ok_def)
    then have "infer_inv dump order cls ?lost sc"
      using assms(1-3) here wr down unfolding infer_inv_def by (auto split: if_splits)
    then show ?thesis using True wr by simp
  qed
next
  case False
  then have same: "completion_body dump order cur res w = w" "(sys_conns sys)(a \<mapsto> w) = sys_conns sys"
    using assms(3) by (simp_all add: completion_body_def fun_upd_idem)
  have "a \<in> sys_lost sys"
  proof -
    have "a \<in> set (asked sc)" using histories_asked [OF assms(1), of a res] assms(2) by simp
    moreover have "a \<notin> fst ` set (sys_answered sys)" using answered_distinct [OF assms(1)] assms(2) by auto
    ultimately show ?thesis using assms(1,3) False unfolding infer_inv_def lost_ok_def by blast
  qed
  then have "lost_ok (sys\<lparr>sys_inbox := p @ q, sys_dropped := sys_dropped sys @ [(a, res)]\<rparr>) sc"
    using assms(1) unfolding infer_inv_def lost_ok_def by auto
  then have "infer_inv dump order cls (sys\<lparr>sys_inbox := p @ q, sys_dropped := sys_dropped sys @ [(a, res)]\<rparr>) sc"
    using assms(1-3) False unfolding infer_inv_def by auto
  moreover have "sys\<lparr>sys_conns := sys_conns sys, sys_inbox := p @ q\<rparr> = sys\<lparr>sys_inbox := p @ q\<rparr>" by (cases sys) simp
  ultimately show ?thesis using same False by (simp add: Let_def)
qed

lemma step_accepted: "accepted sc' = accepted sc \<Longrightarrow> asked sc' = asked sc"
  by (simp add: asked_def)

lemma inv_schedule:
  assumes "infer_inv dump order (heap_class env) sys sc" "sched_step (heap_class env) sc sc'" "accepted sc' = accepted sc"
  shows "infer_inv dump order (heap_class env) (fold completion_call (drop (length (completions sc)) (completions sc'))
    (sys\<lparr>sys_api := (sys_api sys)\<lparr>api_scheduler := Some sc'\<rparr>\<rparr>)) sc'"
proof -
  let ?sys = "sys\<lparr>sys_api := (sys_api sys)\<lparr>api_scheduler := Some sc'\<rparr>\<rparr>"
  let ?new = "drop (length (completions sc)) (completions sc')"
  obtain new where new: "completions sc' = completions sc @ new" using step_completions [OF assms(2)] by blast
  have inv: "sched_inv (heap_class env) sc'" using sched_inv_step [OF assms(2)] assms(1) by (simp add: infer_inv_def)
  note q = calls_queue [where cs = ?new and sys = ?sys]
  have "mset (completions sc') = mset (completions sc) + mset ?new" by (simp add: new)
  also have "mset (completions sc) = mset (sys_inbox sys) + mset (sys_answered sys) + mset (sys_dropped sys)"
    using assms(1) unfolding infer_inv_def by blast
  also have "\<dots> + mset ?new = mset (sys_inbox ?sys) + mset (sys_dropped ?sys) + mset ?new + mset (sys_answered sys)" by simp
  also note q(1) [symmetric]
  finally have m: "mset (completions sc') = mset (sys_inbox (fold completion_call ?new ?sys)) + mset (sys_answered sys)
      + mset (sys_dropped (fold completion_call ?new ?sys))" by (simp only: ac_simps)
  let ?after = "fold completion_call ?new ?sys"
  have "\<forall>c\<in>set (sys_inbox ?after). sys_conns sys (fst c) \<noteq> None"
    using q(2) assms(1) unfolding infer_inv_def by simp
  moreover have "\<forall>c\<in>set (sys_dropped ?after). \<forall>w. sys_conns sys (fst c) = Some w \<longrightarrow> \<not> connected (conn w)"
  proof
    fix c assume "c \<in> set (sys_dropped ?after)"
    then have "c \<in> set (sys_dropped sys) \<or> sys_conns sys (fst c) = None" using q(3) [of c] by simp
    then show "\<forall>w. sys_conns sys (fst c) = Some w \<longrightarrow> \<not> connected (conn w)" using assms(1) unfolding infer_inv_def by auto
  qed
  moreover have drop: "fst ` set (sys_dropped ?after) \<subseteq> sys_lost sys"
  proof (intro image_subsetI)
    fix c assume c: "c \<in> set (sys_dropped ?after)"
    then consider "c \<in> set (sys_dropped sys)" | "sys_conns sys (fst c) = None" using q(3) [of c] by auto
    then show "fst c \<in> sys_lost sys"
    proof cases
      case 1
      then show ?thesis using assms(1) unfolding infer_inv_def lost_ok_def by auto
    next
      case 2
      have "c \<in> set (completions sc')" using c arg_cong [OF m, of set_mset] by auto
      then have "(fst c, snd c) \<in> set (completions sc')" by simp
      from completed_of_queue [OF _ this] have "fst c \<in> set (asked sc')" using inv unfolding sched_inv_def by blast
      then have "fst c \<in> sys_seen sys" using assms(1) unfolding infer_inv_def step_accepted [OF assms(3)] by blast
      then show ?thesis using 2 assms(1) unfolding infer_inv_def lost_ok_def by blast
    qed
  qed
  moreover have "lost_ok ?after sc'"
    using drop assms(1) unfolding infer_inv_def lost_ok_def calls_frame step_accepted [OF assms(3)] by simp
  ultimately show ?thesis
    using assms(1) inv m unfolding infer_inv_def calls_frame step_accepted [OF assms(3)]
    by (elim conjE, intro conjI) simp_all
qed

lemma unasked_histories:
  assumes "infer_inv dump order cls sys sc" "a \<notin> set (asked sc)"
  shows "answers_to dump order a (sys_answered sys) = []" "a \<notin> fst ` set (sys_dropped sys)"
proof -
  have none: "a \<notin> fst ` (set (sys_answered sys) \<union> set (sys_dropped sys))"
    using histories_asked [OF assms(1), of a] assms(2) by fastforce
  then show "answers_to dump order a (sys_answered sys) = []" by (intro answers_to_none) blast
  show "a \<notin> fst ` set (sys_dropped sys)" using none by blast
qed

text \<open>An accepted request: its connection joins those that wait.\<close>

lemma inv_accepted:
  assumes "infer_inv dump order (heap_class env) sys sc" "sys_conns sys a = Some w" "working cur w" "reading (conn w)"
    "submit now wk r (Some a) sc = (kAccepted, sc')" "sched_step (heap_class env) sc sc'" "api_scheduler st' = Some sc'"
  shows "infer_inv dump order (heap_class env)
    (sys\<lparr>sys_api := st', sys_conns := (sys_conns sys)(a \<mapsto> stopRead cur w), sys_before := (sys_before sys)(a := sent w)\<rparr>) sc'"
proof -
  note c = inv_conn [OF assms(1,2)]
  have a: "a \<notin> set (asked sc)" using c(1) assms(3,4) working_connected [OF assms(3)] by (simp add: conn_inv_def)
  note h = unasked_histories [OF assms(1) a]
  have loop: "isInLoopThread cur (io_loop w)" using assms(3) by (simp add: working_def)
  have sub: "asked sc' = asked sc @ [a]" "completions sc' = completions sc"
    using submit_frame [OF assms(5)] by (auto simp: asked_def map_filter_def notify_one_def set_depth_def)
  have inv: "sched_inv (heap_class env) sc'" using sched_inv_step [OF assms(6)] assms(1) by (simp add: infer_inv_def)
  have w: "conn_inv (sent w) True a (stopRead cur w)"
    using stopRead_frame [OF loop] stopRead_working [OF assms(3)] by (auto simp: conn_inv_def sent_def)
  have "connected (conn (stopRead cur w))" using w assms(3) stopRead_frame(3) [OF loop] by (simp add: working_def connected_def)
  then have "lost_ok (sys\<lparr>sys_api := st', sys_conns := (sys_conns sys)(a \<mapsto> stopRead cur w), sys_before := (sys_before sys)(a := sent w)\<rparr>) sc'"
    using assms(1) sub(1) by (auto simp: infer_inv_def lost_ok_def)
  then show ?thesis
    using assms(1,7) inv c(2) a h w sub unfolding infer_inv_def by (auto simp: image_iff split: if_splits)
qed

text \<open>A request that was answered at once: the scheduler has at most counted it.\<close>

lemma inv_answered:
  assumes "infer_inv dump order cls sys sc" "sys_conns sys a = Some w" "working cur w" "reading (conn w)"
    "replied order' cur w w' resp" "sched_inv cls sc'" "accepted sc' = accepted sc" "completions sc' = completions sc"
    "api_scheduler st' = Some sc'"
  shows "infer_inv dump order cls
    (sys\<lparr>sys_api := st', sys_conns := (sys_conns sys)(a \<mapsto> w'), sys_before := (sys_before sys)(a := sent w)\<rparr>) sc'"
proof -
  note c = inv_conn [OF assms(1,2)]
  have a: "a \<notin> set (asked sc)" using c(1) assms(3,4) working_connected [OF assms(3)] by (simp add: conn_inv_def)
  have "\<not> connected (conn w')" using assms(5) by (simp add: replied_def connected_def)
  with a have "conn_inv b False a w'" for b by (simp add: conn_inv_def)
  moreover have "lost_ok (sys\<lparr>sys_api := st', sys_conns := (sys_conns sys)(a \<mapsto> w'), sys_before := (sys_before sys)(a := sent w)\<rparr>) sc'"
    using assms(1) a step_accepted [OF assms(7)] by (auto simp: infer_inv_def lost_ok_def)
  ultimately show ?thesis
    using assms(1,6-9) c(2) a \<open>\<not> connected (conn w')\<close> unfolding infer_inv_def step_accepted [OF assms(7)]
    by (auto split: if_splits)
qed

lemma inv_request:
  assumes "infer_inv dump order (heap_class env) sys sc0" "sys_conns sys a = Some w" "working cur w" "reading (conn w)"
    "req_path req = ''/v1/infer''" "api_scheduler (sys_api sys) = Some sc"
    "(\<exists>i < length (workers sc). workers sc ! i = Sleeping) \<longrightarrow> wk < length (workers sc) \<and> workers sc ! wk = Sleeping"
    "handleAsync dump order cur now enq wk req (sys_api sys, w) = (took, st', w')" "\<forall>j. length (dump j) < 10 ^ 13"
  shows "\<exists>sc'. infer_inv dump order (heap_class env)
    (sys\<lparr>sys_api := st', sys_conns := (sys_conns sys)(a \<mapsto> w'), sys_before := (sys_before sys)(a := sent w)\<rparr>) sc'"
proof -
  have sc: "sc0 = sc" "sched_inv (heap_class env) sc" using assms(1,6) by (auto simp: infer_inv_def)
  note now = assms(1) [unfolded sc(1)]
  have addr: "conn_addr (conn w) = a"
    using inv_conn(1) [OF assms(1,2)] assms(4) working_connected [OF assms(3)] by (simp add: conn_inv_def)
  from assms(5,6,3,9,8) show ?thesis
  proof (cases rule: handleAsync_outcome)
    case (invalid e resp)
    then show ?thesis using assms(6) by (intro exI [of _ sc] inv_answered [OF now assms(2-4) _ sc(2)]) auto
  next
    case (accepted r sc')
    then show ?thesis
      using inv_accepted [OF now assms(2-4) accepted(3) [unfolded addr] sched_step.submit [OF assms(7) accepted(3)], of st']
      by (intro exI [of _ sc']) simp
  next
    case (refused r res code resp)
    then show ?thesis
      using inv_answered [OF now assms(2-4) refused(6) sched_inv_failure [OF sc(2)], of _ _ _ st'] assms(6) by auto
  qed
qed

lemma infer_inv_step:
  assumes "infer_step dump order (heap_class env) sys sys'" "infer_inv dump order (heap_class env) sys sc" "\<forall>j. length (dump j) < 10 ^ 13"
  shows "\<exists>sc'. infer_inv dump order (heap_class env) sys' sc'"
  using assms(1)
proof cases
  case (connect a cur w)
  then show ?thesis using inv_connect [OF assms(2)] by blast
next
  case (other a w cur w')
  then show ?thesis using inv_other [OF assms(2)] by blast
next
  case (request a w cur req sc1 wk now enq took st' w')
  then show ?thesis using inv_request [OF assms(2) request(2-6,7,8) assms(3)] by simp
next
  case (schedule sc1 sc')
  have "sc1 = sc" using schedule(2) assms(2) by (simp add: infer_inv_def)
  then show ?thesis using inv_schedule [OF assms(2)] schedule by blast
next
  case (answer p a res q w cur)
  then show ?thesis using inv_answer [OF assms(2) answer(2-4) assms(3)] by blast
next
  case (hangup a w)
  then show ?thesis using inv_hangup [OF assms(2)] by blast
next
  case (gone a)
  then show ?thesis using inv_gone [OF assms(2)] by blast
qed

lemma infer_inv_reach:
  assumes "infer_reach dump order (heap_class env) (infer_new st) sys" "api_scheduler st = Some sc0" "sched_inv (heap_class env) sc0"
    "accepted sc0 = []" "completions sc0 = []" "\<forall>j. length (dump j) < 10 ^ 13"
  shows "\<exists>sc. infer_inv dump order (heap_class env) sys sc"
  using assms(1)
proof (induction rule: infer_reach.induct)
  case initial
  show ?case using assms(2-5) by (intro exI [of _ sc0]) (simp add: infer_inv_def lost_ok_def infer_new_def asked_def map_filter_simps)
next
  case (further sys sys')
  then show ?case using infer_inv_step assms(6) by blast
qed

section \<open>Every client gets its own answer\<close>

text \<open>What a connection got, from the single result answered to it.\<close>

lemma answers_to_one:
  assumes "distinct (map fst cs)" "(a, res) \<in> set cs"
  shows "answers_to dump order a cs = response_bytes (order (result_response dump res)) (result_response dump res)"
proof -
  obtain xs ys where cs: "cs = xs @ (a, res) # ys" using assms(2) by (meson split_list)
  then have "filter (\<lambda>c. fst c = a) xs = []" "filter (\<lambda>c. fst c = a) ys = []"
    using assms(1) by (force simp: filter_empty_conv)+
  then show ?thesis by (simp add: answers_to_def cs)
qed

lemma completion_task:
  assumes "queue_ok sc" "\<forall>f\<in>set (finished sc). own_result f" "(a, res) \<in> set (completions sc)"
  shows "\<exists>t\<in>set (accepted sc). tk_completion t = Some a \<and> rs_requestId res = rq_requestId (tk_request t)"
proof -
  have q: "completions sc = called (finished sc)" "set (taken sc) \<subseteq> set (accepted sc)"
    and "mset (taken sc) = mset (busy_tasks (workers sc)) + mset (map fst (finished sc))"
    using assms(1) by (auto simp: queue_ok_def)
  from arg_cong [OF this(3), of set_mset] have fin: "fst ` set (finished sc) \<subseteq> set (taken sc)" by auto
  obtain t where t: "(t, res) \<in> set (finished sc)" "tk_completion t = Some a"
    using assms(3) q(1) by (auto simp: called_def map_filter_def)
  then have "t \<in> set (accepted sc)" using q(2) fin by force
  then show ?thesis using t assms(2) by (intro bexI [of _ t]) (auto simp: own_result_def)
qed

text \<open>The invariant holds in every run of a service.\<close>

lemma infer_run_inv:
  assumes "infer_reach dump order (heap_class env)
      (infer_new \<lparr>api_scheduler = Some (scheduler_new (Some reg) n cap m h), api_metrics = None, api_sequence = k\<rparr>) sys"
    "\<forall>v. m = Some v \<longrightarrow> queueDepth v = 0" "distinct (addresses (registrations reg))"
    "\<forall>r\<in>set (registrations reg). rg_backend r = None \<longrightarrow> \<not> available r" "\<forall>j. length (dump j) < 10 ^ 13"
  obtains sc where "infer_inv dump order (heap_class env) sys sc"
proof -
  let ?sc0 = "scheduler_new (Some reg) n cap m h"
  have "sched_inv (heap_class env) ?sc0" "accepted ?sc0 = []" "completions ?sc0 = []"
    using scheduler_new_ok [OF assms(2), of "Some reg" n cap h] assms(3,4)
    by (simp_all add: sched_inv_def scheduler_new_def scheduler_base_def registry_ready_def tasks_ready_def)
  then show thesis using infer_inv_reach [OF assms(1) _ _ _ _ assms(5)] that by auto
qed

text \<open>What a connection that waits has been sent, and the accounts once the scheduler has stopped.\<close>

lemma inv_sent:
  "infer_inv dump order cls sys sc \<Longrightarrow> a \<in> set (asked sc) \<Longrightarrow> sys_conns sys a = Some w \<Longrightarrow>
   sent w = sys_before sys a @ answers_to dump order a (sys_answered sys)"
  using inv_conn(1) by (fastforce simp: conn_inv_def)

lemma inv_stopped:
  assumes "infer_inv dump order cls sys sc" "\<not> running_flag sc"
  shows "mset (map fst (sys_answered sys @ sys_dropped sys @ sys_inbox sys)) = mset (asked sc)"
proof -
  have "queue_ok sc" "threads_ok sc" using assms(1) by (simp_all add: infer_inv_def sched_inv_def)
  moreover have "mset (completions sc) = mset (sys_inbox sys) + mset (sys_answered sys) + mset (sys_dropped sys)"
    using assms(1) by (simp add: infer_inv_def)
  ultimately show ?thesis using asked_accounts [of sc] assms(2) by (simp add: threads_ok_def map_filter_simps)
qed

text \<open>
  Property C4. From a client to its answer: however requests, workers, loops, hang-ups and failing writes interleave, every
  request the scheduler accepted is answered at most once, on the connection it came from and with the result that carries its
  id. A connection that waits has been sent nothing since its request, and one whose request was answered has been sent exactly
  that response (put on the wire or in its output buffer; the buffer's way to the socket is C1). A result is dropped only for a connection that
  was lost: its peer hung up, it ended, or the write of the response failed with EPIPE or ECONNRESET; it has been sent
  nothing either. Once the scheduler has stopped and the loops have run what was queued, the accepted requests are exactly
  those answered or dropped. The scheduler starts with a depth gauge of 0 and a registry in which entries without a backend are not
  available; the library's JSON texts are below 10^13 bytes.
\<close>

theorem infer_end_to_end:
  assumes "infer_reach dump order (heap_class env)
      (infer_new \<lparr>api_scheduler = Some (scheduler_new (Some reg) n cap m h), api_metrics = None, api_sequence = k\<rparr>) sys"
    "\<forall>v. m = Some v \<longrightarrow> queueDepth v = 0" "distinct (addresses (registrations reg))"
    "\<forall>r\<in>set (registrations reg). rg_backend r = None \<longrightarrow> \<not> available r" "\<forall>j. length (dump j) < 10 ^ 13"
  shows "\<exists>sc. api_scheduler (sys_api sys) = Some sc
    \<and> distinct (map fst (sys_answered sys @ sys_inbox sys @ sys_dropped sys))
    \<and> (\<forall>(a, res)\<in>set (sys_answered sys). (\<exists>t\<in>set (accepted sc). tk_completion t = Some a \<and> rs_requestId res = rq_requestId (tk_request t))
         \<and> (\<forall>w. sys_conns sys a = Some w \<longrightarrow>
              sent w = sys_before sys a @ response_bytes (order (result_response dump res)) (result_response dump res)))
    \<and> (\<forall>a\<in>set (asked sc) - fst ` set (sys_answered sys). \<forall>w. sys_conns sys a = Some w \<longrightarrow> sent w = sys_before sys a)
    \<and> (\<forall>(a, res)\<in>set (sys_dropped sys). a \<in> sys_lost sys \<and> (\<forall>w. sys_conns sys a = Some w \<longrightarrow> \<not> connected (conn w)))
    \<and> (running_flag sc \<or> sys_inbox sys \<noteq> [] \<or> mset (map fst (sys_answered sys @ sys_dropped sys)) = mset (asked sc))"
proof -
  obtain sc where inv: "infer_inv dump order (heap_class env) sys sc" by (rule infer_run_inv [OF assms])
  then have sc: "queue_ok sc" "threads_ok sc" "\<forall>f\<in>set (finished sc). own_result f"
    and count: "mset (completions sc) = mset (sys_inbox sys) + mset (sys_answered sys) + mset (sys_dropped sys)"
    and drop: "\<forall>c\<in>set (sys_dropped sys). \<forall>w. sys_conns sys (fst c) = Some w \<longrightarrow> \<not> connected (conn w)"
    and lost: "lost_ok sys sc" and api: "api_scheduler (sys_api sys) = Some sc"
    unfolding infer_inv_def sched_inv_def by blast+
  have d: "distinct (map fst (sys_answered sys))" using answered_distinct [OF inv] by simp
  have ans: "a \<in> set (asked sc) \<and> (\<exists>t\<in>set (accepted sc). tk_completion t = Some a \<and> rs_requestId res = rq_requestId (tk_request t))"
    if "(a, res) \<in> set (sys_answered sys)" for a res
    using histories_asked [OF inv, of a res] completion_task [OF sc(1,3), of a res] that arg_cong [OF count, of set_mset] by auto
  have stop: "mset (map fst (sys_answered sys @ sys_dropped sys)) = mset (asked sc)" if "\<not> running_flag sc" "sys_inbox sys = []"
    using inv_stopped [OF inv that(1)] that(2) by simp
  have drops: "\<forall>(a, res)\<in>set (sys_dropped sys). a \<in> sys_lost sys \<and> (\<forall>w. sys_conns sys a = Some w \<longrightarrow> \<not> connected (conn w))"
  proof (intro ballI, clarify)
    fix a res assume c: "(a, res) \<in> set (sys_dropped sys)"
    have "fst ` set (sys_dropped sys) \<subseteq> sys_lost sys" using lost by (simp add: lost_ok_def)
    from subsetD [OF this imageI [OF c, of fst]] have "a \<in> sys_lost sys" by simp
    then show "a \<in> sys_lost sys \<and> (\<forall>w. sys_conns sys a = Some w \<longrightarrow> \<not> connected (conn w))" using bspec [OF drop c] by simp
  qed
  note due = inv_sent [OF inv]
  show ?thesis
    using api answered_distinct [OF inv] ans due answers_to_one [OF d] answers_to_none drops stop by (intro exI [of _ sc] conjI) fastforce+
qed

definition post_infer :: http_request where
  "post_infer = http_request_new\<lparr>req_method := kPost, req_path := ''/v1/infer'',
     req_files := [\<lparr>uf_fieldName = ''image'', uf_fileName = ''a.png'', uf_contentType = ''image/png'', uf_content = ''PNG''\<rparr>]\<rparr>"

definition mock_scheduler :: "(nat, heap) scheduler" where
  "mock_scheduler = scheduler_new (Some mock_registry) 1 2 None (\<lambda>_. MockObj (mock_backend_new 20))"

lemma mock_started:
  obtains sc where "sched_step (heap_class env) mock_scheduler sc" "accepted sc = []" "workers sc = [Checking]" "completions sc = []"
    "\<And>r c. rq_modelName r = ''default'' \<Longrightarrow> rq_backend r = kAuto \<Longrightarrow> fst (submit 5 0 r c sc) = kAccepted"
proof -
  let ?s = "start (heap_class env) [] mock_scheduler"
  define sc where "sc = snd (snd ?s)"
  have step: "sched_step (heap_class env) mock_scheduler sc"
    unfolding sc_def by (rule sched_step.start [of _ "[]" _ "fst ?s" "fst (snd ?s)"]) simp
  have sc: "accepted sc = []" "workers sc = [Checking]" "completions sc = []" "running_flag sc" "\<not> stopping sc" "tasks sc = []"
    "sc_capacity sc = 2" "\<exists>reg. sc_registry sc = Some reg \<and> hasModel ''default'' reg \<and> resolve ''default'' kAuto reg = (''mock'', Some 0)"
    unfolding sc_def mock_scheduler_def
    by (simp_all add: start_def scheduler_new_def scheduler_base_def initialize_def load_one_def mock_registry_def add_def
      registry_new_def heap_class_def obj_load_def obj_warmup_def mock_load_def mock_warmup_def mock_backend_new_def
      model_config_new_def hasModel_def resolve_def resolve_name_def Let_def)
  then have "fst (submit 5 0 r c sc) = kAccepted" if "rq_modelName r = ''default''" "rq_backend r = kAuto" for r c
    using that by (auto simp: submit_def Let_def)
  with step sc(1-3) show thesis by (rule that)
qed

lemma served_world: obtains w where "working 1 w" "reading (conn w)"
proof -
  let ?v = "connectEstablished no_callbacks http_world"
  let ?w = "?v\<lparr>conn := (conn ?v)\<lparr>inputBuffer := append [] (buffer_new 16), appContext := None\<rparr>\<rparr>"
  have "net_calm (net_answer http_world)" by (simp add: http_world_def net_calm_def tcp_connection_new_def Let_def)
  then have "serving 1 ?w" using serving_sample [OF http_world_fresh(1)] http_world_fresh(2) by metis
  then have "working 1 ?w" by (simp only: serving_working)
  moreover have "reading (conn ?w)"
    by (simp add: connectEstablished_def no_callbacks_def http_world_def tcp_connection_new_def setState_def Let_def)
  ultimately show thesis by (rule that)
qed

lemma post_infer_built:
  "\<exists>r'. buildRequest post_infer r = Inr r' \<and> rq_modelName r' = ''default'' \<and> rq_backend r' = kAuto"
  by (simp add: buildRequest_def post_infer_def http_request_new_def getBodyForm_def parseBackendType_def)

text \<open>A client connects to a service whose scheduler accepts the request it then sends.\<close>

lemma demo_request:
  fixes sys :: "'s infer_system"
  assumes "api_scheduler (sys_api sys) = Some sc" "accepted sc = []" "Sleeping \<notin> set (workers sc)" "sys_seen sys = {}"
    and acc: "\<And>r c. rq_modelName r = ''default'' \<Longrightarrow> rq_backend r = kAuto \<Longrightarrow> fst (submit 5 0 r c sc) = kAccepted"
  obtains sys2 sys3 sc3 a w where
    "infer_step (\<lambda>_. ''{}'') (\<lambda>_. []) cls sys sys2" "infer_step (\<lambda>_. ''{}'') (\<lambda>_. []) cls sys2 sys3"
    "sys_api sys2 = sys_api sys" "api_scheduler (sys_api sys3) = Some sc3" "asked sc3 = [a]" "running_flag sc3 = running_flag sc"
    "stopping sc3 = stopping sc" "sys_conns sys3 a = Some w" "connected (conn w)" "\<not> reading (conn w)" "sys_answered sys3 = sys_answered sys"
proof -
  obtain w where s: "working 1 w" and rd: "reading (conn w)" by (rule served_world)
  define a where "a = conn_addr (conn w)"
  define sys2 where "sys2 = sys\<lparr>sys_seen := insert a (sys_seen sys), sys_conns := (sys_conns sys)(a \<mapsto> w)\<rparr>"
  have step2: "infer_step (\<lambda>_. ''{}'') (\<lambda>_. []) cls sys sys2"
    unfolding sys2_def by (rule connect [OF _ s _ rd]) (simp_all add: assms(4) a_def)
  obtain took st3 w3 where h: "handleAsync (\<lambda>_. ''{}'') (\<lambda>_. []) 1 17 5 0 post_infer (sys_api sys2, w) = (took, st3, w3)"
    by (metis prod_cases3)
  have p: "req_path post_infer = ''/v1/infer''" "api_scheduler (sys_api sys2) = Some sc" "\<forall>j :: json. length ''{}'' < 10 ^ 13"
    by (simp_all add: post_infer_def sys2_def assms(1))
  note built = post_infer_built [of "inference_request_new\<lparr>rq_requestId := fst (nextRequestId 17 (sys_api sys2))\<rparr>"]
  obtain sc3 where sc3: "api_scheduler st3 = Some sc3" "asked sc3 = [a]" "w3 = stopRead 1 w"
    "running_flag sc3 = running_flag sc" "stopping sc3 = stopping sc"
    using p(1,2) s p(3) h
  proof (cases rule: handleAsync_outcome)
    case (accepted r sc')
    have "running_flag sc' = running_flag sc \<and> stopping sc' = stopping sc"
      using accepted(3) by (auto simp: submit_def set_depth_def notify_one_def Let_def split: if_splits option.splits prod.splits)
    then show thesis using accepted submit_request [OF accepted(3)] assms(2)
      by (intro that [of sc']) (auto simp: asked_def map_filter_simps a_def)
  next
    case (invalid e resp)
    then show thesis using built by simp
  next
    case (refused r res code resp)
    have "rq_modelName r = ''default''" "rq_backend r = kAuto" using built refused(2) by simp_all
    from acc [OF this, of "Some (conn_addr (conn w))"] show thesis using refused(3,4) by simp
  qed
  define sys3 where "sys3 = sys2\<lparr>sys_api := st3, sys_conns := (sys_conns sys2)(a \<mapsto> w3), sys_before := (sys_before sys2)(a := sent w)\<rparr>"
  have here: "sys_conns sys2 a = Some w" by (simp add: sys2_def)
  have idle: "(\<exists>i < length (workers sc). workers sc ! i = Sleeping) \<longrightarrow> 0 < length (workers sc) \<and> workers sc ! 0 = Sleeping"
    using assms(3) nth_mem by fastforce
  have step3: "infer_step (\<lambda>_. ''{}'') (\<lambda>_. []) cls sys2 sys3"
    unfolding sys3_def by (rule request [OF here s rd p(1,2) idle h])
  have "isInLoopThread 1 (io_loop w)" using s by (simp add: working_def)
  then have "connected (conn w3)" "\<not> reading (conn w3)"
    using stopRead_frame [of 1 w] s by (simp_all add: sc3(3) working_def connected_def)
  then show thesis
    using step2 step3 sc3 by (intro that [of sys2 sys3 sc3 a w3]) (simp_all add: sys2_def sys3_def)
qed

text \<open>A run: the scheduler starts, a client connects, and its request is accepted.\<close>

lemma infer_end_to_end_witness:
  "\<forall>env. \<exists>sys sc a. api_scheduler (sys_api sys) = Some sc \<and> asked sc = [a]
     \<and> (\<exists>w. sys_conns sys a = Some w \<and> connected (conn w) \<and> \<not> reading (conn w) \<and> sent w = sys_before sys a)
     \<and> infer_reach (\<lambda>_. ''{}'') (\<lambda>_. []) (heap_class env)
         (infer_new \<lparr>api_scheduler = Some mock_scheduler, api_metrics = None, api_sequence = 0\<rparr>) sys"
proof
  fix env
  let ?st = "\<lparr>api_scheduler = Some mock_scheduler, api_metrics = None, api_sequence = 0\<rparr>"
  let ?reach = "infer_reach (\<lambda>_ :: json. ''{}'') (\<lambda>_. []) (heap_class env) (infer_new ?st)"
  obtain sc1 where step1: "sched_step (heap_class env) mock_scheduler sc1" and sc1: "accepted sc1 = []" "workers sc1 = [Checking]" "completions sc1 = []"
    and acc: "\<And>r c. rq_modelName r = ''default'' \<Longrightarrow> rq_backend r = kAuto \<Longrightarrow> fst (submit 5 0 r c sc1) = kAccepted"
    by (rule mock_started [of env], rule that)
  define sys1 where "sys1 = (infer_new ?st)\<lparr>sys_api := ?st\<lparr>api_scheduler := Some sc1\<rparr>\<rparr>"
  have reach1: "?reach sys1"
    using further [OF initial [of _ _ _ "infer_new ?st"] schedule [OF _ step1]] sc1(1,3)
    by (simp add: infer_new_def sys1_def mock_scheduler_def scheduler_new_def scheduler_base_def)
  have "api_scheduler (sys_api sys1) = Some sc1" "Sleeping \<notin> set (workers sc1)" "sys_seen sys1 = {}"
    by (simp_all add: sys1_def sc1(2) infer_new_def)
  from demo_request [OF this(1) sc1(1) this(2,3) acc, of "heap_class env"] obtain sys2 sys3 sc3 a w where
    r: "infer_step (\<lambda>_. ''{}'') (\<lambda>_. []) (heap_class env) sys1 sys2" "infer_step (\<lambda>_. ''{}'') (\<lambda>_. []) (heap_class env) sys2 sys3"
      "api_scheduler (sys_api sys3) = Some sc3" "asked sc3 = [a]" "sys_conns sys3 a = Some w" "connected (conn w)" "\<not> reading (conn w)"
      "sys_answered sys3 = sys_answered sys1" by metis
  have reach3: "?reach sys3" by (rule further [OF further [OF reach1 r(1)] r(2)])
  have reg: "distinct (addresses (registrations mock_registry))" "\<forall>r\<in>set (registrations mock_registry). rg_backend r = None \<longrightarrow> \<not> available r"
    by (simp_all add: mock_registry_def add_def registry_new_def Let_def)
  have "sys_answered sys3 = []" using r(8) by (simp add: sys1_def infer_new_def)
  then have "sent w = sys_before sys3 a"
    using infer_end_to_end [OF reach3 [unfolded mock_scheduler_def] _ reg] r(3-5) by auto
  then show "\<exists>sys sc a. api_scheduler (sys_api sys) = Some sc \<and> asked sc = [a]
     \<and> (\<exists>w. sys_conns sys a = Some w \<and> connected (conn w) \<and> \<not> reading (conn w) \<and> sent w = sys_before sys a) \<and> ?reach sys"
    using reach3 r(3-7) by blast
qed

end
