(* ===== verification/Service_Main.thy ===== *)
theory Service_Main
  imports Inference_Api
begin

text \<open>
  The service (\<open>src/api/ManagementController.h\<close>, \<open>ManagementController.cc\<close>, \<open>src/http/main.cc\<close>): the management endpoints, the routes,
  the configuration from the environment, and the start-up.

  The controllers and the scheduler share one registry and one metrics object, which are those of the scheduler. The
  environment, the files, the compiled-in backends and the JSON library are parameters; what is printed is left out.
\<close>

section \<open>Management\<close>

definition requireGet :: "(json \<Rightarrow> bytes) \<Rightarrow> http_request \<Rightarrow> http_response \<Rightarrow> bool \<times> http_response" where
  "requireGet dump req resp =
     (if req_method req = kGet then (True, resp)
      else
        let resp = setStatusCode k405MethodNotAllowed resp;
            resp = setStatusMessage ''Method Not Allowed'' resp;
            resp = setContentType ''application/json; charset=utf-8'' resp;
            resp = rsp_addHeader ''Allow'' ''GET'' resp
        in (False, rsp_setBody (dump (JObj [(''success'', JBool False),
              (''error'', JObj [(''code'', JStr ''METHOD_NOT_ALLOWED''), (''message'', JStr ''GET method is required'')])])) resp))"

definition handleHealth :: "(json \<Rightarrow> bytes) \<Rightarrow> (nat \<Rightarrow> 's backend_class) \<Rightarrow> 's \<Rightarrow> registry option \<Rightarrow> http_request \<Rightarrow> http_response \<Rightarrow> http_response" where
  "handleHealth dump cls s reg req resp =
     (let (get, resp) = requireGet dump req resp in
      if \<not> get then resp
      else
        let configured = (case reg of None \<Rightarrow> 0 | Some r \<Rightarrow> length (registrations r));
            avail = (case reg of None \<Rightarrow> 0 | Some r \<Rightarrow> availableBackendCount r);
            healthy = (case reg of None \<Rightarrow> 0 | Some r \<Rightarrow> healthyBackendCount cls s r);
            serves = (healthy > 0);
            degraded = (serves \<and> healthy < configured);
            resp = setStatusCode (if serves then k200Ok else k503ServiceUnavailable) resp;
            resp = setStatusMessage (if serves then ''OK'' else ''Service Unavailable'') resp;
            resp = setContentType ''application/json; charset=utf-8'' resp
        in rsp_setBody (dump (JObj [
             (''status'', JStr (if serves then (if degraded then ''degraded'' else ''healthy'') else ''unavailable'')),
             (''serving'', JBool serves),
             (''backends'', JObj [(''configured'', JInt (int configured)), (''available'', JInt (int avail)),
                (''healthy'', JInt (int healthy))])])) resp)"

definition model_json :: "(nat \<Rightarrow> 's backend_class) \<Rightarrow> 's \<Rightarrow> registration \<Rightarrow> json" where
  "model_json cls s r =
     JObj [(''name'', JStr (mc_name (rg_config r))), (''version'', JStr (mc_version (rg_config r))),
       (''backend'', JStr (backendTypeName (mc_backend (rg_config r)))), (''priority'', JInt (priority r)),
       (''available'', JBool (available r)), (''healthy'', JBool (is_healthy cls s r))]"

definition handleModels :: "(json \<Rightarrow> bytes) \<Rightarrow> (nat \<Rightarrow> 's backend_class) \<Rightarrow> 's \<Rightarrow> registry option \<Rightarrow> http_request \<Rightarrow> http_response \<Rightarrow> http_response" where
  "handleModels dump cls s reg req resp =
     (let (get, resp) = requireGet dump req resp in
      if \<not> get then resp
      else
        let models = (case reg of None \<Rightarrow> [] | Some r \<Rightarrow> map (model_json cls s) (registrations r));
            resp = setStatusCode k200Ok resp;
            resp = setStatusMessage ''OK'' resp;
            resp = setContentType ''application/json; charset=utf-8'' resp
        in rsp_setBody (dump (JObj [(''default_model'', JStr (case reg of None \<Rightarrow> [] | Some r \<Rightarrow> defaultModel r)),
             (''models'', JArr models)])) resp)"

definition handleMetrics :: "(json \<Rightarrow> bytes) \<Rightarrow> metrics option \<Rightarrow> http_request \<Rightarrow> http_response \<Rightarrow> http_response" where
  "handleMetrics dump m req resp =
     (let (get, resp) = requireGet dump req resp in
      if \<not> get then resp
      else
        let resp = setStatusCode k200Ok resp;
            resp = setStatusMessage ''OK'' resp;
            resp = setContentType ''text/plain; version=0.0.4; charset=utf-8'' resp
        in rsp_setBody (case m of None \<Rightarrow> [] | Some v \<Rightarrow> renderPrometheus v) resp)"

section \<open>Files\<close>

text \<open>The answers of \<open>open\<close>, \<open>fstat\<close> and \<open>mmap\<close>; None is a failure.\<close>

record file_sys =
  fs_open :: "bytes \<Rightarrow> nat option"
  fs_size :: "nat \<Rightarrow> nat option"
  fs_map :: "nat \<Rightarrow> nat \<Rightarrow> bytes option"

datatype file_event = OpenFd nat | CloseFd nat | MapFd nat | UnmapFd nat

definition read_file_to_string :: "file_sys \<Rightarrow> bytes \<Rightarrow> bytes \<times> file_event list" where
  "read_file_to_string fs filename =
     (case fs_open fs filename of
        None \<Rightarrow> ([], [])
      | Some fd \<Rightarrow>
     (case fs_size fs fd of
        None \<Rightarrow> ([], [OpenFd fd, CloseFd fd])
      | Some n \<Rightarrow>
     (case fs_map fs fd n of
        None \<Rightarrow> ([], [OpenFd fd, CloseFd fd])
      | Some mapped \<Rightarrow> (take n mapped, [OpenFd fd, MapFd fd, UnmapFd fd, CloseFd fd]))))"

definition favicon :: bytes where
  "favicon = map (char_of :: nat \<Rightarrow> char)
    [137, 80, 78, 71, 13, 10, 26, 10, 0, 0, 0, 13, 73, 72, 68, 82, 0, 0, 0, 16, 0, 0, 0, 16, 8, 6, 0, 0, 0, 31, 243,
     255, 97, 0, 0, 0, 25, 116, 69, 88, 116, 83, 111, 102, 116, 119, 97, 114, 101, 0, 65, 100, 111, 98, 101, 32, 73,
     109, 97, 103, 101, 82, 101, 97, 100, 121, 113, 201, 101, 60, 0, 0, 1, 205, 73, 68, 65, 84, 120, 218, 148, 147, 57,
     72, 3, 65, 20, 134, 255, 93, 98, 167, 4, 82, 196, 109, 34, 30, 160, 70, 36, 8, 22, 22, 118, 10, 54, 186, 74, 154,
     128, 8, 65, 180, 113, 133, 88, 137, 71, 176, 73, 169, 81, 36, 205, 166, 8, 164, 72, 99, 145, 66, 11, 175, 86, 193,
     70, 180, 21, 207, 34, 88, 152, 11, 84, 72, 138, 100, 147, 141, 251, 70, 103, 201, 26, 20, 125, 240, 102, 118, 102,
     223, 124, 239, 231, 103, 70, 168, 213, 106, 72, 36, 18, 42, 0, 5, 191, 71, 212, 239, 247, 47, 54, 236, 18, 32, 30,
     143, 215, 170, 213, 234, 175, 73, 53, 70, 170, 84, 95, 159, 34, 65, 42, 149, 10, 131, 229, 114, 57, 100, 179, 89,
     150, 153, 76, 6, 233, 116, 154, 37, 133, 44, 203, 84, 167, 196, 98, 49, 181, 94, 0, 3, 104, 154, 198, 22, 130, 32,
     88, 82, 20, 69, 54, 83, 148, 203, 101, 120, 189, 94, 170, 85, 84, 35, 76, 192, 224, 226, 193, 143, 0, 158, 188, 9,
     65, 124, 62, 31, 131, 68, 34, 17, 213, 84, 64, 63, 56, 128, 119, 229, 51, 7, 184, 92, 46, 72, 146, 4, 135, 195,
     129, 64, 32, 64, 103, 152, 233, 54, 26, 166, 103, 21, 4, 227, 215, 200, 189, 21, 225, 105, 183, 67, 171, 234, 120,
     47, 106, 88, 146, 187, 24, 32, 159, 207, 51, 195, 184, 233, 78, 167, 211, 108, 74, 0, 105, 54, 124, 142, 225, 254,
     86, 132, 231, 60, 159, 114, 43, 58, 66, 123, 55, 102, 119, 174, 142, 14, 243, 189, 82, 169, 100, 2, 66, 175, 133,
     50, 102, 70, 186, 12, 217, 159, 29, 154, 108, 34, 230, 199, 58, 44, 128, 239, 193, 21, 144, 7, 147, 162, 40, 160,
     83, 106, 177, 184, 223, 41, 53, 67, 14, 63, 88, 252, 152, 218, 121, 106, 80, 64, 0, 135, 174, 27, 23, 66, 180, 58,
     63, 190, 121, 199, 10, 38, 182, 238, 217, 154, 96, 20, 147, 219, 143, 13, 10, 46, 233, 35, 149, 41, 88, 0, 39,
     235, 110, 86, 112, 188, 214, 203, 214, 71, 171, 61, 108, 125, 184, 210, 221, 160, 96, 131, 186, 239, 95, 164, 234,
     204, 2, 78, 174, 94, 112, 26, 236, 179, 64, 57, 172, 254, 242, 145, 137, 103, 145, 133, 33, 168, 135, 183, 88,
     126, 126, 133, 187, 205, 78, 78, 98, 116, 64, 250, 147, 137, 236, 30, 236, 134, 2, 72, 38, 147, 208, 117, 29, 127,
     9, 50, 149, 191, 31, 219, 215, 99, 138, 26, 247, 92, 193, 255, 34, 74, 195, 135, 0, 3, 0, 75, 187, 248, 214, 42,
     118, 152, 73, 0, 0, 0, 0, 73, 69, 78, 68, 174, 66, 96, 130]"

section \<open>Routes\<close>

text \<open>\<open>onRequest\<close> of \<open>main.cc\<close>, the synchronous handler of the server.\<close>

definition main_onRequest :: "(json \<Rightarrow> bytes) \<Rightarrow> file_sys \<Rightarrow> bytes \<Rightarrow> (nat \<Rightarrow> 's backend_class) \<Rightarrow> 64 word \<Rightarrow> http_request
    \<Rightarrow> http_response \<Rightarrow> 's api \<Rightarrow> http_response \<times> 's api" where
  "main_onRequest dump fs htmlFilePath cls now req resp st =
     (let ok = (\<lambda>resp. setStatusMessage ''OK'' (setStatusCode k200Ok resp));
          reg = (case api_scheduler st of None \<Rightarrow> None | Some sc \<Rightarrow> sc_registry sc);
          m = (case api_scheduler st of None \<Rightarrow> api_metrics st | Some sc \<Rightarrow> sc_metrics sc);
          with_objects = (\<lambda>f. case api_scheduler st of None \<Rightarrow> resp | Some sc \<Rightarrow> f (objects_state sc))
      in if req_path req = ''/'' then
           (rsp_setBody (fst (read_file_to_string fs htmlFilePath))
              (rsp_addHeader ''Server'' ''mytinymuduo'' (setContentType ''text/html'' (ok resp))), st)
         else if req_path req = ''/favicon.ico'' then (rsp_setBody favicon (setContentType ''image/png'' (ok resp)), st)
         else if req_path req = ''/v1/infer'' then infer_handle dump now req resp st
         else if req_path req = ''/healthz'' then (with_objects (\<lambda>s. handleHealth dump cls s reg req resp), st)
         else if req_path req = ''/v1/models'' then (with_objects (\<lambda>s. handleModels dump cls s reg req resp), st)
         else if req_path req = ''/metrics'' then (handleMetrics dump m req resp, st)
         else if req_path req = ''/upload'' then
           (case req_files req of
              [] \<Rightarrow> (setCloseConnection True (setStatusMessage ''Bad Request'' (setStatusCode k400BadRequest resp)), st)
            | file # _ \<Rightarrow>
                (rsp_setBody (uf_content file) (rsp_addHeader ''Server'' ''mytinymuduo''
                   (setContentType (if uf_contentType file = [] then ''application/octet-stream'' else uf_contentType file) (ok resp))), st))
         else (setCloseConnection True (setStatusMessage ''Not Found'' (setStatusCode k404NotFound resp)), st))"

section \<open>Configuration and start-up\<close>

record main_env =
  getenv :: "bytes \<Rightarrow> bytes option"
  sigmask_ok :: bool
  default_registry_path :: bytes
  default_html_path :: bytes
  enabled_backends :: "backend_type set"
  config_file :: "bytes \<Rightarrow> bytes option"

definition environmentOrDefault :: "main_env \<Rightarrow> bytes \<Rightarrow> bytes \<Rightarrow> bytes" where
  "environmentOrDefault env name fallback =
     (case getenv env name of None \<Rightarrow> fallback | Some v \<Rightarrow> if v = [] then fallback else v)"

definition positiveEnvironment :: "main_env \<Rightarrow> bytes \<Rightarrow> nat \<Rightarrow> nat \<Rightarrow> bytes + nat" where
  "positiveEnvironment env name fallback maximum =
     (case getenv env name of
        None \<Rightarrow> Inr fallback
      | Some v \<Rightarrow>
          if v = [] then Inr fallback
          else
            let (parsed, n, range) = strtoull10 v in
            if range \<or> n = 0 \<or> n < length v \<or> parsed = 0 \<or> maximum < parsed
            then Inl (name @ '' must be an integer between 1 and '' @ show_nat maximum)
            else Inr parsed)"

text \<open>Port, number of workers and capacity of the queue, read in this order.\<close>

definition main_config :: "main_env \<Rightarrow> bytes + (nat \<times> nat \<times> nat)" where
  "main_config env =
     (case positiveEnvironment env ''MYWEBSERVER_PORT'' 10000 65535 of Inl e \<Rightarrow> Inl e | Inr port \<Rightarrow>
      case positiveEnvironment env ''MYWEBSERVER_INFERENCE_WORKERS'' 2 1024 of Inl e \<Rightarrow> Inl e | Inr n \<Rightarrow>
      case positiveEnvironment env ''MYWEBSERVER_QUEUE_CAPACITY'' 128 1000000 of Inl e \<Rightarrow> Inl e | Inr cap \<Rightarrow>
      Inr (port, n, cap))"

text \<open>The objects that \<open>createBackend\<close> makes, and the mock backend of a build without backends.\<close>

definition objects_of :: "backend_type list \<Rightarrow> heap" where
  "objects_of objs a = (case (if a < length objs then objs ! a else kAuto) of
      kAuto \<Rightarrow> MockObj (mock_backend_new 20) | kTensorFlow \<Rightarrow> TfObj tf_backend_new | kTensorRT \<Rightarrow> TrtObj trt_backend_new)"

definition main_registry :: "'j json_lib \<Rightarrow> main_env \<Rightarrow> bytes + backend_type list \<times> registry" where
  "main_registry js env =
     (if enabled_backends env \<inter> {kTensorFlow, kTensorRT} \<noteq> {} then
        (case loadFromFile js (config_file env) (enabled_backends env)
                (environmentOrDefault env ''MYWEBSERVER_MODEL_REGISTRY'' (default_registry_path env)) [] ([], registry_new) of
           (ok, err, objs, reg) \<Rightarrow> if ok then Inr (objs, reg) else Inl (''Failed to load model registry: '' @ err))
      else
        (case add (model_config_new\<lparr>mc_name := ''mock'', mc_version := ''mock-1''\<rparr>) (Some 0) 0 [] registry_new of
           (ok, err, reg) \<Rightarrow> if ok then Inr ([kAuto], reg) else Inl (''Failed to register Mock backend: '' @ err)))"

record 's service =
  sv_api :: "'s api"
  sv_port :: "16 word"
  sv_html :: bytes

text \<open>\<open>main\<close> up to the start of the server: Inl is what it prints before it returns 1.\<close>

definition main_start :: "'j json_lib \<Rightarrow> main_env \<Rightarrow> (nat \<Rightarrow> 's backend_class) \<Rightarrow> (backend_type list \<Rightarrow> 's) \<Rightarrow> bytes + 's service" where
  "main_start js env cls objects =
     (if \<not> sigmask_ok env then Inl ''Failed to block shutdown signals''
      else
        case main_config env of
          Inl e \<Rightarrow> Inl (''Invalid configuration: '' @ e)
        | Inr (port, n, cap) \<Rightarrow>
           (case main_registry js env of
              Inl e \<Rightarrow> Inl e
            | Inr (objs, reg) \<Rightarrow>
               (case start cls [] (scheduler_new (Some reg) n cap (Some metrics_new) (objects objs)) of
                  (ok, err, sc) \<Rightarrow>
                    if \<not> ok then Inl (''Failed to start inference scheduler: '' @ err)
                    else Inr \<lparr>sv_api = \<lparr>api_scheduler = Some sc, api_metrics = None, api_sequence = 0\<rparr>,
                           sv_port = of_nat port,
                           sv_html = environmentOrDefault env ''MYWEBSERVER_HTML_PATH'' (default_html_path env)\<rparr>)))"

end
