(* ===== verification/Service_Props.thy ===== *)
theory Service_Props
  imports Service_Main
begin

text \<open>
  What the start-up and the management endpoints guarantee: the configuration is within its limits, a service that came up
  has a scheduler that runs on a healthy backend, and it reports itself healthy as long as the scheduler runs.
\<close>

section \<open>Configuration\<close>

lemma positiveEnvironment_range:
  assumes "positiveEnvironment env name fallback maximum = Inr n" "1 \<le> fallback" "fallback \<le> maximum"
  shows "1 \<le> n \<and> n \<le> maximum"
  using assms by (auto simp: positiveEnvironment_def Let_def split: option.splits if_splits prod.splits)

lemma main_config_range:
  assumes "main_config env = Inr (port, n, cap)"
  shows "1 \<le> port \<and> port \<le> 65535 \<and> 1 \<le> n \<and> n \<le> 1024 \<and> 1 \<le> cap \<and> cap \<le> 1000000"
  using assms positiveEnvironment_range [of env "''MYWEBSERVER_PORT''" 10000 65535]
    positiveEnvironment_range [of env "''MYWEBSERVER_INFERENCE_WORKERS''" 2 1024]
    positiveEnvironment_range [of env "''MYWEBSERVER_QUEUE_CAPACITY''" 128 1000000]
  by (auto simp: main_config_def split: sum.splits)

text \<open>A decimal number within the limits is read as itself.\<close>

lemma positiveEnvironment_digits:
  assumes "getenv env name = Some ds" "ds \<noteq> []" "\<forall>c\<in>set ds. is_digit c"
    "1 \<le> read_digits 0 ds" "read_digits 0 ds \<le> maximum" "maximum \<le> ULLONG_MAX"
  shows "positiveEnvironment env name fallback maximum = Inr (read_digits 0 ds)"
  using assms by (simp add: positiveEnvironment_def strtoull10_digits)

section \<open>Start-up\<close>

lemma main_registry_ready:
  assumes "main_registry js env = Inr (objs, reg)"
  shows "distinct (addresses (registrations reg)) \<and> (\<forall>r\<in>set (registrations reg). rg_backend r = None \<longrightarrow> \<not> available r)"
proof (cases "enabled_backends env \<inter> {kTensorFlow, kTensorRT} = {}")
  case True
  then show ?thesis using assms by (auto simp: main_registry_def add_def registry_new_def Let_def)
next
  case False
  let ?path = "environmentOrDefault env ''MYWEBSERVER_MODEL_REGISTRY'' (default_registry_path env)"
  obtain ok err objs' reg' where l: "loadFromFile js (config_file env) (enabled_backends env) ?path [] ([], registry_new) = (ok, err, objs', reg')"
    by (metis prod_cases4)
  then have "ok" "reg' = reg" using assms False by (auto simp: main_registry_def split: if_splits)
  with loadFromFile_cases [OF l] have "registry_ok (enabled_backends env) (directoryOf ?path) objs' reg" by simp
  then show ?thesis by (auto simp: registry_ok_def entry_ok_def)
qed

lemma started:
  fixes cls :: "nat \<Rightarrow> 'a backend_class"
  assumes "main_start js env cls objects = Inr sv"
  obtains port n cap objs reg and sc :: "(nat, 'a) scheduler" where "main_config env = Inr (port, n, cap)" "main_registry js env = Inr (objs, reg)"
    "start cls [] (scheduler_new (Some reg) n cap (Some metrics_new) (objects objs)) = (True, [], sc)"
    "sv = \<lparr>sv_api = \<lparr>api_scheduler = Some sc, api_metrics = None, api_sequence = 0\<rparr>, sv_port = of_nat port,
       sv_html = environmentOrDefault env ''MYWEBSERVER_HTML_PATH'' (default_html_path env)\<rparr>"
proof -
  obtain port n cap where c: "main_config env = Inr (port, n, cap)" and m: "sigmask_ok env"
    using assms by (cases "main_config env") (auto simp: main_start_def split: if_splits)
  obtain objs reg where r: "main_registry js env = Inr (objs, reg)"
    using assms c m by (cases "main_registry js env") (auto simp: main_start_def)
  obtain ok err and sc :: "(nat, 'a) scheduler"
    where s: "start cls [] (scheduler_new (Some reg) n cap (Some metrics_new) (objects objs)) = (ok, err, sc)"
    by (metis prod_cases3)
  have ok: ok using assms c m r s by (auto simp: main_start_def split: if_splits)
  then have "err = []" using s by (auto simp: start_def initialize_def Let_def split: if_splits option.splits prod.splits)
  then show thesis using that [OF c r] assms c m r s ok by (auto simp: main_start_def)
qed

text \<open>
  Property C31. A service that came up: its port, its number of workers and the capacity of its queue are those configured
  and within their limits, the port survives the conversion to 16 bits, and its scheduler runs with that many workers on a
  registry with an available backend.
\<close>

theorem service_start:
  fixes cls :: "nat \<Rightarrow> 'a backend_class"
  assumes "main_start js env cls objects = Inr sv"
  shows "\<exists>port n cap sc reg. main_config env = Inr (port, n, cap)
    \<and> unat (sv_port sv) = port \<and> 1 \<le> port \<and> port \<le> 65535 \<and> 1 \<le> n \<and> n \<le> 1024 \<and> 1 \<le> cap \<and> cap \<le> 1000000
    \<and> api_scheduler (sv_api sv) = Some sc \<and> running sc \<and> length (workers sc) = n \<and> sc_capacity sc = cap
    \<and> pendingTasks sc = 0 \<and> sc_registry sc = Some reg \<and> 0 < availableBackendCount reg"
proof -
  obtain port n cap objs reg and sc :: "(nat, 'a) scheduler" where s: "main_config env = Inr (port, n, cap)" "main_registry js env = Inr (objs, reg)"
    "start cls [] (scheduler_new (Some reg) n cap (Some metrics_new) (objects objs)) = (True, [], sc)"
    "sv = \<lparr>sv_api = \<lparr>api_scheduler = Some sc, api_metrics = None, api_sequence = 0\<rparr>, sv_port = of_nat port,
       sv_html = environmentOrDefault env ''MYWEBSERVER_HTML_PATH'' (default_html_path env)\<rparr>"
    by (rule started [OF assms])
  note range = main_config_range [OF s(1)]
  let ?init = "scheduler_new (Some reg) n cap (Some metrics_new) (objects objs) :: (nat, 'a) scheduler"
  have "sched_step cls ?init sc" by (rule sched_step.start [OF s(3)])
  moreover have "some_available ?init" by (simp add: some_available_def scheduler_new_def scheduler_base_def)
  ultimately have av: "some_available sc" by (rule step_available)
  have sc: "running sc" "length (workers sc) = n" "sc_capacity sc = cap" "pendingTasks sc = 0"
    using s(3) range
    by (auto simp: start_def scheduler_new_def scheduler_base_def running_def pendingTasks_def Let_def split: prod.splits if_splits)
  from av sc(1) obtain reg' where "sc_registry sc = Some reg'" "0 < availableBackendCount reg'"
    by (auto simp: some_available_def running_def)
  moreover have "unat (sv_port sv) = port" using range s(4) by (simp add: unat_of_nat)
  ultimately show ?thesis using s(1,4) sc range by auto
qed

text \<open>A build without backends, and one variable set.\<close>

definition demo_env :: main_env where
  "demo_env = \<lparr>getenv = [''MYWEBSERVER_QUEUE_CAPACITY'' \<mapsto> ''16''], sigmask_ok = True, default_registry_path = [],
     default_html_path = ''index.html'', enabled_backends = {}, config_file = (\<lambda>_. None)\<rparr>"

lemma demo_config: "main_config demo_env = Inr (10000, 2, 16)"
proof -
  have "positiveEnvironment demo_env ''MYWEBSERVER_QUEUE_CAPACITY'' 128 1000000 = Inr (read_digits 0 ''16'')"
    by (rule positiveEnvironment_digits) (simp_all add: demo_env_def is_digit_def digit_val_def ULLONG_MAX_def)
  moreover have "positiveEnvironment demo_env ''MYWEBSERVER_PORT'' 10000 65535 = Inr 10000"
    "positiveEnvironment demo_env ''MYWEBSERVER_INFERENCE_WORKERS'' 2 1024 = Inr 2"
    by (simp_all add: positiveEnvironment_def demo_env_def)
  ultimately show ?thesis by (simp add: main_config_def digit_val_def)
qed

lemma demo_service: "\<exists>sv. main_start js demo_env (heap_class be) objects_of = Inr sv"
proof -
  have "\<exists>objs reg. main_registry js demo_env = Inr (objs, reg) \<and> objs = [kAuto] \<and> reg = mock_registry"
    by (simp add: main_registry_def demo_env_def add_def registry_new_def mock_registry_def Let_def)
  moreover have "\<exists>sc :: (nat, heap) scheduler. start (heap_class be) [] (scheduler_new (Some mock_registry) 2 16 (Some metrics_new) (objects_of [kAuto])) = (True, [], sc)"
    by (simp add: start_def scheduler_new_def scheduler_base_def initialize_def load_one_def mock_registry_def add_def
      registry_new_def heap_class_def obj_load_def obj_warmup_def mock_load_def mock_warmup_def mock_backend_new_def
      model_config_new_def objects_of_def Let_def)
  moreover have "sigmask_ok demo_env" by (simp add: demo_env_def)
  ultimately show ?thesis by (auto simp: main_start_def demo_config)
qed

lemma service_start_witness:
  "\<forall>be. \<exists>sv. main_start (sample_lib JNull) demo_env (heap_class be) objects_of = Inr sv \<and> unat (sv_port sv) = 10000"
proof
  fix be
  obtain sv where sv: "main_start (sample_lib JNull) demo_env (heap_class be) objects_of = Inr sv" using demo_service by blast
  from service_start [OF sv] have "unat (sv_port sv) = 10000" by (auto simp: demo_config)
  with sv show "\<exists>sv. main_start (sample_lib JNull) demo_env (heap_class be) objects_of = Inr sv \<and> unat (sv_port sv) = 10000" by blast
qed

section \<open>Health\<close>

lemma reach_healthy:
  assumes "main_start js env (heap_class be) objects_of = Inr sv" "api_scheduler (sv_api sv) = Some sc0"
    "sched_reach (heap_class be) sc0 sc" "running_flag sc"
  shows "\<exists>reg. sc_registry sc = Some reg \<and> 0 < healthyBackendCount (heap_class be) (objects_state sc) reg"
proof -
  obtain port n cap objs reg and sc1 :: "(nat, heap) scheduler"
    where c: "main_config env = Inr (port, n, cap)" and s: "main_registry js env = Inr (objs, reg)"
    "start (heap_class be) [] (scheduler_new (Some reg) n cap (Some metrics_new) (objects_of objs)) = (True, [], sc1)"
    "sv = \<lparr>sv_api = \<lparr>api_scheduler = Some sc1, api_metrics = None, api_sequence = 0\<rparr>, sv_port = of_nat port,
       sv_html = environmentOrDefault env ''MYWEBSERVER_HTML_PATH'' (default_html_path env)\<rparr>"
    by (rule started [OF assms(1)])
  then have sc0: "sc0 = sc1" using assms(2) by simp
  let ?init = "scheduler_new (Some reg) n cap (Some metrics_new) (objects_of objs) :: (nat, heap) scheduler"
  have "sched_reach (heap_class be) ?init sc0" unfolding sc0 by (rule onward [OF here sched_step.start [OF s(2)]])
  then have reach: "sched_reach (heap_class be) ?init sc" using reach_trans [OF assms(3)] by blast
  have ok: "queue_ok ?init \<and> threads_ok ?init" by (rule scheduler_new_ok) (simp add: metrics_new_def)
  have "registry_ready (heap_class be) ?init" "tasks_ready (heap_class be) ?init" "finished ?init = []" "some_available ?init"
    using main_registry_ready [OF s(1)]
    by (simp_all add: scheduler_new_def scheduler_base_def registry_ready_def tasks_ready_def some_available_def)
  with heap.reach_ready [OF reach] ok reach_available [OF reach] have "registry_ready (heap_class be) sc" "some_available sc" by auto
  then show ?thesis
    using healthy_available [of "heap_class be" sc] assms(4) by (auto simp: some_available_def)
qed

text \<open>
  Property C32. Health: from the start-up on, in every state that submissions, workers, stops and restarts lead to, as long as
  the scheduler runs, a GET of \<open>/healthz\<close> is answered with 200, and not with 503.
\<close>

theorem healthy_while_running:
  assumes "main_start js env (heap_class be) objects_of = Inr sv" "api_scheduler (sv_api sv) = Some sc0"
    "sched_reach (heap_class be) sc0 sc" "running_flag sc" "req_method req = kGet"
    "req_path req = ''/healthz''" "api_scheduler st = Some sc"
  shows "rsp_status (fst (main_onRequest dump fs html (heap_class be) now req resp st)) = k200Ok"
proof -
  obtain reg where "sc_registry sc = Some reg" "0 < healthyBackendCount (heap_class be) (objects_state sc) reg"
    using reach_healthy [OF assms(1-4)] by blast
  then show ?thesis
    using assms(5-7)
    by (simp add: main_onRequest_def handleHealth_def requireGet_def setStatusCode_def setStatusMessage_def setContentType_def
      rsp_setBody_def rsp_addHeader_def Let_def)
qed

definition get_health :: http_request where
  "get_health = http_request_new\<lparr>req_method := kGet, req_path := ''/healthz''\<rparr>"

lemma healthy_while_running_witness:
  "\<forall>be. \<exists>sv. main_start (sample_lib JNull) demo_env (heap_class be) objects_of = Inr sv
     \<and> rsp_status (fst (main_onRequest (\<lambda>_. []) \<lparr>fs_open = (\<lambda>_. None), fs_size = (\<lambda>_. None), fs_map = (\<lambda>_ _. None)\<rparr> []
         (heap_class be) 0 get_health (http_response_new True) (sv_api sv))) = k200Ok"
proof
  fix be
  obtain sv where sv: "main_start (sample_lib JNull) demo_env (heap_class be) objects_of = Inr sv" using demo_service by blast
  obtain port n cap objs reg and sc :: "(nat, heap) scheduler" where s: "main_config demo_env = Inr (port, n, cap)"
    and r: "main_registry (sample_lib JNull) demo_env = Inr (objs, reg)" and st: "start (heap_class be) [] (scheduler_new (Some reg) n cap (Some metrics_new) (objects_of objs)) = (True, [], sc)"
    and v: "sv = \<lparr>sv_api = \<lparr>api_scheduler = Some sc, api_metrics = None, api_sequence = 0\<rparr>, sv_port = of_nat port,
       sv_html = environmentOrDefault demo_env ''MYWEBSERVER_HTML_PATH'' (default_html_path demo_env)\<rparr>"
    by (rule started [OF sv])
  have a: "api_scheduler (sv_api sv) = Some sc" using v by simp
  have "running_flag sc"
    using st by (auto simp: start_def scheduler_new_def scheduler_base_def Let_def split: prod.splits if_splits)
  from healthy_while_running [OF sv a here this _ _ a] sv
  show "\<exists>sv. main_start (sample_lib JNull) demo_env (heap_class be) objects_of = Inr sv
     \<and> rsp_status (fst (main_onRequest (\<lambda>_. []) \<lparr>fs_open = (\<lambda>_. None), fs_size = (\<lambda>_. None), fs_map = (\<lambda>_ _. None)\<rparr> []
         (heap_class be) 0 get_health (http_response_new True) (sv_api sv))) = k200Ok"
    by (auto simp: get_health_def)
qed

section \<open>Files\<close>

text \<open>Every descriptor is closed and every mapping removed, on every path.\<close>

lemma read_file_balanced:
  assumes "read_file_to_string fs filename = (str, evs)"
  shows "\<forall>fd. (OpenFd fd \<in> set evs \<longleftrightarrow> last evs = CloseFd fd \<and> evs \<noteq> []) \<and> (MapFd fd \<in> set evs \<longleftrightarrow> UnmapFd fd \<in> set evs)"
  using assms by (auto simp: read_file_to_string_def split: option.splits)

end
