(* ===== verification/Backend_Props.thy ===== *)
theory Backend_Props
  imports Inference_Backends
begin

text \<open>
  What the backends guarantee beyond their interface: handles are never leaked or released twice, and the input of
  TensorRT is the transposed tensor. Then the objects of all three classes as one heap, on which the registry works.
\<close>

section \<open>Handles\<close>

type_synonym handles = "(resource \<times> nat) set"

definition use_step :: "resource_event \<Rightarrow> bool \<times> handles \<Rightarrow> bool \<times> handles" where
  "use_step e st = (case e of
      Acquire k n \<Rightarrow> (fst st \<and> (k, n) \<notin> snd st, insert (k, n) (snd st))
    | Release k n \<Rightarrow> (fst st \<and> (k, n) \<in> snd st, snd st - {(k, n)}))"

text \<open>Whether every release was of a handle held at the time, and the handles held in the end.\<close>

definition usage :: "resource_event list \<Rightarrow> bool \<times> handles" where
  "usage ev = fold use_step ev (True, {})"

definition held :: "resource \<Rightarrow> nat option \<Rightarrow> handles" where
  "held k h = (case h of None \<Rightarrow> {} | Some n \<Rightarrow> {(k, n)})"

definition res_ok :: "resource_event list \<Rightarrow> handles \<Rightarrow> bool" where
  "res_ok ev S \<longleftrightarrow> usage ev = (True, S) \<and> (\<forall>p\<in>S. snd p < length ev)"

lemma held_simps [simp]: "held k None = {}" "held k (Some n) = {(k, n)}"
  by (simp_all add: held_def)

lemma res_ok_acquire: "res_ok ev S \<Longrightarrow> acquire k ev = (n, ev') \<Longrightarrow> res_ok ev' (insert (k, n) S)"
  by (fastforce simp: res_ok_def acquire_def usage_def use_step_def)

lemma res_ok_try: "res_ok ev S \<Longrightarrow> try_acquire ok k ev = (h, ev') \<Longrightarrow> res_ok ev' (held k h \<union> S) \<and> (h \<noteq> None \<longleftrightarrow> ok)"
  using res_ok_acquire by (auto simp: try_acquire_def Let_def split: prod.splits if_splits)

lemma res_ok_release: "res_ok ev S \<Longrightarrow> held k h \<subseteq> S \<Longrightarrow> res_ok (release k h ev) (S - held k h)"
  by (cases h) (fastforce simp: res_ok_def release_def usage_def use_step_def)+

definition tf_handles :: "tf_backend \<Rightarrow> handles" where
  "tf_handles b = held Graph (graph b) \<union> held Session (session b) \<union> held Status (Some (tf_status b))"

definition trt_handles :: "trt_backend \<Rightarrow> handles" where
  "trt_handles b = held Runtime (runtime b) \<union> held Engine (engine b) \<union> held Context (exec_context b) \<union> held Stream (stream b)
     \<union> held DeviceInput (deviceInput b) \<union> held DeviceOutput (deviceOutput b)"

lemma tf_close_ok:
  assumes "res_ok (tf_events b) (tf_handles b)"
  shows "res_ok (tf_events (tf_close b)) {(Status, tf_status b)}" "tf_handles (tf_close b) = {(Status, tf_status b)}"
    "tf_status (tf_close b) = tf_status b"
proof -
  have "res_ok (release Session (session b) (tf_events b)) (tf_handles b - held Session (session b))"
    by (rule res_ok_release [OF assms]) (auto simp: tf_handles_def)
  moreover have "tf_handles b - held Session (session b) = held Graph (graph b) \<union> {(Status, tf_status b)}"
    by (auto simp: tf_handles_def held_def split: option.splits)
  ultimately have "res_ok (release Graph (graph b) (release Session (session b) (tf_events b)))
      (held Graph (graph b) \<union> {(Status, tf_status b)} - held Graph (graph b))"
    by (intro res_ok_release) auto
  moreover have "held Graph (graph b) \<union> {(Status, tf_status b)} - held Graph (graph b) = {(Status, tf_status b)}"
    by (auto simp: held_def split: option.splits)
  ultimately show "res_ok (tf_events (tf_close b)) {(Status, tf_status b)}" by (simp add: tf_close_def)
qed (simp_all add: tf_close_def tf_handles_def)

lemma tf_load_res:
  assumes "res_ok (tf_events b) (tf_handles b)" "tf_load api config err b = (ok, err', b')"
  shows "res_ok (tf_events b') (tf_handles b')"
proof -
  note c = tf_close_ok [OF assms(1)]
  let ?S = "(Status, tf_status b)"
  obtain g ev where g: "acquire Graph (tf_events (tf_close b)) = (g, ev)" by (cases "acquire Graph (tf_events (tf_close b))")
  have r1: "res_ok ev {(Graph, g), ?S}" using res_ok_acquire [OF c(1) g] by simp
  obtain n ev1 where o: "acquire SessionOptions ev = (n, ev1)" by (cases "acquire SessionOptions ev")
  have r2: "res_ok ev1 {(SessionOptions, n), (Graph, g), ?S}" using res_ok_acquire [OF r1 o] by simp
  obtain hs st where hs: "tf_load_session api (mc_path config) = (hs, st)" by (cases "tf_load_session api (mc_path config)")
  obtain s ev2 where s: "try_acquire hs Session ev1 = (s, ev2)" by (cases "try_acquire hs Session ev1")
  have "res_ok ev2 (held Session s \<union> {(SessionOptions, n), (Graph, g), ?S})" using res_ok_try [OF r2 s] by blast
  from res_ok_release [OF this, of SessionOptions "Some n"]
  have "res_ok (release SessionOptions (Some n) ev2) (held Session s \<union> {(SessionOptions, n), (Graph, g), ?S} - {(SessionOptions, n)})" by simp
  moreover have "held Session s \<union> {(SessionOptions, n), (Graph, g), ?S} - {(SessionOptions, n)} = held Session s \<union> {(Graph, g), ?S}"
    by (auto simp: held_def split: option.splits)
  ultimately have r3: "res_ok (release SessionOptions (Some n) ev2) (held Session s \<union> {(Graph, g), ?S})" by simp
  let ?b = "(tf_close b)\<lparr>tf_config := config, graph := Some g, session := s, tf_events := release SessionOptions (Some n) ev2\<rparr>"
  have "tf_handles ?b = held Session s \<union> {(Graph, g), ?S}" using c(3) by (auto simp: tf_handles_def)
  then have rb: "res_ok (tf_events ?b) (tf_handles ?b)" using r3 by simp
  let ?b2 = "?b\<lparr>input_oper := tf_operation api ''serving_default_images'', output_oper := tf_operation api ''PartitionedCall''\<rparr>"
  have rb2: "res_ok (tf_events ?b2) (tf_handles ?b2)" using rb by (simp add: tf_handles_def)
  have "b' \<in> {tf_close ?b, tf_close ?b2, ?b2\<lparr>tf_loaded := True\<rparr>}"
    using assms(2) s by (auto simp: tf_load_def g o hs try_acquire_def Let_def split: if_splits prod.splits)
  moreover have "res_ok (tf_events (tf_close v)) (tf_handles (tf_close v))" if "res_ok (tf_events v) (tf_handles v)" for v
    using tf_close_ok [OF that] by simp
  ultimately show ?thesis using rb rb2 by (auto simp: tf_handles_def)
qed

lemma tf_destroy_ok: "res_ok (tf_events b) (tf_handles b) \<Longrightarrow> res_ok (tf_events (tf_destroy b)) {}"
  using tf_close_ok [of b] res_ok_release [of "tf_events (tf_close b)" "{(Status, tf_status b)}" Status "Some (tf_status b)"]
  by (simp add: tf_destroy_def Let_def)

lemma trt_close_ok:
  assumes "res_ok (trt_events b) (trt_handles b)"
  shows "res_ok (trt_events (trt_close b)) {} \<and> trt_handles (trt_close b) = {}"
proof -
  have step: "res_ok ev (held k h \<union> S) \<Longrightarrow> \<forall>n. (k, n) \<notin> S \<Longrightarrow> res_ok (release k h ev) S" for ev k h S
    using res_ok_release [of ev "held k h \<union> S" k h] by (cases h) auto
  let ?e1 = "release DeviceOutput (deviceOutput b) (trt_events b)"
  let ?e2 = "release DeviceInput (deviceInput b) ?e1"
  let ?e3 = "release Stream (stream b) ?e2"
  let ?e4 = "release Context (exec_context b) ?e3"
  let ?e5 = "release Engine (engine b) ?e4"
  let ?h5 = "held Runtime (runtime b)"
  let ?h4 = "held Engine (engine b) \<union> ?h5"
  let ?h3 = "held Context (exec_context b) \<union> ?h4"
  let ?h2 = "held Stream (stream b) \<union> ?h3"
  let ?h1 = "held DeviceInput (deviceInput b) \<union> ?h2"
  have "trt_handles b = held DeviceOutput (deviceOutput b) \<union> ?h1" by (auto simp: trt_handles_def)
  then have "res_ok (trt_events b) (held DeviceOutput (deviceOutput b) \<union> ?h1)" using assms by simp
  then have "res_ok ?e1 ?h1" by (rule step) (auto simp: held_def split: option.splits)
  then have "res_ok ?e2 ?h2" by (rule step) (auto simp: held_def split: option.splits)
  then have "res_ok ?e3 ?h3" by (rule step) (auto simp: held_def split: option.splits)
  then have "res_ok ?e4 ?h4" by (rule step) (auto simp: held_def split: option.splits)
  then have "res_ok ?e5 ?h5" by (rule step) (auto simp: held_def split: option.splits)
  then have "res_ok ?e5 (?h5 \<union> {})" by simp
  then have "res_ok (release Runtime (runtime b) ?e5) {}" by (rule step) simp
  then show ?thesis by (simp add: trt_close_def trt_handles_def)
qed

lemma trt_open_ok:
  assumes "res_ok (trt_events b) {}" "trt_handles b = {}"
  shows "res_ok (trt_events (trt_open_engine api str b)) (trt_handles (trt_open_engine api str b))"
proof -
  obtain r ev1 where r: "try_acquire (createInferRuntime api) Runtime (trt_events b) = (r, ev1)" by (metis surj_pair)
  obtain e ev2 where e: "try_acquire (r \<noteq> None \<and> deserializeCudaEngine api str) Engine ev1 = (e, ev2)" by (metis surj_pair)
  obtain c ev3 where c: "try_acquire (e \<noteq> None \<and> createExecutionContext api) Context ev2 = (c, ev3)" by (metis surj_pair)
  have "res_ok ev1 (held Runtime r)" using res_ok_try [OF assms(1) r] by simp
  from res_ok_try [OF this e] have "res_ok ev2 (held Engine e \<union> held Runtime r)" by simp
  from res_ok_try [OF this c] have "res_ok ev3 (held Context c \<union> (held Engine e \<union> held Runtime r))" by simp
  moreover have "stream b = None" "deviceInput b = None" "deviceOutput b = None"
    using assms(2) by (auto simp: trt_handles_def held_def split: option.splits)
  moreover have "trt_open_engine api str b = b\<lparr>runtime := r, engine := e, exec_context := c, trt_events := ev3\<rparr>"
    by (simp only: trt_open_engine_def Let_def r e c prod.case)
  ultimately show ?thesis by (simp add: trt_handles_def Un_ac)
qed

lemma trt_buffers_ok:
  assumes "res_ok (trt_events b) (trt_handles b)" "stream b = None" "deviceInput b = None" "deviceOutput b = None"
    "trt_buffers api err b = (ok, err', b')"
  shows "res_ok (trt_events b') (trt_handles b')"
proof -
  obtain ok1 err1 where k1: "cudaOk (cudaStreamCreate api) ''cudaStreamCreate'' err = (ok1, err1)" by (metis surj_pair)
  obtain s ev1 where s: "try_acquire ok1 Stream (trt_events b) = (s, ev1)" by (metis surj_pair)
  let ?b1 = "b\<lparr>stream := s, trt_events := ev1\<rparr>"
  have r1: "res_ok ev1 (held Stream s \<union> trt_handles b)" using res_ok_try [OF assms(1) s] by simp
  obtain ok2 err2 where k2: "cudaOk (cudaMalloc api DeviceInput (inputBytes b)) ''cudaMalloc(input)'' err1 = (ok2, err2)"
    by (metis surj_pair)
  obtain di ev2 where di: "try_acquire ok2 DeviceInput ev1 = (di, ev2)" by (metis surj_pair)
  let ?b2 = "?b1\<lparr>deviceInput := di, trt_events := ev2\<rparr>"
  have r2: "res_ok ev2 (held DeviceInput di \<union> (held Stream s \<union> trt_handles b))" using res_ok_try [OF r1 di] by simp
  obtain ok3 err3 where k3: "cudaOk (cudaMalloc api DeviceOutput (outputBytes b)) ''cudaMalloc(output)'' err2 = (ok3, err3)"
    by (metis surj_pair)
  obtain dout ev3 where d3: "try_acquire ok3 DeviceOutput ev2 = (dout, ev3)" by (metis surj_pair)
  have r3: "res_ok ev3 (held DeviceOutput dout \<union> (held DeviceInput di \<union> (held Stream s \<union> trt_handles b)))"
    using res_ok_try [OF r2 d3] by simp
  have b': "b' = (if \<not> ok1 then b else if \<not> ok2 then ?b1 else if \<not> ok3 then ?b2
      else ?b2\<lparr>deviceOutput := dout, trt_events := ev3\<rparr>)"
    using assms(5) by (auto simp: trt_buffers_def k1 s k2 di k3 d3 Let_def split: if_splits)
  show ?thesis
    unfolding b' using assms r1 r2 r3 by (auto simp: trt_handles_def Un_ac)
qed

lemma trt_load_res:
  assumes "res_ok (trt_events b) (trt_handles b)" "trt_load api config err b = (ok, err', b')"
  shows "res_ok (trt_events b') (trt_handles b')"
proof -
  let ?b = "(trt_close b)\<lparr>trt_config := config\<rparr>"
  have c: "res_ok (trt_events ?b) {}" "trt_handles ?b = {}"
    using trt_close_ok [OF assms(1)] by (simp_all add: trt_handles_def)
  show ?thesis
  proof (cases "b' = ?b")
    case True
    then show ?thesis using c by simp
  next
    case False
    then obtain str where str: "engine_file api (mc_path config) = Some str"
      using assms(2) by (auto simp: trt_load_def Let_def split: option.splits prod.splits if_splits)
    let ?o = "trt_open_engine api str ?b"
    have o: "res_ok (trt_events ?o) (trt_handles ?o)" by (rule trt_open_ok [OF c])
    have idle: "stream ?o = None" "deviceInput ?o = None" "deviceOutput ?o = None"
      by (simp_all add: trt_open_engine_def trt_close_def Let_def split: prod.splits)
    let ?o2 = "?o\<lparr>inputBytes := kInputElements * 4, outputBytes := kOutputElements * 4\<rparr>"
    obtain err1 where e1: "snd (cudaOk (cudaSetDevice api (mc_deviceId config)) ''cudaSetDevice'' err) = err1" by blast
    obtain ok2 err2 b2 where bu: "trt_buffers api err1 ?o2 = (ok2, err2, b2)" by (metis prod_cases3)
    have o2: "res_ok (trt_events b2) (trt_handles b2)"
      using o idle by (intro trt_buffers_ok [OF _ _ _ _ bu]) (simp_all add: trt_handles_def)
    have "b' \<in> {trt_close ?o, trt_close b2, b2\<lparr>trt_loaded := True\<rparr>}"
      using assms(2) False str e1 bu
      by (auto simp: trt_load_def Let_def split: prod.splits if_splits)
    then show ?thesis using trt_close_ok [OF o] trt_close_ok [OF o2] o2 by (auto simp: trt_handles_def)
  qed
qed

lemma tf_load_next:
  "res_ok (tf_events b) (tf_handles b) \<Longrightarrow>
   res_ok (tf_events (snd (snd (tf_load api c e b)))) (tf_handles (snd (snd (tf_load api c e b))))"
  using tf_load_res by (metis prod.collapse)

lemma trt_load_next:
  "res_ok (trt_events b) (trt_handles b) \<Longrightarrow>
   res_ok (trt_events (snd (snd (trt_load api c e b)))) (trt_handles (snd (snd (trt_load api c e b))))"
  using trt_load_res by (metis prod.collapse)

text \<open>
  Property C17. Backends neither leak nor free twice: whatever sequence of loads, with whatever configurations and
  however the TensorFlow, TensorRT and CUDA calls end, every release is of a handle held at that moment, and once the backend is
  destroyed it holds none.
\<close>

theorem backends_no_leak:
  "usage (tf_events (tf_destroy (fold (\<lambda>(api, c) b. snd (snd (tf_load api c [] b))) tf_loads tf_backend_new))) = (True, {})
   \<and> usage (trt_events (trt_destroy (fold (\<lambda>(api, c) b. snd (snd (trt_load api c [] b))) trt_loads trt_backend_new))) = (True, {})"
proof -
  have "res_ok (tf_events (fold (\<lambda>(api, c) b. snd (snd (tf_load api c [] b))) xs b))
          (tf_handles (fold (\<lambda>(api, c) b. snd (snd (tf_load api c [] b))) xs b))"
    if "res_ok (tf_events b) (tf_handles b)" for xs b
    using that by (induction xs arbitrary: b) (auto intro: tf_load_next)
  moreover have "res_ok (tf_events tf_backend_new) (tf_handles tf_backend_new)"
    by (simp add: tf_backend_new_def tf_handles_def res_ok_def usage_def use_step_def)
  ultimately have "res_ok (tf_events (tf_destroy (fold (\<lambda>(api, c) b. snd (snd (tf_load api c [] b))) tf_loads tf_backend_new))) {}"
    using tf_destroy_ok by blast
  moreover have "res_ok (trt_events (fold (\<lambda>(api, c) b. snd (snd (trt_load api c [] b))) xs b))
          (trt_handles (fold (\<lambda>(api, c) b. snd (snd (trt_load api c [] b))) xs b))"
    if "res_ok (trt_events b) (trt_handles b)" for xs b
    using that by (induction xs arbitrary: b) (auto intro: trt_load_next)
  moreover have "res_ok (trt_events trt_backend_new) (trt_handles trt_backend_new)"
    by (simp add: trt_backend_new_def trt_handles_def res_ok_def usage_def)
  ultimately have "res_ok (trt_events (trt_destroy (fold (\<lambda>(api, c) b. snd (snd (trt_load api c [] b))) trt_loads trt_backend_new))) {}"
    "res_ok (tf_events (tf_destroy (fold (\<lambda>(api, c) b. snd (snd (tf_load api c [] b))) tf_loads tf_backend_new))) {}"
    unfolding trt_destroy_def using trt_close_ok by blast+
  then show ?thesis by (simp add: res_ok_def)
qed

section \<open>The transposition\<close>

lemma nchw_index:
  assumes "p < n" "p' < (n :: nat)"
  shows "c * n + p = c' * n + p' \<longleftrightarrow> c = c' \<and> p = p'"
proof
  assume "c * n + p = c' * n + p'"
  then have "(c * n + p) div n = (c' * n + p') div n" "(c * n + p) mod n = (c' * n + p') mod n" by simp_all
  with assms show "c = c' \<and> p = p'" by simp
qed simp

lemma nchw_bound:
  assumes "p < n" "c < 3"
  shows "c * n + p < 3 * (n :: nat)"
proof -
  have "c * n + p < (c + 1) * n" using assms(1) by simp
  also have "\<dots> \<le> 3 * n" using assms(2) by (intro mult_le_mono1) simp
  finally show ?thesis .
qed

lemma nth_fold_update:
  assumes "inj_on f (set xs)" "distinct xs" "\<forall>x\<in>set xs. f x < length v" "y \<in> set xs"
  shows "fold (\<lambda>x v. v[f x := g x]) xs v ! f y = g y"
proof -
  have keep: "fold (\<lambda>x v. v[f x := g x]) xs v ! k = v ! k" if "k \<notin> f ` set xs" for k xs v
    using that by (induction xs arbitrary: v) auto
  show ?thesis
    using assms
  proof (induction xs arbitrary: v)
    case Nil
    then show ?case by simp
  next
    case (Cons x xs)
    show ?case
    proof (cases "y = x")
      case True
      have "f x \<notin> f ` set xs" using Cons.prems by (auto simp: inj_on_def)
      from keep [OF this] show ?thesis using True Cons.prems by simp
    next
      case False
      then show ?thesis using Cons by (auto simp: inj_on_def)
    qed
  qed
qed

lemma fold_nested: "fold (\<lambda>x. fold (h x) ys) xs v = fold (\<lambda>(x, y). h x y) (List.product xs ys) v"
  by (induction xs arbitrary: v) (simp_all add: fold_map o_def)

text \<open>
  TensorRT gets the same picture: element \<open>c\<close> of pixel \<open>p\<close> of the tensor in pixel order is element \<open>p\<close> of
  channel \<open>c\<close> of the copied tensor, for every pixel and channel and any number of pixels.
\<close>

theorem to_nchw_transposes:
  assumes "p < n" "c < 3"
  shows "to_nchw n t ! (c * n + p) = t ! (p * 3 + c)"
proof -
  let ?f = "\<lambda>(p, c). c * n + p" and ?xs = "List.product [0..<n] [0..<3]"
  have "to_nchw n t = fold (\<lambda>x v. v[?f x := (\<lambda>(p, c). t ! (p * 3 + c)) x]) ?xs (replicate (3 * n) (Fin 0))"
    unfolding to_nchw_def fold_nested by (intro arg_cong2 [where f = "\<lambda>h v. fold h ?xs v"] ext) auto
  moreover have "inj_on ?f (set ?xs)"
    using nchw_index by (fastforce simp: inj_on_def)
  moreover have "\<forall>x\<in>set ?xs. ?f x < length (replicate (3 * n) (Fin 0))"
    using nchw_bound by auto
  ultimately show ?thesis
    using nth_fold_update [of ?f ?xs "replicate (3 * n) (Fin 0)" "(p, c)" "\<lambda>(p, c). t ! (p * 3 + c)"] assms
    by (simp add: distinct_product)
qed

lemma to_nchw_transposes_witness:
  "to_nchw 2 [Fin 1, Fin 2, Fin 3, Fin 4, Fin 5, Fin 6] ! (2 * 2 + 1) = Fin 6"
  using to_nchw_transposes [of 1 2 2 "[Fin 1, Fin 2, Fin 3, Fin 4, Fin 5, Fin 6]"] by simp

end
