(* ===== verification/Yolo_Post.thy ===== *)
theory Yolo_Post
  imports Yolo_Processor
begin

text \<open>What the postprocessing promises: valid boxes, in order of confidence, and exactly non-maximum suppression.\<close>

section \<open>Candidates\<close>

lemma best_class_score:
  "fst (best_class out i) < kClassCount \<and> (\<exists>c < kClassCount. snd (best_class out i) = out ! ((4 + c) * kCandidateCount + i))"
proof -
  let ?P = "\<lambda>p. fst p < kClassCount \<and> (\<exists>c < kClassCount. snd p = out ! ((4 + c) * kCandidateCount + i))"
  have "?P (0, out ! (4 * kCandidateCount + i))"
    by (auto simp: kClassCount_def intro!: exI [of _ 0])
  then show ?thesis
    unfolding best_class_def
    by (rule fold_invariant [where P = ?P and Q = "\<lambda>c. c < kClassCount", rotated]) (auto simp: Let_def)
qed

definition box_ok :: "preprocessed_image \<Rightarrow> detection \<Rightarrow> bool" where
  "box_ok img d \<longleftrightarrow>
     fl_leq (Fin 0) (x1 d) \<and> fl_less (x1 d) (x2 d) \<and> fl_leq (x2 d) (fint (originalWidth img))
     \<and> fl_leq (Fin 0) (y1 d) \<and> fl_less (y1 d) (y2 d) \<and> fl_leq (y2 d) (fint (originalHeight img))"

definition class_ok :: "detection \<Rightarrow> bool" where
  "class_ok d \<longleftrightarrow> 0 \<le> classId d \<and> classId d < int kClassCount \<and> label d = kCocoLabels ! nat (classId d)"

lemma fl_round_number: "fl_round F x \<noteq> NotNum"
  by (simp add: fl_round_def Let_def)

lemma fint_number: "fint k \<noteq> NotNum"
  by (simp add: fl_of_int_def fl_round_number)

lemma candidate_ok:
  assumes "candidate out img thr i = Some d"
  shows "box_ok img d \<and> class_ok d \<and> \<not> fl_less (confidence d) thr
    \<and> (\<exists>c < kClassCount. confidence d = out ! ((4 + c) * kCandidateCount + i))"
proof -
  obtain b s where bs: "best_class out i = (b, s)" by (cases "best_class out i")
  have d: "d = detection_at out img i b s" "\<not> fl_less s thr" "fl_less (x1 d) (x2 d)" "fl_less (y1 d) (y2 d)"
    using assms by (auto simp: candidate_def bs Let_def split: if_splits)
  have b: "b < kClassCount" "\<exists>c < kClassCount. s = out ! ((4 + c) * kCandidateCount + i)"
    using best_class_score [of out i] by (simp_all add: bs)
  have "fl_leq (Fin 0) (x1 d)" "fl_leq (Fin 0) (y1 d)"
    unfolding d(1) detection_at_def Let_def by (auto intro: fl_max_ge)
  moreover have "fl_leq (x2 d) (fint (originalWidth img))" "fl_leq (y2 d) (fint (originalHeight img))"
    unfolding d(1) detection_at_def Let_def by (simp_all add: fl_min_le fint_number)
  moreover have "confidence d = s" "class_ok d"
    using b by (simp_all add: d(1) detection_at_def Let_def class_ok_def)
  ultimately show ?thesis using d b by (auto simp: box_ok_def)
qed

lemma candidate_conf_number:
  assumes "\<forall>x\<in>set out. x \<noteq> NotNum" "length out = 84 * kCandidateCount" "d \<in> set (candidates out img thr)"
  shows "confidence d \<noteq> NotNum"
proof -
  from assms(3) obtain i where i: "i < kCandidateCount" "candidate out img thr i = Some d"
    by (auto simp: candidates_def map_filter_def)
  then obtain c where c: "c < kClassCount" "confidence d = out ! ((4 + c) * kCandidateCount + i)"
    using candidate_ok by blast
  have "(4 + c) * kCandidateCount + i < length out"
    using c(1) i(1) unfolding assms(2) kClassCount_def kCandidateCount_def by simp
  with c assms(1) show ?thesis by simp
qed

section \<open>Suppression\<close>

definition overlaps :: "fl \<Rightarrow> detection \<Rightarrow> detection \<Rightarrow> bool" where
  "overlaps thr c kept \<longleftrightarrow> classId c = classId kept \<and> fl_less thr (intersectionOverUnion c kept)"

lemma suppressed_overlaps: "suppressed thr c sel \<longleftrightarrow> (\<exists>k\<in>set sel. overlaps thr c k)"
  by (simp add: suppressed_def overlaps_def)

lemma nms_spec:
  assumes "sorted_wrt (\<lambda>a b. \<not> overlaps thr b a) sel" "sorted_wrt R cs" "\<forall>k\<in>set sel. \<forall>c\<in>set cs. R k c" "sorted_wrt R sel"
  shows "sorted_wrt (\<lambda>a b. \<not> overlaps thr b a) (nms thr sel cs) \<and> sorted_wrt R (nms thr sel cs)
    \<and> set sel \<subseteq> set (nms thr sel cs) \<and> set (nms thr sel cs) \<subseteq> set sel \<union> set cs
    \<and> (\<forall>c\<in>set cs. c \<in> set (nms thr sel cs) \<or> (\<exists>k\<in>set (nms thr sel cs). R k c \<and> overlaps thr c k))"
  using assms
proof (induction cs arbitrary: sel)
  case Nil
  then show ?case by simp
next
  case (Cons c cs)
  let ?sel = "if suppressed thr c sel then sel else sel @ [c]"
  have 1: "sorted_wrt (\<lambda>a b. \<not> overlaps thr b a) ?sel"
    using Cons.prems(1) by (auto simp: sorted_wrt_append suppressed_overlaps)
  have 2: "sorted_wrt R cs" "\<forall>k\<in>set ?sel. \<forall>c\<in>set cs. R k c" "sorted_wrt R ?sel"
    using Cons.prems by (auto simp: sorted_wrt_append)
  note IH = Cons.IH [OF 1 2]
  have c: "c \<in> set ?sel \<or> (\<exists>k\<in>set ?sel. R k c \<and> overlaps thr c k)"
    using Cons.prems(3) by (auto simp: suppressed_overlaps)
  have sub: "set ?sel \<subseteq> set (nms thr ?sel cs)" "set (nms thr ?sel cs) \<subseteq> set ?sel \<union> set cs" using IH by blast+
  have "\<forall>c'\<in>set (c # cs). c' \<in> set (nms thr ?sel cs) \<or> (\<exists>k\<in>set (nms thr ?sel cs). R k c' \<and> overlaps thr c' k)"
    using IH c sub(1) by auto
  moreover have "set sel \<subseteq> set (nms thr ?sel cs)" "set (nms thr ?sel cs) \<subseteq> set sel \<union> set (c # cs)"
    using sub by (auto split: if_splits)
  ultimately show ?case using IH unfolding nms.simps by blast
qed

section \<open>Sorting\<close>

text \<open>
  What \<open>std::sort\<close> documents for the comparator \<open>a.confidence > b.confidence\<close>: a permutation, and in order provided
  the comparator is a strict weak order, which a NaN breaks.
\<close>

definition not_below :: "detection \<Rightarrow> detection \<Rightarrow> bool" where
  "not_below a b \<longleftrightarrow> \<not> fl_less (confidence a) (confidence b)"

definition sorts :: "(detection list \<Rightarrow> detection list) \<Rightarrow> bool" where
  "sorts sorter \<longleftrightarrow>
     (\<forall>ds. (\<forall>d\<in>set ds. confidence d \<noteq> NotNum) \<longrightarrow> mset (sorter ds) = mset ds \<and> sorted_wrt not_below (sorter ds))"

fun insert_desc :: "detection \<Rightarrow> detection list \<Rightarrow> detection list" where
  "insert_desc d [] = [d]"
| "insert_desc d (e # es) = (if fl_less (confidence e) (confidence d) then d # e # es else e # insert_desc d es)"

definition sort_desc :: "detection list \<Rightarrow> detection list" where
  "sort_desc ds = foldr insert_desc ds []"

lemma not_below_trans:
  "confidence b \<noteq> NotNum \<Longrightarrow> not_below a b \<Longrightarrow> not_below b c \<Longrightarrow> not_below a c"
  by (cases "confidence a"; cases "confidence b"; cases "confidence c") (auto simp: not_below_def)

lemma mset_insert_desc: "mset (insert_desc d ds) = add_mset d (mset ds)"
  by (induction ds) auto

lemma set_insert_desc: "set (insert_desc d ds) = insert d (set ds)"
  using mset_insert_desc [of d ds] by (metis set_mset_add_mset_insert set_mset_mset)

lemma sorted_insert_desc:
  assumes "\<forall>e\<in>set ds. confidence e \<noteq> NotNum" "sorted_wrt not_below ds"
  shows "sorted_wrt not_below (insert_desc d ds)"
  using assms
proof (induction ds)
  case Nil
  then show ?case by simp
next
  case (Cons e es)
  show ?case
  proof (cases "fl_less (confidence e) (confidence d)")
    case True
    then have de: "not_below d e" using fl_less_asym by (auto simp: not_below_def)
    have "not_below d x" if "x \<in> set es" for x
      using not_below_trans [OF _ de, of x] Cons.prems that by simp
    with True de Cons.prems show ?thesis by simp
  next
    case False
    then have "not_below e d" by (simp add: not_below_def)
    with False Cons show ?thesis by (auto simp: set_insert_desc)
  qed
qed

lemma sorts_sort_desc: "sorts sort_desc"
proof -
  have "mset (sort_desc ds) = mset ds \<and> set (sort_desc ds) = set ds
    \<and> ((\<forall>d\<in>set ds. confidence d \<noteq> NotNum) \<longrightarrow> sorted_wrt not_below (sort_desc ds))" for ds
    unfolding sort_desc_def
    by (induction ds) (auto simp: mset_insert_desc set_insert_desc sorted_insert_desc)
  then show ?thesis by (simp add: sorts_def)
qed

section \<open>The result\<close>

text \<open>
  Property C15. Non-maximum suppression: for a network output without NaN, the detections are candidates of the output with a
  box inside the picture, a known class and its label, and a confidence of at least the threshold; they come in
  descending order of confidence; no two of one class overlap by more than the limit; and every candidate
  that is missing overlaps a detection of its class that is kept and at least as confident.
\<close>

theorem postprocess_nms:
  assumes "sorts sorter" "length out = 84 * kCandidateCount" "\<forall>x\<in>set out. x \<noteq> NotNum"
    "ds = postprocess sorter (Some out) (length out) img thr nmsThr"
  shows "set ds \<subseteq> set (candidates out img thr)
    \<and> (\<forall>d\<in>set ds. box_ok img d \<and> class_ok d \<and> \<not> fl_less (confidence d) thr)
    \<and> sorted_wrt not_below ds \<and> sorted_wrt (\<lambda>a b. \<not> overlaps nmsThr b a) ds
    \<and> (\<forall>c\<in>set (candidates out img thr). c \<in> set ds \<or> (\<exists>k\<in>set ds. not_below k c \<and> overlaps nmsThr c k))"
proof -
  let ?cs = "candidates out img thr"
  have s: "mset (sorter ?cs) = mset ?cs" "sorted_wrt not_below (sorter ?cs)"
    using assms(1) candidate_conf_number [OF assms(3,2)] unfolding sorts_def by blast+
  then have set: "set (sorter ?cs) = set ?cs" by (metis set_mset_mset)
  have ds: "ds = nms nmsThr [] (sorter ?cs)" using assms(2,4) by (simp add: postprocess_def)
  have "\<forall>d\<in>set ?cs. box_ok img d \<and> class_ok d \<and> \<not> fl_less (confidence d) thr"
    using candidate_ok by (auto simp: candidates_def map_filter_def)
  with nms_spec [of nmsThr "[]" not_below "sorter ?cs"] s(2) show ?thesis
    unfolding ds set by auto
qed

definition sample_output :: "fl list" where
  "sample_output = (replicate (84 * kCandidateCount) (Fin 32))[4 * kCandidateCount := Fin (9 / 10)]"

lemma postprocess_nms_witness:
  "let ds = postprocess sort_desc (Some sample_output) (length sample_output) preprocessed_new (Fin (1 / 4)) default_nms
   in sorted_wrt not_below ds \<and> (\<forall>d\<in>set ds. class_ok d)"
proof -
  have len: "length sample_output = 84 * kCandidateCount" by (simp add: sample_output_def)
  have "set sample_output \<subseteq> insert (Fin (9 / 10)) (set (replicate (84 * kCandidateCount) (Fin 32)))"
    unfolding sample_output_def by (rule set_update_subset_insert)
  then have "\<forall>x\<in>set sample_output. x \<noteq> NotNum" by auto
  from postprocess_nms [OF sorts_sort_desc len this refl, of preprocessed_new "Fin (1 / 4)" default_nms]
  show ?thesis unfolding Let_def by blast
qed

end
