(* ===== verification/Float_Facts.thy ===== *)
theory Float_Facts
  imports Machine_Float
begin

text \<open>The rounding of \<open>float\<close>: its error, and that small integers are exact.\<close>

lemma pow_rat_powi: "pow_rat b e = b powi e"
  by (simp add: pow_rat_def power_int_def power_one_over inverse_eq_divide)

lemma exponent2_le:
  assumes "0 < x"
  shows "2 powi (exponent2 x) \<le> x"
proof -
  obtain p q where pq: "quotient_of x = (p, q)" by (cases "quotient_of x")
  then have x: "x = of_int p / of_int q" "0 < q" using quotient_of_div quotient_of_denom_pos by auto
  with assms have p: "0 < p" by (simp add: zero_less_divide_iff)
  let ?lp = "floorlog 2 (nat p)" and ?lq = "floorlog 2 (nat q)"
  have bp: "2 ^ (?lp - 1) \<le> nat p" and bq: "nat q < 2 ^ ?lq"
    using floorlog_bounds [of "nat p" 2] floorlog_bounds [of "nat q" 2] p x(2) by auto
  have lp: "0 < ?lp" using p by (simp add: floorlog_def)
  show ?thesis
  proof (cases "pow_rat 2 (int ?lp - int ?lq) \<le> x")
    case True
    then show ?thesis by (simp add: exponent2_def pq Let_def pow_rat_powi)
  next
    case False
    have "(2 :: rat) ^ (?lp - 1) \<le> of_int p"
      using bp p by (metis nat_0_le of_int_of_nat_eq of_nat_le_iff of_nat_numeral of_nat_power zero_le_imp_eq_int order_less_imp_le)
    moreover have "of_int q < (2 :: rat) ^ ?lq"
      using bq x(2) by (metis nat_0_le of_int_of_nat_eq of_nat_less_iff of_nat_numeral of_nat_power order_less_imp_le)
    ultimately have "(2 :: rat) ^ (?lp - 1) / 2 ^ ?lq \<le> x"
      unfolding x(1) using x(2) p by (intro frac_le) auto
    moreover have "(2 :: rat) powi (int ?lp - int ?lq - 1) = 2 ^ (?lp - 1) / 2 ^ ?lq"
    proof -
      obtain n where n: "?lp = Suc n" using lp by (cases ?lp) auto
      then have "int ?lp - int ?lq - 1 = int n - int ?lq" by simp
      then show ?thesis by (simp add: power_int_diff n)
    qed
    ultimately show ?thesis using False by (simp add: exponent2_def pq Let_def)
  qed
qed

lemma round_half_even_err: "\<bar>of_int (round_half_even z) - z\<bar> \<le> 1 / 2"
proof -
  have "of_int \<lfloor>z\<rfloor> \<le> z" "z < of_int \<lfloor>z\<rfloor> + 1" by linarith+
  then show ?thesis by (auto simp: round_half_even_def Let_def abs_le_iff)
qed

lemma round_half_even_int [simp]: "round_half_even (of_int i) = i"
  by (simp add: round_half_even_def Let_def)

lemma fl_round32_err:
  assumes "\<bar>x\<bar> \<le> 2 ^ 100"
  shows "\<exists>y. fl_round binary32 x = Fin y \<and> \<bar>y - x\<bar> \<le> \<bar>x\<bar> / 2 ^ 24 + 1 / 2 ^ 150"
proof (cases "x = 0")
  case True
  then show ?thesis by (simp add: fl_round_def)
next
  case False
  let ?e = "max (exponent2 \<bar>x\<bar>) (- 126)" and ?ulp = "2 powi (max (exponent2 \<bar>x\<bar>) (- 126) - 23) :: rat"
  let ?y = "of_int (round_half_even (x / ?ulp)) * ?ulp"
  have pos: "0 < ?ulp" by simp
  have "?y - x = (of_int (round_half_even (x / ?ulp)) - x / ?ulp) * ?ulp"
    using pos by (simp add: left_diff_distrib)
  then have "\<bar>?y - x\<bar> = \<bar>of_int (round_half_even (x / ?ulp)) - x / ?ulp\<bar> * ?ulp"
    by (simp add: abs_mult)
  also have "\<dots> \<le> 1 / 2 * ?ulp"
    by (intro mult_right_mono round_half_even_err) simp
  finally have err: "\<bar>?y - x\<bar> \<le> ?ulp / 2" by simp
  have ulp: "?ulp / 2 \<le> \<bar>x\<bar> / 2 ^ 24 + 1 / 2 ^ 150"
  proof (cases "exponent2 \<bar>x\<bar> \<le> - 126")
    case True
    then have "?ulp / 2 = 1 / 2 ^ 150" by (simp add: max_def power_int_def power_one_over)
    then show ?thesis by simp
  next
    case F: False
    have "?ulp / 2 = 2 powi (exponent2 \<bar>x\<bar>) / 2 ^ 24"
      using F by (simp add: max_def power_int_diff)
    also have "\<dots> \<le> \<bar>x\<bar> / 2 ^ 24"
      using exponent2_le [of "\<bar>x\<bar>"] False by (intro divide_right_mono) auto
    finally show ?thesis by (rule order_trans) simp
  qed
  have "\<bar>?y\<bar> \<le> \<bar>x\<bar> + (\<bar>x\<bar> / 2 ^ 24 + 1 / 2 ^ 150)" using err ulp by linarith
  also have "\<dots> \<le> 2 ^ 100 + (2 ^ 100 / 2 ^ 24 + 1 / 2 ^ 150)"
    using assms by (intro add_mono divide_right_mono order_refl) auto
  also have "\<dots> < 2 ^ 128" by simp
  finally have "\<not> 2 powi 128 \<le> \<bar>?y\<bar>" by simp
  then have "fl_round binary32 x = Fin ?y"
    using False by (simp add: fl_round_def binary32_def pow_rat_powi Let_def)
  with err ulp show ?thesis by (auto intro: order_trans)
qed

lemma fl_round32_bound:
  assumes "\<bar>x\<bar> \<le> 2 ^ 100"
  shows "\<exists>y. fl_round binary32 x = Fin y \<and> \<bar>y\<bar> \<le> 2 * \<bar>x\<bar> + 1"
proof -
  obtain y where y: "fl_round binary32 x = Fin y" "\<bar>y - x\<bar> \<le> \<bar>x\<bar> / 2 ^ 24 + 1 / 2 ^ 150"
    using fl_round32_err [OF assms] by blast
  have "\<bar>x\<bar> / 2 ^ 24 \<le> \<bar>x\<bar>" "(1 :: rat) / 2 ^ 150 \<le> 1" by (simp_all add: divide_le_eq)
  with y(2) have "\<bar>y\<bar> \<le> 2 * \<bar>x\<bar> + 1" by linarith
  with y(1) show ?thesis by blast
qed

lemma fl_round32_rel:
  assumes "1 / 100 \<le> x" "x \<le> 2 ^ 100"
  shows "\<exists>y. fl_round binary32 x = Fin y \<and> x * (1 - 1 / 2 ^ 20) \<le> y \<and> y \<le> x * (1 + 1 / 2 ^ 20)"
proof -
  have "\<bar>x\<bar> \<le> 2 ^ 100" using assms by simp
  from fl_round32_err [OF this] obtain y where y: "fl_round binary32 x = Fin y" "\<bar>y - x\<bar> \<le> \<bar>x\<bar> / 2 ^ 24 + 1 / 2 ^ 150" by blast
  have "(1 :: rat) / 2 ^ 150 \<le> 1 / 100 / 2 ^ 24" by simp
  also have "\<dots> \<le> x / 2 ^ 24" using assms(1) by (intro divide_right_mono) auto
  finally have "(1 :: rat) / 2 ^ 150 \<le> x / 2 ^ 24" .
  with y(2) assms(1) have "\<bar>y - x\<bar> \<le> x / 2 ^ 24 + x / 2 ^ 24" by linarith
  also have "\<dots> \<le> x / 2 ^ 20" using assms(1) by simp
  finally have "\<bar>y - x\<bar> \<le> x / 2 ^ 20" .
  then have "x - x / 2 ^ 20 \<le> y" "y \<le> x + x / 2 ^ 20" by linarith+
  with y(1) show ?thesis by (intro exI [of _ y]) (simp add: algebra_simps)
qed

lemma fl_of_int_exact:
  assumes "\<bar>i\<bar> < 2 ^ 24"
  shows "fl_of_int binary32 i = Fin (of_int i)"
proof (cases "i = 0")
  case True
  then show ?thesis by (simp add: fl_of_int_def fl_round_def)
next
  case False
  let ?x = "of_int i :: rat" and ?M = "max (exponent2 \<bar>of_int i\<bar>) (- 126) - 23"
  have "(of_int \<bar>i\<bar> :: rat) < of_int (2 ^ 24)" using assms unfolding of_int_less_iff .
  then have lt: "\<bar>?x\<bar> < 2 ^ 24" by simp
  have "2 powi exponent2 \<bar>?x\<bar> \<le> \<bar>?x\<bar>" using exponent2_le False by simp
  also have "\<dots> < 2 powi 24" using lt by simp
  finally have "2 powi exponent2 \<bar>?x\<bar> < (2 powi 24 :: rat)" .
  then have "exponent2 \<bar>?x\<bar> < 24"
    using power_int_increasing [of 24 "exponent2 \<bar>?x\<bar>" "2 :: rat"] by fastforce
  then have M: "?M \<le> 0" by simp
  have "(2 :: rat) powi m = 1 / 2 ^ nat (- m)" if "m \<le> 0" for m
    using that by (cases "m = 0") (simp_all add: power_int_def power_one_over)
  from this [OF M] have q: "?x / 2 powi ?M = of_int (i * 2 ^ nat (- ?M))"
    by (simp only: divide_divide_eq_right div_by_1 of_int_mult of_int_power of_int_numeral)
  have "?x / 2 powi ?M * 2 powi ?M = ?x" by simp
  then have y: "of_int (round_half_even (?x / 2 powi ?M)) * 2 powi ?M = ?x"
    unfolding q round_half_even_int .
  have "\<not> 2 powi 128 \<le> \<bar>?x\<bar>" using lt by simp
  then show ?thesis
    using False y by (simp add: fl_of_int_def fl_round_def binary32_def pow_rat_powi Let_def)
qed

end
