(* ===== verification/Yolo_Pre.thy ===== *)
theory Yolo_Pre
  imports Yolo_Processor Float_Facts
begin

text \<open>Memory safety of the letterbox: every access of the unchecked loops is in bounds, whatever the rounding does.\<close>

section \<open>Loops\<close>

lemma for_each_inv:
  assumes "P s" "\<And>x s. x \<in> set xs \<Longrightarrow> P s \<Longrightarrow> \<exists>s'. f x s = Some s' \<and> P s'"
  shows "\<exists>s'. for_each f xs s = Some s' \<and> P s'"
  using assms
proof (induction xs arbitrary: s)
  case Nil
  then show ?case by simp
next
  case (Cons x xs)
  obtain s1 where s1: "f x s = Some s1" "P s1" using Cons.prems by force
  have "\<exists>s'. for_each f xs s1 = Some s' \<and> P s'" using Cons.prems(2) by (intro Cons.IH [OF s1(2)]) auto
  then show ?case by (simp add: s1(1))
qed

section \<open>The geometry\<close>

text \<open>A picture the limits accept, and the scale of its letterbox.\<close>

definition side_ok :: "int \<Rightarrow> bool" where
  "side_ok k \<longleftrightarrow> 1 \<le> k \<and> k \<le> 8192"

abbreviation rat_of :: "int \<Rightarrow> rat" where "rat_of \<equiv> of_int"

lemma side_ratio:
  assumes "side_ok k"
  shows "\<exists>q. fdiv (fint 640) (fint k) = Fin q \<and> 1 / 20 \<le> q \<and> q * rat_of k \<le> 640 * (1 + 1 / 2 ^ 20)"
proof -
  have k: "fint k = Fin (rat_of k)" "fint 640 = Fin 640"
    using fl_of_int_exact [of k] fl_of_int_exact [of 640] assms by (simp_all add: side_ok_def)
  have pos: "1 \<le> rat_of k" "rat_of k \<le> 8192"
    using assms by (simp_all add: side_ok_def)
  have lo: "640 / 8192 \<le> 640 / rat_of k" using pos by (intro divide_left_mono) auto
  have hi: "640 / rat_of k \<le> 640" using pos by (simp add: divide_le_eq)
  have "640 / rat_of k \<le> 2 ^ 100" using hi by (rule order_trans) simp
  moreover have "1 / 100 \<le> 640 / rat_of k" using lo by (rule order_trans [rotated]) simp
  ultimately have "1 / 100 \<le> 640 / rat_of k" "640 / rat_of k \<le> 2 ^ 100" by blast+
  from fl_round32_rel [OF this] obtain q where q: "fl_round binary32 (640 / rat_of k) = Fin q"
    "640 / rat_of k * (1 - 1 / 2 ^ 20) \<le> q" "q \<le> 640 / rat_of k * (1 + 1 / 2 ^ 20)" by blast
  have "640 / 8192 * (1 - 1 / 2 ^ 20) \<le> 640 / rat_of k * (1 - 1 / 2 ^ 20)" using lo by (intro mult_right_mono) auto
  then have "1 / 20 \<le> q" using q(2) by simp
  moreover have "q * rat_of k \<le> 640 / rat_of k * (1 + 1 / 2 ^ 20) * rat_of k"
    using q(3) pos by (intro mult_right_mono) auto
  then have "q * rat_of k \<le> 640 * (1 + 1 / 2 ^ 20)" using pos by simp
  ultimately show ?thesis using q(1) k pos by simp
qed

lemma letterbox_scale_ok:
  assumes "side_ok w" "side_ok h"
  shows "\<exists>q. letterbox_scale w h = Fin q \<and> 1 / 20 \<le> q \<and> q * rat_of w \<le> 640 * (1 + 1 / 2 ^ 20)
    \<and> q * rat_of h \<le> 640 * (1 + 1 / 2 ^ 20)"
proof -
  obtain a where a: "fdiv (fint 640) (fint w) = Fin a" "1 / 20 \<le> a" "a * rat_of w \<le> 640 * (1 + 1 / 2 ^ 20)"
    using side_ratio [OF assms(1)] by blast
  obtain b where b: "fdiv (fint 640) (fint h) = Fin b" "1 / 20 \<le> b" "b * rat_of h \<le> 640 * (1 + 1 / 2 ^ 20)"
    using side_ratio [OF assms(2)] by blast
  have pos: "0 \<le> rat_of w" "0 \<le> rat_of h" using assms by (simp_all add: side_ok_def)
  have s: "letterbox_scale w h = Fin (if b < a then b else a)"
    by (simp add: letterbox_scale_def kInputWidth_def kInputHeight_def a b fl_min_def)
  show ?thesis
  proof (cases "b < a")
    case True
    then have "b * rat_of w \<le> a * rat_of w" using pos by (intro mult_right_mono) auto
    with True a b s show ?thesis by (intro exI [of _ b]) auto
  next
    case False
    then have "a * rat_of h \<le> b * rat_of h" using pos by (intro mult_right_mono) auto
    with False a b s show ?thesis by (intro exI [of _ a]) auto
  qed
qed

lemma resized_ok:
  assumes "side_ok k" "1 / 20 \<le> q" "q * rat_of k \<le> 640 * (1 + 1 / 2 ^ 20)"
  shows "\<exists>r. resized k (Fin q) = Some r \<and> 0 \<le> r \<and> r \<le> 640"
proof -
  have k: "fint k = Fin (rat_of k)" using fl_of_int_exact [of k] assms(1) by (simp add: side_ok_def)
  have pos: "1 \<le> rat_of k" using assms(1) by (simp add: side_ok_def)
  have "1 / 20 * 1 \<le> q * rat_of k" using assms(2) pos by (intro mult_mono) auto
  then have lo: "1 / 100 \<le> rat_of k * q" by (simp add: mult.commute)
  have hi: "rat_of k * q \<le> 640 * (1 + 1 / 2 ^ 20)" using assms(3) by (simp add: mult.commute)
  have "rat_of k * q \<le> 2 ^ 100" using hi by (rule order_trans) simp
  from fl_round32_rel [OF lo this] obtain y where y: "fl_round binary32 (rat_of k * q) = Fin y"
    "rat_of k * q * (1 - 1 / 2 ^ 20) \<le> y" "y \<le> rat_of k * q * (1 + 1 / 2 ^ 20)" by blast
  have "0 \<le> rat_of k * q * (1 - 1 / 2 ^ 20)" using lo by simp
  from this y(2) have ya: "0 \<le> y" by (rule order_trans)
  have "rat_of k * q * (1 + 1 / 2 ^ 20) \<le> 640 * (1 + 1 / 2 ^ 20) * (1 + 1 / 2 ^ 20)"
    using hi by (intro mult_right_mono) auto
  from y(3) this have "y \<le> 640 * (1 + 1 / 2 ^ 20) * (1 + 1 / 2 ^ 20)" by (rule order_trans)
  then have yb: "y < 6404 / 10" by (rule order_le_less_trans) simp
  let ?r = "\<lfloor>y + 1 / 2\<rfloor>"
  have "0 \<le> ?r" "?r \<le> 640" using ya yb by linarith+
  moreover have "resized k (Fin q) = Some ?r"
    using ya yb calculation by (simp add: resized_def k y(1) Let_def)
  ultimately show ?thesis by blast
qed

lemma half_ok: "0 \<le> r \<Longrightarrow> r \<le> 640 \<Longrightarrow> 0 \<le> half (640 - r) \<and> half (640 - r) + r \<le> 640"
  by (simp add: half_def)

lemma source_coord_ok:
  assumes "1 / 20 \<le> q" "0 \<le> k" "k < 640"
  shows "\<exists>z. source_coord (Fin q) k = Fin z \<and> \<bar>z\<bar> < 10 ^ 6"
proof -
  have "fint k = Fin (rat_of k)" using fl_of_int_exact [of k] assms by simp
  have k: "0 \<le> rat_of k" "rat_of k \<le> 640" using assms by simp_all
  have "\<bar>rat_of k + 1 / 2\<bar> \<le> 2 ^ 100" using k by simp
  from fl_round32_bound [OF this] obtain a where a: "fl_round binary32 (rat_of k + 1 / 2) = Fin a"
    "\<bar>a\<bar> \<le> 2 * \<bar>rat_of k + 1 / 2\<bar> + 1" by blast
  then have a1: "\<bar>a\<bar> \<le> 1282" using k by simp
  have "\<bar>a / q\<bar> = \<bar>a\<bar> / q" using assms(1) by simp
  also have "\<dots> \<le> \<bar>a\<bar> / (1 / 20)" using assms(1) by (intro divide_left_mono) auto
  finally have aq: "\<bar>a / q\<bar> \<le> 25640" using a1 by simp
  then have "\<bar>a / q\<bar> \<le> 2 ^ 100" by (rule order_trans) simp
  from fl_round32_bound [OF this] obtain b where b: "fl_round binary32 (a / q) = Fin b" "\<bar>b\<bar> \<le> 2 * \<bar>a / q\<bar> + 1" by blast
  then have b1: "\<bar>b\<bar> \<le> 51281" using aq by linarith
  have b2: "\<bar>b + - (1 / 2)\<bar> \<le> 51282" using b1 by linarith
  then have "\<bar>b + - (1 / 2)\<bar> \<le> 2 ^ 100" by (rule order_trans) simp
  from fl_round32_bound [OF this] obtain z where z: "fl_round binary32 (b + - (1 / 2)) = Fin z"
    "\<bar>z\<bar> \<le> 2 * \<bar>b + - (1 / 2)\<bar> + 1" by blast
  have "\<bar>z\<bar> < 10 ^ 6" using z(2) b2 by simp
  moreover have "source_coord (Fin q) k = Fin z"
    using assms(1) a(1) b(1) z(1) \<open>fint k = Fin (rat_of k)\<close> by (simp add: source_coord_def fl_sub_def)
  ultimately show ?thesis by blast
qed

lemma neighbours_ok:
  assumes "\<bar>z\<bar> < 10 ^ 6" "1 \<le> extent"
  shows "\<exists>i0 i1 f. neighbours (Fin z) extent = Some (i0, i1, f) \<and> 0 \<le> i0 \<and> i0 < extent \<and> 0 \<le> i1 \<and> i1 < extent"
proof -
  have "- (10 ^ 6) \<le> \<lfloor>z\<rfloor>" "\<lfloor>z\<rfloor> < 10 ^ 6 + 1"
    using assms(1) by (simp_all add: le_floor_iff floor_less_iff abs_less_iff)
  then have "fl_to_int (fl_floor (Fin z)) = Some \<lfloor>z\<rfloor>" by (simp add: Let_def)
  then show ?thesis using assms(2) by (auto simp: neighbours_def Let_def)
qed

lemma pixel_index:
  assumes "0 \<le> y" "y < h" "0 \<le> x" "x < (w :: int)" "0 \<le> c" "c < 3"
  shows "0 \<le> (y * w + x) * 3 + c \<and> (y * w + x) * 3 + c < w * h * 3"
proof -
  have "0 \<le> y * w" using assms by simp
  moreover have "y * w \<le> (h - 1) * w" using assms by (intro mult_right_mono) auto
  then have "y * w + x \<le> w * h - 1" using assms by (simp add: algebra_simps)
  moreover have "0 \<le> (n + x) * 3 + c \<and> (n + x) * 3 + c < m * 3" if "0 \<le> n" "n + x \<le> m - 1" for n m
    using that assms(3,5,6) by auto
  ultimately show ?thesis by blast
qed

lemma interpolate_ok:
  assumes "int (length pixels) = w * h * 3" "0 \<le> ya" "ya < h" "0 \<le> yb" "yb < h" "0 \<le> xa" "xa < w" "0 \<le> xb" "xb < w"
    "0 \<le> c" "c < 3"
  shows "\<exists>v. interpolate pixels w (ya, yb, fy) (xa, xb, fx) c = Some v"
proof -
  have "\<exists>v. px_at pixels ((y * w + x) * 3 + c) = Some v" if "0 \<le> y" "y < h" "0 \<le> x" "x < w" for y x
    using pixel_index [OF that assms(10,11)] assms(1) by (simp add: px_at_def)
  from this [of ya xa] this [of ya xb] this [of yb xa] this [of yb xb] assms show ?thesis
    by (auto simp: interpolate_def Let_def)
qed

section \<open>The loops\<close>

lemma letterbox_row_ok:
  assumes "side_ok w" "side_ok h" "1 / 20 \<le> q" "int (length pixels) = w * h * 3" "length t = 640 * 640 * 3"
    "0 \<le> rw" "0 \<le> pl" "pl + rw \<le> 640" "0 \<le> pt" "0 \<le> y" "pt + y < 640"
  shows "\<exists>t'. letterbox_row pixels w h (Fin q) rw pl pt y t = Some t' \<and> length t' = 640 * 640 * 3"
proof -
  obtain zy where zy: "source_coord (Fin q) y = Fin zy" "\<bar>zy\<bar> < 10 ^ 6"
    using source_coord_ok [OF assms(3), of y] assms by auto
  obtain ya yb fy where ny: "neighbours (Fin zy) h = Some (ya, yb, fy)" "0 \<le> ya" "ya < h" "0 \<le> yb" "yb < h"
    using neighbours_ok [OF zy(2), of h] assms(2) by (auto simp: side_ok_def)
  have "\<exists>t'. for_each (\<lambda>x t. case neighbours (source_coord (Fin q) x) w of None \<Rightarrow> None
      | Some nx \<Rightarrow> for_each (\<lambda>c t. case interpolate pixels w (ya, yb, fy) nx c of None \<Rightarrow> None
          | Some v \<Rightarrow> px_store (((pt + y) * kInputWidth + pl + x) * 3 + c) v t) [0, 1, 2] t) [0 .. rw - 1] t = Some t'
      \<and> length t' = 640 * 640 * 3"
  proof (rule for_each_inv)
    show "length t = 640 * 640 * 3" by (rule assms(5))
  next
    fix x and t :: "fl list"
    assume x: "x \<in> set [0 .. rw - 1]" and t: "length t = 640 * 640 * 3"
    then have xr: "0 \<le> x" "x < rw" by auto
    obtain zx where zx: "source_coord (Fin q) x = Fin zx" "\<bar>zx\<bar> < 10 ^ 6"
      using source_coord_ok [OF assms(3), of x] assms xr by auto
    obtain xa xb fx where nx: "neighbours (Fin zx) w = Some (xa, xb, fx)" "0 \<le> xa" "xa < w" "0 \<le> xb" "xb < w"
      using neighbours_ok [OF zx(2), of w] assms(1) by (auto simp: side_ok_def)
    have "\<exists>t'. for_each (\<lambda>c t. case interpolate pixels w (ya, yb, fy) (xa, xb, fx) c of None \<Rightarrow> None
          | Some v \<Rightarrow> px_store (((pt + y) * kInputWidth + pl + x) * 3 + c) v t) [0, 1, 2] t = Some t'
        \<and> length t' = 640 * 640 * 3"
    proof (rule for_each_inv)
      show "length t = 640 * 640 * 3" by (rule t)
    next
      fix c :: int and t :: "fl list"
      assume c: "c \<in> set [0, 1, 2]" and t: "length t = 640 * 640 * 3"
      then have cr: "0 \<le> c" "c < 3" by auto
      obtain v where v: "interpolate pixels w (ya, yb, fy) (xa, xb, fx) c = Some v"
        using interpolate_ok [OF assms(4) ny(2-5) nx(2-5) cr] by blast
      have "0 \<le> ((pt + y) * 640 + (pl + x)) * 3 + c \<and> ((pt + y) * 640 + (pl + x)) * 3 + c < 640 * 640 * 3"
        by (rule pixel_index) (use assms xr cr in auto)
      then show "\<exists>t'. (case interpolate pixels w (ya, yb, fy) (xa, xb, fx) c of None \<Rightarrow> None
          | Some v \<Rightarrow> px_store (((pt + y) * kInputWidth + pl + x) * 3 + c) v t) = Some t' \<and> length t' = 640 * 640 * 3"
        by (simp add: v px_store_def kInputWidth_def t add.assoc)
    qed
    then show "\<exists>t'. (case neighbours (source_coord (Fin q) x) w of None \<Rightarrow> None
      | Some nx \<Rightarrow> for_each (\<lambda>c t. case interpolate pixels w (ya, yb, fy) nx c of None \<Rightarrow> None
          | Some v \<Rightarrow> px_store (((pt + y) * kInputWidth + pl + x) * 3 + c) v t) [0, 1, 2] t) = Some t'
      \<and> length t' = 640 * 640 * 3"
      unfolding zx(1) nx(1) option.case .
  qed
  then show ?thesis unfolding letterbox_row_def zy(1) ny(1) option.case .
qed

lemma letterbox_ok:
  assumes "side_ok w" "side_ok h" "int (length pixels) = w * h * 3"
  shows "\<exists>p. letterbox pixels w h = Some p \<and> length (tensor p) = 640 * 640 * 3 \<and> originalWidth p = w \<and> originalHeight p = h
    \<and> fl_less (Fin 0) (im_scale p)"
proof -
  obtain q where q: "letterbox_scale w h = Fin q" "1 / 20 \<le> q" "q * rat_of w \<le> 640 * (1 + 1 / 2 ^ 20)"
    "q * rat_of h \<le> 640 * (1 + 1 / 2 ^ 20)"
    using letterbox_scale_ok [OF assms(1,2)] by blast
  obtain rw where rw: "resized w (Fin q) = Some rw" "0 \<le> rw" "rw \<le> 640" using resized_ok [OF assms(1) q(2,3)] by blast
  obtain rh where rh: "resized h (Fin q) = Some rh" "0 \<le> rh" "rh \<le> 640" using resized_ok [OF assms(2) q(2,4)] by blast
  let ?pl = "half (640 - rw)" and ?pt = "half (640 - rh)"
  let ?t = "replicate (nat (640 * 640 * 3)) (fdiv (Fin 114) (Fin 255))"
  have "\<exists>t'. for_each (letterbox_row pixels w h (Fin q) rw ?pl ?pt) [0 .. rh - 1] ?t = Some t' \<and> length t' = 640 * 640 * 3"
  proof (rule for_each_inv)
    show "length ?t = 640 * 640 * 3" by simp
  next
    fix y and t :: "fl list"
    assume "y \<in> set [0 .. rh - 1]" "length t = 640 * 640 * 3"
    then show "\<exists>t'. letterbox_row pixels w h (Fin q) rw ?pl ?pt y t = Some t' \<and> length t' = 640 * 640 * 3"
      using half_ok [OF rw(2,3)] half_ok [OF rh(2,3)] rw rh by (intro letterbox_row_ok assms q(2)) auto
  qed
  then obtain t' where "for_each (letterbox_row pixels w h (Fin q) rw ?pl ?pt) [0 .. rh - 1] ?t = Some t'"
    "length t' = 640 * 640 * 3" by blast
  then show ?thesis
    using q by (simp add: letterbox_def rw rh kInputWidth_def kInputHeight_def Let_def)
qed

text \<open>
  Property C18. Preprocessing is memory safe: for any bytes, if the decoder delivers the picture it announced, no pixel is read and
  no tensor element written out of bounds and no conversion overflows; the call either fails with a
  message or delivers a tensor of 640 x 640 x 3 elements, the size of the picture, within the limits, and a positive scale.
\<close>

theorem preprocess_safe:
  assumes "\<And>data w h width height pixels. stbi_info lib data = Some (w, h) \<Longrightarrow> stbi_load lib data = Some (width, height, pixels) \<Longrightarrow>
    width = w \<and> height = h \<and> int (length pixels) = w * h * 3"
  shows "case preprocess lib img of
      None \<Rightarrow> False
    | Some (Inl e) \<Rightarrow> True
    | Some (Inr p) \<Rightarrow> length (tensor p) = 640 * 640 * 3 \<and> side_ok (originalWidth p) \<and> side_ok (originalHeight p)
        \<and> fl_less (Fin 0) (im_scale p)"
proof (cases "preprocess lib img")
  case None
  then obtain data w h width height pixels where d: "stbi_info lib data = Some (w, h)"
    "stbi_load lib data = Some (width, height, pixels)" "side_ok w" "side_ok h" "letterbox pixels width height = None"
    by (auto simp: preprocess_def side_ok_def not_le not_less split: option.splits if_splits)
  with assms [OF d(1,2)] letterbox_ok [OF d(3,4), of pixels] show ?thesis by auto
next
  case (Some r)
  show ?thesis
  proof (cases r)
    case (Inl e)
    with Some show ?thesis by simp
  next
    case (Inr p)
    with Some obtain data w h width height pixels where d: "stbi_info lib data = Some (w, h)"
      "stbi_load lib data = Some (width, height, pixels)" "side_ok w" "side_ok h" "letterbox pixels width height = Some p"
      by (auto simp: preprocess_def side_ok_def not_le not_less split: option.splits if_splits)
    with assms [OF d(1,2)] letterbox_ok [OF d(3,4), of pixels] Some Inr show ?thesis by auto
  qed
qed

definition sample_stb :: stb where
  "sample_stb = \<lparr>stbi_info = (\<lambda>_. Some (2, 1)), stbi_load = (\<lambda>_. Some (2, 1, [0, 10, 20, 30, 40, 50])),
     stbi_failure_reason = None\<rparr>"

lemma preprocess_safe_witness:
  "preprocess sample_stb \<lparr>encoded = Some ''png'', im_fileName = [], im_contentType = []\<rparr> \<noteq> None"
  using preprocess_safe [of sample_stb "\<lparr>encoded = Some ''png'', im_fileName = [], im_contentType = []\<rparr>"]
  by (auto simp: sample_stb_def split: option.splits)

end
