(* ===== verification/Idle_Wheel.thy ===== *)
theory Idle_Wheel
  imports Prelude
begin

text \<open>
  The circular buffer and the wheel of idle connections (\<open>src/keepalive/CircularBuffer.h\<close>, \<open>myEntry.h\<close>, and their user
  \<open>example/server-timequeue/echoserver.cc\<close>).

  An entry is known by the number of its connection. It lives as long as some bucket of the vector holds a
  \<open>shared_ptr\<close> to it; when the last one goes, its destructor shuts the connection down.
\<close>

section \<open>The circular buffer\<close>

record 'a circular =
  cb_buffer :: "'a list"
  maxSize :: nat
  cb_head :: nat
  cb_tail :: nat
  cb_full :: bool

definition circular_new :: "nat \<Rightarrow> 'a \<Rightarrow> 'a circular" where
  "circular_new n x = \<lparr>cb_buffer = replicate n x, maxSize = n, cb_head = 0, cb_tail = 0, cb_full = False\<rparr>"

definition enqueue :: "'a \<Rightarrow> 'a circular \<Rightarrow> 'a circular" where
  "enqueue item c =
     (let c = c\<lparr>cb_buffer := (cb_buffer c)[cb_tail c := item]\<rparr>;
          c = (if cb_full c then c\<lparr>cb_head := (cb_head c + 1) mod maxSize c\<rparr> else c);
          c = c\<lparr>cb_tail := (cb_tail c + 1) mod maxSize c\<rparr>
      in c\<lparr>cb_full := cb_tail c = cb_head c\<rparr>)"

definition isFull :: "'a circular \<Rightarrow> bool" where
  "isFull c = cb_full c"

definition isEmpty :: "'a circular \<Rightarrow> bool" where
  "isEmpty c \<longleftrightarrow> \<not> cb_full c \<and> cb_head c = cb_tail c"

text \<open>\<open>back\<close> returns a reference; an empty buffer is only logged.\<close>

definition cb_back :: "'a circular \<Rightarrow> 'a" where
  "cb_back c = cb_buffer c ! cb_tail c"

definition cb_update :: "('a \<Rightarrow> 'a) \<Rightarrow> 'a circular \<Rightarrow> 'a circular" where
  "cb_update f c = c\<lparr>cb_buffer := (cb_buffer c)[cb_tail c := f (cb_back c)]\<rparr>"

subsection \<open>What it holds\<close>

definition cb_count :: "'a circular \<Rightarrow> nat" where
  "cb_count c = (if cb_full c then maxSize c else (cb_tail c + maxSize c - cb_head c) mod maxSize c)"

definition cb_list :: "'a circular \<Rightarrow> 'a list" where
  "cb_list c = map (\<lambda>i. cb_buffer c ! ((cb_head c + i) mod maxSize c)) [0..<cb_count c]"

definition cb_ok :: "'a circular \<Rightarrow> bool" where
  "cb_ok c \<longleftrightarrow> length (cb_buffer c) = maxSize c \<and> 0 < maxSize c \<and> cb_head c < maxSize c
     \<and> cb_count c \<le> maxSize c \<and> cb_tail c = (cb_head c + cb_count c) mod maxSize c
     \<and> (cb_full c \<longleftrightarrow> cb_count c = maxSize c)"

lemma mod_same_iff:
  assumes "a < n" "b < n" "(h + a) mod n = (h + b) mod n"
  shows "a = (b :: nat)"
proof -
  have *: "a = b" if "a \<le> b" "b < n" "(h + a) mod n = (h + b) mod n" for a b :: nat
  proof -
    have "n dvd (h + b) - (h + a)" using that mod_eq_dvd_iff_nat [of "h + a" "h + b" n] by simp
    then have "n dvd b - a" by simp
    with that(1,2) show "a = b" using nat_dvd_not_less [of "b - a" n] by (cases "a = b") auto
  qed
  show ?thesis using * [of a b] * [of b a] assms by (cases "a \<le> b") auto
qed

lemma cb_okD:
  assumes "cb_ok c"
  shows "0 < maxSize c" "cb_head c < maxSize c" "length (cb_buffer c) = maxSize c" "cb_count c \<le> maxSize c"
    "cb_tail c = (cb_head c + cb_count c) mod maxSize c" "cb_full c \<longleftrightarrow> cb_count c = maxSize c"
  using assms by (simp_all add: cb_ok_def)

text \<open>A full buffer drops its oldest item.\<close>

lemma enqueue_full:
  assumes "cb_ok c" "cb_full c"
  shows "cb_ok (enqueue x c) \<and> cb_list (enqueue x c) = tl (cb_list c) @ [x]"
proof -
  let ?n = "maxSize c" and ?h = "cb_head c"
  note n = cb_okD [OF assms(1)]
  obtain m where m: "?n = Suc m" using n(1) by (cases ?n) auto
  let ?h' = "(?h + 1) mod ?n" and ?b = "(cb_buffer c)[?h := x]"
  have k: "cb_count c = ?n" using assms(2) n(6) by blast
  have t: "cb_tail c = ?h" unfolding n(5) k using n(2) by simp
  have e: "enqueue x c = c\<lparr>cb_buffer := ?b, cb_head := ?h', cb_tail := ?h', cb_full := True\<rparr>"
    using assms(2) t by (simp add: enqueue_def Let_def)
  have cnt: "cb_count (enqueue x c) = ?n" by (simp add: e cb_count_def)
  have idx: "(?h' + i) mod ?n = (?h + Suc i) mod ?n" for i by (simp add: mod_add_left_eq)
  have old: "?b ! ((?h + Suc i) mod ?n) = cb_buffer c ! ((?h + Suc i) mod ?n)" if "i < m" for i
  proof -
    have "(?h + Suc i) mod ?n \<noteq> (?h + 0) mod ?n"
      using mod_same_iff [of "Suc i" ?n 0 ?h] that m n(1) by (metis Suc_less_eq nat.distinct(1))
    then show ?thesis using n(2) by simp
  qed
  have new: "?b ! ((?h + Suc m) mod ?n) = x" using n(2,3) by (simp add: m [symmetric] del: add_Suc_right)
  have "cb_list (enqueue x c) = map (\<lambda>i. ?b ! ((?h + Suc i) mod ?n)) [0..<Suc m]"
    unfolding cb_list_def cnt idx [symmetric] m [symmetric] by (simp add: e)
  also have "\<dots> = map (\<lambda>i. cb_buffer c ! ((?h + Suc i) mod ?n)) [0..<m] @ [x]"
    using old new by (simp del: add_Suc_right)
  also have "map (\<lambda>i. cb_buffer c ! ((?h + Suc i) mod ?n)) [0..<m] = tl (cb_list c)"
    unfolding cb_list_def k m by (simp add: upt_conv_Cons map_Suc_upt [symmetric] o_def del: upt_Suc)
  finally show ?thesis using n(1-3) by (simp add: cb_ok_def cnt) (simp add: e)
qed

text \<open>Otherwise it has one more.\<close>

lemma enqueue_step:
  assumes "cb_ok c" "\<not> cb_full c"
  shows "enqueue x c = c\<lparr>cb_buffer := (cb_buffer c)[(cb_head c + cb_count c) mod maxSize c := x],
      cb_tail := (cb_head c + Suc (cb_count c)) mod maxSize c, cb_full := (Suc (cb_count c) = maxSize c)\<rparr>"
proof -
  note n = cb_okD [OF assms(1)]
  have k: "cb_count c < maxSize c" using assms(2) n by simp
  have "(cb_tail c + 1) mod maxSize c = (cb_head c + Suc (cb_count c)) mod maxSize c"
    unfolding n(5) by (simp add: mod_Suc_eq)
  moreover have "(cb_head c + Suc (cb_count c)) mod maxSize c = cb_head c \<longleftrightarrow> Suc (cb_count c) = maxSize c"
    using mod_same_iff [of "Suc (cb_count c)" "maxSize c" 0 "cb_head c"] k n(1,2)
    by (cases "Suc (cb_count c) = maxSize c") auto
  ultimately show ?thesis using assms(2) n(5) by (simp add: enqueue_def)
qed

lemma enqueue_count:
  assumes "cb_ok c" "\<not> cb_full c"
  shows "cb_count (enqueue x c) = Suc (cb_count c)"
proof (cases "Suc (cb_count c) = maxSize c")
  case True
  then show ?thesis by (simp add: enqueue_step [OF assms] cb_count_def [of "enqueue x c"] cb_count_def [of "_\<lparr>cb_full := _\<rparr>"])
next
  case ne: False
  let ?n = "maxSize c" and ?h = "cb_head c" and ?k = "Suc (cb_count c)"
  note n = cb_okD [OF assms(1)]
  have k: "?k < ?n" using assms(2) n ne by simp
  have "((?h + ?k) mod ?n + ?n - ?h) mod ?n = ?k"
  proof (cases "?h + ?k < ?n")
    case True
    then have "(?h + ?k) mod ?n + ?n - ?h = ?k + ?n" by simp
    then show ?thesis using k by (simp only: mod_add_self2 mod_less)
  next
    case False
    then have "(?h + ?k) mod ?n = ?h + ?k - ?n" using n(2) k by (simp add: le_mod_geq)
    then show ?thesis using False k by simp
  qed
  then show ?thesis using ne by (simp add: enqueue_step [OF assms] cb_count_def [of "_\<lparr>cb_full := _\<rparr>"])
qed

lemma enqueue_free:
  assumes "cb_ok c" "\<not> cb_full c"
  shows "cb_ok (enqueue x c) \<and> cb_list (enqueue x c) = cb_list c @ [x]"
proof -
  let ?n = "maxSize c" and ?h = "cb_head c" and ?k = "cb_count c"
  let ?b = "(cb_buffer c)[(?h + ?k) mod ?n := x]"
  note n = cb_okD [OF assms(1)] and e = enqueue_step [OF assms, of x] and cnt = enqueue_count [OF assms, of x]
  have k: "?k < ?n" using assms(2) n by simp
  have "?b ! ((?h + i) mod ?n) = cb_buffer c ! ((?h + i) mod ?n)" if "i < ?k" for i
    using mod_same_iff [of i ?n ?k ?h] that k by (metis less_trans nat_less_le nth_list_update_neq)
  moreover have "?b ! ((?h + ?k) mod ?n) = x" using n(1,3) by simp
  moreover have "cb_list (enqueue x c) = map (\<lambda>i. ?b ! ((?h + i) mod ?n)) [0..<Suc ?k]"
    unfolding cb_list_def cnt by (simp add: e)
  ultimately have "cb_list (enqueue x c) = cb_list c @ [x]" by (simp add: cb_list_def)
  then show ?thesis using n k by (simp add: cb_ok_def cnt) (simp add: e)
qed

lemma enqueue_ok:
  assumes "cb_ok c"
  shows "cb_ok (enqueue x c) \<and> maxSize (enqueue x c) = maxSize c
    \<and> cb_list (enqueue x c) = (if cb_full c then tl (cb_list c) else cb_list c) @ [x]"
proof -
  have "maxSize (enqueue x c) = maxSize c" by (simp add: enqueue_def Let_def)
  then show ?thesis using enqueue_full [OF assms] enqueue_free [OF assms] by simp
qed

lemma circular_new_ok: "0 < n \<Longrightarrow> cb_ok (circular_new n x) \<and> cb_list (circular_new n x) = []"
  by (simp add: circular_new_def cb_ok_def cb_list_def cb_count_def)

text \<open>
  The circular buffer of size \<open>n\<close> holds the last \<open>n\<close> items that were put in, in their order, and is full
  exactly from the \<open>n\<close>-th on and empty exactly before the first.
\<close>

theorem circular_keeps_last:
  assumes "0 < n" "c = fold enqueue xs (circular_new n x)"
  shows "cb_list c = drop (length xs - n) xs \<and> (isFull c \<longleftrightarrow> n \<le> length xs) \<and> (isEmpty c \<longleftrightarrow> xs = [])"
proof -
  have "cb_ok (fold enqueue xs (circular_new n x)) \<and> maxSize (fold enqueue xs (circular_new n x)) = n
    \<and> cb_list (fold enqueue xs (circular_new n x)) = drop (length xs - n) xs"
  proof (induction xs rule: rev_induct)
    case Nil
    then show ?case using circular_new_ok [OF assms(1), of x] by (simp add: circular_new_def)
  next
    case (snoc y ys)
    let ?c = "fold enqueue ys (circular_new n x)"
    have c: "cb_ok ?c" "maxSize ?c = n" "cb_list ?c = drop (length ys - n) ys" using snoc.IH by auto
    have "length (cb_list ?c) = cb_count ?c" by (simp add: cb_list_def)
    then have full: "cb_full ?c \<longleftrightarrow> n \<le> length ys" using c by (auto simp: cb_ok_def)
    note e = enqueue_ok [OF c(1), of y]
    have "(if cb_full ?c then tl (cb_list ?c) else cb_list ?c) @ [y] = drop (length (ys @ [y]) - n) (ys @ [y])"
      using full c(3) assms(1) by (auto simp: Suc_diff_le drop_Suc tl_drop)
    then show ?case using e c(2) by simp
  qed
  then have c: "cb_ok c" "maxSize c = n" "cb_list c = drop (length xs - n) xs" using assms(2) by auto
  have len: "cb_count c = length xs - (length xs - n)" using c(3) by (metis cb_list_def length_drop length_map length_upt minus_nat.diff_0)
  have "isFull c \<longleftrightarrow> n \<le> length xs" using c(1,2) len by (auto simp: cb_ok_def isFull_def)
  moreover have "isEmpty c \<longleftrightarrow> cb_count c = 0"
  proof
    show "isEmpty c \<Longrightarrow> cb_count c = 0" by (simp add: isEmpty_def cb_count_def)
    assume "cb_count c = 0"
    then show "isEmpty c" using c(1) by (auto simp: isEmpty_def cb_ok_def)
  qed
  ultimately show ?thesis using c(3) len assms(1) by auto
qed

lemma circular_keeps_last_witness: "cb_list (fold enqueue ''abcde'' (circular_new 3 NUL)) = ''cde''"
  using circular_keeps_last [of 3 _ "''abcde''" NUL, OF _ refl] by simp

section \<open>The wheel of idle connections\<close>

text \<open>The echo server: its wheel, the connections that were given an entry, and those whose entry has been destroyed.\<close>

record idle_server =
  wheel :: "nat set circular"
  shut :: "nat set"

definition echo_new :: "nat \<Rightarrow> idle_server" where
  "echo_new idleSeconds = \<lparr>wheel = circular_new idleSeconds {}, shut = {}\<rparr>"

text \<open>The entries that live, and the destruction of those that no longer do.\<close>

definition entries :: "nat set circular \<Rightarrow> nat set" where
  "entries c = \<Union> (set (cb_buffer c))"

definition entry_destroyed :: "nat set circular \<Rightarrow> nat set circular \<Rightarrow> idle_server \<Rightarrow> idle_server" where
  "entry_destroyed before after s = s\<lparr>wheel := after, shut := shut s \<union> (entries before - entries after)\<rparr>"

definition echo_onConnection :: "nat \<Rightarrow> bool \<Rightarrow> idle_server \<Rightarrow> idle_server" where
  "echo_onConnection conn isConnected s =
     (if isConnected then s\<lparr>wheel := cb_update (insert conn) (wheel s)\<rparr> else s)"

text \<open>The echo itself is left out; \<open>lock\<close> gives the entry if it still lives.\<close>

definition echo_onMessage :: "nat \<Rightarrow> idle_server \<Rightarrow> idle_server" where
  "echo_onMessage conn s =
     (if conn \<in> entries (wheel s) then s\<lparr>wheel := cb_update (insert conn) (wheel s)\<rparr> else s)"

definition echo_onTimer :: "idle_server \<Rightarrow> idle_server" where
  "echo_onTimer s = entry_destroyed (wheel s) (enqueue {} (wheel s)) s"

datatype echo_event = Connected nat | Message nat | Tick

fun echo_step :: "echo_event \<Rightarrow> idle_server \<Rightarrow> idle_server" where
  "echo_step (Connected conn) s = echo_onConnection conn True s"
| "echo_step (Message conn) s = echo_onMessage conn s"
| "echo_step Tick s = echo_onTimer s"

text \<open>Only the bucket at the tail, which the next tick overwrites, can hold entries.\<close>

definition wheel_ok :: "nat set circular \<Rightarrow> bool" where
  "wheel_ok c \<longleftrightarrow> cb_tail c < length (cb_buffer c) \<and> maxSize c = length (cb_buffer c)
     \<and> (\<forall>i < length (cb_buffer c). i \<noteq> cb_tail c \<longrightarrow> cb_buffer c ! i = {})"

lemma wheel_back: "wheel_ok c \<Longrightarrow> wheel_ok (cb_update f c)"
  by (simp add: wheel_ok_def cb_update_def)

lemma wheel_tick:
  assumes "wheel_ok c"
  shows "wheel_ok (enqueue {} c) \<and> entries (enqueue {} c) = {}"
proof -
  have b: "cb_buffer (enqueue {} c) = (cb_buffer c)[cb_tail c := {}]" "maxSize (enqueue {} c) = maxSize c"
    "cb_tail (enqueue {} c) = (cb_tail c + 1) mod maxSize c"
    by (simp_all add: enqueue_def Let_def)
  have all: "\<forall>i < length (cb_buffer c). (cb_buffer c)[cb_tail c := {}] ! i = {}"
    using assms by (auto simp: wheel_ok_def nth_list_update)
  then have "entries (enqueue {} c) = {}" by (auto simp: entries_def b in_set_conv_nth)
  moreover have "(cb_tail c + 1) mod maxSize c < length (cb_buffer c)"
    using assms by (metis gr_implies_not_zero mod_less_divisor neq0_conv wheel_ok_def)
  then have "wheel_ok (enqueue {} c)" using all assms by (simp add: wheel_ok_def b)
  ultimately show ?thesis by simp
qed

lemma echo_run_ok: "wheel_ok (wheel s) \<Longrightarrow> wheel_ok (wheel (fold echo_step evs s))"
proof (induction evs arbitrary: s)
  case (Cons e evs)
  have "wheel_ok (wheel (echo_step e s))"
    using Cons.prems wheel_back wheel_tick
    by (cases e) (simp_all add: echo_onConnection_def echo_onMessage_def echo_onTimer_def entry_destroyed_def)
  then show ?case using Cons.IH by simp
qed simp

text \<open>
  Property C39. The wheel of the echo server closes connections too early: however many seconds of idleness it was built
  for, after any history every tick empties the whole wheel and shuts down every connection that has an entry, also one that
  sent a message just before.
\<close>

theorem idle_wheel_one_tick:
  assumes "0 < idleSeconds" "s = fold echo_step evs (echo_new idleSeconds)"
  shows "entries (wheel (echo_step Tick s)) = {} \<and> shut (echo_step Tick s) = shut s \<union> entries (wheel s)"
proof -
  have "wheel_ok (wheel (echo_new idleSeconds))"
    using assms(1) by (simp add: echo_new_def circular_new_def wheel_ok_def)
  then have "wheel_ok (wheel s)" using echo_run_ok assms(2) by simp
  then show ?thesis using wheel_tick [of "wheel s"] by (simp add: echo_onTimer_def entry_destroyed_def)
qed

lemma idle_wheel_one_tick_witness:
  "let s = fold echo_step [Connected 1, Message 1] (echo_new 8)
   in 1 \<in> entries (wheel s) \<and> 1 \<in> shut (echo_step Tick s)"
proof -
  define s where "s = fold echo_step [Connected 1, Message 1] (echo_new 8)"
  have "1 \<in> entries (wheel s)"
    by (simp add: numeral_eq_Suc s_def echo_new_def circular_new_def echo_onConnection_def echo_onMessage_def cb_update_def cb_back_def entries_def)
  moreover have "1 \<in> shut (echo_step Tick s)"
    using idle_wheel_one_tick [OF _ s_def] calculation by simp
  ultimately show ?thesis unfolding s_def [symmetric] Let_def by blast
qed

end
