(* ===== verification/Log_Stream.thy ===== *)
theory Log_Stream
  imports Time_Stamp Machine_Float
begin

text \<open>
  Composing a log record (\<open>src/logger/FixedBuffer.h\<close>, \<open>LogStream.h\<close>, \<open>LogStream.cc\<close>, \<open>Logging.h\<close>, \<open>Logging.cc\<close>, and the
  simple logger of \<open>Logger.h\<close>, \<open>Logger.cc\<close>).

  A buffer is its whole array, whose first contents are indeterminate and therefore an argument, and the position of
  \<open>cur_\<close>. \<open>localtime\<close> and the text of an \<open>errno\<close> are parameters; the output function is what a record hands to it.
\<close>

section \<open>FixedBuffer\<close>

definition kSmallBuffer :: nat where "kSmallBuffer = 4000"
definition kLargeBuffer :: nat where "kLargeBuffer = 4000 * 1000"

record fixed_buffer =
  fb_data :: bytes
  fb_cur :: nat

definition fb_new :: "bytes \<Rightarrow> fixed_buffer" where
  "fb_new junk = \<lparr>fb_data = junk, fb_cur = 0\<rparr>"

definition fb_avail :: "fixed_buffer \<Rightarrow> nat" where
  "fb_avail b = length (fb_data b) - fb_cur b"

text \<open>\<open>length()\<close> is \<open>end() - data_\<close>, the size of the array.\<close>

definition fb_length :: "fixed_buffer \<Rightarrow> nat" where
  "fb_length b = length (fb_data b)"

text \<open>Bytes stored at \<open>cur_\<close>.\<close>

definition fb_store :: "bytes \<Rightarrow> fixed_buffer \<Rightarrow> fixed_buffer" where
  "fb_store s b = b\<lparr>fb_data := take (fb_cur b) (fb_data b) @ s @ drop (fb_cur b + length s) (fb_data b)\<rparr>"

definition fb_add :: "nat \<Rightarrow> fixed_buffer \<Rightarrow> fixed_buffer" where
  "fb_add n b = b\<lparr>fb_cur := fb_cur b + n\<rparr>"

definition fb_append :: "bytes \<Rightarrow> fixed_buffer \<Rightarrow> fixed_buffer" where
  "fb_append s b = (if length s < fb_avail b then fb_add (length s) (fb_store s b) else b)"

definition fb_reset :: "fixed_buffer \<Rightarrow> fixed_buffer" where
  "fb_reset b = b\<lparr>fb_cur := 0\<rparr>"

definition fb_bzero :: "fixed_buffer \<Rightarrow> fixed_buffer" where
  "fb_bzero b = b\<lparr>fb_data := replicate (length (fb_data b)) NUL\<rparr>"

definition fb_toString :: "fixed_buffer \<Rightarrow> bytes" where
  "fb_toString b = take (fb_length b) (fb_data b)"

text \<open>What has been written, and what lies behind it.\<close>

definition fb_text :: "fixed_buffer \<Rightarrow> bytes" where
  "fb_text b = take (fb_cur b) (fb_data b)"

definition fb_rest :: "fixed_buffer \<Rightarrow> bytes" where
  "fb_rest b = drop (fb_cur b) (fb_data b)"

definition fb_ok :: "fixed_buffer \<Rightarrow> bool" where
  "fb_ok b \<longleftrightarrow> fb_cur b \<le> length (fb_data b)"

lemma fb_data_eq: "fb_data b = fb_text b @ fb_rest b"
  by (simp add: fb_text_def fb_rest_def)

lemma fb_avail_rest: "fb_avail b = length (fb_rest b)"
  by (simp add: fb_avail_def fb_rest_def)

lemma fb_put:
  assumes "fb_ok b" "n \<le> length s" "length s \<le> fb_avail b"
  shows "fb_ok (fb_add n (fb_store s b)) \<and> fb_text (fb_add n (fb_store s b)) = fb_text b @ take n s
    \<and> fb_rest (fb_add n (fb_store s b)) = drop n s @ drop (length s) (fb_rest b)
    \<and> fb_length (fb_add n (fb_store s b)) = fb_length b"
  using assms by (auto simp: fb_add_def fb_store_def fb_ok_def fb_text_def fb_rest_def fb_avail_def fb_length_def add.commute)

lemma fb_append_ok:
  assumes "fb_ok b"
  shows "fb_ok (fb_append s b) \<and> fb_length (fb_append s b) = fb_length b
    \<and> fb_text (fb_append s b) = fb_text b @ (if length s < fb_avail b then s else [])
    \<and> fb_rest (fb_append s b) = (if length s < fb_avail b then drop (length s) (fb_rest b) else fb_rest b)"
  using fb_put [OF assms, of "length s" s] assms by (simp add: fb_append_def)

section \<open>LogStream\<close>

definition kMaxNumericSize :: nat where "kMaxNumericSize = 48"

text \<open>The table \<open>digits\<close>, read from its middle: \<open>zero[remainder]\<close> for a remainder of either sign.\<close>

definition digit_table :: bytes where "digit_table = ''9876543210123456789''"

definition zero_at :: "int \<Rightarrow> char" where
  "zero_at remainder = digit_table ! nat (9 + remainder)"

function int_digits :: "int \<Rightarrow> bytes" where
  "int_digits num = zero_at (c_mod num 10) # (if c_div num 10 = 0 then [] else int_digits (c_div num 10))"
  by pat_completeness auto
termination int_digits
  by (relation "measure (nat \<circ> abs)") (auto simp: c_div_def abs_mult abs_sgn_eq)

declare int_digits.simps [simp del]

definition formatInteger :: "int \<Rightarrow> fixed_buffer \<Rightarrow> fixed_buffer" where
  "formatInteger num b =
     (if kMaxNumericSize \<le> fb_avail b
      then (let written = rev (int_digits num @ (if num < 0 then ''-'' else []))
            in fb_add (length written) (fb_store (written @ [NUL]) b))
      else b)"

text \<open>
  The operators: all integer types go through \<open>formatInteger\<close>, the short ones after promotion; None for a double is the
  control path that returns no value.
\<close>

definition put_int :: "int \<Rightarrow> fixed_buffer \<Rightarrow> fixed_buffer" where
  "put_int v b = formatInteger v b"

definition put_double :: "fl \<Rightarrow> fixed_buffer \<Rightarrow> fixed_buffer option" where
  "put_double v b =
     (if kMaxNumericSize \<le> fb_avail b
      then (let t = fmt_g 12 v in Some (fb_add (length t) (fb_store (snprintf kMaxNumericSize t @ [NUL]) b)))
      else None)"

definition put_char :: "char \<Rightarrow> fixed_buffer \<Rightarrow> fixed_buffer" where
  "put_char c b = fb_append [c] b"

text \<open>A \<open>const void*\<close> is taken for a string.\<close>

definition put_cstr :: "bytes option \<Rightarrow> fixed_buffer \<Rightarrow> fixed_buffer" where
  "put_cstr str b = (case str of Some s \<Rightarrow> fb_append (c_str s) b | None \<Rightarrow> fb_append ''(null)'' b)"

definition put_string :: "bytes \<Rightarrow> fixed_buffer \<Rightarrow> fixed_buffer" where
  "put_string s b = fb_append s b"

definition put_buffer :: "fixed_buffer \<Rightarrow> fixed_buffer \<Rightarrow> fixed_buffer" where
  "put_buffer buf b = put_string (fb_toString buf) b"

definition put_template :: "bytes \<Rightarrow> nat \<Rightarrow> fixed_buffer \<Rightarrow> fixed_buffer" where
  "put_template data len b = fb_append (take len data) b"

subsection \<open>Integers\<close>

lemma zero_at_digit:
  assumes "-10 < r" "r < 10"
  shows "zero_at r = digit_char (nat \<bar>r\<bar>)"
proof -
  have "\<forall>r \<in> set [-9..9]. zero_at r = digit_char (nat \<bar>r\<bar>)"
    by code_simp
  moreover have "r \<in> set [-9..9]" unfolding set_upto using assms by (simp only: atLeastAtMost_iff) linarith
  ultimately show ?thesis by blast
qed

lemma rev_int_digits: "rev (int_digits num) = show_nat (nat \<bar>num\<bar>)"
proof (induction num rule: int_digits.induct)
  case (1 num)
  let ?q = "c_div num 10" and ?r = "c_mod num 10"
  have q: "\<bar>?q\<bar> = \<bar>num\<bar> div 10" by (cases "num = 0") (simp_all add: c_div_def abs_mult abs_sgn_eq)
  have r: "\<bar>?r\<bar> = \<bar>num\<bar> mod 10"
  proof -
    have "?r = sgn num * (\<bar>num\<bar> - \<bar>num\<bar> div 10 * 10)"
      by (simp add: c_mod_def c_div_def right_diff_distrib abs_sgn mult.commute mult.left_commute)
    then have "?r = sgn num * (\<bar>num\<bar> mod 10)" by (simp add: minus_div_mult_eq_mod)
    then show ?thesis by (cases "num = 0") (simp_all add: abs_mult abs_sgn_eq)
  qed
  then have "-10 < ?r" "?r < 10" by (simp_all add: abs_less_iff [symmetric] abs_if split: if_splits)
  then have z: "zero_at ?r = digit_char (nat \<bar>num\<bar> mod 10)"
    using zero_at_digit r by (simp add: nat_mod_distrib)
  show ?case
  proof (cases "?q = 0")
    case True
    then have "\<bar>num\<bar> div 10 = 0" using q by simp
    then have "\<bar>num\<bar> < 10" by linarith
    then have n: "nat \<bar>num\<bar> < 10" by simp
    then show ?thesis using True z by (simp add: int_digits.simps [of num] show_nat.simps)
  next
    case False
    then have "\<not> nat \<bar>num\<bar> < 10" using q by (auto simp: nat_less_iff)
    moreover have "nat \<bar>?q\<bar> = nat \<bar>num\<bar> div 10" by (simp add: q nat_div_distrib)
    ultimately show ?thesis
      using 1 [OF False] False z by (simp add: int_digits.simps [of num] show_nat.simps [of "nat \<bar>num\<bar>"])
  qed
qed

lemma written_show: "rev (int_digits num @ (if num < 0 then ''-'' else [])) = show_int num"
  by (simp add: rev_int_digits show_int_def)

lemma length_show_int: "\<bar>num\<bar> < 10 ^ 20 \<Longrightarrow> length (show_int num) \<le> 21"
  using length_show_nat [of "nat \<bar>num\<bar>" 20] by (auto simp: show_int_def nat_less_iff)

lemma formatInteger_ok:
  assumes "fb_ok b" "\<bar>num\<bar> < 10 ^ 20"
  shows "fb_ok (formatInteger num b) \<and> fb_length (formatInteger num b) = fb_length b
    \<and> fb_text (formatInteger num b) = fb_text b @ (if kMaxNumericSize \<le> fb_avail b then show_int num else [])
    \<and> fb_rest (formatInteger num b) = (if kMaxNumericSize \<le> fb_avail b
        then NUL # drop (length (show_int num) + 1) (fb_rest b) else fb_rest b)"
proof (cases "kMaxNumericSize \<le> fb_avail b")
  case True
  then have "length (show_int num @ [NUL]) \<le> fb_avail b"
    using length_show_int [OF assms(2)] by (simp add: kMaxNumericSize_def)
  moreover have "formatInteger num b = fb_add (length (show_int num)) (fb_store (show_int num @ [NUL]) b)"
    unfolding formatInteger_def written_show Let_def using True by simp
  ultimately show ?thesis
    using True fb_put [OF assms(1), of "length (show_int num)" "show_int num @ [NUL]"] by simp
next
  case False
  then show ?thesis using assms by (simp add: formatInteger_def)
qed

section \<open>A record of the log\<close>

datatype log_level = TRACE | DEBUG | INFO | WARN | ERROR | FATAL

fun getLevelName :: "log_level \<Rightarrow> bytes" where
  "getLevelName TRACE = ''TRACE ''"
| "getLevelName DEBUG = ''DEBUG ''"
| "getLevelName INFO = ''INFO  ''"
| "getLevelName WARN = ''WARN  ''"
| "getLevelName ERROR = ''ERROR ''"
| "getLevelName FATAL = ''FATAL ''"

text \<open>\<open>SourceFile\<close>: what follows the last slash.\<close>

definition source_file :: "bytes \<Rightarrow> bytes" where
  "source_file filename = rev (takeWhile (\<lambda>c. c \<noteq> CHR ''/'') (rev filename))"

record log_impl =
  li_stream :: fixed_buffer
  li_level :: log_level
  li_line :: int
  li_basename :: bytes

definition log_stream_update :: "(fixed_buffer \<Rightarrow> fixed_buffer) \<Rightarrow> log_impl \<Rightarrow> log_impl" where
  "log_stream_update f i = i\<lparr>li_stream := f (li_stream i)\<rparr>"

text \<open>\<open>t\<close> is the clock. Of the time 17 characters are written, of the microseconds 7.\<close>

definition formatTime :: "(int \<Rightarrow> tm) \<Rightarrow> timestamp \<Rightarrow> log_impl \<Rightarrow> log_impl" where
  "formatTime localtime t i =
     (let seconds = c_div (ts_value t) kMicroSecondsPerSecond;
          microseconds = c_mod (ts_value t) kMicroSecondsPerSecond;
          t_time = snprintf 64 (fmt_tm (localtime seconds));
          buf = snprintf 32 (fmt_0d 6 microseconds @ '' '')
      in log_stream_update (put_template buf 7 \<circ> put_template t_time 17) i)"

definition impl_new :: "(int \<Rightarrow> tm) \<Rightarrow> timestamp \<Rightarrow> (int \<Rightarrow> bytes) \<Rightarrow> bytes \<Rightarrow> log_level \<Rightarrow> int \<Rightarrow> bytes \<Rightarrow> int \<Rightarrow> log_impl" where
  "impl_new localtime t errnoMsg junk level savedErrno file line =
     (let i = \<lparr>li_stream = fb_new junk, li_level = level, li_line = line, li_basename = source_file file\<rparr>;
          i = formatTime localtime t i;
          i = log_stream_update (put_template (getLevelName level) 6) i
      in if savedErrno \<noteq> 0
         then log_stream_update (put_cstr (Some '') '') \<circ> put_int savedErrno \<circ> put_cstr (Some '' (errno='')
                \<circ> put_cstr (Some (errnoMsg savedErrno))) i
         else i)"

definition finish :: "log_impl \<Rightarrow> log_impl" where
  "finish i =
     log_stream_update (put_char LF \<circ> put_int (li_line i) \<circ> put_char (CHR '':'')
       \<circ> put_template (li_basename i) (length (li_basename i)) \<circ> put_cstr (Some '' - '')) i"

text \<open>The three constructors, and the destructor: what it outputs, and whether it aborts the program.\<close>

definition logger_info :: "(int \<Rightarrow> tm) \<Rightarrow> timestamp \<Rightarrow> (int \<Rightarrow> bytes) \<Rightarrow> bytes \<Rightarrow> bytes \<Rightarrow> int \<Rightarrow> log_impl" where
  "logger_info localtime t errnoMsg junk file line = impl_new localtime t errnoMsg junk INFO 0 file line"

definition logger_level :: "(int \<Rightarrow> tm) \<Rightarrow> timestamp \<Rightarrow> (int \<Rightarrow> bytes) \<Rightarrow> bytes \<Rightarrow> bytes \<Rightarrow> int \<Rightarrow> log_level \<Rightarrow> log_impl" where
  "logger_level localtime t errnoMsg junk file line level = impl_new localtime t errnoMsg junk level 0 file line"

definition logger_func :: "(int \<Rightarrow> tm) \<Rightarrow> timestamp \<Rightarrow> (int \<Rightarrow> bytes) \<Rightarrow> bytes \<Rightarrow> bytes \<Rightarrow> int \<Rightarrow> log_level \<Rightarrow> bytes \<Rightarrow> log_impl" where
  "logger_func localtime t errnoMsg junk file line level func =
     log_stream_update (put_char (CHR '' '') \<circ> put_cstr (Some func)) (impl_new localtime t errnoMsg junk level 0 file line)"

definition logger_destroy :: "log_impl \<Rightarrow> bytes \<times> bool" where
  "logger_destroy i =
     (let i = finish i; buf = li_stream i
      in (take (fb_length buf) (fb_data buf), li_level i = FATAL))"

text \<open>Which of the macros produce a record at the current level.\<close>

definition log_enabled :: "log_level \<Rightarrow> log_level \<Rightarrow> bool" where
  "log_enabled g_logLevel macro =
     (let rank = (\<lambda>l. case l of TRACE \<Rightarrow> 0 :: nat | DEBUG \<Rightarrow> 1 | INFO \<Rightarrow> 2 | WARN \<Rightarrow> 3 | ERROR \<Rightarrow> 4 | FATAL \<Rightarrow> 5)
      in case macro of DEBUG \<Rightarrow> rank g_logLevel \<le> rank DEBUG | INFO \<Rightarrow> rank g_logLevel \<le> rank INFO | _ \<Rightarrow> True)"

section \<open>The simple logger\<close>

datatype simple_level = SimpleInfo | SimpleError | SimpleFatal | SimpleDebug

definition simple_log :: "(int \<Rightarrow> tm) \<Rightarrow> timestamp \<Rightarrow> simple_level option \<Rightarrow> bytes \<Rightarrow> bytes" where
  "simple_log localtime now logLevel msg =
     (case logLevel of
        Some SimpleInfo \<Rightarrow> ''[INFO]'' | Some SimpleError \<Rightarrow> ''[ERROR]'' | Some SimpleFatal \<Rightarrow> ''[FATAL]''
      | Some SimpleDebug \<Rightarrow> ''[DEBUG]'' | None \<Rightarrow> [])
     @ ts_toString localtime now @ '' : '' @ msg @ [LF]"

text \<open>The macros: what is printed, and whether the program ends. \<open>LOG_INFO\<close> formats its message and drops it.\<close>

definition simple_macro :: "(int \<Rightarrow> tm) \<Rightarrow> timestamp \<Rightarrow> bool \<Rightarrow> simple_level \<Rightarrow> bytes \<Rightarrow> bytes \<times> bool" where
  "simple_macro localtime now mudebug level formatted =
     (let buf = snprintf 1024 formatted in
      case level of
        SimpleInfo \<Rightarrow> ([], False)
      | SimpleError \<Rightarrow> (simple_log localtime now (Some SimpleError) buf, False)
      | SimpleFatal \<Rightarrow> (simple_log localtime now (Some SimpleFatal) buf, True)
      | SimpleDebug \<Rightarrow> (if mudebug then simple_log localtime now (Some SimpleDebug) buf else [], False))"

end
