(* ===== verification/Log_Props.thy ===== *)
theory Log_Props
  imports Log_Stream
begin

text \<open>
  What a log record looks like on its way out: its text, and the bytes of the buffer behind it.
\<close>

section \<open>Pieces of a record\<close>

text \<open>The stream has the text \<open>t\<close>, then \<open>r\<close>.\<close>

definition holds :: "fixed_buffer \<Rightarrow> bytes \<Rightarrow> bytes \<Rightarrow> bool" where
  "holds b t r \<longleftrightarrow> fb_ok b \<and> fb_text b = t \<and> fb_rest b = r"

lemma holds_new: "holds (fb_new junk) [] junk"
  by (simp add: holds_def fb_new_def fb_ok_def fb_text_def fb_rest_def)

lemma holds_append: "holds b t r \<Longrightarrow> length s < length r \<Longrightarrow> holds (fb_append s b) (t @ s) (drop (length s) r)"
  using fb_append_ok [of b s] by (auto simp: holds_def fb_avail_rest)

lemma holds_char: "holds b t r \<Longrightarrow> 1 < length r \<Longrightarrow> holds (put_char c b) (t @ [c]) (drop (Suc 0) r)"
  using holds_append [of b t r "[c]"] by (simp add: put_char_def)

lemma holds_int:
  "holds b t r \<Longrightarrow> 48 \<le> length r \<Longrightarrow> \<bar>num\<bar> < 10 ^ 20 \<Longrightarrow>
   holds (put_int num b) (t @ show_int num) (NUL # drop (length (show_int num) + 1) r)"
  using formatInteger_ok [of b num] by (auto simp: holds_def fb_avail_rest put_int_def kMaxNumericSize_def)

lemma holds_template: "holds b t r \<Longrightarrow> length (take n s) < length r \<Longrightarrow> holds (put_template s n b) (t @ take n s) (drop (length (take n s)) r)"
  unfolding put_template_def by (rule holds_append)

lemma holds_cstr: "holds b t r \<Longrightarrow> NUL \<notin> set s \<Longrightarrow> length s < length r \<Longrightarrow> holds (put_cstr (Some s) b) (t @ s) (drop (length s) r)"
proof -
  assume h: "holds b t r" "NUL \<notin> set s" "length s < length r"
  have "takeWhile (\<lambda>c. c \<noteq> NUL) s = s" using h(2) by (intro takeWhile_eq_all_conv [THEN iffD2]) auto
  then show ?thesis using holds_append [OF h(1,3)] by (simp only: put_cstr_def c_str_def option.case)
qed

section \<open>The head and the tail\<close>

text \<open>The date, hour and minute; the seconds are cut off.\<close>

definition stamp :: "tm \<Rightarrow> bytes" where
  "stamp t = fmt_d 4 (tm_year t + 1900) @ ''/'' @ fmt_0d 2 (tm_mon t + 1) @ ''/'' @ fmt_0d 2 (tm_mday t)
     @ '' '' @ fmt_0d 2 (tm_hour t) @ '':'' @ fmt_0d 2 (tm_min t) @ '':''"

lemma stamp_cut: "tm_ok t \<Longrightarrow> take 17 (fmt_tm t) = stamp t"
  by (simp add: fmt_tm_def stamp_def tm_ok_def length_fmt_0d length_fmt_d)

lemma length_stamp: "tm_ok t \<Longrightarrow> length (stamp t) = 17"
  by (simp add: stamp_def tm_ok_def length_fmt_0d length_fmt_d)

definition record_head :: "tm \<Rightarrow> int \<Rightarrow> log_level \<Rightarrow> bytes" where
  "record_head t micro level = stamp t @ fmt_0d 6 micro @ '' '' @ getLevelName level"

definition record_tail :: "bytes \<Rightarrow> int \<Rightarrow> bytes" where
  "record_tail src line = '' - '' @ source_file src @ '':'' @ show_int line @ [LF]"

lemma length_level: "length (getLevelName l) = 6"
  by (cases l) simp_all

lemma length_head: "tm_ok t \<Longrightarrow> 0 \<le> micro \<Longrightarrow> micro < 1000000 \<Longrightarrow> length (record_head t micro level) = 30"
  by (simp add: record_head_def length_stamp length_fmt_0d length_level)

lemma holds_cstrs:
  "holds st t r \<Longrightarrow> \<forall>s\<in>set msgs. NUL \<notin> set s \<Longrightarrow> length (concat msgs) < length r \<Longrightarrow>
   holds (fold (\<lambda>s. put_cstr (Some s)) msgs st) (t @ concat msgs) (drop (length (concat msgs)) r)"
proof (induction msgs arbitrary: st t r)
  case (Cons s msgs)
  have "holds (put_cstr (Some s) st) (t @ s) (drop (length s) r)"
    using Cons.prems by (intro holds_cstr) simp_all
  from Cons.IH [OF this] Cons.prems show ?case by (simp add: add.commute)
qed simp

lemma head_ok:
  assumes "tm_ok (localtime (c_div (ts_value t) kMicroSecondsPerSecond))" "0 \<le> ts_value t" "length junk = kSmallBuffer"
  shows "holds (li_stream (impl_new localtime t errnoMsg junk level 0 src line))
      (record_head (localtime (c_div (ts_value t) kMicroSecondsPerSecond)) (c_mod (ts_value t) kMicroSecondsPerSecond) level)
      (drop 30 junk)
    \<and> li_level (impl_new localtime t errnoMsg junk level 0 src line) = level
    \<and> li_line (impl_new localtime t errnoMsg junk level 0 src line) = line
    \<and> li_basename (impl_new localtime t errnoMsg junk level 0 src line) = source_file src"
proof -
  let ?tm = "localtime (c_div (ts_value t) kMicroSecondsPerSecond)" and ?u = "c_mod (ts_value t) kMicroSecondsPerSecond"
  have u: "0 \<le> ?u" "?u < 1000000" using assms(2) by (simp_all add: c_mod_nonneg kMicroSecondsPerSecond_def)
  have t17: "take 17 (snprintf 64 (fmt_tm ?tm)) = stamp ?tm"
    using stamp_cut [OF assms(1)] length_fmt_tm [OF assms(1)] by (simp add: snprintf_def)
  have t7: "take 7 (snprintf 32 (fmt_0d 6 ?u @ '' '')) = fmt_0d 6 ?u @ '' ''"
    using u by (simp add: snprintf_def length_fmt_0d)
  have t6: "take 6 (getLevelName level) = getLevelName level" using length_level [of level] by simp
  have len: "length (stamp ?tm) = 17" "length (fmt_0d 6 ?u) = 6" "length junk = 4000"
    using length_stamp [OF assms(1)] u assms(3) by (simp_all add: length_fmt_0d kSmallBuffer_def)
  have 1: "holds (put_template (snprintf 64 (fmt_tm ?tm)) 17 (fb_new junk)) (stamp ?tm) (drop 17 junk)"
    using holds_template [OF holds_new, of 17 "snprintf 64 (fmt_tm ?tm)" junk] by (simp add: t17 len)
  have 2: "holds (put_template (snprintf 32 (fmt_0d 6 ?u @ '' '')) 7 (put_template (snprintf 64 (fmt_tm ?tm)) 17 (fb_new junk)))
      (stamp ?tm @ fmt_0d 6 ?u @ '' '') (drop 24 junk)"
    using holds_template [OF 1, of 7 "snprintf 32 (fmt_0d 6 ?u @ '' '')"] by (simp add: t7 len)
  have 3: "holds (put_template (getLevelName level) 6 (put_template (snprintf 32 (fmt_0d 6 ?u @ '' '')) 7
      (put_template (snprintf 64 (fmt_tm ?tm)) 17 (fb_new junk)))) (record_head ?tm ?u level) (drop 30 junk)"
    using holds_template [OF 2, of 6 "getLevelName level"] by (simp add: t6 len length_level record_head_def)
  show ?thesis
    using 3 by (simp add: impl_new_def formatTime_def log_stream_update_def Let_def)
qed

lemma finish_ok:
  assumes "holds (li_stream i) t r" "length (source_file src) + 60 \<le> length r" "li_basename i = source_file src"
    "li_line i = line" "\<bar>line\<bar> < 10 ^ 20"
  shows "holds (li_stream (finish i)) (t @ record_tail src line) (drop (length (record_tail src line)) r)"
proof -
  let ?f = "source_file src"
  have 1: "holds (put_cstr (Some '' - '') (li_stream i)) (t @ '' - '') (drop 3 r)"
    using holds_cstr [OF assms(1), of "'' - ''"] assms(2) by (simp add: eval_nat_numeral)
  have 2: "holds (put_template ?f (length ?f) (put_cstr (Some '' - '') (li_stream i))) (t @ '' - '' @ ?f) (drop (3 + length ?f) r)"
    using holds_template [OF 1, of "length ?f" ?f] assms(2) by (simp add: add.commute)
  let ?b3 = "put_char (CHR '':'') (put_template ?f (length ?f) (put_cstr (Some '' - '') (li_stream i)))"
  have 3: "holds ?b3 (t @ '' - '' @ ?f @ '':'') (drop (4 + length ?f) r)"
    using holds_char [OF 2, of "CHR '':''"] assms(2) by simp
  have 4: "holds (put_int line ?b3) (t @ '' - '' @ ?f @ '':'' @ show_int line) (NUL # drop (5 + length ?f + length (show_int line)) r)"
    using holds_int [OF 3, of line] assms(2,5) by (simp add: add_ac)
  have l: "length (show_int line) \<le> 21" by (rule length_show_int [OF assms(5)])
  have "holds (put_char LF (put_int line ?b3)) (t @ record_tail src line) (drop (5 + length ?f + length (show_int line)) r)"
    using holds_char [OF 4, of LF] assms(2) l by (simp add: record_tail_def)
  moreover have "length (record_tail src line) = 5 + length ?f + length (show_int line)" by (simp add: record_tail_def)
  ultimately show ?thesis by (simp add: finish_def log_stream_update_def assms(3,4))
qed

text \<open>
  Property C40. A log record of any number of strings put into the stream: what a logger hands to the output function starts with
  the date, hour and minute, the microseconds, the level, the strings in their order, the base name of the file and the line
  in decimal; the seconds of the time are missing, and because \<open>length()\<close> is the size of the array, the output always has 4000
  bytes, of which those behind the record are whatever the buffer contained before. Conditions: the strings are C strings without a
  NUL and together with the file's name shorter than 3900 bytes (\<open>FixedBuffer::append\<close> drops what no longer fits), the line is less than
  10^20 and the time is not before 1970; the logger is one without an errno, and \<open>localtime\<close> gives fields in their ranges.
\<close>

theorem log_record:
  assumes "tm_ok (localtime (c_div (ts_value t) kMicroSecondsPerSecond))" "0 \<le> ts_value t" "length junk = kSmallBuffer"
    "\<forall>s\<in>set msgs. NUL \<notin> set s" "\<bar>line\<bar> < 10 ^ 20" "length (concat msgs) + length (source_file src) < 3900"
    "i = log_stream_update (fold (\<lambda>s. put_cstr (Some s)) msgs) (logger_level localtime t errnoMsg junk src line level)"
  shows "let text = record_head (localtime (c_div (ts_value t) kMicroSecondsPerSecond)) (c_mod (ts_value t) kMicroSecondsPerSecond) level
                    @ concat msgs @ record_tail src line
    in logger_destroy i = (text @ drop (length text) junk, level = FATAL) \<and> length (fst (logger_destroy i)) = 4000"
proof -
  let ?h = "record_head (localtime (c_div (ts_value t) kMicroSecondsPerSecond)) (c_mod (ts_value t) kMicroSecondsPerSecond) level"
  let ?i0 = "impl_new localtime t errnoMsg junk level 0 src line"
  have j: "length junk = 4000" using assms(3) by (simp add: kSmallBuffer_def)
  note h = head_ok [where localtime = localtime and t = t and errnoMsg = errnoMsg and level = level and src = src and line = line,
      OF assms(1-3)]
  have hl: "length ?h = 30"
    using assms(1,2) by (intro length_head) (simp_all add: c_mod_nonneg kMicroSecondsPerSecond_def)
  let ?msg = "concat msgs"
  have "holds (fold (\<lambda>s. put_cstr (Some s)) msgs (li_stream ?i0)) (?h @ ?msg) (drop (length ?msg) (drop 30 junk))"
    using holds_cstrs [of "li_stream ?i0" ?h "drop 30 junk" msgs] h assms(4,6) j by simp
  then have s: "holds (li_stream i) (?h @ ?msg) (drop (length ?msg + 30) junk)"
    by (simp add: assms(7) logger_level_def log_stream_update_def add.commute)
  have f: "li_basename i = source_file src" "li_line i = line" "li_level i = level"
    using h by (simp_all add: assms(7) logger_level_def log_stream_update_def)
  have "length (source_file src) + 60 \<le> length (drop (length ?msg + 30) junk)" using assms(6) j by simp
  from finish_ok [OF s this f(1,2) assms(5)]
  have "holds (li_stream (finish i)) (?h @ ?msg @ record_tail src line)
      (drop (length (record_tail src line)) (drop (length ?msg + 30) junk))" by simp
  then have d: "fb_data (li_stream (finish i)) = (?h @ ?msg @ record_tail src line)
      @ drop (length (?h @ ?msg @ record_tail src line)) junk"
    using fb_data_eq [of "li_stream (finish i)"] hl by (simp add: holds_def add_ac)
  have "length (show_int line) \<le> 21" by (rule length_show_int [OF assms(5)])
  then have "length (?h @ ?msg @ record_tail src line) \<le> 4000" using hl assms(6) by (simp add: record_tail_def)
  then have "length (fb_data (li_stream (finish i))) = 4000" using d j by simp
  moreover have "logger_destroy i = (fb_data (li_stream (finish i)), level = FATAL)"
    using f(3) by (simp add: logger_destroy_def fb_length_def finish_def log_stream_update_def Let_def)
  ultimately show ?thesis using d by (simp add: Let_def)
qed

definition demo_tm :: tm where
  "demo_tm = \<lparr>tm_year = 122, tm_mon = 9, tm_mday = 26, tm_hour = 10, tm_min = 20, tm_sec = 33\<rparr>"

lemma log_record_witness:
  "let i = log_stream_update (fold (\<lambda>s. put_cstr (Some s)) [''hel'', ''lo''])
             (logger_level (\<lambda>_. demo_tm) (Timestamp 5) (\<lambda>_. []) (replicate 4000 CHR ''x'') ''src/a.cc'' 7 WARN)
   in take 46 (fst (logger_destroy i)) = ''2022/10/26 10:20:000005 WARN  hello - a.cc:7'' @ [LF, CHR ''x'']
      \<and> length (fst (logger_destroy i)) = 4000"
proof -
  define i where "i = log_stream_update (fold (\<lambda>s. put_cstr (Some s)) [''hel'', ''lo''])
      (logger_level (\<lambda>_. demo_tm) (Timestamp 5) (\<lambda>_. []) (replicate 4000 CHR ''x'') ''src/a.cc'' 7 WARN)"
  have v: "ts_value (Timestamp 5) = 5" by (simp add: ts_value_def)
  have u: "c_mod 5 kMicroSecondsPerSecond = 5" by (simp add: c_mod_nonneg kMicroSecondsPerSecond_def)
  have show7: "show_nat 7 = ''7''" by code_simp
  have head: "record_head demo_tm 5 WARN = ''2022/10/26 10:20:000005 WARN  ''" by code_simp
  have tail: "record_tail ''src/a.cc'' 7 = '' - a.cc:7'' @ [LF]"
    by (simp add: record_tail_def source_file_def show_int_def show7)
  have sf: "source_file ''src/a.cc'' = ''a.cc''" by (simp add: source_file_def)
  have tm: "tm_ok demo_tm" by (simp add: tm_ok_def demo_tm_def)
  from log_record [of "\<lambda>_. demo_tm" "Timestamp 5" "replicate 4000 CHR ''x''" "[''hel'', ''lo'']" 7 "''src/a.cc''" i "\<lambda>_. []" WARN] tm
  have "logger_destroy i = ((''2022/10/26 10:20:000005 WARN  '' @ ''hello'' @ '' - a.cc:7'' @ [LF])
      @ drop 45 (replicate 4000 CHR ''x''), False) \<and> length (fst (logger_destroy i)) = 4000"
    unfolding v u head tail sf by (simp add: i_def kSmallBuffer_def Let_def)
  moreover have "drop 45 (replicate 4000 CHR ''x'') = CHR ''x'' # replicate 3954 CHR ''x''"
    by (simp add: replicate_Suc [symmetric] del: replicate_Suc)
  ultimately have "take 46 (fst (logger_destroy i)) = ''2022/10/26 10:20:000005 WARN  hello - a.cc:7'' @ [LF, CHR ''x'']"
    "length (fst (logger_destroy i)) = 4000" by simp_all
  then show ?thesis unfolding i_def [symmetric] Let_def by blast
qed

end
