(* ===== verification/Log_File.thy ===== *)
theory Log_File
  imports Log_Stream
begin

text \<open>
  The files of the log (\<open>src/logger/FileUtil.h\<close>, \<open>FileUtil.cc\<close>, \<open>LogFile.h\<close>, \<open>LogFile.cc\<close>).

  What \<open>fwrite_unlocked\<close> writes of each request is a parameter: for the \<open>k\<close>-th call and the number of bytes offered, the
  number taken. The loop around it may run forever, so it has a number of rounds; None means they ran out. The
  bytes that reached each stream are kept, of the closed files too.
\<close>

section \<open>FileUtil\<close>

record file_util =
  fu_name :: bytes
  fu_bytes :: bytes
  writtenBytes :: nat

definition file_util_new :: "bytes \<Rightarrow> file_util" where
  "file_util_new name = \<lparr>fu_name = name, fu_bytes = [], writtenBytes = 0\<rparr>"

definition fu_write :: "(nat \<Rightarrow> nat \<Rightarrow> nat) \<Rightarrow> nat \<Rightarrow> bytes \<Rightarrow> file_util \<Rightarrow> nat \<times> file_util" where
  "fu_write fw k data f = (let n = fw k (length data) in (n, f\<lparr>fu_bytes := fu_bytes f @ take n data\<rparr>))"

text \<open>The loop: \<open>data\<close> is what is left of the record. The result has the number of the next call.\<close>

fun fu_loop :: "nat \<Rightarrow> (nat \<Rightarrow> nat \<Rightarrow> nat) \<Rightarrow> nat \<Rightarrow> bytes \<Rightarrow> file_util \<Rightarrow> (nat \<times> file_util) option" where
  "fu_loop 0 fw k data f = (if data = [] then Some (k, f) else None)"
| "fu_loop (Suc m) fw k data f =
     (if data = [] then Some (k, f)
      else (let (n, f) = fu_write fw k data f in fu_loop m fw (Suc k) (drop n data) f))"

definition fu_append :: "nat \<Rightarrow> (nat \<Rightarrow> nat \<Rightarrow> nat) \<Rightarrow> nat \<Rightarrow> bytes \<Rightarrow> file_util \<Rightarrow> (nat \<times> file_util) option" where
  "fu_append m fw k data f =
     map_option (\<lambda>(k, f). (k, f\<lparr>writtenBytes := writtenBytes f + length data\<rparr>)) (fu_loop m fw k data f)"

text \<open>
  A call takes no more than it is offered. With some progress in every call, as many rounds as bytes are
  enough; if from some call on nothing is taken, no number of rounds is.
\<close>

definition fw_sane :: "(nat \<Rightarrow> nat \<Rightarrow> nat) \<Rightarrow> bool" where
  "fw_sane fw \<longleftrightarrow> (\<forall>k n. fw k n \<le> n)"

definition fw_progress :: "(nat \<Rightarrow> nat \<Rightarrow> nat) \<Rightarrow> bool" where
  "fw_progress fw \<longleftrightarrow> (\<forall>k n. 0 < n \<longrightarrow> 0 < fw k n)"

lemma fu_loop_done:
  assumes "fw_sane fw" "fw_progress fw" "length data \<le> m"
  shows "\<exists>k'. fu_loop m fw k data f = Some (k', f\<lparr>fu_bytes := fu_bytes f @ data\<rparr>)"
  using assms(3)
proof (induction m arbitrary: k data f)
  case 0
  then show ?case by simp
next
  case (Suc m)
  show ?case
  proof (cases "data = []")
    case True
    then show ?thesis by simp
  next
    case False
    let ?n = "fw k (length data)"
    have n: "0 < ?n" "?n \<le> length data" using assms(1,2) False by (auto simp: fw_sane_def fw_progress_def)
    have "length (drop ?n data) \<le> m" using n Suc.prems by simp
    from Suc.IH [OF this, of "Suc k" "f\<lparr>fu_bytes := fu_bytes f @ take ?n data\<rparr>"]
    show ?thesis using False by (simp add: fu_write_def Let_def)
  qed
qed

lemma fu_loop_stuck:
  assumes "\<forall>j \<ge> k. \<forall>n. fw j n = 0" "data \<noteq> []"
  shows "fu_loop m fw k data f = None"
  using assms
proof (induction m arbitrary: k f)
  case (Suc m)
  from Suc.IH [of "Suc k"] Suc.prems show ?case by (simp add: fu_write_def Let_def)
qed simp

section \<open>LogFile\<close>

definition kRollPerSeconds :: int where "kRollPerSeconds = 60 * 60 * 24"

record log_file =
  lf_basename :: bytes
  rollSize :: int
  flushInterval :: int
  checkEveryN :: int
  lf_count :: int
  startOfPeriod :: int
  lastRoll :: int
  lastFlush :: int
  lf_file :: "file_util option"
  lf_closed :: "file_util list"
  lf_flushes :: nat

text \<open>The name of a file: \<open>localtime\<close> gives the broken-down time.\<close>

definition getLogFileName :: "(int \<Rightarrow> tm) \<Rightarrow> bytes \<Rightarrow> int \<Rightarrow> bytes" where
  "getLogFileName localtime base now =
     (let t = localtime now
      in base @ ''.'' @ show_int (tm_year t + 1900) @ fmt_0d 2 (tm_mon t + 1) @ fmt_0d 2 (tm_mday t) @ ''-''
         @ fmt_0d 2 (tm_hour t) @ fmt_0d 2 (tm_min t) @ fmt_0d 2 (tm_sec t) @ ''.log'')"

definition period_of :: "int \<Rightarrow> int" where
  "period_of now = c_div now kRollPerSeconds * kRollPerSeconds"

definition rollFile :: "(int \<Rightarrow> tm) \<Rightarrow> int \<Rightarrow> log_file \<Rightarrow> bool \<times> log_file" where
  "rollFile localtime now l =
     (let filename = getLogFileName localtime (lf_basename l) now;
          start = period_of now
      in if lastRoll l < now
         then (True, l\<lparr>lastRoll := now, lastFlush := now, startOfPeriod := start, lf_file := Some (file_util_new filename),
                  lf_closed := lf_closed l @ (case lf_file l of None \<Rightarrow> [] | Some f \<Rightarrow> [f])\<rparr>)
         else (False, l))"

definition log_file_new :: "(int \<Rightarrow> tm) \<Rightarrow> int \<Rightarrow> bytes \<Rightarrow> int \<Rightarrow> int \<Rightarrow> int \<Rightarrow> log_file" where
  "log_file_new localtime now base roll flushInt every =
     snd (rollFile localtime now \<lparr>lf_basename = base, rollSize = roll, flushInterval = flushInt, checkEveryN = every,
       lf_count = 0, startOfPeriod = 0, lastRoll = 0, lastFlush = 0, lf_file = None, lf_closed = [], lf_flushes = 0\<rparr>)"

definition lf_flush :: "log_file \<Rightarrow> log_file" where
  "lf_flush l = l\<lparr>lf_flushes := lf_flushes l + 1\<rparr>"

text \<open>\<open>now\<close> is what the clock shows if it is asked. Without a file the source dereferences a null pointer: None.\<close>

definition appendInLock :: "nat \<Rightarrow> (nat \<Rightarrow> nat \<Rightarrow> nat) \<Rightarrow> nat \<Rightarrow> (int \<Rightarrow> tm) \<Rightarrow> int \<Rightarrow> bytes \<Rightarrow> log_file \<Rightarrow> (nat \<times> log_file) option" where
  "appendInLock m fw k localtime now data l =
     (case lf_file l of
        None \<Rightarrow> None
      | Some f \<Rightarrow>
     (case fu_append m fw k data f of
        None \<Rightarrow> None
      | Some (k, f) \<Rightarrow>
          (let l = l\<lparr>lf_file := Some f\<rparr> in
           if rollSize l < int (writtenBytes f) then Some (k, snd (rollFile localtime now l))
           else
             let l = l\<lparr>lf_count := lf_count l + 1\<rparr> in
             if checkEveryN l \<le> lf_count l
             then
               (let l = l\<lparr>lf_count := 0\<rparr> in
                if period_of now \<noteq> startOfPeriod l then Some (k, snd (rollFile localtime now l))
                else if flushInterval l < now - lastFlush l then Some (k, lf_flush (l\<lparr>lastFlush := now\<rparr>))
                else Some (k, l))
             else Some (k, l))))"

definition lf_append :: "nat \<Rightarrow> (nat \<Rightarrow> nat \<Rightarrow> nat) \<Rightarrow> nat \<Rightarrow> (int \<Rightarrow> tm) \<Rightarrow> int \<Rightarrow> bytes \<Rightarrow> log_file \<Rightarrow> (nat \<times> log_file) option" where
  "lf_append m fw k localtime now data l = appendInLock m fw k localtime now data l"

section \<open>What the files hold\<close>

definition lf_files :: "log_file \<Rightarrow> file_util list" where
  "lf_files l = lf_closed l @ (case lf_file l of None \<Rightarrow> [] | Some f \<Rightarrow> [f])"

text \<open>A sequence of records, each with the clock reading at its end.\<close>

fun lf_run :: "nat \<Rightarrow> (nat \<Rightarrow> nat \<Rightarrow> nat) \<Rightarrow> nat \<Rightarrow> (int \<Rightarrow> tm) \<Rightarrow> (int \<times> bytes) list \<Rightarrow> log_file \<Rightarrow> (nat \<times> log_file) option" where
  "lf_run m fw k localtime [] l = Some (k, l)"
| "lf_run m fw k localtime ((now, data) # rs) l =
     (case lf_append m fw k localtime now data l of
        None \<Rightarrow> None
      | Some (k, l) \<Rightarrow> lf_run m fw k localtime rs l)"

text \<open>The records are split into consecutive groups, one for each file.\<close>

definition lf_holds :: "bytes list list \<Rightarrow> log_file \<Rightarrow> bool" where
  "lf_holds groups l \<longleftrightarrow> lf_file l \<noteq> None \<and> map fu_bytes (lf_files l) = map concat groups
     \<and> map writtenBytes (lf_files l) = map (length \<circ> concat) groups"

lemma rollFile_holds:
  assumes "lf_holds groups l"
  shows "\<exists>new. lf_holds (groups @ new) (snd (rollFile localtime now l)) \<and> concat new = []
    \<and> rollSize (snd (rollFile localtime now l)) = rollSize l"
proof (cases "lastRoll l < now")
  case True
  then have "lf_holds (groups @ [[]]) (snd (rollFile localtime now l))"
    using assms by (auto simp: lf_holds_def rollFile_def lf_files_def file_util_new_def Let_def)
  then show ?thesis using True by (intro exI [of _ "[[]]"]) (simp add: rollFile_def Let_def)
next
  case False
  then show ?thesis using assms by (intro exI [of _ "[]"]) (simp add: rollFile_def Let_def)
qed

lemma lf_append_holds:
  assumes "lf_holds (groups @ [g]) l" "fw_sane fw" "fw_progress fw" "length data \<le> m"
  shows "\<exists>k' l' new. lf_append m fw k localtime now data l = Some (k', l') \<and> lf_holds ((groups @ [g @ [data]]) @ new) l'
    \<and> concat new = []"
proof -
  obtain f where f: "lf_file l = Some f" using assms(1) by (auto simp: lf_holds_def)
  obtain k' where k': "fu_append m fw k data f = Some (k', f\<lparr>fu_bytes := fu_bytes f @ data, writtenBytes := writtenBytes f + length data\<rparr>)"
    using fu_loop_done [OF assms(2-4), of k f] by (auto simp: fu_append_def)
  let ?l = "l\<lparr>lf_file := Some (f\<lparr>fu_bytes := fu_bytes f @ data, writtenBytes := writtenBytes f + length data\<rparr>)\<rparr>"
  have h: "lf_holds (groups @ [g @ [data]]) ?l" using assms(1) f by (auto simp: lf_holds_def lf_files_def)
  have h': "lf_holds (groups @ [g @ [data]]) (?l\<lparr>lf_count := c\<rparr>)" for c using h by (simp add: lf_holds_def lf_files_def)
  have h'': "lf_holds (groups @ [g @ [data]]) (lf_flush (?l\<lparr>lf_count := c, lastFlush := now\<rparr>))" for c
    using h by (simp add: lf_holds_def lf_files_def lf_flush_def)
  have same: "\<exists>new. lf_holds ((groups @ [g @ [data]]) @ new) x \<and> concat new = []" if "lf_holds (groups @ [g @ [data]]) x" for x
    using that by (intro exI [of _ "[]"]) simp
  have roll: "\<exists>new. lf_holds ((groups @ [g @ [data]]) @ new) (snd (rollFile localtime now x)) \<and> concat new = []"
    if "lf_holds (groups @ [g @ [data]]) x" for x
    using rollFile_holds [OF that, of localtime now] by blast
  define l' where "l' = (if rollSize l < int (writtenBytes f + length data) then snd (rollFile localtime now ?l)
      else if \<not> checkEveryN l \<le> lf_count l + 1 then ?l\<lparr>lf_count := lf_count l + 1\<rparr>
      else if period_of now \<noteq> startOfPeriod l then snd (rollFile localtime now (?l\<lparr>lf_count := 0\<rparr>))
      else if flushInterval l < now - lastFlush l then lf_flush (?l\<lparr>lf_count := 0, lastFlush := now\<rparr>)
      else ?l\<lparr>lf_count := 0\<rparr>)"
  have e: "lf_append m fw k localtime now data l = Some (k', l')"
    by (simp add: l'_def lf_append_def appendInLock_def f k' Let_def)
  have "\<exists>new. lf_holds ((groups @ [g @ [data]]) @ new) l' \<and> concat new = []"
    unfolding l'_def using same [OF h'] same [OF h''] roll [OF h] roll [OF h'] by (simp split: if_splits)
  then show ?thesis using e by blast
qed

lemma lf_run_holds:
  assumes "fw_sane fw" "fw_progress fw"
  shows "lf_holds (groups @ [g]) l \<Longrightarrow> \<forall>(now, data)\<in>set rs. length data \<le> m \<Longrightarrow>
   \<exists>k' l' gs. lf_run m fw k localtime rs l = Some (k', l') \<and> lf_holds gs l' \<and> concat gs = concat groups @ g @ map snd rs"
proof (induction rs arbitrary: k l groups g)
  case Nil
  then show ?case by (intro exI [of _ k] exI [of _ l] exI [of _ "groups @ [g]"]) simp
next
  case (Cons r rs)
  obtain now data where r: "r = (now, data)" by (cases r)
  obtain k1 l1 new where a: "lf_append m fw k localtime now data l = Some (k1, l1)"
    "lf_holds ((groups @ [g @ [data]]) @ new) l1" "concat new = []"
    using lf_append_holds [OF Cons.prems(1) assms, of data m k localtime now] Cons.prems(2) r by auto
  obtain groups' g' where g': "(groups @ [g @ [data]]) @ new = groups' @ [g']" by (metis append_is_Nil_conv not_Cons_self2 rev_exhaust)
  have "concat ((groups @ [g @ [data]]) @ new) = concat groups @ g @ [data]" using a(3) by simp
  then have cc: "concat groups' @ g' = concat groups @ g @ [data]" unfolding g' by simp
  from Cons.IH [OF a(2) [unfolded g'], of k1] Cons.prems(2) obtain k2 l2 gs
    where "lf_run m fw k1 localtime rs l1 = Some (k2, l2)" "lf_holds gs l2" "concat gs = concat groups' @ g' @ map snd rs" by auto
  moreover have "concat groups' @ g' @ map snd rs = concat groups @ g @ map snd (r # rs)"
    using cc by (metis append_assoc append_Cons append_Nil list.simps(9) r snd_conv)
  ultimately show ?case using a(1) r by auto
qed

text \<open>
  Property C34. The files of the log: as long as every write takes something, appending any records ends, with at most as many
  writes per record as it has bytes; the files in the order of their creation hold the records in their order, none lost or
  doubled, each in one file only, and the size a file is rolled by is what it holds.
\<close>

theorem log_files_keep:
  assumes "0 < start" "fw_sane fw" "fw_progress fw" "\<forall>(now, data)\<in>set rs. length data \<le> m"
  shows "\<exists>k' l groups. lf_run m fw k localtime rs (log_file_new localtime start base roll flushInt every) = Some (k', l)
    \<and> map fu_bytes (lf_files l) = map concat groups \<and> concat groups = map snd rs
    \<and> map writtenBytes (lf_files l) = map (length \<circ> fu_bytes) (lf_files l)"
proof -
  have "lf_holds ([] @ [[]]) (log_file_new localtime start base roll flushInt every)"
    using assms(1) by (simp add: log_file_new_def rollFile_def lf_holds_def lf_files_def file_util_new_def Let_def)
  from lf_run_holds [OF assms(2,3) this assms(4), of k localtime]
  obtain k' l gs where r: "lf_run m fw k localtime rs (log_file_new localtime start base roll flushInt every) = Some (k', l)"
    "lf_holds gs l" "concat gs = map snd rs" by auto
  have "map writtenBytes (lf_files l) = map length (map fu_bytes (lf_files l))"
    using r(2) by (simp add: lf_holds_def)
  then show ?thesis using r by (auto simp: lf_holds_def)
qed

definition some_time :: "int \<Rightarrow> tm" where
  "some_time _ = \<lparr>tm_year = 122, tm_mon = 9, tm_mday = 26, tm_hour = 10, tm_min = 20, tm_sec = 33\<rparr>"

lemma log_files_keep_witness:
  "\<exists>k' l groups. lf_run 3 (\<lambda>_ n. min 2 n) 0 some_time [(5, ''abc''), (6, ''de'')] (log_file_new some_time 4 ''x'' 2 3 1024) = Some (k', l)
     \<and> map fu_bytes (lf_files l) = map concat groups \<and> concat groups = [''abc'', ''de'']"
proof -
  have p: "fw_sane (\<lambda>_ n. min 2 n)" "fw_progress (\<lambda>_ n. min 2 n)" "(0 :: int) < 4"
    "\<forall>(now :: int, data)\<in>set [(5, ''abc''), (6, ''de'')]. length data \<le> 3"
    by (auto simp: fw_sane_def fw_progress_def)
  obtain k' l groups where
    "lf_run 3 (\<lambda>_ n. min 2 n) 0 some_time [(5, ''abc''), (6, ''de'')] (log_file_new some_time 4 ''x'' 2 3 1024) = Some (k', l)"
    "map fu_bytes (lf_files l) = map concat groups" "concat groups = map snd [(5 :: int, ''abc''), (6, ''de'')]"
    using log_files_keep [OF p(3,1,2,4), of 0 some_time "''x''" 2 3 1024] by blast
  then show ?thesis by (intro exI conjI) simp_all
qed

text \<open>
  A full disk: if from some call on nothing is written, the loop of \<open>append\<close> never ends, whatever the number of rounds.
\<close>

lemma append_spins:
  assumes "\<forall>j \<ge> k. \<forall>n. fw j n = 0" "data \<noteq> []"
  shows "fu_append m fw k data f = None"
  using fu_loop_stuck [OF assms] by (simp add: fu_append_def)

end
