(* ===== verification/Async_Logging.thy ===== *)
theory Async_Logging
  imports Log_File
begin

text \<open>
  Asynchronous logging (\<open>src/logger/AsyncLogging.h\<close>, \<open>AsyncLogging.cc\<close>): the front end fills buffers under a lock, a thread
  swaps them out and writes them.

  A \<open>unique_ptr\<close> is an option; using an empty one is None for the whole operation. The steps of the thread are the test of
  \<open>running_\<close>, the critical section, and the writing with the return of the buffers; each of them and each \<open>append\<close> is
  atomic, and the thread may be woken at any time. What is handed to the file is the list of the buffers at that moment.
\<close>

section \<open>State\<close>

datatype phase = AtHead | AtLock | AtWrite | Ended

record async =
  currentBuffer :: "fixed_buffer option"
  nextBuffer :: "fixed_buffer option"
  buffers_full :: "fixed_buffer option list"
  as_running :: bool
  newBuffer1 :: "fixed_buffer option"
  newBuffer2 :: "fixed_buffer option"
  buffersToWrite :: "fixed_buffer option list"
  as_phase :: phase
  as_written :: "fixed_buffer list"
  as_flushes :: nat

definition fresh_buffer :: "nat \<Rightarrow> fixed_buffer" where
  "fresh_buffer sz = fb_bzero (fb_new (replicate sz NUL))"

text \<open>The object after \<open>start\<close>, with the thread before its loop; \<open>sz\<close> is that of a buffer, \<open>kLargeBuffer\<close> in the source.\<close>

definition async_new :: "nat \<Rightarrow> async" where
  "async_new sz = \<lparr>currentBuffer = Some (fresh_buffer sz), nextBuffer = Some (fresh_buffer sz), buffers_full = [],
     as_running = True, newBuffer1 = Some (fresh_buffer sz), newBuffer2 = Some (fresh_buffer sz), buffersToWrite = [],
     as_phase = AtHead, as_written = [], as_flushes = 0\<rparr>"

section \<open>Operations\<close>

text \<open>\<open>junk\<close> is what a new buffer contains.\<close>

definition async_append :: "bytes \<Rightarrow> bytes \<Rightarrow> async \<Rightarrow> async option" where
  "async_append logline junk s =
     (case currentBuffer s of
        None \<Rightarrow> None
      | Some b \<Rightarrow>
          if length logline < fb_avail b then Some (s\<lparr>currentBuffer := Some (fb_append logline b)\<rparr>)
          else
            let s = s\<lparr>buffers_full := buffers_full s @ [Some b]\<rparr>;
                (b, s) = (case nextBuffer s of Some n \<Rightarrow> (n, s\<lparr>nextBuffer := None\<rparr>) | None \<Rightarrow> (fb_new junk, s))
            in Some (s\<lparr>currentBuffer := Some (fb_append logline b)\<rparr>))"

definition async_stop :: "async \<Rightarrow> async" where
  "async_stop s = s\<lparr>as_running := False\<rparr>"

definition async_check :: "async \<Rightarrow> async" where
  "async_check s = (if as_running s then s\<lparr>as_phase := AtLock\<rparr> else s\<lparr>as_phase := Ended, as_flushes := as_flushes s + 1\<rparr>)"

definition async_swap :: "async \<Rightarrow> async" where
  "async_swap s =
     (let s = s\<lparr>buffers_full := buffers_full s @ [currentBuffer s]\<rparr>;
          s = s\<lparr>currentBuffer := newBuffer1 s, newBuffer1 := None\<rparr>;
          s = s\<lparr>buffersToWrite := buffers_full s, buffers_full := buffersToWrite s\<rparr>;
          s = (if nextBuffer s = None then s\<lparr>nextBuffer := newBuffer2 s, newBuffer2 := None\<rparr> else s)
      in s\<lparr>as_phase := AtWrite\<rparr>)"

text \<open>Taking the last buffer back: from an empty vector it is undefined, from an empty pointer a fault.\<close>

definition take_back :: "fixed_buffer option \<Rightarrow> fixed_buffer option list \<Rightarrow> (fixed_buffer option \<times> fixed_buffer option list) option" where
  "take_back b ws =
     (if b \<noteq> None then Some (b, ws)
      else if ws = [] then None
      else case last ws of None \<Rightarrow> None | Some v \<Rightarrow> Some (Some (fb_reset v), butlast ws))"

definition async_write :: "async \<Rightarrow> async option" where
  "async_write s =
     (if None \<in> set (buffersToWrite s) then None
      else
        let ws = buffersToWrite s;
            s = s\<lparr>as_written := as_written s @ map the ws\<rparr>;
            ws = (if 2 < length ws then take 2 ws else ws)
        in case take_back (newBuffer1 s) ws of
             None \<Rightarrow> None
           | Some (b1, ws) \<Rightarrow>
               (case take_back (newBuffer2 s) ws of
                  None \<Rightarrow> None
                | Some (b2, ws) \<Rightarrow>
                    Some (s\<lparr>newBuffer1 := b1, newBuffer2 := b2, buffersToWrite := [], as_flushes := as_flushes s + 1,
                            as_phase := AtHead\<rparr>)))"

section \<open>Interleavings\<close>

datatype async_event = Append bytes bytes | Check | Swap | WriteOut | Stop

text \<open>An event of the thread that is not its turn does nothing.\<close>

fun async_step :: "async_event \<Rightarrow> async \<Rightarrow> async option" where
  "async_step (Append m junk) s = async_append m junk s"
| "async_step Check s = Some (if as_phase s = AtHead then async_check s else s)"
| "async_step Swap s = Some (if as_phase s = AtLock then async_swap s else s)"
| "async_step WriteOut s = (if as_phase s = AtWrite then async_write s else Some s)"
| "async_step Stop s = Some (async_stop s)"

fun async_run :: "async_event list \<Rightarrow> async \<Rightarrow> async option" where
  "async_run [] s = Some s"
| "async_run (e # es) s = (case async_step e s of None \<Rightarrow> None | Some s \<Rightarrow> async_run es s)"

fun appended :: "async_event list \<Rightarrow> bytes list" where
  "appended [] = []"
| "appended (Append m junk # es) = m # appended es"
| "appended (_ # es) = appended es"

definition allocations_ok :: "nat \<Rightarrow> async_event list \<Rightarrow> bool" where
  "allocations_ok sz es \<longleftrightarrow> (\<forall>m junk. Append m junk \<in> set es \<longrightarrow> length junk = sz)"

section \<open>No buffer is missing, and no message\<close>

definition sized :: "nat \<Rightarrow> fixed_buffer option \<Rightarrow> bool" where
  "sized sz b \<longleftrightarrow> (\<exists>v. b = Some v \<and> fb_ok v \<and> length (fb_data v) = sz)"

definition async_ok :: "nat \<Rightarrow> async \<Rightarrow> bool" where
  "async_ok sz s \<longleftrightarrow>
     sized sz (currentBuffer s) \<and> (\<forall>b\<in>set (buffers_full s @ buffersToWrite s). sized sz b)
     \<and> (\<forall>b \<in> {nextBuffer s, newBuffer1 s, newBuffer2 s}. b \<noteq> None \<longrightarrow> sized sz b \<and> fb_text (the b) = [])
     \<and> (nextBuffer s = None \<longrightarrow> buffers_full s \<noteq> [])
     \<and> (if as_phase s = AtWrite
        then buffersToWrite s \<noteq> [] \<and> (newBuffer2 s = None \<longrightarrow> 2 \<le> length (buffersToWrite s))
        else newBuffer1 s \<noteq> None \<and> newBuffer2 s \<noteq> None \<and> buffersToWrite s = [])"

definition texts :: "fixed_buffer option list \<Rightarrow> bytes" where
  "texts bs = concat (map (\<lambda>b. case b of None \<Rightarrow> [] | Some v \<Rightarrow> fb_text v) bs)"

text \<open>What was written, in the order of the file, and then what is still in memory.\<close>

definition log_text :: "async \<Rightarrow> bytes" where
  "log_text s = texts (map Some (as_written s) @ buffersToWrite s @ buffers_full s @ [currentBuffer s])"

lemma texts_simps [simp]: "texts [] = []" "texts (b # bs) = (case b of None \<Rightarrow> [] | Some v \<Rightarrow> fb_text v) @ texts bs"
  "texts (bs @ cs) = texts bs @ texts cs"
  by (simp_all add: texts_def)

lemma sized_append:
  assumes "fb_ok v" "length (fb_data v) = sz"
  shows "sized sz (Some (fb_append m v))"
  using fb_append_ok [OF assms(1), of m] assms(2) by (simp add: sized_def fb_length_def)

lemma empty_avail: "fb_ok v \<Longrightarrow> fb_text v = [] \<Longrightarrow> fb_avail v = length (fb_data v)"
  using fb_data_eq [of v] by (simp add: fb_avail_rest)

lemma async_ok_current:
  assumes "async_ok sz s" "sized sz b"
  shows "async_ok sz (s\<lparr>currentBuffer := b\<rparr>)"
proof -
  let ?s = "s\<lparr>currentBuffer := b\<rparr>"
  have e: "currentBuffer ?s = b" "buffers_full ?s = buffers_full s" "buffersToWrite ?s = buffersToWrite s" "nextBuffer ?s = nextBuffer s"
    "newBuffer1 ?s = newBuffer1 s" "newBuffer2 ?s = newBuffer2 s" "as_phase ?s = as_phase s" by simp_all
  show ?thesis using assms unfolding async_ok_def e by blast
qed

lemma async_ok_switch:
  assumes "async_ok sz s" "sized sz b" "sized sz c"
  shows "async_ok sz (s\<lparr>buffers_full := buffers_full s @ [b], nextBuffer := None, currentBuffer := c\<rparr>)"
proof -
  let ?s = "s\<lparr>buffers_full := buffers_full s @ [b], nextBuffer := None, currentBuffer := c\<rparr>"
  have e: "currentBuffer ?s = c" "buffers_full ?s = buffers_full s @ [b]" "buffersToWrite ?s = buffersToWrite s" "nextBuffer ?s = None"
    "newBuffer1 ?s = newBuffer1 s" "newBuffer2 ?s = newBuffer2 s" "as_phase ?s = as_phase s" by simp_all
  note ok = assms(1) [unfolded async_ok_def]
  show ?thesis unfolding async_ok_def e
  proof (intro conjI)
    show "\<forall>x\<in>set ((buffers_full s @ [b]) @ buffersToWrite s). sized sz x" using ok [THEN conjunct2, THEN conjunct1] assms(2) by auto
    show "\<forall>x\<in>{None, newBuffer1 s, newBuffer2 s}. x \<noteq> None \<longrightarrow> sized sz x \<and> fb_text (the x) = []"
      using ok [THEN conjunct2, THEN conjunct2, THEN conjunct1] by simp
    show "if as_phase s = AtWrite then buffersToWrite s \<noteq> [] \<and> (newBuffer2 s = None \<longrightarrow> 2 \<le> length (buffersToWrite s))
      else newBuffer1 s \<noteq> None \<and> newBuffer2 s \<noteq> None \<and> buffersToWrite s = []"
      using ok by (elim conjE)
  qed (use assms(3) in simp_all)
qed

lemma async_append_ok:
  assumes "async_ok sz s" "length junk = sz"
  shows "\<exists>s'. async_append m junk s = Some s' \<and> async_ok sz s' \<and> log_text s' = log_text s @ (if length m < sz then m else [])"
proof -
  obtain v where v: "currentBuffer s = Some v" "fb_ok v" "length (fb_data v) = sz"
    using assms(1) by (auto simp: async_ok_def sized_def)
  show ?thesis
  proof (cases "length m < fb_avail v")
    case True
    have "fb_avail v \<le> sz" using v(3) by (simp add: fb_avail_def)
    with True have "length m < sz" by simp
    moreover have "fb_text (fb_append m v) = fb_text v @ m" using fb_append_ok [OF v(2), of m] True by simp
    moreover have "async_append m junk s = Some (s\<lparr>currentBuffer := Some (fb_append m v)\<rparr>)"
      using v(1) True by (simp add: async_append_def)
    moreover have "async_ok sz (s\<lparr>currentBuffer := Some (fb_append m v)\<rparr>)"
      using async_ok_current [OF assms(1)] sized_append [OF v(2,3), of m] by blast
    ultimately show ?thesis using v(1) by (simp add: log_text_def)
  next
    case False
    define n where "n = (case nextBuffer s of Some n \<Rightarrow> n | None \<Rightarrow> fb_new junk)"
    have n: "fb_ok n" "length (fb_data n) = sz" "fb_text n = []"
      using assms by (auto simp: n_def async_ok_def sized_def fb_new_def fb_ok_def fb_text_def split: option.splits)
    have tn: "fb_text (fb_append m n) = (if length m < sz then m else [])"
      using fb_append_ok [OF n(1), of m] empty_avail [OF n(1,3)] n(2,3) by simp
    have "async_append m junk s = Some (s\<lparr>buffers_full := buffers_full s @ [Some v], nextBuffer := None, currentBuffer := Some (fb_append m n)\<rparr>)"
      using v(1) False by (cases "nextBuffer s") (auto simp: async_append_def n_def Let_def)
    moreover have "sized sz (currentBuffer s)" using assms(1) by (simp add: async_ok_def)
    then have "async_ok sz (s\<lparr>buffers_full := buffers_full s @ [Some v], nextBuffer := None, currentBuffer := Some (fb_append m n)\<rparr>)"
      using async_ok_switch [OF assms(1) _ sized_append [OF n(1,2), of m]] v(1) by simp
    ultimately show ?thesis using v(1) tn by (simp add: log_text_def)
  qed
qed

lemma async_swap_ok:
  assumes "async_ok sz s" "as_phase s = AtLock"
  shows "async_ok sz (async_swap s) \<and> log_text (async_swap s) = log_text s"
proof -
  obtain v a b where v: "currentBuffer s = Some v" "newBuffer1 s = Some a" "newBuffer2 s = Some b" "buffersToWrite s = []"
    using assms by (auto simp: async_ok_def sized_def)
  have "fb_text a = []" using assms(1) v by (auto simp: async_ok_def)
  then show ?thesis
    using assms v by (cases "nextBuffer s") (auto simp: async_swap_def async_ok_def log_text_def Suc_le_eq Let_def)
qed

lemma reset_sized: "sized sz (Some v) \<Longrightarrow> sized sz (Some (fb_reset v)) \<and> fb_text (fb_reset v) = []"
  by (auto simp: sized_def fb_reset_def fb_ok_def fb_text_def)

lemma take_back_ok:
  assumes "b \<noteq> None \<longrightarrow> sized sz b \<and> fb_text (the b) = []" "\<forall>w\<in>set ws. sized sz w" "b = None \<longrightarrow> ws \<noteq> []"
  shows "\<exists>v ws'. take_back b ws = Some (Some v, ws') \<and> sized sz (Some v) \<and> fb_text v = [] \<and> set ws' \<subseteq> set ws
    \<and> length ws - 1 \<le> length ws'"
proof (cases b)
  case (Some v)
  then show ?thesis using assms(1) by (intro exI [of _ v] exI [of _ ws]) (simp add: take_back_def)
next
  case None
  with assms(3) have ne: "ws \<noteq> []" by simp
  have "sized sz (last ws)" using assms(2) last_in_set [OF ne] by blast
  then obtain w where w: "last ws = Some w" "sized sz (Some w)" by (auto simp: sized_def)
  then show ?thesis
    using reset_sized [OF w(2)] ne None
    by (intro exI [of _ "fb_reset w"] exI [of _ "butlast ws"]) (auto simp: take_back_def dest: in_set_butlastD)
qed

lemma async_write_ok:
  assumes "async_ok sz s" "as_phase s = AtWrite"
  shows "\<exists>s'. async_write s = Some s' \<and> async_ok sz s' \<and> log_text s' = log_text s"
proof -
  let ?ws = "if 2 < length (buffersToWrite s) then take 2 (buffersToWrite s) else buffersToWrite s"
  have all: "\<forall>w\<in>set (buffersToWrite s). sized sz w" "buffersToWrite s \<noteq> []" "newBuffer2 s = None \<longrightarrow> 2 \<le> length (buffersToWrite s)"
    "newBuffer1 s \<noteq> None \<longrightarrow> sized sz (newBuffer1 s) \<and> fb_text (the (newBuffer1 s)) = []"
    "newBuffer2 s \<noteq> None \<longrightarrow> sized sz (newBuffer2 s) \<and> fb_text (the (newBuffer2 s)) = []"
    using assms by (auto simp: async_ok_def)
  have ws: "\<forall>w\<in>set ?ws. sized sz w" "?ws \<noteq> []" "newBuffer2 s = None \<longrightarrow> 2 \<le> length ?ws"
    using all by (auto dest: in_set_takeD)
  have some: "None \<notin> set (buffersToWrite s)" using all(1) by (auto simp: sized_def)
  obtain b1 ws1 where 1: "take_back (newBuffer1 s) ?ws = Some (Some b1, ws1)" "sized sz (Some b1)" "fb_text b1 = []"
    "set ws1 \<subseteq> set ?ws" "length ?ws - 1 \<le> length ws1"
    using take_back_ok [OF all(4) ws(1)] ws(2) by blast
  have ne: "newBuffer2 s = None \<longrightarrow> ws1 \<noteq> []" using 1(5) ws(3) by auto
  have "\<forall>w\<in>set ws1. sized sz w" using 1(4) ws(1) by blast
  from take_back_ok [OF all(5) this ne]
  obtain b2 ws2 where 2: "take_back (newBuffer2 s) ws1 = Some (Some b2, ws2)" "sized sz (Some b2)" "fb_text b2 = []" by blast
  let ?s = "s\<lparr>as_written := as_written s @ map the (buffersToWrite s), newBuffer1 := Some b1, newBuffer2 := Some b2,
      buffersToWrite := [], as_flushes := as_flushes s + 1, as_phase := AtHead\<rparr>"
  have "async_write s = Some ?s" using some 1(1) 2(1) by (simp add: async_write_def Let_def)
  moreover have "async_ok sz ?s" using assms 1(2,3) 2(2,3) by (auto simp: async_ok_def)
  moreover have "map Some (map the (buffersToWrite s)) = buffersToWrite s"
    using some by (auto simp: o_def intro!: map_idI) (metis option.exhaust_sel)
  ultimately show ?thesis by (simp add: log_text_def)
qed

lemma async_run_ok:
  "async_ok sz s \<Longrightarrow> allocations_ok sz es \<Longrightarrow>
   \<exists>s'. async_run es s = Some s' \<and> async_ok sz s' \<and> log_text s' = log_text s @ concat (filter (\<lambda>m. length m < sz) (appended es))"
proof (induction es arbitrary: s)
  case (Cons e es)
  have es: "allocations_ok sz es" using Cons.prems(2) by (auto simp: allocations_ok_def)
  have "\<exists>s'. async_step e s = Some s' \<and> async_ok sz s' \<and>
      log_text s' = log_text s @ concat (filter (\<lambda>m. length m < sz) (appended [e]))"
  proof (cases e)
    case (Append m junk)
    then have "length junk = sz" using Cons.prems(2) by (auto simp: allocations_ok_def)
    from async_append_ok [OF Cons.prems(1) this, of m] Append show ?thesis by auto
  next
    case Check
    then show ?thesis using Cons.prems(1) by (simp add: async_check_def async_ok_def log_text_def)
  next
    case Swap
    then show ?thesis using Cons.prems(1) async_swap_ok [of sz s] by simp
  next
    case WriteOut
    then show ?thesis using Cons.prems(1) async_write_ok [of sz s] by auto
  next
    case Stop
    then show ?thesis using Cons.prems(1) by (simp add: async_stop_def async_ok_def log_text_def)
  qed
  then obtain s1 where s1: "async_step e s = Some s1" "async_ok sz s1"
    "log_text s1 = log_text s @ concat (filter (\<lambda>m. length m < sz) (appended [e]))" by blast
  have "appended (e # es) = appended [e] @ appended es" by (cases e) simp_all
  with Cons.IH [OF s1(2) es] s1 show ?case by auto
qed simp

lemma async_new_ok: "async_ok sz (async_new sz) \<and> log_text (async_new sz) = []"
  by (simp add: async_new_def fresh_buffer_def fb_new_def fb_bzero_def async_ok_def sized_def fb_ok_def fb_text_def log_text_def)

text \<open>
  Property C33. Asynchronous logging keeps its messages and its buffers: in every interleaving of appends, iterations of the
  thread and a stop, no empty pointer and no empty vector is ever used, and the used parts of the buffers written so far,
  followed by those still in memory, are the messages in their order, without the ones that are too long for a buffer.
\<close>

theorem async_order:
  assumes "allocations_ok sz es"
  shows "\<exists>s. async_run es (async_new sz) = Some s \<and> log_text s = concat (filter (\<lambda>m. length m < sz) (appended es))
    \<and> (as_phase s \<noteq> AtWrite \<longrightarrow> concat (map fb_text (as_written s)) @ texts (buffers_full s @ [currentBuffer s]) = log_text s)"
proof -
  obtain s where s: "async_run es (async_new sz) = Some s" "async_ok sz s"
    "log_text s = concat (filter (\<lambda>m. length m < sz) (appended es))"
    using async_run_ok [OF _ assms, of "async_new sz"] async_new_ok by auto
  have "texts (map Some bs) = concat (map fb_text bs)" for bs by (simp add: texts_def o_def)
  with s show ?thesis by (auto simp: log_text_def async_ok_def split: if_splits)
qed

lemma async_order_witness:
  "\<exists>s. async_run [Append ''ab'' (replicate 4 NUL), Append ''cde'' (replicate 4 NUL), Check, Swap, Stop, Append ''toolong'' (replicate 4 NUL),
       WriteOut, Check] (async_new 4) = Some s \<and> log_text s = ''abcde''"
proof -
  let ?es = "[Append ''ab'' (replicate 4 NUL), Append ''cde'' (replicate 4 NUL), Check, Swap, Stop, Append ''toolong'' (replicate 4 NUL),
    WriteOut, Check]"
  have ok: "allocations_ok 4 ?es" by (auto simp: allocations_ok_def)
  have "concat (filter (\<lambda>m. length m < 4) (appended ?es)) = ''abcde''" by simp
  with async_order [OF ok] show ?thesis by auto
qed

section \<open>Written again\<close>

lemma quiet_round:
  assumes "as_phase s = AtHead" "as_running s" "buffers_full s = []" "buffersToWrite s = []"
    "currentBuffer s = Some c" "nextBuffer s = Some n" "newBuffer1 s = Some a" "newBuffer2 s = Some b"
  shows "async_run [Check, Swap, WriteOut] s = Some (s\<lparr>currentBuffer := Some a, newBuffer1 := Some (fb_reset c),
    as_written := as_written s @ [c], as_flushes := as_flushes s + 1\<rparr>)"
  using assms by (cases s) (simp add: async_check_def async_swap_def async_write_def take_back_def Let_def)

lemma async_run_append: "async_run (es @ fs) s = (case async_run es s of None \<Rightarrow> None | Some s \<Rightarrow> async_run fs s)"
  by (induction es arbitrary: s) (auto split: option.splits)

lemma fresh_append:
  assumes "length m < sz"
  shows "fb_data (fb_append m (fresh_buffer sz)) = m @ replicate (sz - length m) NUL"
    and "fb_text (fb_append m (fresh_buffer sz)) = m"
  using assms by (simp_all add: fresh_buffer_def fb_new_def fb_bzero_def fb_avail_def fb_append_def fb_add_def fb_store_def fb_text_def)

text \<open>
  A message can be written more than once: \<open>length()\<close> is the size of the buffer and \<open>reset\<close> does not clear it, so
  each buffer is written in full, and when it comes round again, here after three iterations without any new
  message, the old message is written again.
\<close>

theorem async_rewrites:
  assumes "length m < sz"
  shows "\<exists>s. async_run ([Append m junk] @ [Check, Swap, WriteOut] @ [Check, Swap, WriteOut] @ [Check, Swap, WriteOut]) (async_new sz) = Some s
    \<and> map fb_data (as_written s) = [m @ replicate (sz - length m) NUL, replicate sz NUL, m @ replicate (sz - length m) NUL]
    \<and> log_text s = m"
proof -
  let ?e = "fresh_buffer sz" let ?b = "fb_append m (fresh_buffer sz)"
  let ?s = "\<lambda>cur new ws k. \<lparr>currentBuffer = Some cur, nextBuffer = Some ?e, buffers_full = [], as_running = True,
    newBuffer1 = Some new, newBuffer2 = Some ?e, buffersToWrite = [], as_phase = AtHead, as_written = ws, as_flushes = k\<rparr>"
  have e: "fb_reset ?e = ?e" "fb_avail ?e = sz" "fb_data ?e = replicate sz NUL" "fb_text ?e = []"
    by (simp_all add: fb_text_def fresh_buffer_def fb_new_def fb_bzero_def fb_avail_def fb_reset_def)
  have 0: "async_run [Append m junk] (async_new sz) = Some (?s ?b ?e [] 0)"
    using assms e by (simp add: async_new_def async_append_def)
  have round: "async_run [Check, Swap, WriteOut] (?s c a ws k) = Some (?s a (fb_reset c) (ws @ [c]) (k + 1))" for c a ws k
    by (subst quiet_round) simp_all
  have r: "fb_data (fb_reset ?b) = fb_data ?b \<and> fb_text (fb_reset ?b) = []"
    by (simp add: fb_reset_def fb_text_def)
  show ?thesis
    unfolding async_run_append 0 option.case round e(1) append_Nil
    using r fresh_append [OF assms] e by (simp add: log_text_def)
qed

lemma async_rewrites_witness:
  "\<exists>s. async_run ([Append ''error'' []] @ [Check, Swap, WriteOut] @ [Check, Swap, WriteOut] @ [Check, Swap, WriteOut])
      (async_new kLargeBuffer) = Some s
    \<and> fb_data (as_written s ! 0) = fb_data (as_written s ! 2) \<and> log_text s = ''error''"
proof -
  have "length ''error'' < kLargeBuffer" by (simp add: kLargeBuffer_def)
  from async_rewrites [OF this, of "[]"] obtain s u v where s:
    "async_run ([Append ''error'' []] @ [Check, Swap, WriteOut] @ [Check, Swap, WriteOut] @ [Check, Swap, WriteOut])
      (async_new kLargeBuffer) = Some s"
    and w: "map fb_data (as_written s) = [u, v, u]" and l: "log_text s = ''error''" by (elim exE conjE) (rule that)
  from w have "fb_data (as_written s ! 0) = fb_data (as_written s ! 2)" by (auto simp: map_eq_Cons_conv)
  with s l show ?thesis by (intro exI [of _ s] conjI)
qed

end
