(* ===== verification/Detect_Demo.thy ===== *)
theory Detect_Demo
  imports Inference_Backends
begin

text \<open>
  The stand-alone detector (\<open>src/end2end/include/common.hpp\<close>, \<open>yolov8.hpp\<close>, \<open>src/end2end/main.cpp\<close>): an engine with the
  suppression built in, its buffers on the device and on the host, the letterbox, and the loop over the pictures.

  OpenCV, CUDA, TensorRT and the file system are parameters. Memory is a map from addresses to sizes: an access to memory
  that is not there, or is too short, ends the run with \<open>BadAccess\<close>, as does the use of a null pointer, and a count read from memory whose
  contents nothing determines. The other ends of a run are a failed assertion, \<open>exit(1)\<close> in \<open>CHECK\<close>, undefined
  arithmetic, an exception of OpenCV, and \<open>abort\<close>. \<open>lib_asserts\<close> says whether assertions are compiled in: \<open>CMakeLists.txt\<close> sets the build
  type Release, which drops them.
\<close>

section \<open>Helpers\<close>

datatype stop = AssertFailed | CudaFailed | BadAccess | Undefined | CvException | Aborted

fun each :: "('a \<Rightarrow> 's \<Rightarrow> stop + 's) \<Rightarrow> 'a list \<Rightarrow> 's \<Rightarrow> stop + 's" where
  "each f [] s = Inr s"
| "each f (x # xs) s = tryE (f x s) (each f xs)"

text \<open>An unchecked access, and an unchecked conversion.\<close>

definition elem :: "'a list \<Rightarrow> nat \<Rightarrow> stop + 'a" where
  "elem xs i = (if i < length xs then Inr (xs ! i) else Inl BadAccess)"

definition defined :: "'a option \<Rightarrow> stop + 'a" where
  "defined v = (case v of None \<Rightarrow> Inl Undefined | Some x \<Rightarrow> Inr x)"

subsection \<open>\<open>common.hpp\<close>\<close>

datatype severity = kINTERNAL_ERROR | kERROR | kWARNING | kINFO | kVERBOSE

definition severity_value :: "severity \<Rightarrow> nat" where
  "severity_value s = (case s of kINTERNAL_ERROR \<Rightarrow> 0 | kERROR \<Rightarrow> 1 | kWARNING \<Rightarrow> 2 | kINFO \<Rightarrow> 3 | kVERBOSE \<Rightarrow> 4)"

text \<open>What the logger writes to \<open>std::cerr\<close>.\<close>

definition trt_log :: "severity \<Rightarrow> severity \<Rightarrow> bytes \<Rightarrow> bytes" where
  "trt_log reportable s msg =
     (if severity_value reportable < severity_value s then []
      else (case s of kINTERNAL_ERROR \<Rightarrow> ''INTERNAL_ERROR: '' | kERROR \<Rightarrow> ''ERROR: '' | kWARNING \<Rightarrow> ''WARNING: ''
            | kINFO \<Rightarrow> ''INFO: '' | kVERBOSE \<Rightarrow> ''VERBOSE: '') @ msg @ [CHR 0x0A])"

text \<open>The product is an \<open>int\<close>.\<close>

definition get_size_by_dims :: "int list \<Rightarrow> stop + int" where
  "get_size_by_dims ds =
     each (\<lambda>d n. if - (2 ^ 31) \<le> n * d \<and> n * d < 2 ^ 31 then Inr (n * d) else Inl Undefined) ds 1"

datatype data_type = kFLOAT | kHALF | kINT8 | kINT32 | kBOOL | OtherType

definition type_to_size :: "data_type \<Rightarrow> nat" where
  "type_to_size t = (case t of kFLOAT \<Rightarrow> 4 | kHALF \<Rightarrow> 2 | kINT32 \<Rightarrow> 4 | kINT8 \<Rightarrow> 1 | kBOOL \<Rightarrow> 1 | OtherType \<Rightarrow> 4)"

definition clamp :: "fl \<Rightarrow> fl \<Rightarrow> fl \<Rightarrow> fl" where
  "clamp val lo hi = (if fl_less lo val then (if fl_less val hi then val else hi) else lo)"

record binding =
  b_size :: "64 word"
  b_dsize :: nat
  b_dims :: "int list"
  b_name :: bytes

record det_object =
  rect_x :: fl
  rect_y :: fl
  rect_width :: fl
  rect_height :: fl
  obj_label :: int
  obj_prob :: fl

record pre_param =
  pp_ratio :: fl
  pp_dw :: fl
  pp_dh :: fl
  pp_height :: fl
  pp_width :: fl

definition pre_param_new :: pre_param where
  "pre_param_new = \<lparr>pp_ratio = Fin 1, pp_dw = Fin 0, pp_dh = Fin 0, pp_height = Fin 0, pp_width = Fin 0\<rparr>"

section \<open>Device and host memory\<close>

text \<open>
  \<open>checked k\<close> says whether the \<open>k\<close>-th call of CUDA under \<open>CHECK\<close> succeeds; an allocation takes the next address. Of the calls whose
  result the code ignores, \<open>enqueued k\<close> says whether the \<open>k\<close>-th run of the network is queued, \<open>synced k\<close> whether the wait for it
  succeeds, and \<open>streamed\<close> whether the stream is created (without it, the null stream is used).
\<close>

record cuda =
  checked :: "nat \<Rightarrow> bool"
  enqueued :: "nat \<Rightarrow> bool"
  synced :: "nat \<Rightarrow> bool"
  streamed :: bool

datatype place = Device | Host

text \<open>The contents of the four output buffers: the number of detections, boxes, scores and labels.\<close>

record det_outputs =
  out_dets :: "int list"
  out_boxes :: "fl list"
  out_scores :: "fl list"
  out_labels :: "int list"

text \<open>\<open>gp_dev\<close> and \<open>gp_host\<close> are the contents of the output buffers on the device and on the host, None if undetermined.\<close>

record gpu =
  gp_calls :: nat
  gp_next :: nat
  gp_mem :: "nat \<Rightarrow> (place \<times> nat) option"
  gp_events :: "resource_event list"
  gp_runs :: nat
  gp_dev :: "det_outputs option"
  gp_host :: "det_outputs option"

definition gpu_new :: gpu where
  "gpu_new = \<lparr>gp_calls = 0, gp_next = 0, gp_mem = (\<lambda>_. None), gp_events = [], gp_runs = 0, gp_dev = None, gp_host = None\<rparr>"

definition CHECK :: "(nat \<Rightarrow> bool) \<Rightarrow> gpu \<Rightarrow> stop + gpu" where
  "CHECK cuda_ok g = (if cuda_ok (gp_calls g) then Inr (g\<lparr>gp_calls := Suc (gp_calls g)\<rparr>) else Inl CudaFailed)"

definition cuda_alloc :: "(nat \<Rightarrow> bool) \<Rightarrow> place \<Rightarrow> nat \<Rightarrow> gpu \<Rightarrow> stop + nat \<times> gpu" where
  "cuda_alloc cuda_ok pl n g =
     tryE (CHECK cuda_ok g) (\<lambda>g.
       Inr (gp_next g, g\<lparr>gp_next := Suc (gp_next g), gp_mem := (gp_mem g)(gp_next g \<mapsto> (pl, n))\<rparr>))"

definition cuda_free :: "(nat \<Rightarrow> bool) \<Rightarrow> place \<Rightarrow> nat \<Rightarrow> gpu \<Rightarrow> stop + gpu" where
  "cuda_free cuda_ok pl p g =
     (case gp_mem g p of
        None \<Rightarrow> Inl BadAccess
      | Some (q, n) \<Rightarrow> if q \<noteq> pl then Inl BadAccess else CHECK cuda_ok (g\<lparr>gp_mem := (gp_mem g)(p := None)\<rparr>))"

definition touch :: "place \<Rightarrow> nat \<Rightarrow> nat \<Rightarrow> gpu \<Rightarrow> stop + unit" where
  "touch pl p n g =
     (case gp_mem g p of None \<Rightarrow> Inl BadAccess | Some (q, m) \<Rightarrow> if q = pl \<and> n \<le> m then Inr () else Inl BadAccess)"

section \<open>The detector\<close>

record yolov8 =
  num_bindings :: nat
  num_inputs :: nat
  num_outputs :: nat
  input_bindings :: "binding list"
  output_bindings :: "binding list"
  host_ptrs :: "nat list"
  device_ptrs :: "nat list"
  pparam :: pre_param
  y_engine :: nat
  y_runtime :: nat
  y_context :: nat
  y_stream :: "nat option"
  y_shape :: "int list"
  y_tensor :: "fl option list"

text \<open>
  The binding of an engine: its name, type and direction, and its dimensions: of an input in the largest profile, of an
  output once the inputs have that shape.
\<close>

record io_binding =
  io_name :: bytes
  io_type :: data_type
  io_input :: bool
  io_dims :: "int list"

record trt_lib =
  lib_runtime :: bool
  lib_engine :: "bytes \<Rightarrow> io_binding list option"
  lib_context :: bool
  lib_asserts :: bool

definition add_binding :: "io_binding \<Rightarrow> yolov8 \<Rightarrow> stop + yolov8" where
  "add_binding io y =
     tryE (get_size_by_dims (io_dims io)) (\<lambda>n.
       let b = \<lparr>b_size = word_of_int n, b_dsize = type_to_size (io_type io), b_dims = io_dims io, b_name = io_name io\<rparr>
       in if io_input io
          then Inr (y\<lparr>num_inputs := num_inputs y + 1, y_shape := io_dims io, input_bindings := input_bindings y @ [b]\<rparr>)
          else Inr (y\<lparr>output_bindings := output_bindings y @ [b], num_outputs := num_outputs y + 1\<rparr>))"

text \<open>
  The constructor; \<open>planfile\<close> is the engine file, None if it cannot be read. Without assertions, the size of a file that
  cannot be read is -1, for which \<open>new\<close> throws, and a null pointer is used by the next call on it (a missing context by the first
  binding).
\<close>

definition failed_assert :: "trt_lib \<Rightarrow> stop \<Rightarrow> stop + 'a" where
  "failed_assert trt otherwise = Inl (if lib_asserts trt then AssertFailed else otherwise)"

definition yolov8_open :: "cuda \<Rightarrow> trt_lib \<Rightarrow> bytes option \<Rightarrow> gpu \<Rightarrow> stop + io_binding list \<times> yolov8 \<times> gpu" where
  "yolov8_open cu trt planfile g =
     (case planfile of
        None \<Rightarrow> failed_assert trt Aborted
      | Some model \<Rightarrow>
          if \<not> lib_runtime trt then failed_assert trt BadAccess
          else
            let (rt, ev) = acquire Runtime (gp_events g) in
            case lib_engine trt model of
              None \<Rightarrow> failed_assert trt BadAccess
            | Some ios \<Rightarrow>
                let (en, ev) = acquire Engine ev in
                if \<not> lib_context trt then failed_assert trt BadAccess
                else
                  let (cx, ev) = acquire Context ev;
                      (st, ev) = (if streamed cu then (let (n, ev) = acquire Stream ev in (Some n, ev)) else (None, ev))
                  in Inr (ios, \<lparr>num_bindings = length ios, num_inputs = 0, num_outputs = 0, input_bindings = [],
                       output_bindings = [], host_ptrs = [], device_ptrs = [], pparam = pre_param_new, y_engine = en,
                       y_runtime = rt, y_context = cx, y_stream = st, y_shape = [], y_tensor = []\<rparr>, g\<lparr>gp_events := ev\<rparr>))"

definition yolov8_new :: "cuda \<Rightarrow> trt_lib \<Rightarrow> bytes option \<Rightarrow> gpu \<Rightarrow> stop + yolov8 \<times> gpu" where
  "yolov8_new cu trt planfile g =
     tryE (yolov8_open cu trt planfile g) (\<lambda>(ios, y, g). tryE (each add_binding ios y) (\<lambda>y. Inr (y, g)))"

definition yolov8_release :: "yolov8 \<Rightarrow> gpu \<Rightarrow> gpu" where
  "yolov8_release y g = g\<lparr>gp_events := release Stream (y_stream y) (release Runtime (Some (y_runtime y))
     (release Engine (Some (y_engine y)) (release Context (Some (y_context y)) (gp_events g))))\<rparr>"

definition yolov8_destroy :: "(nat \<Rightarrow> bool) \<Rightarrow> yolov8 \<Rightarrow> gpu \<Rightarrow> stop + gpu" where
  "yolov8_destroy cuda_ok y g =
     tryE (each (cuda_free cuda_ok Device) (device_ptrs y) (yolov8_release y g)) (each (cuda_free cuda_ok Host) (host_ptrs y))"

definition binding_bytes :: "binding \<Rightarrow> nat" where
  "binding_bytes b = unat (b_size b * of_nat (b_dsize b))"

definition pipe_input :: "(nat \<Rightarrow> bool) \<Rightarrow> binding \<Rightarrow> yolov8 \<times> gpu \<Rightarrow> stop + yolov8 \<times> gpu" where
  "pipe_input cuda_ok b yg =
     (let (y, g) = yg in
      tryE (cuda_alloc cuda_ok Device (binding_bytes b) g) (\<lambda>(d, g).
        Inr (y\<lparr>device_ptrs := device_ptrs y @ [d], y_shape := b_dims b\<rparr>, g)))"

definition pipe_output :: "(nat \<Rightarrow> bool) \<Rightarrow> binding \<Rightarrow> yolov8 \<times> gpu \<Rightarrow> stop + yolov8 \<times> gpu" where
  "pipe_output cuda_ok b yg =
     (let (y, g) = yg in
      tryE (cuda_alloc cuda_ok Device (binding_bytes b) g) (\<lambda>(d, g).
      tryE (cuda_alloc cuda_ok Host (binding_bytes b) g) (\<lambda>(h, g).
        Inr (y\<lparr>device_ptrs := device_ptrs y @ [d], host_ptrs := host_ptrs y @ [h]\<rparr>, g))))"

text \<open>A copy to the first device buffer; the source is large enough.\<close>

definition copy_in :: "(nat \<Rightarrow> bool) \<Rightarrow> nat \<Rightarrow> yolov8 \<Rightarrow> gpu \<Rightarrow> stop + gpu" where
  "copy_in cuda_ok n y g =
     tryE (elem (device_ptrs y) 0) (\<lambda>d. tryE (touch Device d n g) (\<lambda>_. CHECK cuda_ok g))"

definition copy_out :: "(nat \<Rightarrow> bool) \<Rightarrow> yolov8 \<Rightarrow> nat \<Rightarrow> gpu \<Rightarrow> stop + gpu" where
  "copy_out cuda_ok y i g =
     tryE (elem (output_bindings y) i) (\<lambda>b.
     tryE (elem (host_ptrs y) i) (\<lambda>h.
     tryE (elem (device_ptrs y) (i + num_inputs y)) (\<lambda>d.
     tryE (touch Host h (binding_bytes b) g) (\<lambda>_.
     tryE (touch Device d (binding_bytes b) g) (\<lambda>_. CHECK cuda_ok g)))))"

text \<open>
  The results of \<open>enqueueV2\<close> and \<open>cudaStreamSynchronize\<close> are ignored: a run that is not queued leaves the output buffers on the device as
  they were, and what the host has after a wait that failed is undetermined. \<open>net\<close> is the network, from the input tensor to
  its outputs.
\<close>

definition det_infer :: "cuda \<Rightarrow> (fl option list \<Rightarrow> det_outputs) \<Rightarrow> fl option list \<Rightarrow> yolov8 \<Rightarrow> gpu \<Rightarrow> stop + gpu" where
  "det_infer cu net t y g =
     (let k = gp_runs g;
          g = g\<lparr>gp_runs := Suc k, gp_dev := if enqueued cu k then Some (net t) else gp_dev g\<rparr> in
      tryE (each (copy_out (checked cu) y) [0..<num_outputs y] g) (\<lambda>g.
        Inr (g\<lparr>gp_host := if synced cu k then gp_dev g else None\<rparr>)))"

text \<open>The warm-up gives zeros to the network.\<close>

definition warm_tensor :: "yolov8 \<Rightarrow> fl option list" where
  "warm_tensor y = (if input_bindings y = [] then y_tensor y
     else replicate (binding_bytes (last (input_bindings y)) div 4) (Some (Fin 0)))"

definition warm_up :: "cuda \<Rightarrow> (fl option list \<Rightarrow> det_outputs) \<Rightarrow> yolov8 \<Rightarrow> gpu \<Rightarrow> stop + gpu" where
  "warm_up cu net y g =
     each (\<lambda>_ :: nat. \<lambda>g. tryE (each (\<lambda>b. copy_in (checked cu) (binding_bytes b) y) (input_bindings y) g)
       (det_infer cu net (warm_tensor y) y)) [0..<10] g"

definition make_pipe :: "cuda \<Rightarrow> (fl option list \<Rightarrow> det_outputs) \<Rightarrow> bool \<Rightarrow> yolov8 \<Rightarrow> gpu \<Rightarrow> stop + yolov8 \<times> gpu" where
  "make_pipe cu net warm y g =
     tryE (each (pipe_input (checked cu)) (input_bindings y) (y, g)) (\<lambda>yg.
     tryE (each (pipe_output (checked cu)) (output_bindings y) yg) (\<lambda>(y, g).
       if warm then tryE (warm_up cu net y g) (\<lambda>g. Inr (y, g)) else Inr (y, g)))"

section \<open>The letterbox\<close>

text \<open>
  A picture: its size and its pixels, row by row, blue first. The functions of OpenCV the code calls; None is an exception.
  \<open>cv_convert\<close> is \<open>convertTo\<close> on one value.
\<close>

record cv_mat =
  mat_rows :: int
  mat_cols :: int
  mat_px :: "(nat \<times> nat \<times> nat) list"

record opencv =
  cv_resize :: "cv_mat \<Rightarrow> int \<times> int \<Rightarrow> cv_mat option"
  cv_border :: "cv_mat \<Rightarrow> int \<Rightarrow> int \<Rightarrow> int \<Rightarrow> int \<Rightarrow> nat \<times> nat \<times> nat \<Rightarrow> cv_mat option"
  cv_convert :: "fl \<Rightarrow> nat \<Rightarrow> fl"
  cv_text_size :: "bytes \<Rightarrow> int \<times> int \<times> int"

definition or_throw :: "'a option \<Rightarrow> stop + 'a" where
  "or_throw v = (case v of None \<Rightarrow> Inl CvException | Some x \<Rightarrow> Inr x)"

text \<open>The scale and the size of the picture in it.\<close>

definition det_scale :: "cv_mat \<Rightarrow> int \<times> int \<Rightarrow> fl" where
  "det_scale im sz = fl_min (fdiv (fint (snd sz)) (fint (mat_rows im))) (fdiv (fint (fst sz)) (fint (mat_cols im)))"

definition det_scaled :: "int \<Rightarrow> fl \<Rightarrow> stop + int" where
  "det_scaled extent r = defined (fl_to_int (fl_roundi (fmul (fint extent) r)))"

definition tenth :: fl where "tenth = fl_round binary32 (1 / 10)"

text \<open>The two margins of one direction, for the padding \<open>d\<close> on each side.\<close>

definition margins :: "fl \<Rightarrow> stop + int \<times> int" where
  "margins d =
     tryE (defined (fl_to_int (fl_roundi (fsub d tenth)))) (\<lambda>a.
     tryE (defined (fl_to_int (fl_roundi (fadd d tenth)))) (\<lambda>b. Inr (a, b)))"

text \<open>
  \<open>convertTo\<close> a plane of the output: if the size differs, OpenCV gives the plane memory of its own and the output keeps
  what it had.
\<close>

definition write_plane :: "int \<Rightarrow> int \<Rightarrow> nat \<Rightarrow> cv_mat \<Rightarrow> fl list \<Rightarrow> fl option list \<Rightarrow> fl option list" where
  "write_plane h w k m vs out =
     (if mat_rows m = h \<and> mat_cols m = w
      then take (k * nat (h * w)) out @ map Some vs @ drop (Suc k * nat (h * w)) out else out)"

text \<open>The output tensor: blue is the first channel of OpenCV and the last plane of the tensor.\<close>

definition write_planes :: "opencv \<Rightarrow> int \<Rightarrow> int \<Rightarrow> cv_mat \<Rightarrow> fl option list" where
  "write_planes cv h w m =
     (let a = fdiv (Fin 1) (Fin 255);
          out = replicate (3 * nat (h * w)) None;
          out = write_plane h w 2 m (map (\<lambda>(b, g, r). cv_convert cv a b) (mat_px m)) out;
          out = write_plane h w 1 m (map (\<lambda>(b, g, r). cv_convert cv a g) (mat_px m)) out
      in write_plane h w 0 m (map (\<lambda>(b, g, r). cv_convert cv a r) (mat_px m)) out)"

definition det_letterbox :: "opencv \<Rightarrow> cv_mat \<Rightarrow> int \<times> int \<Rightarrow> stop + fl option list \<times> pre_param" where
  "det_letterbox cv im sz =
     (let inp_h = fint (snd sz); inp_w = fint (fst sz);
          height = fint (mat_rows im); width = fint (mat_cols im);
          r = det_scale im sz in
      tryE (det_scaled (mat_cols im) r) (\<lambda>padw.
      tryE (det_scaled (mat_rows im) r) (\<lambda>padh.
      tryE (if fl_to_int width \<noteq> Some padw \<or> fl_to_int height \<noteq> Some padh then or_throw (cv_resize cv im (padw, padh)) else Inr im) (\<lambda>tmp.
      (let dw = fdiv (fsub inp_w (fint padw)) (Fin 2); dh = fdiv (fsub inp_h (fint padh)) (Fin 2) in
      tryE (margins dh) (\<lambda>(top, bottom).
      tryE (margins dw) (\<lambda>(left, right).
      tryE (or_throw (cv_border cv tmp top bottom left right (114, 114, 114))) (\<lambda>tmp.
      tryE (defined (fl_to_int inp_h)) (\<lambda>h.
      tryE (defined (fl_to_int inp_w)) (\<lambda>w.
        Inr (write_planes cv h w tmp, \<lparr>pp_ratio = fdiv (Fin 1) r, pp_dw = dw, pp_dh = dh, pp_height = height, pp_width = width\<rparr>)))))))))))"

definition copy_from_Mat :: "opencv \<Rightarrow> (nat \<Rightarrow> bool) \<Rightarrow> cv_mat \<Rightarrow> int \<times> int \<Rightarrow> yolov8 \<times> gpu \<Rightarrow> stop + yolov8 \<times> gpu" where
  "copy_from_Mat cv cuda_ok im sz yg =
     (let (y, g) = yg in
      tryE (det_letterbox cv im sz) (\<lambda>(nchw, pp).
      tryE (copy_in cuda_ok (4 * length nchw) y g) (\<lambda>g.
        Inr (y\<lparr>pparam := pp, y_shape := [1, 3, snd sz, fst sz], y_tensor := nchw\<rparr>, g))))"

text \<open>The overload that takes the size from the engine.\<close>

definition copy_from_Mat_own :: "opencv \<Rightarrow> (nat \<Rightarrow> bool) \<Rightarrow> cv_mat \<Rightarrow> yolov8 \<times> gpu \<Rightarrow> stop + yolov8 \<times> gpu" where
  "copy_from_Mat_own cv cuda_ok im yg =
     tryE (elem (input_bindings (fst yg)) 0) (\<lambda>b.
     tryE (elem (b_dims b) 3) (\<lambda>width.
     tryE (elem (b_dims b) 2) (\<lambda>height. copy_from_Mat cv cuda_ok im (width, height) yg)))"

section \<open>Postprocessing and drawing\<close>

definition det_box :: "pre_param \<Rightarrow> fl \<Rightarrow> fl \<Rightarrow> fl \<Rightarrow> fl \<Rightarrow> fl \<Rightarrow> int \<Rightarrow> det_object" where
  "det_box pp bx0 by0 bx1 by1 score lab =
     (let x0 = clamp (fmul (fsub bx0 (pp_dw pp)) (pp_ratio pp)) (Fin 0) (pp_width pp);
          y0 = clamp (fmul (fsub by0 (pp_dh pp)) (pp_ratio pp)) (Fin 0) (pp_height pp);
          x1 = clamp (fmul (fsub bx1 (pp_dw pp)) (pp_ratio pp)) (Fin 0) (pp_width pp);
          y1 = clamp (fmul (fsub by1 (pp_dh pp)) (pp_ratio pp)) (Fin 0) (pp_height pp)
      in \<lparr>rect_x = x0, rect_y = y0, rect_width = fsub x1 x0, rect_height = fsub y1 y0, obj_label = lab, obj_prob = score\<rparr>)"

definition det_object_at :: "pre_param \<Rightarrow> det_outputs \<Rightarrow> nat \<Rightarrow> stop + det_object" where
  "det_object_at pp o4 i =
     tryE (elem (out_boxes o4) (i * 4)) (\<lambda>bx0.
     tryE (elem (out_boxes o4) (i * 4 + 1)) (\<lambda>by0.
     tryE (elem (out_boxes o4) (i * 4 + 2)) (\<lambda>bx1.
     tryE (elem (out_boxes o4) (i * 4 + 3)) (\<lambda>by1.
     tryE (elem (out_scores o4) i) (\<lambda>score.
     tryE (elem (out_labels o4) i) (\<lambda>lab. Inr (det_box pp bx0 by0 bx1 by1 score lab)))))))"

text \<open>Every read stays in the buffer it goes to, or the run ends: the buffers have the sizes of the engine's outputs.\<close>

definition det_postprocess :: "yolov8 \<Rightarrow> gpu \<Rightarrow> stop + det_object list" where
  "det_postprocess y g =
     tryE (elem (host_ptrs y) 0) (\<lambda>num_dets.
     tryE (elem (host_ptrs y) 1) (\<lambda>boxes.
     tryE (elem (host_ptrs y) 2) (\<lambda>scores.
     tryE (elem (host_ptrs y) 3) (\<lambda>labels.
     tryE (touch Host num_dets 4 g) (\<lambda>_.
     case gp_host g of
       None \<Rightarrow> Inl BadAccess
     | Some o4 \<Rightarrow>
         tryE (elem (out_dets o4) 0) (\<lambda>n.
           each (\<lambda>i objs.
             tryE (touch Host boxes (16 * (i + 1)) g) (\<lambda>_.
             tryE (touch Host scores (4 * (i + 1)) g) (\<lambda>_.
             tryE (touch Host labels (4 * (i + 1)) g) (\<lambda>_.
             tryE (det_object_at (pparam y) o4 i) (\<lambda>obj. Inr (objs @ [obj])))))) [0..<nat n] []))))))"

text \<open>\<open>printf\<close> with \<open>%.1f\<close>.\<close>

definition fmt_f1 :: "fl \<Rightarrow> bytes" where
  "fmt_f1 v = (case v of
      Fin x \<Rightarrow> (let m = nat (round_half_even (\<bar>x\<bar> * 10)) in
                (if x < 0 then ''-'' else []) @ show_nat (m div 10) @ ''.'' @ show_nat (m mod 10))
    | PosInf \<Rightarrow> ''inf'' | NegInf \<Rightarrow> ''-inf'' | NotNum \<Rightarrow> ''nan'')"

definition CLASS_NAMES :: "bytes list" where
  "CLASS_NAMES = kCocoLabels"

definition COLORS :: "(nat \<times> nat \<times> nat) list" where
  "COLORS = [
     (0, 114, 189), (217, 83, 25), (237, 177, 32), (126, 47, 142), (119, 172, 48), (77, 190, 238), (162, 20, 47),
     (76, 76, 76), (153, 153, 153), (255, 0, 0), (255, 128, 0), (191, 191, 0), (0, 255, 0), (0, 0, 255),
     (170, 0, 255), (85, 85, 0), (85, 170, 0), (85, 255, 0), (170, 85, 0), (170, 170, 0), (170, 255, 0), (255, 85, 0),
     (255, 170, 0), (255, 255, 0), (0, 85, 128), (0, 170, 128), (0, 255, 128), (85, 0, 128), (85, 85, 128),
     (85, 170, 128), (85, 255, 128), (170, 0, 128), (170, 85, 128), (170, 170, 128), (170, 255, 128), (255, 0, 128),
     (255, 85, 128), (255, 170, 128), (255, 255, 128), (0, 85, 255), (0, 170, 255), (0, 255, 255), (85, 0, 255),
     (85, 85, 255), (85, 170, 255), (85, 255, 255), (170, 0, 255), (170, 85, 255), (170, 170, 255), (170, 255, 255),
     (255, 0, 255), (255, 85, 255), (255, 170, 255), (85, 0, 0), (128, 0, 0), (170, 0, 0), (212, 0, 0), (255, 0, 0),
     (0, 43, 0), (0, 85, 0), (0, 128, 0), (0, 170, 0), (0, 212, 0), (0, 255, 0), (0, 0, 43), (0, 0, 85), (0, 0, 128),
     (0, 0, 170), (0, 0, 212), (0, 0, 255), (0, 0, 0), (36, 36, 36), (73, 73, 73), (109, 109, 109), (146, 146, 146),
     (182, 182, 182), (219, 219, 219), (0, 114, 189), (80, 183, 189), (128, 128, 0)]"

text \<open>What is drawn: a frame, a filled rectangle, and text at a point.\<close>

datatype drawing = Frame fl fl fl fl "nat \<times> nat \<times> nat" | Filled int int int int | PutText bytes int int

definition draw_object :: "opencv \<Rightarrow> int \<Rightarrow> det_object \<Rightarrow> drawing list \<Rightarrow> stop + drawing list" where
  "draw_object cv rows obj ds =
     tryE (if obj_label obj < 0 then Inl BadAccess else elem COLORS (nat (obj_label obj))) (\<lambda>color.
     tryE (elem CLASS_NAMES (nat (obj_label obj))) (\<lambda>nm.
      (let label_text = nm @ '' '' @ fmt_f1 (fmul (obj_prob obj) (Fin 100)) @ ''%'';
           (w, h, baseLine) = cv_text_size cv label_text in
       if 256 \<le> length label_text then Inl BadAccess
       else
         tryE (defined (fl_to_int (rect_x obj))) (\<lambda>x.
         tryE (defined (fl_to_int (rect_y obj))) (\<lambda>y.
          (let y = y + 1; y = (if rows < y then rows else y)
           in Inr (ds @ [Frame (rect_x obj) (rect_y obj) (rect_width obj) (rect_height obj) color,
                         Filled x y w (h + baseLine), PutText label_text x (y + h)])))))))"

definition draw_objects :: "opencv \<Rightarrow> cv_mat \<Rightarrow> det_object list \<Rightarrow> stop + drawing list" where
  "draw_objects cv im objs = each (draw_object cv (mat_rows im)) objs []"

section \<open>\<open>main\<close>\<close>

datatype pictures = ImageList "bytes list" | Video

text \<open>What the path names: the answers of \<open>fs::exists\<close> and \<open>fs::is_directory\<close>, and the suffix.\<close>

definition select_input :: "bool \<Rightarrow> bool \<Rightarrow> bytes \<Rightarrow> bytes \<Rightarrow> bytes list \<Rightarrow> stop + pictures" where
  "select_input path_exists is_directory suffix path globbed =
     (if path_exists then
        (if suffix \<in> {''.jpg'', ''.jpeg'', ''.png''} then Inr (ImageList [path])
         else if suffix \<in> {''.mp4'', ''.avi'', ''.m4v'', ''.mpeg'', ''.mov'', ''.mkv''} then Inr Video
         else Inl Aborted)
      else if is_directory then Inr (ImageList globbed)
      else Inr (ImageList []))"

text \<open>
  The pictures: those the list names, or the frames of the video up to the key \<open>q\<close>; None is a video that cannot be opened.
\<close>

definition to_show :: "(bytes \<Rightarrow> cv_mat) \<Rightarrow> cv_mat list option \<Rightarrow> pictures \<Rightarrow> cv_mat list option" where
  "to_show imread frames p = (case p of Video \<Rightarrow> frames | ImageList ps \<Rightarrow> Some (map imread ps))"

text \<open>One picture.\<close>

definition show_picture :: "opencv \<Rightarrow> cuda \<Rightarrow> (fl option list \<Rightarrow> det_outputs) \<Rightarrow> cv_mat
    \<Rightarrow> drawing list list \<times> yolov8 \<times> gpu \<Rightarrow> stop + drawing list list \<times> yolov8 \<times> gpu" where
  "show_picture cv cu net im st =
     (let (shown, yg) = st in
      tryE (copy_from_Mat cv (checked cu) im (640, 640) yg) (\<lambda>(y, g).
      tryE (det_infer cu net (y_tensor y) y g) (\<lambda>g.
      tryE (det_postprocess y g) (\<lambda>objs.
      tryE (draw_objects cv im objs) (\<lambda>res. Inr (shown @ [res], y, g))))))"

text \<open>
  \<open>main\<close> with two arguments: the result is the exit code, what was shown, and the memory at the end.
\<close>

definition det_main :: "opencv \<Rightarrow> cuda \<Rightarrow> trt_lib \<Rightarrow> bytes option \<Rightarrow> (fl option list \<Rightarrow> det_outputs) \<Rightarrow> stop + pictures
    \<Rightarrow> (bytes \<Rightarrow> cv_mat) \<Rightarrow> cv_mat list option \<Rightarrow> stop + int \<times> drawing list list \<times> gpu" where
  "det_main cv cu trt planfile net input imread frames =
     tryE (yolov8_new cu trt planfile gpu_new) (\<lambda>(y, g).
     tryE (make_pipe cu net True y g) (\<lambda>(y, g).
     tryE input (\<lambda>p.
       case to_show imread frames p of
         None \<Rightarrow> Inr (- 1, [], g)
       | Some ims \<Rightarrow>
           tryE (each (show_picture cv cu net) ims ([], y, g)) (\<lambda>(shown, y, g).
           tryE (yolov8_destroy (checked cu) y g) (\<lambda>g. Inr (0, shown, g))))))"

end
