(* ===== verification/Detect_Props.thy ===== *)
theory Detect_Props
  imports Detect_Demo Backend_Props
begin

text \<open>
  The buffers of the stand-alone detector: how runs that may stop are reasoned about, what the constructor and the set-up
  establish, that no copy leaves its buffers, and that the destructor releases everything once.
\<close>

section \<open>Runs that may stop\<close>

text \<open>A run ends in a state that satisfies \<open>P\<close>, or stops for one of the reasons in \<open>E\<close>.\<close>

definition run_to :: "stop set \<Rightarrow> ('s \<Rightarrow> bool) \<Rightarrow> stop + 's \<Rightarrow> bool" where
  "run_to E P r \<longleftrightarrow> (case r of Inl e \<Rightarrow> e \<in> E | Inr s \<Rightarrow> P s)"

lemma run_simps [simp]: "run_to E P (Inr s) = P s" "run_to E P (Inl e) \<longleftrightarrow> e \<in> E"
  by (simp_all add: run_to_def)

lemma run_tryE: "run_to E Q r \<Longrightarrow> (\<And>v. Q v \<Longrightarrow> run_to E P (k v)) \<Longrightarrow> run_to E P (tryE r k)"
  by (cases r) (simp_all add: run_to_def)

lemma tryE_assoc: "tryE (tryE r (\<lambda>(y, g). f y g)) k = tryE r (\<lambda>(y, g). tryE (f y g) k)"
  by (simp add: tryE_def split: sum.split)

lemma run_weaken: "run_to E Q r \<Longrightarrow> (\<And>v. Q v \<Longrightarrow> P v) \<Longrightarrow> run_to E P r"
  by (cases r) simp_all

lemma run_each_prefix:
  assumes "P [] s" "\<And>ys x zs s. xs = ys @ x # zs \<Longrightarrow> P ys s \<Longrightarrow> run_to E (P (ys @ [x])) (f x s)"
  shows "run_to E (P xs) (each f xs s)"
  using assms
proof (induction xs arbitrary: P s)
  case Nil
  then show ?case by simp
next
  case (Cons x xs)
  have "run_to E (P [x]) (f x s)" using Cons.prems(2) [of "[]"] Cons.prems(1) by simp
  moreover have "run_to E (P (x # xs)) (each f xs v)" if "P [x] v" for v
  proof (rule Cons.IH [of "\<lambda>ys. P (x # ys)"])
    show "P (x # []) v" by (rule that)
  next
    fix ys z zs s assume "xs = ys @ z # zs" "P (x # ys) s"
    then show "run_to E (P (x # ys @ [z])) (f z s)" using Cons.prems(2) [of "x # ys" z zs s] by simp
  qed
  ultimately show ?case by (auto intro: run_tryE)
qed

lemma run_each: "P s \<Longrightarrow> (\<And>x s. x \<in> set xs \<Longrightarrow> P s \<Longrightarrow> run_to E P (f x s)) \<Longrightarrow> run_to E P (each f xs s)"
  by (rule run_each_prefix [where P = "\<lambda>_. P"]) auto

lemma run_mono: "run_to E P r \<Longrightarrow> E \<subseteq> F \<Longrightarrow> run_to F P r"
  by (cases r) auto

text \<open>The only fault of a call of CUDA, if one can fail.\<close>

definition faults :: "(nat \<Rightarrow> bool) \<Rightarrow> stop set" where
  "faults ok = (if \<forall>k. ok k then {} else {CudaFailed})"

lemma fault_in [simp]: "\<not> ok k \<Longrightarrow> CudaFailed \<in> faults ok"
  by (auto simp: faults_def)

section \<open>Memory\<close>

text \<open>The buffers of the detector: addresses and sizes, and no other memory.\<close>

definition buffers_ok :: "yolov8 \<Rightarrow> nat list \<Rightarrow> nat list \<Rightarrow> gpu \<Rightarrow> bool" where
  "buffers_ok y ds hs g \<longleftrightarrow>
     list_all2 (\<lambda>p n. gp_mem g p = Some (Device, n)) (device_ptrs y) ds
     \<and> list_all2 (\<lambda>p n. gp_mem g p = Some (Host, n)) (host_ptrs y) hs
     \<and> distinct (device_ptrs y @ host_ptrs y)
     \<and> dom (gp_mem g) = set (device_ptrs y) \<union> set (host_ptrs y) \<and> (\<forall>p\<in>dom (gp_mem g). p < gp_next g)"

lemma list_all2_fresh:
  "list_all2 (\<lambda>p n. m p = Some (pl, n)) ps ns \<Longrightarrow> q \<notin> set ps \<Longrightarrow> list_all2 (\<lambda>p n. (m(q \<mapsto> v)) p = Some (pl, n)) ps ns"
  by (induction rule: list_all2_induct) auto

text \<open>What an allocation leaves alone.\<close>

definition kept :: "gpu \<Rightarrow> gpu \<Rightarrow> bool" where
  "kept g g' \<longleftrightarrow> gp_events g' = gp_events g \<and> gp_runs g' = gp_runs g"

lemma alloc_ok:
  assumes "buffers_ok y ds hs g"
  shows "run_to (faults ok) (\<lambda>(p, g'). buffers_ok (y\<lparr>device_ptrs := device_ptrs y @ [p]\<rparr>) (ds @ [n]) hs g' \<and> kept g g')
      (cuda_alloc ok Device n g)"
    "run_to (faults ok) (\<lambda>(p, g'). buffers_ok (y\<lparr>host_ptrs := host_ptrs y @ [p]\<rparr>) ds (hs @ [n]) g' \<and> kept g g')
      (cuda_alloc ok Host n g)"
proof -
  have fresh: "gp_next g \<notin> set (device_ptrs y)" "gp_next g \<notin> set (host_ptrs y)"
    using assms by (auto simp: buffers_ok_def)
  show "run_to (faults ok) (\<lambda>(p, g'). buffers_ok (y\<lparr>device_ptrs := device_ptrs y @ [p]\<rparr>) (ds @ [n]) hs g' \<and> kept g g')
      (cuda_alloc ok Device n g)"
    using assms fresh list_all2_fresh [OF _ fresh(1)] list_all2_fresh [OF _ fresh(2)]
    by (auto simp: kept_def cuda_alloc_def CHECK_def buffers_ok_def list_all2_append less_SucI intro!: list_all2_appendI)
  show "run_to (faults ok) (\<lambda>(p, g'). buffers_ok (y\<lparr>host_ptrs := host_ptrs y @ [p]\<rparr>) ds (hs @ [n]) g' \<and> kept g g')
      (cuda_alloc ok Host n g)"
    using assms fresh list_all2_fresh [OF _ fresh(1)] list_all2_fresh [OF _ fresh(2)]
    by (auto simp: kept_def cuda_alloc_def CHECK_def buffers_ok_def list_all2_append less_SucI intro!: list_all2_appendI)
qed

text \<open>What the counters say, and what the set-up of the buffers leaves alone.\<close>

definition counts_ok :: "yolov8 \<Rightarrow> bool" where
  "counts_ok y \<longleftrightarrow> num_inputs y = length (input_bindings y) \<and> num_outputs y = length (output_bindings y)"

definition same_core :: "yolov8 \<Rightarrow> yolov8 \<Rightarrow> bool" where
  "same_core y y' \<longleftrightarrow> num_inputs y' = num_inputs y \<and> num_outputs y' = num_outputs y \<and> input_bindings y' = input_bindings y
     \<and> output_bindings y' = output_bindings y \<and> y_engine y' = y_engine y \<and> y_runtime y' = y_runtime y
     \<and> y_context y' = y_context y \<and> y_stream y' = y_stream y"

definition pipe_ok :: "yolov8 \<Rightarrow> gpu \<Rightarrow> bool" where
  "pipe_ok y g \<longleftrightarrow> counts_ok y
     \<and> buffers_ok y (map binding_bytes (input_bindings y @ output_bindings y)) (map binding_bytes (output_bindings y)) g"

lemma pipe_input_ok:
  assumes "same_core y0 y" "buffers_ok y ds hs g"
  shows "run_to (faults ok) (\<lambda>(y', g'). same_core y0 y' \<and> buffers_ok y' (ds @ [binding_bytes b]) hs g' \<and> kept g g')
    (pipe_input ok b (y, g))"
proof -
  have "run_to (faults ok) (\<lambda>(y', g'). same_core y0 y' \<and> buffers_ok y' (ds @ [binding_bytes b]) hs g' \<and> kept g g')
      (tryE (cuda_alloc ok Device (binding_bytes b) g)
        (\<lambda>(d, g'). Inr (y\<lparr>device_ptrs := device_ptrs y @ [d], y_shape := b_dims b\<rparr>, g')))"
    by (rule run_tryE [OF alloc_ok(1) [OF assms(2)]])
      (use assms(1) in \<open>auto simp: kept_def same_core_def buffers_ok_def\<close>)
  then show ?thesis by (simp add: pipe_input_def)
qed

lemma pipe_output_ok:
  assumes "same_core y0 y" "buffers_ok y ds hs g"
  shows "run_to (faults ok) (\<lambda>(y', g'). same_core y0 y' \<and> buffers_ok y' (ds @ [binding_bytes b]) (hs @ [binding_bytes b]) g' \<and> kept g g')
    (pipe_output ok b (y, g))"
proof -
  have "run_to (faults ok) (\<lambda>(y', g'). same_core y0 y' \<and> buffers_ok y' (ds @ [binding_bytes b]) (hs @ [binding_bytes b]) g' \<and> kept g g')
      (tryE (cuda_alloc ok Device (binding_bytes b) g) (\<lambda>(d, g'). tryE (cuda_alloc ok Host (binding_bytes b) g') (\<lambda>(h, g'').
        Inr (y\<lparr>device_ptrs := device_ptrs y @ [d], host_ptrs := host_ptrs y @ [h]\<rparr>, g''))))"
  proof (rule run_tryE [OF alloc_ok(1) [OF assms(2)]], clarify)
    fix d g' assume g': "buffers_ok (y\<lparr>device_ptrs := device_ptrs y @ [d]\<rparr>) (ds @ [binding_bytes b]) hs g'" "kept g g'"
    show "run_to (faults ok) (\<lambda>(y', g'). same_core y0 y' \<and> buffers_ok y' (ds @ [binding_bytes b]) (hs @ [binding_bytes b]) g' \<and> kept g g')
        (tryE (cuda_alloc ok Host (binding_bytes b) g')
          (\<lambda>(h, g''). Inr (y\<lparr>device_ptrs := device_ptrs y @ [d], host_ptrs := host_ptrs y @ [h]\<rparr>, g'')))"
      by (rule run_tryE [OF alloc_ok(2) [OF g'(1)]]) (use assms(1) g'(2) in \<open>auto simp: kept_def same_core_def\<close>)
  qed
  then show ?thesis by (simp add: pipe_output_def)
qed

text \<open>The set-up of the buffers, before the warm-up.\<close>

lemma pipe_buffers:
  assumes "counts_ok y" "buffers_ok y [] [] g"
  shows "run_to (faults (checked cu)) (\<lambda>(y', g'). same_core y y' \<and> pipe_ok y' g' \<and> kept g g') (make_pipe cu net False y g)"
proof -
  let ?P = "\<lambda>bs (y', g'). same_core y y' \<and> buffers_ok y' (map binding_bytes bs) [] g' \<and> kept g g'"
  let ?Q = "\<lambda>bs (y', g'). same_core y y' \<and> buffers_ok y' (map binding_bytes (input_bindings y @ bs)) (map binding_bytes bs) g'
      \<and> kept g g'"
  have ins: "run_to (faults (checked cu)) (?P (input_bindings y)) (each (pipe_input (checked cu)) (input_bindings y) (y, g))"
  proof (rule run_each_prefix)
    show "?P [] (y, g)" using assms(2) by (simp add: kept_def same_core_def)
  next
    fix bs b cs and yg :: "yolov8 \<times> gpu"
    assume "?P bs yg"
    then show "run_to (faults (checked cu)) (?P (bs @ [b])) (pipe_input (checked cu) b yg)"
      by (cases yg) (auto simp: kept_def intro: run_weaken [OF pipe_input_ok])
  qed
  have outs: "run_to (faults (checked cu)) (?Q (output_bindings y)) (each (pipe_output (checked cu)) (output_bindings y) yg)"
    if "?P (input_bindings y) yg" for yg
  proof (rule run_each_prefix)
    show "?Q [] yg" using that by auto
  next
    fix bs b cs and yg :: "yolov8 \<times> gpu"
    assume "?Q bs yg"
    then show "run_to (faults (checked cu)) (?Q (bs @ [b])) (pipe_output (checked cu) b yg)"
      by (cases yg) (auto simp: kept_def intro: run_weaken [OF pipe_output_ok] simp flip: append_assoc)
  qed
  show ?thesis
    unfolding make_pipe_def if_False
  proof (rule run_tryE [OF ins], rule run_tryE [OF outs], assumption)
    fix v assume "?Q (output_bindings y) v"
    then show "run_to (faults (checked cu)) (\<lambda>(y', g'). same_core y y' \<and> pipe_ok y' g' \<and> kept g g') (case v of (y, g) \<Rightarrow> Inr (y, g))"
      using assms(1) by (cases v) (auto simp: pipe_ok_def same_core_def counts_ok_def)
  qed
qed

section \<open>Copies\<close>

text \<open>A copy changes no memory; a run of the network only the contents of the output buffers.\<close>

definition same_memory :: "gpu \<Rightarrow> gpu \<Rightarrow> bool" where
  "same_memory g g' \<longleftrightarrow> gp_mem g' = gp_mem g \<and> gp_next g' = gp_next g \<and> gp_events g' = gp_events g"

definition same_state :: "gpu \<Rightarrow> gpu \<Rightarrow> bool" where
  "same_state g g' \<longleftrightarrow> same_memory g g' \<and> gp_runs g' = gp_runs g \<and> gp_dev g' = gp_dev g"

lemma same_memory_pipe: "same_memory g g' \<Longrightarrow> pipe_ok y g' = pipe_ok y g"
  by (simp add: same_memory_def pipe_ok_def buffers_ok_def)

lemma same_state_pipe: "same_state g g' \<Longrightarrow> pipe_ok y g' = pipe_ok y g"
  by (simp add: same_state_def same_memory_pipe)

lemma same_state_refl [simp]: "same_state g g" "same_memory g g"
  by (simp_all add: same_state_def same_memory_def)

lemma same_state_trans: "same_state g g' \<Longrightarrow> same_state g' g'' \<Longrightarrow> same_state g g''"
  by (simp add: same_state_def same_memory_def)

lemma CHECK_runs: "run_to (faults ok) (same_state g) (CHECK ok g)"
  by (simp add: CHECK_def same_state_def same_memory_def)

lemma pipe_device:
  assumes "pipe_ok y g" "i < length (input_bindings y @ output_bindings y)"
  shows "i < length (device_ptrs y)" "gp_mem g (device_ptrs y ! i) = Some (Device, binding_bytes ((input_bindings y @ output_bindings y) ! i))"
proof -
  have l: "list_all2 (\<lambda>p n. gp_mem g p = Some (Device, n)) (device_ptrs y) (map binding_bytes (input_bindings y @ output_bindings y))"
    using assms(1) unfolding pipe_ok_def buffers_ok_def by blast
  then show i: "i < length (device_ptrs y)" using assms(2) by (auto dest: list_all2_lengthD)
  show "gp_mem g (device_ptrs y ! i) = Some (Device, binding_bytes ((input_bindings y @ output_bindings y) ! i))"
    using list_all2_nthD [OF l i] assms(2) by (simp only: nth_map)
qed

lemma pipe_host:
  assumes "pipe_ok y g" "i < length (output_bindings y)"
  shows "i < length (host_ptrs y)" "gp_mem g (host_ptrs y ! i) = Some (Host, binding_bytes (output_bindings y ! i))"
proof -
  have l: "list_all2 (\<lambda>p n. gp_mem g p = Some (Host, n)) (host_ptrs y) (map binding_bytes (output_bindings y))"
    using assms(1) unfolding pipe_ok_def buffers_ok_def by blast
  then show i: "i < length (host_ptrs y)" using assms(2) by (auto dest: list_all2_lengthD)
  show "gp_mem g (host_ptrs y ! i) = Some (Host, binding_bytes (output_bindings y ! i))"
    using list_all2_nthD [OF l i] assms(2) by simp
qed

lemma copy_out_ok:
  assumes "pipe_ok y g" "i < num_outputs y"
  shows "run_to (faults ok) (same_state g) (copy_out ok y i g)"
proof -
  have i: "i < length (output_bindings y)" "num_inputs y = length (input_bindings y)"
    using assms by (simp_all add: pipe_ok_def counts_ok_def)
  have j: "i + num_inputs y < length (input_bindings y @ output_bindings y)"
    "(input_bindings y @ output_bindings y) ! (i + num_inputs y) = output_bindings y ! i"
    using i by (simp_all add: nth_append)
  note h = pipe_host [OF assms(1) i(1)] and d = pipe_device [OF assms(1) j(1), unfolded j(2)]
  show ?thesis
    using i(1) h d CHECK_runs by (simp add: copy_out_def elem_def touch_def)
qed

lemma copies_out_ok:
  assumes "pipe_ok y g"
  shows "run_to (faults ok) (same_state g) (each (copy_out ok y) [0..<num_outputs y] g)"
proof (rule run_each)
  fix i and g' assume "i \<in> set [0..<num_outputs y]" "same_state g g'"
  then show "run_to (faults ok) (same_state g) (copy_out ok y i g')"
    using copy_out_ok [of y g' i ok] assms by (auto intro: run_weaken same_state_trans simp: same_state_pipe)
qed simp

text \<open>
  What the network answers fits the buffers: at most \<open>m\<close> detections, all of them there. The output buffers on the device hold such an
  answer, or nobody has queued a run yet.
\<close>

definition answer_fits :: "nat \<Rightarrow> det_outputs \<Rightarrow> bool" where
  "answer_fits m o4 \<longleftrightarrow> (\<exists>n ns. out_dets o4 = n # ns \<and> nat n \<le> m \<and> nat n * 4 \<le> length (out_boxes o4) \<and> nat n \<le> length (out_scores o4)
     \<and> nat n \<le> length (out_labels o4) \<and> (\<forall>l\<in>set (take (nat n) (out_labels o4)). 0 \<le> l \<and> l < 80))"

definition net_ok :: "nat \<Rightarrow> (fl option list \<Rightarrow> det_outputs) \<Rightarrow> bool" where
  "net_ok m net \<longleftrightarrow> (\<forall>t. answer_fits m (net t))"

definition holds_answer :: "nat \<Rightarrow> det_outputs option \<Rightarrow> bool" where
  "holds_answer m v \<longleftrightarrow> (\<exists>o4. v = Some o4 \<and> answer_fits m o4)"

text \<open>The ignored calls that matter: the first run of the network is queued, and every wait succeeds.\<close>

definition runs_ok :: "cuda \<Rightarrow> bool" where
  "runs_ok cu \<longleftrightarrow> enqueued cu 0 \<and> (\<forall>k. synced cu k)"

definition answered_before :: "nat \<Rightarrow> gpu \<Rightarrow> bool" where
  "answered_before m g \<longleftrightarrow> gp_runs g = 0 \<or> holds_answer m (gp_dev g)"

lemma det_infer_ok:
  assumes "pipe_ok y g" "net_ok m net" "runs_ok cu" "answered_before m g"
  shows "run_to (faults (checked cu)) (\<lambda>g'. same_memory g g' \<and> holds_answer m (gp_dev g') \<and> holds_answer m (gp_host g'))
    (det_infer cu net t y g)"
proof -
  let ?g = "g\<lparr>gp_runs := Suc (gp_runs g), gp_dev := if enqueued cu (gp_runs g) then Some (net t) else gp_dev g\<rparr>"
  have "same_memory g ?g" by (simp add: same_memory_def)
  then have p: "pipe_ok y ?g" using assms(1) by (simp add: same_memory_pipe)
  have "holds_answer m (gp_dev ?g)"
    using assms(2-4) by (cases "gp_runs g") (auto simp: net_ok_def runs_ok_def answered_before_def holds_answer_def)
  then have h: "same_state ?g g' \<Longrightarrow> same_memory g (g'\<lparr>gp_host := if synced cu (gp_runs g) then gp_dev g' else None\<rparr>)
      \<and> holds_answer m (gp_dev g') \<and> holds_answer m (if synced cu (gp_runs g) then gp_dev g' else None)" for g'
    using assms(3) by (simp add: same_state_def same_memory_def runs_ok_def)
  show ?thesis
    unfolding det_infer_def Let_def by (rule run_tryE [OF copies_out_ok [OF p]]) (use h in simp)
qed

lemma copy_in_ok:
  assumes "pipe_ok y g" "input_bindings y \<noteq> []" "n \<le> binding_bytes (hd (input_bindings y))"
  shows "run_to (faults ok) (same_state g) (copy_in ok n y g)"
proof -
  note d = pipe_device [OF assms(1), of 0]
  have "(input_bindings y @ output_bindings y) ! 0 = hd (input_bindings y)" using assms(2) by (cases "input_bindings y") auto
  then show ?thesis
    using d assms(2,3) CHECK_runs by (simp add: copy_in_def elem_def touch_def)
qed

text \<open>The warm-up copies every input to the first buffer, so no input may be larger than the first.\<close>

definition first_largest :: "binding list \<Rightarrow> bool" where
  "first_largest bs \<longleftrightarrow> (\<forall>b\<in>set bs. binding_bytes b \<le> binding_bytes (hd bs))"

lemma warm_up_ok:
  assumes "pipe_ok y g" "first_largest (input_bindings y)" "net_ok m net" "runs_ok cu" "gp_runs g = 0"
  shows "run_to (faults (checked cu)) (\<lambda>g'. same_memory g g' \<and> holds_answer m (gp_dev g')) (warm_up cu net y g)"
proof -
  let ?P = "\<lambda>ys g'. same_memory g g' \<and> (if ys = [] then gp_runs g' = 0 else holds_answer m (gp_dev g'))"
  have "run_to (faults (checked cu)) (?P [0..<10]) (warm_up cu net y g)"
    unfolding warm_up_def
  proof (rule run_each_prefix)
    show "?P [] g" using assms(5) by simp
  next
    fix ys zs :: "nat list" and i :: nat and g1 assume P: "?P ys g1"
    have p1: "pipe_ok y g1" using P assms(1) same_memory_pipe [of g g1 y] by simp
    have "run_to (faults (checked cu)) (same_state g1) (each (\<lambda>b. copy_in (checked cu) (binding_bytes b) y) (input_bindings y) g1)"
    proof (rule run_each)
      fix b g2 assume b: "b \<in> set (input_bindings y)" "same_state g1 g2"
      then have "binding_bytes b \<le> binding_bytes (hd (input_bindings y))" "input_bindings y \<noteq> []"
        using assms(2) by (auto simp: first_largest_def)
      then show "run_to (faults (checked cu)) (same_state g1) (copy_in (checked cu) (binding_bytes b) y g2)"
        using copy_in_ok [of y g2 "binding_bytes b" "checked cu"] b(2) p1 by (auto intro: run_weaken same_state_trans simp: same_state_pipe)
    qed simp
    then show "run_to (faults (checked cu)) (?P (ys @ [i]))
        (tryE (each (\<lambda>b. copy_in (checked cu) (binding_bytes b) y) (input_bindings y) g1) (det_infer cu net (warm_tensor y) y))"
    proof (rule run_tryE)
      fix g2 assume s: "same_state g1 g2"
      then have "answered_before m g2" using P by (auto simp: answered_before_def same_state_def split: if_splits)
      from det_infer_ok [OF _ assms(3,4) this, of y "warm_tensor y"] p1 same_state_pipe [OF s, of y]
      have "run_to (faults (checked cu)) (\<lambda>g'. same_memory g2 g' \<and> holds_answer m (gp_dev g') \<and> holds_answer m (gp_host g'))
          (det_infer cu net (warm_tensor y) y g2)" by simp
      then show "run_to (faults (checked cu)) (?P (ys @ [i])) (det_infer cu net (warm_tensor y) y g2)"
        by (rule run_weaken) (use P s in \<open>simp add: same_state_def same_memory_def\<close>)
    qed
  qed
  then show ?thesis by (rule run_weaken) simp
qed

lemma make_pipe_ok:
  assumes "counts_ok y" "buffers_ok y [] [] g" "first_largest (input_bindings y)" "net_ok m net" "runs_ok cu" "gp_runs g = 0"
  shows "run_to (faults (checked cu)) (\<lambda>(y', g'). same_core y y' \<and> pipe_ok y' g' \<and> gp_events g' = gp_events g \<and> holds_answer m (gp_dev g'))
    (make_pipe cu net True y g)"
proof -
  have eq: "make_pipe cu net True y g = tryE (make_pipe cu net False y g) (\<lambda>(y, g). tryE (warm_up cu net y g) (\<lambda>g. Inr (y, g)))"
    by (simp add: make_pipe_def tryE_def split: sum.split)
  have "run_to (faults (checked cu)) (\<lambda>(y', g'). same_core y y' \<and> pipe_ok y' g' \<and> gp_events g' = gp_events g \<and> holds_answer m (gp_dev g'))
      (tryE (warm_up cu net y1 g1) (\<lambda>g. Inr (y1, g)))"
    if a: "same_core y y1" "pipe_ok y1 g1" "kept g g1" for y1 g1
  proof -
    have "first_largest (input_bindings y1)" "gp_runs g1 = 0" using a(1,3) assms(3,6) by (simp_all add: same_core_def kept_def)
    from warm_up_ok [OF a(2) this(1) assms(4,5) this(2)] show ?thesis
    proof (rule run_tryE)
      fix g2 assume g2: "same_memory g1 g2 \<and> holds_answer m (gp_dev g2)"
      then have "pipe_ok y1 g2" using a(2) same_memory_pipe [of g1 g2 y1] by simp
      then show "run_to (faults (checked cu)) (\<lambda>(y', g'). same_core y y' \<and> pipe_ok y' g' \<and> gp_events g' = gp_events g \<and> holds_answer m (gp_dev g')) (Inr (y1, g2))"
        using a(1,3) g2 by (simp add: same_memory_def kept_def)
    qed
  qed
  then show ?thesis unfolding eq by (intro run_tryE [OF pipe_buffers [OF assms(1,2)]]) auto
qed

section \<open>Opening and closing\<close>

definition handles_of :: "yolov8 \<Rightarrow> handles" where
  "handles_of y = {(Runtime, y_runtime y), (Engine, y_engine y), (Context, y_context y)}
     \<union> held Stream (y_stream y)"

text \<open>The binding the constructor makes, when its size is an \<open>int\<close>.\<close>

definition binding_of :: "io_binding \<Rightarrow> int \<Rightarrow> binding" where
  "binding_of io n = \<lparr>b_size = word_of_int n, b_dsize = type_to_size (io_type io), b_dims = io_dims io, b_name = io_name io\<rparr>"

definition binds :: "io_binding \<Rightarrow> binding \<Rightarrow> bool" where
  "binds io b \<longleftrightarrow> (\<exists>n. get_size_by_dims (io_dims io) = Inr n \<and> b = binding_of io n)"

lemma no_access: "run_to {Undefined} (\<lambda>_. True) (get_size_by_dims ds)"
  unfolding get_size_by_dims_def by (rule run_each) auto

lemma bindings_ok:
  assumes "counts_ok y" "input_bindings y = []" "output_bindings y = []"
  shows "run_to (if \<forall>io\<in>set ios. \<exists>n. get_size_by_dims (io_dims io) = Inr n then {} else {Undefined})
    (\<lambda>y'. counts_ok y' \<and> list_all2 binds (filter io_input ios) (input_bindings y')
      \<and> list_all2 binds (filter (\<lambda>io. \<not> io_input io) ios) (output_bindings y') \<and> device_ptrs y' = device_ptrs y
      \<and> host_ptrs y' = host_ptrs y \<and> handles_of y' = handles_of y) (each add_binding ios y)"
proof (rule run_each_prefix)
  show "counts_ok y \<and> list_all2 binds (filter io_input []) (input_bindings y)
      \<and> list_all2 binds (filter (\<lambda>io. \<not> io_input io) []) (output_bindings y) \<and> device_ptrs y = device_ptrs y
      \<and> host_ptrs y = host_ptrs y \<and> handles_of y = handles_of y" using assms by simp
next
  fix ys io zs y1
  assume ios: "ios = ys @ io # zs"
  assume a: "counts_ok y1 \<and> list_all2 binds (filter io_input ys) (input_bindings y1)
      \<and> list_all2 binds (filter (\<lambda>io. \<not> io_input io) ys) (output_bindings y1) \<and> device_ptrs y1 = device_ptrs y
      \<and> host_ptrs y1 = host_ptrs y \<and> handles_of y1 = handles_of y"
  show "run_to (if \<forall>io\<in>set ios. \<exists>n. get_size_by_dims (io_dims io) = Inr n then {} else {Undefined})
    (\<lambda>y'. counts_ok y' \<and> list_all2 binds (filter io_input (ys @ [io])) (input_bindings y')
      \<and> list_all2 binds (filter (\<lambda>io. \<not> io_input io) (ys @ [io])) (output_bindings y') \<and> device_ptrs y' = device_ptrs y
      \<and> host_ptrs y' = host_ptrs y \<and> handles_of y' = handles_of y) (add_binding io y1)"
  proof (cases "get_size_by_dims (io_dims io)")
    case (Inl e)
    moreover have "e = Undefined" using no_access [of "io_dims io"] Inl by simp
    ultimately show ?thesis using ios by (auto simp: add_binding_def)
  next
    case (Inr n)
    then have "binds io (binding_of io n)" by (simp add: binds_def)
    then show ?thesis using a Inr
      by (auto simp: add_binding_def counts_ok_def handles_of_def binding_of_def intro!: list_all2_appendI)
  qed
qed

text \<open>What can stop the constructor: without assertions, a null pointer of TensorRT is used.\<close>

definition null_handle :: "trt_lib \<Rightarrow> bytes option \<Rightarrow> bool" where
  "null_handle trt planfile \<longleftrightarrow> \<not> lib_asserts trt
     \<and> (\<exists>model. planfile = Some model \<and> (\<not> lib_runtime trt \<or> lib_engine trt model = None \<or> \<not> lib_context trt))"

definition hurdles :: "trt_lib \<Rightarrow> bytes option \<Rightarrow> stop set" where
  "hurdles trt planfile =
     (if \<exists>model ios. planfile = Some model \<and> lib_runtime trt \<and> lib_context trt \<and> lib_engine trt model = Some ios
           \<and> (\<forall>io\<in>set ios. \<exists>n. get_size_by_dims (io_dims io) = Inr n) then {}
      else {AssertFailed, Undefined, Aborted} \<union> (if null_handle trt planfile then {BadAccess} else {}))"

lemma yolov8_new_ok:
  shows "run_to (hurdles trt planfile) (\<lambda>(y, g). counts_ok y \<and> buffers_ok y [] [] g \<and> gp_runs g = 0 \<and> res_ok (gp_events g) (handles_of y)
      \<and> (\<exists>model ios. planfile = Some model \<and> lib_engine trt model = Some ios \<and> list_all2 binds (filter io_input ios) (input_bindings y)
         \<and> list_all2 binds (filter (\<lambda>io. \<not> io_input io) ios) (output_bindings y))) (yolov8_new cu trt planfile gpu_new)"
proof -
  let ?P = "\<lambda>(ios, y, g). counts_ok y \<and> input_bindings y = [] \<and> output_bindings y = [] \<and> buffers_ok y [] [] g \<and> gp_runs g = 0
      \<and> res_ok (gp_events g) (handles_of y) \<and> (\<exists>model. planfile = Some model \<and> lib_engine trt model = Some ios)"
  have op: "run_to (hurdles trt planfile) ?P (yolov8_open cu trt planfile gpu_new)"
  proof (cases planfile)
    case None
    then show ?thesis by (simp add: yolov8_open_def failed_assert_def hurdles_def)
  next
    case (Some model)
    show ?thesis
    proof (cases "lib_engine trt model")
      case None
      then show ?thesis by (simp add: yolov8_open_def failed_assert_def Some acquire_def hurdles_def null_handle_def)
    next
      case ios: (Some ios)
      have "res_ok [Acquire Runtime 0, Acquire Engine 1, Acquire Context 2, Acquire Stream 3]
          {(Runtime, 0), (Engine, 1), (Context, 2), (Stream, 3)}"
        "res_ok [Acquire Runtime 0, Acquire Engine 1, Acquire Context 2] {(Runtime, 0), (Engine, 1), (Context, 2)}"
        by (auto simp: res_ok_def usage_def use_step_def)
      then show ?thesis
        by (simp add: yolov8_open_def failed_assert_def null_handle_def insert_commute Some ios acquire_def gpu_new_def counts_ok_def buffers_ok_def handles_of_def eval_nat_numeral hurdles_def)
    qed
  qed
  show ?thesis
    unfolding yolov8_new_def
  proof (rule run_tryE [OF op], clarify)
    fix ios y g model
    assume a: "counts_ok y" "input_bindings y = []" "output_bindings y = []" "buffers_ok y [] [] g" "res_ok (gp_events g) (handles_of y)" "gp_runs g = 0"
      "planfile = Some model" "lib_engine trt model = Some ios"
    have e: "(if \<forall>io\<in>set ios. \<exists>n. get_size_by_dims (io_dims io) = Inr n then {} else {Undefined}) \<subseteq> hurdles trt (Some model)"
      using a(8) by (auto simp: hurdles_def)
    show "run_to (hurdles trt (Some model)) (\<lambda>(y, g). counts_ok y \<and> buffers_ok y [] [] g \<and> gp_runs g = 0 \<and> res_ok (gp_events g) (handles_of y)
      \<and> (\<exists>m ios. Some model = Some m \<and> lib_engine trt m = Some ios \<and> list_all2 binds (filter io_input ios) (input_bindings y)
         \<and> list_all2 binds (filter (\<lambda>io. \<not> io_input io) ios) (output_bindings y))) (tryE (each add_binding ios y) (\<lambda>y. Inr (y, g)))"
      by (rule run_tryE [OF run_mono [OF bindings_ok [OF a(1-3)] e]]) (use a in \<open>auto simp: buffers_ok_def\<close>)
  qed
qed

text \<open>Freeing the buffers of one kind, each of them once.\<close>

lemma free_ok:
  assumes "\<forall>p\<in>set ps. \<exists>n. gp_mem g p = Some (pl, n)" "distinct ps"
  shows "run_to (faults ok) (\<lambda>g'. gp_mem g' = gp_mem g |` (- set ps) \<and> gp_events g' = gp_events g) (each (cuda_free ok pl) ps g)"
proof (rule run_each_prefix)
  show "gp_mem g = gp_mem g |` (- set []) \<and> gp_events g = gp_events g" by (auto simp: restrict_map_def)
next
  fix ys p zs and g' :: gpu
  assume ps: "ps = ys @ p # zs" and g': "gp_mem g' = gp_mem g |` (- set ys) \<and> gp_events g' = gp_events g"
  obtain n where "gp_mem g p = Some (pl, n)" using assms(1) ps by auto
  moreover have "p \<notin> set ys" using assms(2) ps by simp
  ultimately have "gp_mem g' p = Some (pl, n)" using g' by (simp add: restrict_map_def)
  then show "run_to (faults ok) (\<lambda>g'. gp_mem g' = gp_mem g |` (- set (ys @ [p])) \<and> gp_events g' = gp_events g) (cuda_free ok pl p g')"
    using g' by (auto simp: cuda_free_def CHECK_def restrict_map_def)
qed

lemma destroy_ok:
  assumes "pipe_ok y g" "res_ok (gp_events g) (handles_of y)"
  shows "run_to (faults ok) (\<lambda>g'. gp_mem g' = (\<lambda>_. None) \<and> res_ok (gp_events g') {}) (yolov8_destroy ok y g)"
proof -
  let ?g = "yolov8_release y g"
  have b: "list_all2 (\<lambda>p n. gp_mem g p = Some (Device, n)) (device_ptrs y) (map binding_bytes (input_bindings y @ output_bindings y))"
    "list_all2 (\<lambda>p n. gp_mem g p = Some (Host, n)) (host_ptrs y) (map binding_bytes (output_bindings y))"
    "distinct (device_ptrs y @ host_ptrs y)" "dom (gp_mem g) = set (device_ptrs y) \<union> set (host_ptrs y)"
    using assms(1) unfolding pipe_ok_def buffers_ok_def by blast+
  have ev: "res_ok (gp_events ?g) {}"
  proof -
    let ?S = "held Stream (y_stream y)"
    have "res_ok (release Context (Some (y_context y)) (gp_events g)) (handles_of y - {(Context, y_context y)})"
      using res_ok_release [OF assms(2), of Context "Some (y_context y)"] by (simp add: handles_of_def)
    from res_ok_release [OF this, of Engine "Some (y_engine y)"]
    have "res_ok (release Engine (Some (y_engine y)) (release Context (Some (y_context y)) (gp_events g)))
        (insert (Runtime, y_runtime y) ?S)" by (auto simp: handles_of_def insert_Diff_if held_def split: option.splits)
    from res_ok_release [OF this, of Runtime "Some (y_runtime y)"]
    have "res_ok (release Runtime (Some (y_runtime y)) (release Engine (Some (y_engine y)) (release Context (Some (y_context y)) (gp_events g)))) ?S"
      by (auto simp: insert_Diff_if held_def split: option.splits)
    from res_ok_release [OF this, of Stream "y_stream y"] show ?thesis by (simp add: yolov8_release_def)
  qed
  have d: "\<forall>p\<in>set (device_ptrs y). \<exists>n. gp_mem ?g p = Some (Device, n)"
    using b(1) by (fastforce simp: yolov8_release_def list_all2_conv_all_nth in_set_conv_nth)
  have h: "\<forall>p\<in>set (host_ptrs y). \<exists>n. gp_mem g p = Some (Host, n)"
    using b(2) by (fastforce simp: list_all2_conv_all_nth in_set_conv_nth)
  show ?thesis
    unfolding yolov8_destroy_def
  proof (rule run_tryE [OF free_ok [OF d]])
    show "distinct (device_ptrs y)" using b(3) by simp
  next
    fix g1 :: gpu assume g1: "gp_mem g1 = gp_mem ?g |` (- set (device_ptrs y)) \<and> gp_events g1 = gp_events ?g"
    have "\<forall>p\<in>set (host_ptrs y). \<exists>n. gp_mem g1 p = Some (Host, n)"
      using h g1 b(3) by (auto simp: yolov8_release_def restrict_map_def)
    from free_ok [OF this, where ok = ok] have "run_to (faults ok) (\<lambda>g'. gp_mem g' = gp_mem g1 |` (- set (host_ptrs y)) \<and> gp_events g' = gp_events g1)
        (each (cuda_free ok Host) (host_ptrs y) g1)" using b(3) by simp
    then show "run_to (faults ok) (\<lambda>g'. gp_mem g' = (\<lambda>_. None) \<and> res_ok (gp_events g') {}) (each (cuda_free ok Host) (host_ptrs y) g1)"
    proof (rule run_weaken)
      fix g2 :: gpu assume "gp_mem g2 = gp_mem g1 |` (- set (host_ptrs y)) \<and> gp_events g2 = gp_events g1"
      moreover have "gp_mem g p = None" if "p \<notin> set (device_ptrs y)" "p \<notin> set (host_ptrs y)" for p
        using b(4) that by blast
      ultimately show "gp_mem g2 = (\<lambda>_. None) \<and> res_ok (gp_events g2) {}"
        using g1 ev by (auto simp: yolov8_release_def restrict_map_def)
    qed
  qed
qed

end
