(* ===== verification/Detect_Run.thy ===== *)
theory Detect_Run
  imports Detect_Props Yolo_Pre
begin

text \<open>
  The stand-alone detector on pictures: the letterbox fills the input exactly, boxes lie in the picture, labels fit their
  buffer, and a whole run is memory-safe and releases what it took. Also what it does with directories and with pictures
  that cannot be scaled.
\<close>

section \<open>Pictures\<close>

text \<open>What OpenCV documents: a resize to an empty size throws, and a border adds its margins.\<close>

definition mat_ok :: "cv_mat \<Rightarrow> bool" where
  "mat_ok m \<longleftrightarrow> 0 < mat_rows m \<and> 0 < mat_cols m \<and> length (mat_px m) = nat (mat_rows m * mat_cols m)"

definition cv_doc :: "opencv \<Rightarrow> bool" where
  "cv_doc cv \<longleftrightarrow>
     (\<forall>im w h. mat_ok im \<longrightarrow> (case cv_resize cv im (w, h) of
        None \<Rightarrow> w \<le> 0 \<or> h \<le> 0
      | Some m \<Rightarrow> mat_ok m \<and> mat_cols m = w \<and> mat_rows m = h))
     \<and> (\<forall>im t b l r v m. cv_border cv im t b l r v = Some m \<longrightarrow> mat_ok m)
     \<and> (\<forall>im t b l r v. mat_ok im \<and> 0 \<le> t \<and> 0 \<le> b \<and> 0 \<le> l \<and> 0 \<le> r \<longrightarrow>
          (\<exists>m. cv_border cv im t b l r v = Some m \<and> mat_rows m = mat_rows im + t + b \<and> mat_cols m = mat_cols im + l + r))"

lemma write_plane_length:
  "mat_ok m \<Longrightarrow> length vs = length (mat_px m) \<Longrightarrow> k < 3 \<Longrightarrow> length out = 3 * nat (h * w)
    \<Longrightarrow> length (write_plane h w k m vs out) = 3 * nat (h * w)"
proof -
  assume a: "mat_ok m" "length vs = length (mat_px m)" "k < 3" "length out = 3 * nat (h * w)"
  then have "Suc k * nat (h * w) \<le> 3 * nat (h * w)" by (intro mult_right_mono) auto
  then show ?thesis using a by (auto simp: write_plane_def mat_ok_def)
qed

lemma write_planes_length: "mat_ok m \<Longrightarrow> length (write_planes cv h w m) = 3 * nat (h * w)"
  by (simp add: write_planes_def Let_def write_plane_length)

lemma write_planes_eq:
  assumes "mat_ok m" "mat_rows m = h" "mat_cols m = w"
  shows "write_planes cv h w m = map Some (map (\<lambda>(b, g, r). cv_convert cv (fdiv (Fin 1) (Fin 255)) r) (mat_px m)
    @ map (\<lambda>(b, g, r). cv_convert cv (fdiv (Fin 1) (Fin 255)) g) (mat_px m)
    @ map (\<lambda>(b, g, r). cv_convert cv (fdiv (Fin 1) (Fin 255)) b) (mat_px m))"
  using assms by (simp add: write_planes_def write_plane_def mat_ok_def Let_def)

lemma run_defined: "Undefined \<in> E \<Longrightarrow> (\<And>x. v = Some x \<Longrightarrow> run_to E P (k x)) \<Longrightarrow> run_to E P (tryE (defined v) k)"
  by (cases v) (simp_all add: defined_def)

lemma run_throw: "CvException \<in> E \<Longrightarrow> (\<And>x. v = Some x \<Longrightarrow> run_to E P (k x)) \<Longrightarrow> run_to E P (tryE (or_throw v) k)"
  by (cases v) (simp_all add: or_throw_def)

subsection \<open>The letterbox fills the input\<close>

text \<open>A picture within the limits whose scaled sides are not empty.\<close>

definition picture_ok :: "cv_mat \<Rightarrow> bool" where
  "picture_ok im \<longleftrightarrow> mat_ok im \<and> side_ok (mat_rows im) \<and> side_ok (mat_cols im)
     \<and> (\<forall>k\<in>{mat_rows im, mat_cols im}. \<forall>n. det_scaled k (det_scale im (640, 640)) = Inr n \<longrightarrow> 0 < n)"

lemma scaled_ok:
  assumes "side_ok (mat_rows im)" "side_ok (mat_cols im)" "k \<in> {mat_rows im, mat_cols im}"
  shows "\<exists>n. det_scaled k (det_scale im (640, 640)) = Inr n \<and> 0 \<le> n \<and> n \<le> 640"
proof -
  have s: "det_scale im (640, 640) = letterbox_scale (mat_rows im) (mat_cols im)"
    by (simp add: det_scale_def letterbox_scale_def kInputWidth_def kInputHeight_def)
  obtain q where q: "letterbox_scale (mat_rows im) (mat_cols im) = Fin q" "1 / 20 \<le> q"
    "q * rat_of (mat_rows im) \<le> 640 * (1 + 1 / 2 ^ 20)" "q * rat_of (mat_cols im) \<le> 640 * (1 + 1 / 2 ^ 20)"
    using letterbox_scale_ok [OF assms(1,2)] by blast
  then obtain n where "resized k (Fin q) = Some n" "0 \<le> n" "n \<le> 640"
    using resized_ok [of k q] assms by (elim insertE) auto
  then show ?thesis by (intro exI [of _ n]) (simp add: s q(1) det_scaled_def resized_def defined_def)
qed

lemma round_near:
  fixes m :: int and z c :: rat
  assumes "0 \<le> m" "m \<le> 640" "\<bar>z - (of_int m / 2 + c)\<bar> \<le> 1 / 100" "c = 1 / 10 \<or> c = - 1 / 10"
  shows "fl_to_int (fl_roundi (Fin z)) = Some (if c < 0 then m div 2 else (m + 1) div 2)"
proof -
  let ?k = "if c < 0 then m div 2 else (m + 1) div 2"
  have k: "0 \<le> ?k" "?k \<le> 320" using assms(1,2) by auto
  have z: "of_int m / 2 + c - 1 / 100 \<le> z" "z \<le> of_int m / 2 + c + 1 / 100" using assms(3) by linarith+
  have "\<lfloor>z + 1 / 2\<rfloor> = ?k"
  proof (cases "even m")
    case True
    then obtain j where "m = 2 * j" by (elim evenE)
    then have "?k = j" "of_int m / 2 = (of_int j :: rat)" using assms(4) by auto
    then show ?thesis using z assms(4) by (intro floor_unique) linarith+
  next
    case False
    then obtain j where "m = 2 * j + 1" by (elim oddE)
    then have k: "?k = (if c < 0 then j else j + 1)" and m: "of_int m / 2 = (of_int j + 1 / 2 :: rat)" by (auto simp: add_divide_distrib)
    show ?thesis
    proof (cases "c < 0")
      case True
      then have "?k = j" "c = - 1 / 10" using k assms(4) by auto
      then show ?thesis using z unfolding m by (intro floor_unique) linarith+
    next
      case False
      then have kk: "?k = j + 1" and c: "c = 1 / 10" using k assms(4) by auto
      have "rat_of (j + 1) \<le> z + 1 / 2" "z + 1 / 2 < rat_of (j + 1) + 1" using z unfolding m c of_int_add of_int_1 by linarith+
      then show ?thesis unfolding kk by (rule floor_unique)
    qed
  qed
  moreover have "\<lfloor>- z + 1 / 2\<rfloor> = 0 \<and> m = 0 \<and> c < 0" if "z < 0"
  proof -
    have "of_int m / 2 + c < (1 / 100 :: rat)" using z(1) that by linarith
    then have m: "m = 0" "c < 0" using assms(1,4) by auto
    then show ?thesis using z that assms(4) by (intro conjI floor_unique) auto
  qed
  ultimately show ?thesis using k by (auto simp: Let_def)
qed

lemma margins_ok:
  assumes "0 \<le> n" "n \<le> 640"
  shows "margins (fdiv (fsub (fint 640) (fint n)) (Fin 2)) = Inr ((640 - n) div 2, (641 - n) div 2)"
proof -
  let ?m = "640 - n"
  have near: "\<exists>y. fl_round binary32 x = Fin y \<and> \<bar>y - x\<bar> \<le> 1 / 1000" if "\<bar>x\<bar> \<le> 1000" for x
  proof -
    have "\<bar>x\<bar> \<le> 2 ^ 100" using that by (rule order_trans) simp
    from fl_round32_err [OF this] obtain y where y: "fl_round binary32 x = Fin y" "\<bar>y - x\<bar> \<le> \<bar>x\<bar> / 2 ^ 24 + 1 / 2 ^ 150" by blast
    have "\<bar>x\<bar> / 2 ^ 24 \<le> 1000 / 2 ^ 24" using that by (rule divide_right_mono) simp
    then have "\<bar>y - x\<bar> \<le> 1000 / 2 ^ 24 + 1 / 2 ^ 150" using y(2) by linarith
    also have "\<dots> \<le> 1 / 1000" by simp
    finally show ?thesis using y(1) by blast
  qed
  have "fint 640 = Fin 640" "fint n = Fin (rat_of n)" "fint ?m = Fin (rat_of ?m)"
    using fl_of_int_exact [of 640] fl_of_int_exact [of n] fl_of_int_exact [of ?m] assms by simp_all
  then have sub: "fsub (fint 640) (fint n) = Fin (rat_of ?m)" by (simp add: fl_sub_def fl_of_int_def)
  define M where "M = rat_of ?m"
  have m: "0 \<le> M" "M \<le> 640" using assms by (simp_all add: M_def)
  obtain d where d: "fl_round binary32 (M / 2) = Fin d" "\<bar>d - M / 2\<bar> \<le> 1 / 1000"
    using near [of "M / 2"] m by auto
  obtain t where t: "tenth = Fin t" "\<bar>t - 1 / 10\<bar> \<le> 1 / 1000" using near [of "1 / 10"] by (auto simp: tenth_def)
  have "\<bar>d - t\<bar> \<le> 1000" "\<bar>d + t\<bar> \<le> 1000" using d(2) t(2) m by linarith+
  obtain a where a: "fl_round binary32 (d - t) = Fin a" "\<bar>a - (d - t)\<bar> \<le> 1 / 1000" using near [OF \<open>\<bar>d - t\<bar> \<le> 1000\<close>] by blast
  obtain b where b: "fl_round binary32 (d + t) = Fin b" "\<bar>b - (d + t)\<bar> \<le> 1 / 1000" using near [OF \<open>\<bar>d + t\<bar> \<le> 1000\<close>] by blast
  have "\<bar>a - (M / 2 + - 1 / 10)\<bar> \<le> 1 / 100" "\<bar>b - (M / 2 + 1 / 10)\<bar> \<le> 1 / 100"
    using a(2) b(2) d(2) t(2) by linarith+
  then have "fl_to_int (fl_roundi (Fin a)) = Some (?m div 2)" "fl_to_int (fl_roundi (Fin b)) = Some ((?m + 1) div 2)"
    using round_near [of ?m a "- 1 / 10"] round_near [of ?m b "1 / 10"] assms by (simp_all add: M_def)
  moreover have "fdiv (fsub (fint 640) (fint n)) (Fin 2) = Fin d" using d(1) unfolding sub M_def by simp
  moreover have "fsub (Fin d) tenth = Fin a" "fadd (Fin d) tenth = Fin b" by (simp_all add: t(1) fl_sub_def a(1) b(1))
  ultimately show ?thesis by (simp only: margins_def defined_def option.case tryE_simps) (simp add: algebra_simps)
qed

lemma letterbox_exact:
  assumes "cv_doc cv" "picture_ok im"
  shows "\<exists>m pp. mat_ok m \<and> mat_rows m = 640 \<and> mat_cols m = 640 \<and> det_letterbox cv im (640, 640) = Inr (write_planes cv 640 640 m, pp)
    \<and> pp_height pp = fint (mat_rows im) \<and> pp_width pp = fint (mat_cols im)"
proof -
  have p: "mat_ok im" "side_ok (mat_rows im)" "side_ok (mat_cols im)" using assms(2) by (simp_all add: picture_ok_def)
  obtain pw where pw: "det_scaled (mat_cols im) (det_scale im (640, 640)) = Inr pw" "0 < pw" "pw \<le> 640"
    using scaled_ok [OF p(2,3), of "mat_cols im"] assms(2) by (auto simp: picture_ok_def)
  obtain ph where ph: "det_scaled (mat_rows im) (det_scale im (640, 640)) = Inr ph" "0 < ph" "ph \<le> 640"
    using scaled_ok [OF p(2,3), of "mat_rows im"] assms(2) by (auto simp: picture_ok_def)
  have int: "fl_to_int (fint (mat_cols im)) = Some (mat_cols im)" "fl_to_int (fint (mat_rows im)) = Some (mat_rows im)"
    using p(2,3) fl_of_int_exact [of "mat_cols im"] fl_of_int_exact [of "mat_rows im"] by (auto simp: side_ok_def Let_def)
  have inp: "fl_to_int (fint 640) = Some 640" using fl_of_int_exact [of 640] by (simp add: Let_def)
  obtain tmp where tmp: "(if fl_to_int (fint (mat_cols im)) \<noteq> Some pw \<or> fl_to_int (fint (mat_rows im)) \<noteq> Some ph
      then or_throw (cv_resize cv im (pw, ph)) else Inr im) = Inr tmp" "mat_ok tmp" "mat_cols tmp = pw" "mat_rows tmp = ph"
  proof -
    have "case cv_resize cv im (pw, ph) of None \<Rightarrow> pw \<le> 0 \<or> ph \<le> 0 | Some m \<Rightarrow> mat_ok m \<and> mat_cols m = pw \<and> mat_rows m = ph"
      using assms(1) p(1) unfolding cv_doc_def by blast
    then obtain m where "cv_resize cv im (pw, ph) = Some m" "mat_ok m" "mat_cols m = pw" "mat_rows m = ph"
      using pw(2) ph(2) by (auto split: option.splits)
    then show thesis using p(1) int by (intro that [of "if mat_cols im = pw \<and> mat_rows im = ph then im else m"]) (auto simp: or_throw_def)
  qed
  have "0 \<le> (640 - ph) div 2" "0 \<le> (641 - ph) div 2" "0 \<le> (640 - pw) div 2" "0 \<le> (641 - pw) div 2" using pw(3) ph(3) by simp_all
  moreover have "\<forall>im t b l r v. mat_ok im \<and> 0 \<le> t \<and> 0 \<le> b \<and> 0 \<le> l \<and> 0 \<le> r \<longrightarrow>
      (\<exists>m. cv_border cv im t b l r v = Some m \<and> mat_rows m = mat_rows im + t + b \<and> mat_cols m = mat_cols im + l + r)"
    using assms(1) unfolding cv_doc_def by blast
  ultimately obtain m where m: "cv_border cv tmp ((640 - ph) div 2) ((641 - ph) div 2) ((640 - pw) div 2) ((641 - pw) div 2) (114, 114, 114) = Some m"
    "mat_rows m = ph + (640 - ph) div 2 + (641 - ph) div 2" "mat_cols m = pw + (640 - pw) div 2 + (641 - pw) div 2"
    using tmp(2-4) by blast
  have "mat_ok m" using assms(1) m(1) unfolding cv_doc_def by blast
  moreover have "mat_rows m = 640" "mat_cols m = 640" using m(2,3) by presburger+
  moreover have "margins (fdiv (fsub (fint 640) (fint ph)) (Fin 2)) = Inr ((640 - ph) div 2, (641 - ph) div 2)"
    "margins (fdiv (fsub (fint 640) (fint pw)) (Fin 2)) = Inr ((640 - pw) div 2, (641 - pw) div 2)"
    using margins_ok pw(2,3) ph(2,3) by simp_all
  ultimately show ?thesis
    unfolding det_letterbox_def Let_def fst_conv snd_conv pw(1) ph(1) tryE_simps tmp(1)
    by (intro exI [of _ m]) (simp add: m(1) or_throw_def inp defined_def)
qed

text \<open>So the three planes hold the picture in its border, red first, and nothing of the tensor is left unset.\<close>

theorem letterbox_fills:
  assumes "cv_doc cv" "picture_ok im"
  shows "\<exists>(m :: cv_mat) pp. det_letterbox cv im (640, 640) = Inr (map Some (map (\<lambda>(b, g, r). cv_convert cv (fdiv (Fin 1) (Fin 255)) r) (mat_px m)
      @ map (\<lambda>(b, g, r). cv_convert cv (fdiv (Fin 1) (Fin 255)) g) (mat_px m)
      @ map (\<lambda>(b, g, r). cv_convert cv (fdiv (Fin 1) (Fin 255)) b) (mat_px m)), pp) \<and> length (mat_px m) = 640 * 640"
proof -
  obtain m pp where m: "mat_ok m" "mat_rows m = 640" "mat_cols m = 640" "det_letterbox cv im (640, 640) = Inr (write_planes cv 640 640 m, pp)"
    using letterbox_exact [OF assms] by blast
  then have "length (mat_px m) = 640 * 640" by (simp add: mat_ok_def)
  then show ?thesis using m(4) unfolding write_planes_eq [OF m(1-3)] by (intro exI [of _ m] exI [of _ pp] conjI)
qed

text \<open>What a picture can cause: nothing if it is within the limits.\<close>

definition hitches :: "cv_mat \<Rightarrow> stop set" where
  "hitches im = (if picture_ok im then {} else {Undefined, CvException})"

lemma letterbox_runs:
  assumes "cv_doc cv"
  shows "run_to (hitches im) (\<lambda>(out, pp). length out = 3 * 640 * 640 \<and> pp_height pp = fint (mat_rows im) \<and> pp_width pp = fint (mat_cols im))
    (det_letterbox cv im (640, 640))"
proof (cases "picture_ok im")
  case True
  from letterbox_exact [OF assms True] show ?thesis using write_planes_length by auto
next
  case False
  have inp: "fl_to_int (fint 640) = Some 640" using fl_of_int_exact [of 640] by (simp add: Let_def)
  have planes: "cv_border cv m t b l r v = Some m' \<Longrightarrow> length (write_planes cv 640 640 m') = 3 * 640 * 640" for m t b l r v m'
  proof -
    assume "cv_border cv m t b l r v = Some m'"
    then have "mat_ok m'" using assms unfolding cv_doc_def by blast
    from write_planes_length [OF this, of cv 640 640] show ?thesis by simp
  qed
  have "run_to {Undefined, CvException} (\<lambda>(out, pp). length out = 3 * 640 * 640 \<and> pp_height pp = fint (mat_rows im) \<and> pp_width pp = fint (mat_cols im))
      (det_letterbox cv im (640, 640))"
    unfolding det_letterbox_def Let_def det_scaled_def fst_conv snd_conv
    by (intro run_defined run_tryE [where Q = "\<lambda>_. True"] run_throw)
      (auto simp: or_throw_def inp defined_def run_to_def margins_def split: option.split
        dest!: planes)
  then show ?thesis using False by (simp add: hitches_def)
qed

section \<open>Boxes and labels\<close>

lemma clamp_range: "fl_leq lo hi \<Longrightarrow> fl_leq lo (clamp v lo hi) \<and> fl_leq (clamp v lo hi) hi"
  by (auto simp: clamp_def fl_leq_iff)

text \<open>A box in the picture, whatever the network answers; its label is one of the 80 classes.\<close>

definition in_picture :: "pre_param \<Rightarrow> det_object \<Rightarrow> bool" where
  "in_picture pp obj \<longleftrightarrow> 0 \<le> obj_label obj \<and> obj_label obj < 80
     \<and> (\<forall>w h. pp_width pp = Fin w \<and> 0 \<le> w \<and> pp_height pp = Fin h \<and> 0 \<le> h \<longrightarrow>
          fl_leq (Fin 0) (rect_x obj) \<and> fl_leq (rect_x obj) (Fin w) \<and> fl_leq (Fin 0) (rect_y obj) \<and> fl_leq (rect_y obj) (Fin h))"

lemma box_in_picture: "0 \<le> lab \<Longrightarrow> lab < 80 \<Longrightarrow> in_picture pp (det_box pp a b c d score lab)"
  by (simp add: in_picture_def det_box_def clamp_range Let_def)

text \<open>The host has room for \<open>m\<close> detections, and what is there fits.\<close>

definition room :: "nat \<Rightarrow> (nat \<Rightarrow> nat) \<Rightarrow> bool" where
  "room m bytes_of \<longleftrightarrow> 4 \<le> bytes_of 0 \<and> 16 * m \<le> bytes_of 1 \<and> 4 * m \<le> bytes_of 2 \<and> 4 * m \<le> bytes_of 3"

lemma postprocess_ok:
  assumes "holds_answer m (gp_host g)" "pipe_ok y g" "4 \<le> length (output_bindings y)"
    "room m (\<lambda>k. binding_bytes (output_bindings y ! k))"
  shows "run_to {} (\<lambda>objs. \<forall>obj\<in>set objs. in_picture (pparam y) obj) (det_postprocess y g)"
proof -
  obtain o4 n ns where o4: "gp_host g = Some o4" and n: "out_dets o4 = n # ns" "nat n \<le> m" "nat n * 4 \<le> length (out_boxes o4)"
    "nat n \<le> length (out_scores o4)" "nat n \<le> length (out_labels o4)" "\<forall>l\<in>set (take (nat n) (out_labels o4)). 0 \<le> l \<and> l < 80"
    using assms(1) unfolding holds_answer_def answer_fits_def by blast
  have lab: "0 \<le> out_labels o4 ! i \<and> out_labels o4 ! i < 80" if "i < nat n" for i
    using n(5,6) that nth_mem [of i "take (nat n) (out_labels o4)"] by simp
  have ptr: "k < length (host_ptrs y)" "gp_mem g (host_ptrs y ! k) = Some (Host, binding_bytes (output_bindings y ! k))" if "k < 4" for k
    using pipe_host [OF assms(2), of k] that assms(3) by simp_all
  have r: "4 \<le> binding_bytes (output_bindings y ! 0)" "16 * m \<le> binding_bytes (output_bindings y ! 1)"
    "4 * m \<le> binding_bytes (output_bindings y ! 2)" "4 * m \<le> binding_bytes (output_bindings y ! 3)"
    using assms(4) by (simp_all add: room_def)
  have "run_to {} (\<lambda>objs. \<forall>obj\<in>set objs. in_picture (pparam y) obj)
      (each (\<lambda>i objs. tryE (touch Host (host_ptrs y ! 1) (16 * (i + 1)) g) (\<lambda>_.
         tryE (touch Host (host_ptrs y ! 2) (4 * (i + 1)) g) (\<lambda>_.
         tryE (touch Host (host_ptrs y ! 3) (4 * (i + 1)) g) (\<lambda>_.
         tryE (det_object_at (pparam y) o4 i) (\<lambda>obj. Inr (objs @ [obj])))))) [0..<nat n] [])"
  proof (rule run_each)
    show "\<forall>obj\<in>set []. in_picture (pparam y) obj" by simp
  next
    fix i and objs :: "det_object list"
    assume "i \<in> set [0..<nat n]" and objs: "\<forall>obj\<in>set objs. in_picture (pparam y) obj"
    then have i: "i < nat n" by simp
    have "16 * (i + 1) \<le> binding_bytes (output_bindings y ! 1)" "4 * (i + 1) \<le> binding_bytes (output_bindings y ! 2)"
      "4 * (i + 1) \<le> binding_bytes (output_bindings y ! 3)" using r(2-4) n(2) i by auto
    then have "touch Host (host_ptrs y ! 1) (16 * (i + 1)) g = Inr ()" "touch Host (host_ptrs y ! 2) (4 * (i + 1)) g = Inr ()"
      "touch Host (host_ptrs y ! 3) (4 * (i + 1)) g = Inr ()" using ptr(2) [of 1] ptr(2) [of 2] ptr(2) [of 3] by (simp_all add: touch_def)
    moreover have "run_to {} (\<lambda>objs. \<forall>obj\<in>set objs. in_picture (pparam y) obj)
        (tryE (det_object_at (pparam y) o4 i) (\<lambda>obj. Inr (objs @ [obj])))"
      using i n(3-5) lab objs box_in_picture by (simp add: det_object_at_def elem_def)
    ultimately show "run_to {} (\<lambda>objs. \<forall>obj\<in>set objs. in_picture (pparam y) obj)
        (tryE (touch Host (host_ptrs y ! 1) (16 * (i + 1)) g) (\<lambda>_.
         tryE (touch Host (host_ptrs y ! 2) (4 * (i + 1)) g) (\<lambda>_.
         tryE (touch Host (host_ptrs y ! 3) (4 * (i + 1)) g) (\<lambda>_.
         tryE (det_object_at (pparam y) o4 i) (\<lambda>obj. Inr (objs @ [obj]))))))" by (simp only: tryE_simps)
  qed
  moreover have "touch Host (host_ptrs y ! 0) 4 g = Inr ()" using ptr(2) [of 0] r(1) by (simp add: touch_def)
  moreover have "elem (host_ptrs y) 0 = Inr (host_ptrs y ! 0)" "elem (host_ptrs y) 1 = Inr (host_ptrs y ! 1)"
    "elem (host_ptrs y) 2 = Inr (host_ptrs y ! 2)" "elem (host_ptrs y) 3 = Inr (host_ptrs y ! 3)"
    using ptr(1) [of 0] ptr(1) [of 1] ptr(1) [of 2] ptr(1) [of 3] by (simp_all add: elem_def)
  moreover have "elem (out_dets o4) 0 = Inr n" by (simp add: elem_def n(1))
  ultimately show ?thesis by (simp only: det_postprocess_def o4 tryE_simps option.case)
qed

text \<open>The text of a label always fits its buffer.\<close>

lemma fl_mul_bound: "fl_mul binary32 a b = Fin x \<Longrightarrow> \<bar>x\<bar> < 2 ^ 128"
proof -
  have round: "fl_round binary32 z = Fin x \<Longrightarrow> \<bar>x\<bar> < 2 ^ 128" for z
    by (auto simp: fl_round_def binary32_def pow_rat_def Let_def split: if_splits)
  have inf: "signed_inf z \<noteq> Fin x" for z by (simp add: signed_inf_def)
  show "fl_mul binary32 a b = Fin x \<Longrightarrow> \<bar>x\<bar> < 2 ^ 128" using round inf by (cases a; cases b) auto
qed

lemma fmt_f1_length: "length (fmt_f1 (fl_mul binary32 a b)) \<le> 60"
proof (cases "fl_mul binary32 a b")
  case (Fin x)
  define m where "m = nat (round_half_even (\<bar>x\<bar> * 10))"
  have "of_int (round_half_even (\<bar>x\<bar> * 10)) \<le> \<bar>x\<bar> * 10 + 1 / 2"
    using round_half_even_err [of "\<bar>x\<bar> * 10"] by linarith
  also have "\<dots> < of_int (10 ^ 40)" using fl_mul_bound [OF Fin] by simp
  finally have "m < 10 ^ 40" by (simp add: m_def nat_less_iff)
  then have "length (show_nat (m div 10)) \<le> 40" by (intro length_show_nat) (simp_all add: div_less_dividend less_mult_imp_div_less)
  moreover have "length (show_nat (m mod 10)) \<le> 1" by (intro length_show_nat) simp_all
  ultimately show ?thesis unfolding fmt_f1_def Fin fl.case Let_def m_def [symmetric] by simp
qed (simp_all add: fmt_f1_def)

lemma class_names_length: "i < 80 \<Longrightarrow> length (CLASS_NAMES ! i) \<le> 20"
proof -
  have "list_all (\<lambda>s. length s \<le> 20) kCocoLabels" by (simp add: kCocoLabels_def)
  moreover have "length kCocoLabels = 80" by (simp add: length_kCocoLabels kClassCount_def)
  ultimately show "i < 80 \<Longrightarrow> length (CLASS_NAMES ! i) \<le> 20" by (simp add: CLASS_NAMES_def list_all_length)
qed

lemma in_range_int: "fl_leq (Fin 0) v \<Longrightarrow> fl_leq v (Fin w) \<Longrightarrow> w \<le> 8192 \<Longrightarrow> \<exists>i. fl_to_int v = Some i"
  by (cases v) (auto simp: Let_def floor_less_iff le_floor_iff)

lemma draw_ok:
  assumes "\<forall>obj\<in>set objs. in_picture pp obj" "pp_height pp = fint (mat_rows im)" "pp_width pp = fint (mat_cols im)"
  shows "run_to (hitches im) (\<lambda>_. True) (draw_objects cv im objs)"
  unfolding draw_objects_def
proof (rule run_each)
  fix obj and ds :: "drawing list" assume "obj \<in> set objs"
  then have i: "in_picture pp obj" using assms(1) by blast
  then have l: "0 \<le> obj_label obj" "nat (obj_label obj) < 80" by (auto simp: in_picture_def)
  have len: "length COLORS = 80" "length CLASS_NAMES = 80" by (simp_all add: COLORS_def CLASS_NAMES_def length_kCocoLabels kClassCount_def)
  have short: "length (CLASS_NAMES ! nat (obj_label obj) @ '' '' @ fmt_f1 (fmul (obj_prob obj) (Fin 100)) @ ''%'') < 256"
    using class_names_length [OF l(2)] fmt_f1_length [of "obj_prob obj" "Fin 100"] by simp
  have "\<exists>a b. fl_to_int (rect_x obj) = Some a \<and> fl_to_int (rect_y obj) = Some b" if "picture_ok im"
  proof -
    have s: "side_ok (mat_rows im)" "side_ok (mat_cols im)" using that by (simp_all add: picture_ok_def)
    then have "pp_width pp = Fin (rat_of (mat_cols im))" "pp_height pp = Fin (rat_of (mat_rows im))"
      using fl_of_int_exact [of "mat_cols im"] fl_of_int_exact [of "mat_rows im"] by (simp_all add: assms(2,3) side_ok_def)
    then show ?thesis using i s in_range_int unfolding in_picture_def side_ok_def by fastforce
  qed
  then show "run_to (hitches im) (\<lambda>_. True) (draw_object cv (mat_rows im) obj ds)"
    using l len short by (auto simp: draw_object_def elem_def defined_def hitches_def Let_def split: prod.splits option.splits)
qed simp

section \<open>The whole run\<close>

text \<open>An engine that takes one picture of 640 by 640 and has the four outputs the code reads, with room for \<open>m\<close> detections.\<close>

definition engine_ok :: "nat \<Rightarrow> io_binding list \<Rightarrow> bool" where
  "engine_ok m ios \<longleftrightarrow> (\<exists>io. filter io_input ios = [io] \<and> io_dims io = [1, 3, 640, 640] \<and> io_type io = kFLOAT)
     \<and> 4 \<le> length (filter (\<lambda>io. \<not> io_input io) ios)
     \<and> (\<forall>bs. list_all2 binds (filter (\<lambda>io. \<not> io_input io) ios) bs \<longrightarrow> room m (\<lambda>k. binding_bytes (bs ! k)))"

text \<open>A detector that is ready for such pictures.\<close>

definition ready :: "nat \<Rightarrow> yolov8 \<Rightarrow> gpu \<Rightarrow> bool" where
  "ready m y g \<longleftrightarrow> pipe_ok y g \<and> res_ok (gp_events g) (handles_of y) \<and> input_bindings y \<noteq> []
     \<and> 4 * (3 * 640 * 640) \<le> binding_bytes (hd (input_bindings y)) \<and> 4 \<le> length (output_bindings y)
     \<and> room m (\<lambda>k. binding_bytes (output_bindings y ! k)) \<and> holds_answer m (gp_dev g)"

lemma engine_bindings:
  assumes "engine_ok m ios" "list_all2 binds (filter io_input ios) bs"
  shows "first_largest bs" "bs \<noteq> []" "binding_bytes (hd bs) = 4 * (3 * 640 * 640)"
proof -
  obtain io where io: "filter io_input ios = [io]" "io_dims io = [1, 3, 640, 640]" "io_type io = kFLOAT"
    using assms(1) by (auto simp: engine_ok_def)
  then obtain b where b: "bs = [b]" "binds io b" using assms(2) by (auto simp: list_all2_Cons1)
  then have "binding_bytes b = 4 * (3 * 640 * 640)"
    using io by (auto simp: binds_def binding_of_def binding_bytes_def get_size_by_dims_def type_to_size_def)
  then show "first_largest bs" "bs \<noteq> []" "binding_bytes (hd bs) = 4 * (3 * 640 * 640)" using b by (simp_all add: first_largest_def)
qed


lemma copy_from_Mat_ok:
  assumes "cv_doc cv" "ready m y g"
  shows "run_to (faults ok \<union> hitches im) (\<lambda>(y', g'). ready m y' g' \<and> pp_height (pparam y') = fint (mat_rows im) \<and> pp_width (pparam y') = fint (mat_cols im))
    (copy_from_Mat cv ok im (640, 640) (y, g))"
proof -
  have r: "pipe_ok y g" "input_bindings y \<noteq> []" "4 * (3 * 640 * 640) \<le> binding_bytes (hd (input_bindings y))"
    using assms(2) by (simp_all add: ready_def)
  have "run_to (faults ok \<union> hitches im) (\<lambda>(y', g'). ready m y' g' \<and> pp_height (pparam y') = fint (mat_rows im) \<and> pp_width (pparam y') = fint (mat_cols im))
      (tryE (copy_in ok (4 * length out) y g) (\<lambda>g. Inr (y\<lparr>pparam := pp, y_shape := sh, y_tensor := out\<rparr>, g)))"
    if "length out = 3 * 640 * 640" "pp_height pp = fint (mat_rows im)" "pp_width pp = fint (mat_cols im)" for out pp sh
  proof (rule run_tryE [OF run_mono [OF copy_in_ok [OF r(1,2)]]])
    show "4 * length out \<le> binding_bytes (hd (input_bindings y))" using that(1) r(3) by simp
  next
    fix g' assume "same_state g g'"
    then show "run_to (faults ok \<union> hitches im) (\<lambda>(y', g'). ready m y' g' \<and> pp_height (pparam y') = fint (mat_rows im) \<and> pp_width (pparam y') = fint (mat_cols im))
        (Inr (y\<lparr>pparam := pp, y_shape := sh, y_tensor := out\<rparr>, g'))"
      using assms(2) that(2,3) by (simp add: ready_def same_state_def same_memory_def pipe_ok_def counts_ok_def buffers_ok_def handles_of_def)
  qed simp
  then show ?thesis
    unfolding copy_from_Mat_def Let_def prod.case by (intro run_tryE [OF run_mono [OF letterbox_runs [OF assms(1)]]]) auto
qed

lemma ready_same: "same_memory g g' \<Longrightarrow> holds_answer m (gp_dev g') \<Longrightarrow> ready m y g \<Longrightarrow> ready m y g'"
  by (simp add: ready_def same_memory_pipe) (simp add: same_memory_def)

lemma show_picture_ok:
  assumes "cv_doc cv" "net_ok m net" "runs_ok cu" "ready m y g" "length shown = k"
  shows "run_to (faults (checked cu) \<union> hitches im) (\<lambda>(shown', y', g'). length shown' = Suc k \<and> ready m y' g') (show_picture cv cu net im (shown, y, g))"
proof -
  have "run_to (faults (checked cu) \<union> hitches im) (\<lambda>(shown', y', g'). length shown' = Suc k \<and> ready m y' g')
      (tryE (det_infer cu net (y_tensor y1) y1 g1) (\<lambda>g. tryE (det_postprocess y1 g)
        (\<lambda>objs. tryE (draw_objects cv im objs) (\<lambda>res. Inr (shown @ [res], y1, g)))))"
    if a: "ready m y1 g1" "pp_height (pparam y1) = fint (mat_rows im)" "pp_width (pparam y1) = fint (mat_cols im)" for y1 g1
  proof (rule run_tryE [OF run_mono [OF det_infer_ok [OF _ assms(2,3)]]])
    show "pipe_ok y1 g1" "answered_before m g1" using a(1) by (simp_all add: ready_def answered_before_def)
  next
    fix g2 assume g2: "same_memory g1 g2 \<and> holds_answer m (gp_dev g2) \<and> holds_answer m (gp_host g2)"
    then have r: "ready m y1 g2" using ready_same a(1) by blast
    have host: "pipe_ok y1 g2" "4 \<le> length (output_bindings y1)" "room m (\<lambda>k. binding_bytes (output_bindings y1 ! k))"
      using r by (simp_all add: ready_def)
    show "run_to (faults (checked cu) \<union> hitches im) (\<lambda>(shown', y', g'). length shown' = Suc k \<and> ready m y' g')
        (tryE (det_postprocess y1 g2) (\<lambda>objs. tryE (draw_objects cv im objs) (\<lambda>res. Inr (shown @ [res], y1, g2))))"
      using r assms(5) g2
      by (intro run_tryE [OF run_mono [OF postprocess_ok [OF _ host]]] run_tryE [OF run_mono [OF draw_ok [OF _ a(2,3)]]]) auto
  qed simp
  then show ?thesis
    unfolding show_picture_def Let_def prod.case by (intro run_tryE [OF copy_from_Mat_ok [OF assms(1,4)]]) auto
qed

lemma pictures_ok:
  assumes "cv_doc cv" "net_ok m net" "runs_ok cu" "ready m y g"
  shows "run_to (faults (checked cu) \<union> \<Union> (hitches ` set ims)) (\<lambda>(shown, y, g). length shown = length ims \<and> ready m y g)
    (each (show_picture cv cu net) ims ([], y, g))"
proof (rule run_each_prefix [where P = "\<lambda>done (shown, y, g). length shown = length done \<and> ready m y g"])
  show "(case ([], y, g) of (shown, y, g) \<Rightarrow> length shown = length [] \<and> ready m y g)" using assms(4) by simp
next
  fix ys zs :: "cv_mat list" and im and st :: "drawing list list \<times> yolov8 \<times> gpu"
  assume ims: "ims = ys @ im # zs" and st: "case st of (shown, y, g) \<Rightarrow> length shown = length ys \<and> ready m y g"
  then show "run_to (faults (checked cu) \<union> \<Union> (hitches ` set ims)) (\<lambda>(shown, y, g). length shown = length (ys @ [im]) \<and> ready m y g) (show_picture cv cu net im st)"
    by (cases st) (auto intro: run_mono [OF run_weaken [OF show_picture_ok [OF assms(1-3)]]])
qed

lemma open_ready:
  assumes "\<forall>model ios. lib_engine trt model = Some ios \<longrightarrow> engine_ok m ios" "net_ok m net" "runs_ok cu"
  shows "run_to (faults (checked cu) \<union> hurdles trt planfile) (\<lambda>(y, g). ready m y g)
    (tryE (yolov8_new cu trt planfile gpu_new) (\<lambda>(y, g). make_pipe cu net True y g))"
proof (rule run_tryE [OF run_mono [OF yolov8_new_ok]], simp, clarify)
  fix y g model ios
  assume a: "counts_ok y" "buffers_ok y [] [] g" "gp_runs g = 0" "res_ok (gp_events g) (handles_of y)" "lib_engine trt model = Some ios"
    "list_all2 binds (filter io_input ios) (input_bindings y)" "list_all2 binds (filter (\<lambda>io. \<not> io_input io) ios) (output_bindings y)"
  have e: "engine_ok m ios" using assms a(5) by blast
  note i = engine_bindings [OF e a(6)]
  have o: "4 \<le> length (output_bindings y)" "room m (\<lambda>k. binding_bytes (output_bindings y ! k))"
    using e a(7) list_all2_lengthD [OF a(7)] unfolding engine_ok_def by auto
  show "run_to (faults (checked cu) \<union> hurdles trt (Some model)) (\<lambda>(y, g). ready m y g) (make_pipe cu net True y g)"
    by (rule run_mono [OF run_weaken [OF make_pipe_ok [OF a(1,2) i(1) assms(2,3) a(3)]]])
      (use a(4) i(2,3) o in \<open>auto simp: ready_def same_core_def handles_of_def\<close>)
qed

lemma close_ok: "ready m y g \<Longrightarrow> run_to (faults ok) (\<lambda>g'. gp_mem g' = (\<lambda>_. None) \<and> res_ok (gp_events g') {}) (yolov8_destroy ok y g)"
  using destroy_ok by (simp add: ready_def)

lemma detector_runs:
  assumes "cv_doc cv" "net_ok m net" "runs_ok cu" "\<forall>model ios. lib_engine trt model = Some ios \<longrightarrow> engine_ok m ios"
  shows "run_to (faults (checked cu) \<union> hurdles trt planfile \<union> (case input of Inl e \<Rightarrow> {e}
      | Inr p \<Rightarrow> (case to_show imread frames p of None \<Rightarrow> {} | Some ims \<Rightarrow> \<Union> (hitches ` set ims))))
    (\<lambda>(code, shown, g). \<exists>p. input = Inr p \<and> (case to_show imread frames p of None \<Rightarrow> code = - 1
      | Some ims \<Rightarrow> code = 0 \<and> length shown = length ims \<and> gp_mem g = (\<lambda>_. None) \<and> res_ok (gp_events g) {}))
    (det_main cv cu trt planfile net input imread frames)"
    (is "run_to ?E ?R _")
proof -
  have "run_to ?E ?R (tryE input (\<lambda>p. case to_show imread frames p of
         None \<Rightarrow> Inr (- 1, [], g)
       | Some ims \<Rightarrow> tryE (each (show_picture cv cu net) ims ([], y, g)) (\<lambda>(shown, y, g).
           tryE (yolov8_destroy (checked cu) y g) (\<lambda>g. Inr (0, shown, g)))))" if r: "ready m y g" for y g
  proof (cases input)
    case (Inr p)
    show ?thesis
    proof (cases "to_show imread frames p")
      case (Some ims)
      have "run_to ?E ?R (tryE (each (show_picture cv cu net) ims ([], y, g)) (\<lambda>(shown, y, g).
           tryE (yolov8_destroy (checked cu) y g) (\<lambda>g. Inr (0, shown, g))))"
        using Some Inr
        by (intro run_tryE [OF run_mono [OF pictures_ok [OF assms(1-3) r]]]) (auto intro!: run_tryE [OF run_mono [OF close_ok]])
      then show ?thesis by (simp only: Inr Some tryE_simps option.case)
    qed (simp add: Inr)
  qed simp
  then have "run_to ?E ?R (tryE (tryE (yolov8_new cu trt planfile gpu_new) (\<lambda>(y, g). make_pipe cu net True y g)) (\<lambda>(y, g).
      tryE input (\<lambda>p. case to_show imread frames p of
         None \<Rightarrow> Inr (- 1, [], g)
       | Some ims \<Rightarrow> tryE (each (show_picture cv cu net) ims ([], y, g)) (\<lambda>(shown, y, g).
           tryE (yolov8_destroy (checked cu) y g) (\<lambda>g. Inr (0, shown, g))))))"
    by (intro run_tryE [OF run_mono [OF open_ready [OF assms(4,2,3)]]]) auto
  then show ?thesis by (simp only: det_main_def tryE_assoc)
qed

text \<open>A concrete setting: an engine with its five bindings, a plain picture, and libraries that do as documented.\<close>

definition demo_cv :: opencv where
  "demo_cv = \<lparr>cv_resize = (\<lambda>im (w, h). if 0 < w \<and> 0 < h
       then Some \<lparr>mat_rows = h, mat_cols = w, mat_px = replicate (nat (h * w)) (0, 0, 0)\<rparr> else None),
     cv_border = (\<lambda>im t b l r v. if 0 < mat_rows im + t + b \<and> 0 < mat_cols im + l + r
       then Some \<lparr>mat_rows = mat_rows im + t + b, mat_cols = mat_cols im + l + r,
              mat_px = replicate (nat ((mat_rows im + t + b) * (mat_cols im + l + r))) v\<rparr> else None),
     cv_convert = (\<lambda>a n. fmul (fint (int n)) a), cv_text_size = (\<lambda>s. (7 * int (length s), 10, 3))\<rparr>"

definition demo_trt :: trt_lib where
  "demo_trt = \<lparr>lib_runtime = True, lib_engine = (\<lambda>_. Some
     [\<lparr>io_name = ''images'', io_type = kFLOAT, io_input = True, io_dims = [1, 3, 640, 640]\<rparr>,
      \<lparr>io_name = ''num_dets'', io_type = kINT32, io_input = False, io_dims = [1, 1]\<rparr>,
      \<lparr>io_name = ''bboxes'', io_type = kFLOAT, io_input = False, io_dims = [1, 100, 4]\<rparr>,
      \<lparr>io_name = ''scores'', io_type = kFLOAT, io_input = False, io_dims = [1, 100]\<rparr>,
      \<lparr>io_name = ''labels'', io_type = kINT32, io_input = False, io_dims = [1, 100]\<rparr>]), lib_context = True, lib_asserts = False\<rparr>"

text \<open>The third checked call fails never, or the fortieth; of the runs of the network every odd one is not queued.\<close>

definition demo_cuda :: "(nat \<Rightarrow> bool) \<Rightarrow> cuda" where
  "demo_cuda ok = \<lparr>checked = ok, enqueued = even, synced = (\<lambda>_. True), streamed = False\<rparr>"

definition demo_net :: "fl option list \<Rightarrow> det_outputs" where
  "demo_net t = \<lparr>out_dets = [1], out_boxes = [Fin 8, Fin 8, Fin 700, NotNum], out_scores = [Fin (1 / 2)], out_labels = [79]\<rparr>"

definition demo_picture :: cv_mat where
  "demo_picture = \<lparr>mat_rows = 640, mat_cols = 640, mat_px = replicate (640 * 640) (1, 2, 3)\<rparr>"

lemma demo_setting:
  "cv_doc demo_cv" "net_ok 100 demo_net" "runs_ok (demo_cuda ok)"
  "\<forall>model ios. lib_engine demo_trt model = Some ios \<longrightarrow> engine_ok 100 ios"
  "\<exists>ios. lib_engine demo_trt model = Some ios \<and> (\<forall>io\<in>set ios. \<exists>n. get_size_by_dims (io_dims io) = Inr n)"
  "lib_runtime demo_trt" "lib_context demo_trt" "picture_ok demo_picture"
proof -
  show "cv_doc demo_cv" by (auto simp: cv_doc_def demo_cv_def mat_ok_def)
  show "net_ok 100 demo_net" by (auto simp: net_ok_def answer_fits_def demo_net_def)
  show "runs_ok (demo_cuda ok)" by (simp add: runs_ok_def demo_cuda_def)
  show "\<forall>model ios. lib_engine demo_trt model = Some ios \<longrightarrow> engine_ok 100 ios"
  proof (intro allI impI)
    fix model ios assume ios: "lib_engine demo_trt model = Some ios"
    have "room 100 (\<lambda>k. binding_bytes (bs ! k))" if bs: "list_all2 binds (filter (\<lambda>io. \<not> io_input io) ios) bs" for bs
    proof -
      obtain b0 b1 b2 b3 where b: "bs = [b0, b1, b2, b3]" "binding_bytes b0 = 4" "binding_bytes b1 = 1600" "binding_bytes b2 = 400" "binding_bytes b3 = 400"
        using bs ios
        by (auto simp: demo_trt_def list_all2_Cons1 binds_def binding_of_def binding_bytes_def get_size_by_dims_def type_to_size_def)
      have "bs ! 0 = b0" "bs ! 1 = b1" "bs ! 2 = b2" "bs ! 3 = b3" by (simp_all add: b(1))
      then show ?thesis unfolding room_def by (simp add: b(2-5))
    qed
    then show "engine_ok 100 ios" using ios by (auto simp: demo_trt_def engine_ok_def)
  qed
  show "\<exists>ios. lib_engine demo_trt model = Some ios \<and> (\<forall>io\<in>set ios. \<exists>n. get_size_by_dims (io_dims io) = Inr n)"
    by (simp add: demo_trt_def get_size_by_dims_def)
  show "lib_runtime demo_trt" "lib_context demo_trt" by (simp_all add: demo_trt_def)
  have r: "fint 640 = Fin 640" "fl_round binary32 640 = Fin 640" "fl_round binary32 1 = Fin 1"
    using fl_of_int_exact [of 640] fl_of_int_exact [of 1] by (simp_all add: fl_of_int_def)
  then have "det_scaled 640 (det_scale demo_picture (640, 640)) = Inr 640"
    by (simp add: det_scaled_def det_scale_def demo_picture_def fl_min_def defined_def Let_def floor_divide_of_int_eq [of 1281 2, simplified])
  then show "picture_ok demo_picture" by (simp add: picture_ok_def mat_ok_def side_ok_def demo_picture_def)
qed

text \<open>
  Property C19. The detector is memory-safe and cleans up: whatever the pictures are, whichever checked calls of CUDA fail, and also if
  the stream is not created or a run of the network is not queued, no run accesses memory out of bounds, but for one: without
  assertions (the Release build of CMakeLists.txt drops them) a runtime, engine or context that TensorRT could not make is used
  as a null pointer. A run that ends with 0 has shown every picture, has freed every buffer, and has released every handle once.
  Conditions: the engine has one float input of 1x3x640x640 and at least four outputs, the first with room for a count, the next
  three for boxes, scores and labels of \<open>m\<close> detections; the network reports at most \<open>m\<close> detections, with labels from 0 to 79; the
  first run of the network is queued and every wait for the stream succeeds (their results are ignored); OpenCV does as documented.
\<close>

theorem detector_memory_safe:
  assumes "cv_doc cv" "net_ok m net" "runs_ok cu" "\<forall>model ios. lib_engine trt model = Some ios \<longrightarrow> engine_ok m ios"
  shows "case det_main cv cu trt planfile net (select_input present is_dir suffix path globbed) imread frames of
      Inl e \<Rightarrow> e = BadAccess \<longrightarrow> \<not> lib_asserts trt
        \<and> (\<exists>model. planfile = Some model \<and> (\<not> lib_runtime trt \<or> lib_engine trt model = None \<or> \<not> lib_context trt))
    | Inr (code, shown, g) \<Rightarrow> \<exists>p. select_input present is_dir suffix path globbed = Inr p
        \<and> (case to_show imread frames p of
             None \<Rightarrow> code = - 1
           | Some ims \<Rightarrow> code = 0 \<and> length shown = length ims \<and> gp_mem g = (\<lambda>_. None) \<and> res_ok (gp_events g) {})"
proof -
  let ?in = "select_input present is_dir suffix path globbed"
  have "BadAccess \<in> faults (checked cu) \<union> hurdles trt planfile \<union> (case ?in of Inl e \<Rightarrow> {e}
      | Inr p \<Rightarrow> (case to_show imread frames p of None \<Rightarrow> {} | Some ims \<Rightarrow> \<Union> (hitches ` set ims))) \<Longrightarrow> null_handle trt planfile"
    by (auto simp: faults_def hurdles_def hitches_def select_input_def split: option.splits if_splits)
  with detector_runs [OF assms, where planfile = planfile and input = ?in and imread = imread and frames = frames] show ?thesis
    unfolding null_handle_def by (cases "det_main cv cu trt planfile net ?in imread frames") auto
qed

text \<open>One picture, a failure of the fortieth checked call, no stream, and runs of the network that are not queued.\<close>

lemma detector_memory_safe_witness:
  "case det_main demo_cv (demo_cuda (\<lambda>k. k \<noteq> 40)) demo_trt (Some ''model'') demo_net (select_input True False ''.png'' ''a.png'' [])
      (\<lambda>_. demo_picture) None of
     Inl e \<Rightarrow> e \<noteq> BadAccess | Inr (code, shown, g) \<Rightarrow> code = 0 \<and> length shown = 1 \<and> gp_mem g = (\<lambda>_. None)"
proof -
  let ?in = "select_input True False ''.png'' ''a.png'' []"
  have "to_show (\<lambda>_. demo_picture) None (ImageList [''a.png'']) = Some [demo_picture]" "?in = Inr (ImageList [''a.png''])"
    by (simp_all add: to_show_def select_input_def)
  then show ?thesis
    using detector_memory_safe [OF demo_setting(1,2) demo_setting(3) [of "\<lambda>k. k \<noteq> 40"] demo_setting(4), where planfile = "Some ''model''" and present = True
      and is_dir = False and suffix = "''.png''" and path = "''a.png''" and globbed = "[]" and imread = "\<lambda>_. demo_picture" and frames = None]
      demo_setting(5) [of "''model''"] demo_setting(6,7)
    by (cases "det_main demo_cv (demo_cuda (\<lambda>k. k \<noteq> 40)) demo_trt (Some ''model'') demo_net ?in (\<lambda>_. demo_picture) None") auto
qed



section \<open>What the ignored calls can cause\<close>

text \<open>If the wait for the stream fails, the postprocessing reads undetermined memory.\<close>

lemma failed_wait_read:
  assumes "\<not> synced cu (gp_runs g)" "det_infer cu net t y g = Inr g'" "det_postprocess y g' = Inr objs"
  shows False
proof -
  have "gp_host g' = None" using assms(1,2) by (auto simp: det_infer_def Let_def tryE_def split: sum.splits)
  then show False using assms(3) by (auto simp: det_postprocess_def tryE_def split: sum.splits)
qed

text \<open>In the build without assertions, an engine that cannot be made is used as a null pointer, and a file that cannot be read aborts.\<close>

lemma missing_engine_used:
  "\<not> lib_asserts trt \<Longrightarrow> lib_runtime trt \<Longrightarrow> lib_engine trt model = None \<Longrightarrow>
     det_main cv cu trt (Some model) net input imread frames = Inl BadAccess"
  "\<not> lib_asserts trt \<Longrightarrow> det_main cv cu trt None net input imread frames = Inl Aborted"
  by (simp_all add: det_main_def yolov8_new_def yolov8_open_def failed_assert_def acquire_def gpu_new_def)

section \<open>Inputs that are not handled\<close>

text \<open>A picture of one row, or one whose longer side is more than about 1,280 times the other, is scaled to an empty one.\<close>

lemma thin_picture_throws:
  assumes "cv_doc cv" "mat_ok im" "mat_rows im = 1" "1300 \<le> mat_cols im" "mat_cols im \<le> 8192"
  shows "det_letterbox cv im (640, 640) = Inl CvException"
proof -
  have side: "side_ok (mat_rows im)" "side_ok (mat_cols im)" using assms(3-5) by (simp_all add: side_ok_def)
  obtain pw where pw: "det_scaled (mat_cols im) (det_scale im (640, 640)) = Inr pw"
    using scaled_ok [OF side, of "mat_cols im"] by auto
  obtain q where q: "letterbox_scale (mat_rows im) (mat_cols im) = Fin q" "1 / 20 \<le> q" "q * rat_of (mat_cols im) \<le> 640 * (1 + 1 / 2 ^ 20)"
    using letterbox_scale_ok [OF side] by blast
  have "rat_of 1300 \<le> rat_of (mat_cols im)" using assms(4) by (simp only: of_int_le_iff)
  then have "q * 1300 \<le> q * rat_of (mat_cols im)" using q(2) by (intro mult_left_mono) simp_all
  then have qb: "q \<le> 494 / 1000" using q(3) by simp
  then have "1 / 100 \<le> q" "q \<le> 2 ^ 100" using q(2) by simp_all
  from fl_round32_rel [OF this] obtain v where v: "fl_round binary32 q = Fin v" "q * (1 - 1 / 2 ^ 20) \<le> v" "v \<le> q * (1 + 1 / 2 ^ 20)" by blast
  have "0 \<le> q * (1 - 1 / 2 ^ 20)" using q(2) by simp
  then have "0 \<le> v" using v(2) by (rule order_trans)
  moreover have "q * (1 + 1 / 2 ^ 20) < 1 / 2" using qb by simp
  with v(3) have "v < 1 / 2" by (rule order_le_less_trans)
  ultimately have "\<lfloor>v + 1 / 2\<rfloor> = 0" by (intro floor_unique) linarith+
  then have ph: "det_scaled (mat_rows im) (det_scale im (640, 640)) = Inr 0"
    using \<open>0 \<le> v\<close> q(1) v(1) fl_of_int_exact [of 1]
    by (simp add: det_scaled_def det_scale_def letterbox_scale_def kInputWidth_def kInputHeight_def assms(3) defined_def Let_def)
  have "case cv_resize cv im (pw, 0) of None \<Rightarrow> True | Some m \<Rightarrow> mat_ok m \<and> mat_rows m = 0"
    using assms(1,2) unfolding cv_doc_def by (auto split: option.splits)
  then have "cv_resize cv im (pw, 0) = None" by (auto simp: mat_ok_def split: option.splits)
  moreover have "fl_to_int (fint (mat_rows im)) \<noteq> Some 0" using fl_of_int_exact [of 1] by (simp add: assms(3))
  ultimately show ?thesis by (simp add: det_letterbox_def pw ph or_throw_def Let_def)
qed

text \<open>A file that is not a picture is an empty matrix, whose scaled sides are not numbers.\<close>

lemma unreadable_picture:
  "mat_rows im = 0 \<Longrightarrow> mat_cols im = 0 \<Longrightarrow> det_letterbox cv im (640, 640) = Inl Undefined"
proof -
  assume z: "mat_rows im = 0" "mat_cols im = 0"
  have "fint 640 = Fin 640" "fint 0 = Fin 0" using fl_of_int_exact [of 640] fl_of_int_exact [of 0] by simp_all
  then have "det_scaled 0 (det_scale im (640, 640)) = Inl Undefined"
    by (simp add: z det_scale_def signed_inf_def fl_min_def fl_sgn_def det_scaled_def defined_def)
  then show ?thesis by (simp add: det_letterbox_def z)
qed

text \<open>A directory exists, so the branch that lists its pictures is never taken.\<close>

lemma directories_not_listed:
  "(is_dir \<longrightarrow> present) \<Longrightarrow> select_input present is_dir suffix path globbed = select_input present is_dir suffix path other
    \<and> (is_dir \<and> suffix = [] \<longrightarrow> select_input present is_dir suffix path globbed = Inl Aborted)"
  by (auto simp: select_input_def)

end
