(* ===== verification/Fs_Path.thy ===== *)
theory Fs_Path
  imports Prelude
begin

text \<open>
  Paths as \<open>src/end2end/include/filesystem.hpp\<close> handles them on Linux: a path is a string in which separators do not repeat,
  except for two at the front before a network name. Here are the constructor, the decomposition, the iterators, the
  comparison, the quoted output and input, and the questions about files that the detector asks; the answers of \<open>lstat\<close> and
  \<open>stat\<close> are parameters.
\<close>

section \<open>The constructor\<close>

definition sep :: char where "sep = CHR ''/''"

text \<open>\<open>std::unique\<close> with the predicate for two separators.\<close>

fun unique_sep :: "bytes \<Rightarrow> bytes" where
  "unique_sep (a # b # cs) = (if a = b \<and> a = sep then unique_sep (b # cs) else a # unique_sep (b # cs))"
| "unique_sep cs = cs"

definition network_prefix :: "bytes \<Rightarrow> bool" where
  "network_prefix p \<longleftrightarrow> 2 < length p \<and> p ! 0 = sep \<and> p ! 1 = sep \<and> p ! 2 \<noteq> sep"

definition postprocess_path :: "bytes \<Rightarrow> bytes" where
  "postprocess_path p = (if network_prefix p then take 2 p @ unique_sep (drop 2 p) else unique_sep p)"

definition path_of :: "bytes \<Rightarrow> bytes" where
  "path_of source = postprocess_path source"

section \<open>Decomposition\<close>

text \<open>\<open>std::find\<close> of a separator from a position on; the end if there is none.\<close>

definition find_sep :: "bytes \<Rightarrow> nat \<Rightarrow> nat" where
  "find_sep p i = i + length (takeWhile (\<lambda>c. c \<noteq> sep) (drop i p))"

definition isprint :: "char \<Rightarrow> bool" where
  "isprint c \<longleftrightarrow> (let n = of_char c :: nat in 32 \<le> n \<and> n < 127)"

definition root_name_length :: "bytes \<Rightarrow> nat" where
  "root_name_length p = (if network_prefix p \<and> isprint (p ! 2) then find_sep p 3 else 0)"

definition has_root_name :: "bytes \<Rightarrow> bool" where
  "has_root_name p \<longleftrightarrow> 0 < root_name_length p"

definition has_root_directory :: "bytes \<Rightarrow> bool" where
  "has_root_directory p \<longleftrightarrow> (let rootLen = root_name_length p in rootLen < length p \<and> p ! rootLen = sep)"

definition root_path_length :: "bytes \<Rightarrow> nat" where
  "root_path_length p = root_name_length p + (if has_root_directory p then 1 else 0)"

definition root_name :: "bytes \<Rightarrow> bytes" where
  "root_name p = path_of (take (root_name_length p) p)"

definition root_directory :: "bytes \<Rightarrow> bytes" where
  "root_directory p = (if has_root_directory p then path_of [sep] else [])"

definition root_path :: "bytes \<Rightarrow> bytes" where
  "root_path p = path_of (root_name p @ root_directory p)"

definition relative_path :: "bytes \<Rightarrow> bytes" where
  "relative_path p = path_of (drop (min (root_path_length p) (length p)) p)"

definition has_relative_path :: "bytes \<Rightarrow> bool" where
  "has_relative_path p \<longleftrightarrow> root_path_length p < length p"

definition is_absolute :: "bytes \<Rightarrow> bool" where
  "is_absolute p \<longleftrightarrow> has_root_directory p"

section \<open>Iterators\<close>

text \<open>An iterator is a position; \<open>it_root\<close> is where the root directory stands, the end if there is none.\<close>

definition it_root :: "bytes \<Rightarrow> nat" where
  "it_root p = (if has_root_directory p then root_name_length p else length p)"

definition skip_seps :: "bytes \<Rightarrow> nat \<Rightarrow> nat" where
  "skip_seps p i = i + length (takeWhile (\<lambda>c. c = sep) (drop i p))"

definition increment :: "bytes \<Rightarrow> nat \<Rightarrow> nat" where
  "increment p i =
     (if i = length p then i
      else if p ! i = sep then
        (if Suc i \<noteq> length p \<and> p ! Suc i = sep then
           (if i = 0 \<and> \<not> (Suc (Suc i) \<noteq> length p \<and> p ! Suc (Suc i) = sep) then find_sep p (Suc (Suc i)) else skip_seps p (Suc i))
         else Suc i)
      else find_sep p (Suc i))"

text \<open>The element of a search backwards: after the last separator before \<open>i\<close>.\<close>

definition after_last_sep :: "bytes \<Rightarrow> nat \<Rightarrow> nat" where
  "after_last_sep p i = i - length (takeWhile (\<lambda>c. c \<noteq> sep) (rev (take i p)))"

definition decrement :: "bytes \<Rightarrow> nat \<Rightarrow> nat" where
  "decrement p pos =
     (if pos = 0 then 0
      else
        let i = pos - 1 in
        if i \<noteq> it_root p \<and> (pos \<noteq> length p \<or> p ! i \<noteq> sep) then
          let j = after_last_sep p i in if j = 2 \<and> p ! 0 = sep \<and> p ! 1 = sep then 0 else j
        else i)"

definition current :: "bytes \<Rightarrow> nat \<Rightarrow> bytes" where
  "current p i =
     (if i = length p \<or> i \<noteq> 0 \<and> p ! i = sep \<and> i \<noteq> it_root p \<and> Suc i = length p then []
      else path_of (take (increment p i - i) (drop i p)))"

text \<open>\<open>operator++\<close>: on past separators, but not past a last one, which stands for an empty element.\<close>

function skip_to_element :: "bytes \<Rightarrow> nat \<Rightarrow> nat" where
  "skip_to_element p i =
     (if i < length p \<and> i \<noteq> it_root p \<and> p ! i = sep \<and> Suc i \<noteq> length p then skip_to_element p (Suc i) else i)"
  by auto
termination by (relation "measure (\<lambda>(p, i). length p - i)") auto

declare skip_to_element.simps [simp del]

definition iterator_next :: "bytes \<Rightarrow> nat \<Rightarrow> nat" where
  "iterator_next p i = skip_to_element p (increment p i)"

lemma increment_progress: "i < length p \<Longrightarrow> i < increment p i"
  by (auto simp: increment_def find_sep_def skip_seps_def)

lemma skip_to_element_le: "i \<le> skip_to_element p i"
proof (induction p i rule: skip_to_element.induct)
  case (1 p i)
  then show ?case using skip_to_element.simps [of p i] by (cases "i < length p") (auto split: if_splits)
qed

text \<open>All elements, from \<open>begin\<close> to \<open>end\<close>.\<close>

function elements_from :: "bytes \<Rightarrow> nat \<Rightarrow> bytes list" where
  "elements_from p i = (if i < length p then current p i # elements_from p (iterator_next p i) else [])"
  by auto
termination
proof (relation "measure (\<lambda>(p, i). length p - i)")
  fix p :: bytes and i
  assume "i < length p"
  then have "i < iterator_next p i"
    using increment_progress [of i p] skip_to_element_le [of "increment p i" p] by (simp add: iterator_next_def)
  then show "((p, iterator_next p i), p, i) \<in> measure (\<lambda>(p, i). length p - i)" using \<open>i < length p\<close> by simp
qed simp

declare elements_from.simps [simp del]

definition elements :: "bytes \<Rightarrow> bytes list" where
  "elements p = elements_from p 0"

section \<open>File name, stem and extension\<close>

definition filename :: "bytes \<Rightarrow> bytes" where
  "filename p = (if has_relative_path p then current p (decrement p (length p)) else [])"

text \<open>\<open>rfind('.')\<close>.\<close>

definition rfind_dot :: "bytes \<Rightarrow> nat option" where
  "rfind_dot fn = (if CHR ''.'' \<in> set fn then Some (length fn - 1 - length (takeWhile (\<lambda>c. c \<noteq> CHR ''.'') (rev fn))) else None)"

definition stem :: "bytes \<Rightarrow> bytes" where
  "stem p =
     (let fn = filename p in
      if fn \<noteq> ''.'' \<and> fn \<noteq> ''..'' then
        (case rfind_dot fn of None \<Rightarrow> path_of fn | Some pos \<Rightarrow> if 0 < pos then path_of (take pos fn) else path_of fn)
      else path_of fn)"

definition extension :: "bytes \<Rightarrow> bytes" where
  "extension p =
     (if has_relative_path p then
        (let fn = current p (decrement p (length p)) in
         case rfind_dot fn of None \<Rightarrow> [] | Some pos \<Rightarrow> if 0 < pos \<and> fn \<noteq> ''..'' then path_of (drop pos fn) else [])
      else [])"

definition parent_path :: "bytes \<Rightarrow> bytes" where
  "parent_path p =
     (if root_path_length p < length p then
        let i = decrement p (length p) in
        path_of (take (if root_path_length p < i \<and> p ! i \<noteq> sep then i - 1 else i) p)
      else p)"

section \<open>Comparison\<close>

text \<open>\<open>std::string::compare\<close>, its sign: by the values of the bytes, then by length.\<close>

fun string_compare :: "bytes \<Rightarrow> bytes \<Rightarrow> int" where
  "string_compare [] [] = 0"
| "string_compare [] (b # bs) = - 1"
| "string_compare (a # as) [] = 1"
| "string_compare (a # as) (b # bs) =
     (if a = b then string_compare as bs else if (of_char a :: nat) < of_char b then - 1 else 1)"

text \<open>The end of \<open>compare\<close>, after the common prefix: a separator comes before every other byte; \<open>char\<close> is signed.\<close>

definition signed_char :: "char \<Rightarrow> int" where
  "signed_char c = (let n = of_char c :: int in if n < 128 then n else n - 256)"

fun compare_rest :: "bytes \<Rightarrow> bytes \<Rightarrow> int" where
  "compare_rest [] [] = 0"
| "compare_rest [] (b # bs) = - 1"
| "compare_rest (a # as) [] = 1"
| "compare_rest (a # as) (b # bs) =
     (if a = b then compare_rest as bs else if a = sep then - 1 else if b = sep then 1 else if signed_char a < signed_char b then - 1 else 1)"

definition path_compare :: "bytes \<Rightarrow> bytes \<Rightarrow> int" where
  "path_compare p q =
     (let rnl1 = root_name_length p; rnl2 = root_name_length q;
          rnc = string_compare (take rnl1 p) (take (min rnl1 rnl2) q)
      in if rnc \<noteq> 0 then rnc
         else
           let hrd1 = has_root_directory p; hrd2 = has_root_directory q in
           if hrd1 \<noteq> hrd2 then (if hrd1 then 1 else - 1)
           else if hrd1 then compare_rest (drop (Suc rnl1) p) (drop (Suc rnl2) q)
           else compare_rest (drop rnl1 p) (drop rnl2 q))"

definition path_equal :: "bytes \<Rightarrow> bytes \<Rightarrow> bool" where
  "path_equal lhs rhs \<longleftrightarrow> path_compare lhs rhs = 0"

section \<open>Output and input\<close>

definition print_path :: "bytes \<Rightarrow> bytes" where
  "print_path p = CHR ''\"'' # concat (map (\<lambda>c. if c = CHR ''\"'' \<or> c = CHR 0x5C then [CHR 0x5C, c] else [c]) p) @ [CHR ''\"'']"

text \<open>After the opening quote: the text and what follows the closing one. The end of the input ends it too, and then nothing is left.\<close>

fun read_quoted :: "bytes \<Rightarrow> bytes \<times> bytes" where
  "read_quoted [] = ([], [])"
| "read_quoted (c # cs) =
     (if c = CHR 0x5C then (case cs of [] \<Rightarrow> ([], []) | d # ds \<Rightarrow> (let (t, rest) = read_quoted ds in (d # t, rest)))
      else if c = CHR ''\"'' then ([], cs)
      else (let (t, rest) = read_quoted cs in (c # t, rest)))"

definition is_space :: "char \<Rightarrow> bool" where
  "is_space c \<longleftrightarrow> (let n = of_char c :: nat in n = 32 \<or> 9 \<le> n \<and> n \<le> 13)"

text \<open>None is an input with nothing but white space: the code then makes a path of a byte that was never set.\<close>

definition read_path :: "bytes \<Rightarrow> (bytes \<times> bytes) option" where
  "read_path s =
     (case dropWhile is_space s of
        [] \<Rightarrow> None
      | c # cs \<Rightarrow>
          if c = CHR ''\"'' then (let (t, rest) = read_quoted cs in Some (path_of t, rest))
          else
            let cs = dropWhile is_space cs
            in Some (path_of (c # takeWhile (\<lambda>c. \<not> is_space c) cs), dropWhile (\<lambda>c. \<not> is_space c) cs))"

section \<open>Files\<close>

datatype file_type = FtNone | NotFound | Regular | Directory | Symlink | Block | Character | Fifo | SocketFile | Unknown

text \<open>The type bits of \<open>st_mode\<close>.\<close>

definition file_status_from_st_mode :: "nat \<Rightarrow> file_type" where
  "file_status_from_st_mode mode =
     (let fmt = mode div 4096 mod 16 in
      if fmt = 4 then Directory else if fmt = 8 then Regular else if fmt = 2 then Character else if fmt = 6 then Block
      else if fmt = 1 then Fifo else if fmt = 10 then Symlink else if fmt = 12 then SocketFile else Unknown)"

text \<open>The answers of \<open>lstat\<close> and \<open>stat\<close>: an error number or the mode.\<close>

record file_calls =
  fs_lstat :: "bytes \<Rightarrow> int + nat"
  fs_stat :: "bytes \<Rightarrow> int + nat"

definition ENOENT :: int where "ENOENT = 2"
definition ENOTDIR :: int where "ENOTDIR = 20"
definition EEXIST :: int where "EEXIST = 17"

definition is_not_found_error :: "int \<Rightarrow> bool" where
  "is_not_found_error e \<longleftrightarrow> e = ENOENT \<or> e = ENOTDIR"

text \<open>The type and the error number, 0 for none.\<close>

definition status_ex :: "file_calls \<Rightarrow> bytes \<Rightarrow> file_type \<times> int" where
  "status_ex fs p =
     (case fs_lstat fs p of
        Inl e \<Rightarrow> (if is_not_found_error e then NotFound else FtNone, e)
      | Inr mode \<Rightarrow>
          let ft = file_status_from_st_mode mode in
          if ft = Symlink then
            (case fs_stat fs p of
               Inl e \<Rightarrow> (if is_not_found_error e then NotFound else FtNone, e)
             | Inr mode \<Rightarrow> (file_status_from_st_mode mode, 0))
          else (ft, 0))"

text \<open>\<open>status\<close>: Inl is the exception with its error number.\<close>

definition fs_status :: "file_calls \<Rightarrow> bytes \<Rightarrow> int + file_type" where
  "fs_status fs p = (let (ft, e) = status_ex fs p in if ft = FtNone then Inl e else Inr ft)"

definition status_known :: "file_type \<Rightarrow> bool" where
  "status_known ft \<longleftrightarrow> ft \<noteq> FtNone"

definition exists_status :: "file_type \<Rightarrow> bool" where
  "exists_status ft \<longleftrightarrow> status_known ft \<and> ft \<noteq> NotFound"

definition fs_exists :: "file_calls \<Rightarrow> bytes \<Rightarrow> int + bool" where
  "fs_exists fs p = (case fs_status fs p of Inl e \<Rightarrow> Inl e | Inr ft \<Rightarrow> Inr (exists_status ft))"

definition fs_is_directory :: "file_calls \<Rightarrow> bytes \<Rightarrow> int + bool" where
  "fs_is_directory fs p = (case fs_status fs p of Inl e \<Rightarrow> Inl e | Inr ft \<Rightarrow> Inr (ft = Directory))"

end
