(* ===== verification/Fs_Props.thy ===== *)
theory Fs_Props
  imports Fs_Path
begin

text \<open>
  What holds of paths: the constructor gives a normal form, the iterators enumerate the components, a path is put together from
  its parent and its file name and a file name from stem and extension, and printing can be undone. The comparison is not
  symmetric.
\<close>

section \<open>Repeated separators\<close>

fun single :: "bytes \<Rightarrow> bool" where
  "single (a # b # cs) \<longleftrightarrow> \<not> (a = sep \<and> b = sep) \<and> single (b # cs)"
| "single cs \<longleftrightarrow> True"

lemma unique_sep_hd: "unique_sep (c # cs) \<noteq> [] \<and> hd (unique_sep (c # cs)) = c"
  by (induction cs arbitrary: c) auto

lemma single_Cons: "single (a # xs) \<longleftrightarrow> single xs \<and> \<not> (a = sep \<and> xs \<noteq> [] \<and> hd xs = sep)"
  by (cases xs) auto

lemma single_unique: "single (unique_sep s)"
proof (induction s rule: unique_sep.induct)
  case (1 a b cs)
  then show ?case using unique_sep_hd [of b cs] by (auto simp: single_Cons)
qed simp_all

lemma unique_single: "single s \<Longrightarrow> unique_sep s = s"
  by (induction s rule: unique_sep.induct) auto

lemma single_append: "single (xs @ ys) \<Longrightarrow> single xs \<and> single ys"
proof (induction xs)
  case (Cons a xs)
  then show ?case by (auto simp: single_Cons)
qed simp

lemma single_parts [simp]: "single s \<Longrightarrow> single (take n s)" "single s \<Longrightarrow> single (drop n s)"
  using single_append [of "take n s" "drop n s"] by simp_all

lemma single_nth: "single s \<Longrightarrow> Suc i < length s \<Longrightarrow> s ! i = sep \<Longrightarrow> s ! Suc i \<noteq> sep"
proof (induction s arbitrary: i)
  case (Cons a s)
  then show ?case by (cases i; cases s) auto
qed simp

lemma no_sep_single: "sep \<notin> set s \<Longrightarrow> single s"
  by (induction s rule: single.induct) auto

lemma single_network: "single p \<Longrightarrow> \<not> network_prefix p"
  using single_nth [of p 0] by (auto simp: network_prefix_def)

lemma path_of_single: "single p \<Longrightarrow> path_of p = p"
  using single_network by (simp add: path_of_def postprocess_path_def unique_single)

text \<open>The constructor gives a normal form, without repeated separators unless a network name begins the path.\<close>

lemma path_of_plain: "\<not> network_prefix s \<Longrightarrow> path_of s = unique_sep s \<and> single (path_of s)"
  by (simp add: path_of_def postprocess_path_def single_unique)

theorem path_of_idempotent: "path_of (path_of s) = path_of s"
proof (cases "network_prefix s")
  case True
  then obtain c cs where s: "s = [sep, sep] @ c # cs" "c \<noteq> sep"
    by (cases s rule: single.cases; cases "tl (tl s)") (auto simp: network_prefix_def)
  then have p: "path_of s = [sep, sep] @ unique_sep (c # cs)" using True by (simp add: path_of_def postprocess_path_def)
  obtain d ds where d: "unique_sep (c # cs) = d # ds" "d = c" using unique_sep_hd [of c cs] by (cases "unique_sep (c # cs)") auto
  then have "network_prefix (path_of s)" using s(2) p by (simp add: network_prefix_def)
  then show ?thesis using p d(1) unique_single [OF single_unique, of "c # cs"] by (simp add: path_of_def postprocess_path_def)
next
  case False
  then show ?thesis using path_of_plain path_of_single by blast
qed

section \<open>Roots of plain paths\<close>

lemma plain_root:
  assumes "single p"
  shows "root_name_length p = 0" "has_root_directory p \<longleftrightarrow> p \<noteq> [] \<and> p ! 0 = sep"
    "root_path_length p = (if p \<noteq> [] \<and> p ! 0 = sep then 1 else 0)" "it_root p = (if p \<noteq> [] \<and> p ! 0 = sep then 0 else length p)"
  using single_network [OF assms]
  by (simp_all add: root_name_length_def has_root_directory_def root_path_length_def it_root_def)

section \<open>The last component\<close>

definition base :: "bytes \<Rightarrow> bytes" where
  "base p = rev (takeWhile (\<lambda>c. c \<noteq> sep) (rev p))"

text \<open>A path is what precedes its last component, which ends with a separator unless it is empty, and that component.\<close>

lemma base_split:
  obtains u where "p = u @ base p" "sep \<notin> set (base p)" "u = [] \<or> last u = sep"
proof (rule that [of "rev (dropWhile (\<lambda>c. c \<noteq> sep) (rev p))"])
  show "p = rev (dropWhile (\<lambda>c. c \<noteq> sep) (rev p)) @ base p"
    by (simp add: base_def flip: rev_append)
  show "sep \<notin> set (base p)" by (auto simp: base_def dest: set_takeWhileD)
  show "rev (dropWhile (\<lambda>c. c \<noteq> sep) (rev p)) = [] \<or> last (rev (dropWhile (\<lambda>c. c \<noteq> sep) (rev p))) = sep"
    using hd_dropWhile [of "\<lambda>c. c \<noteq> sep" "rev p"] by (auto simp: last_rev)
qed

lemma base_unique: "sep \<notin> set b \<Longrightarrow> u = [] \<or> last u = sep \<Longrightarrow> base (u @ b) = b"
proof -
  assume b: "sep \<notin> set b" and u: "u = [] \<or> last u = sep"
  have "takeWhile (\<lambda>c. c \<noteq> sep) (rev b @ rev u) = rev b @ takeWhile (\<lambda>c. c \<noteq> sep) (rev u)"
    by (rule takeWhile_append2) (use b in auto)
  moreover have "takeWhile (\<lambda>c. c \<noteq> sep) (rev u) = []" using u by (cases u rule: rev_cases) auto
  ultimately show ?thesis by (simp add: base_def)
qed

lemma find_sep_none: "sep \<notin> set (drop i p) \<Longrightarrow> i \<le> length p \<Longrightarrow> find_sep p i = length p"
proof -
  assume "sep \<notin> set (drop i p)" "i \<le> length p"
  moreover from this have "length (takeWhile (\<lambda>c. c \<noteq> sep) (drop i p)) = length (drop i p)"
    by (subst takeWhile_eq_all_conv [THEN iffD2]) auto
  ultimately show ?thesis by (simp add: find_sep_def)
qed

text \<open>The last element backwards from the end.\<close>

lemma decrement_end:
  assumes "single p" "has_relative_path p" "p = u @ b" "sep \<notin> set b" "u = [] \<or> last u = sep"
  shows "decrement p (length p) = (if b = [] then length p - 1 else length u)"
proof (cases "b = []")
  case True
  then have "u \<noteq> []" "last u = sep" using assms(2,3,5) by (auto simp: has_relative_path_def)
  then have "p ! (length p - 1) = sep" using assms(3) True by (simp add: last_conv_nth)
  then show ?thesis using True \<open>u \<noteq> []\<close> assms(3) by (simp add: decrement_def Let_def)
next
  case False
  let ?i = "length p - 1"
  have i: "?i = length u + (length b - 1)" "0 < length b" using False assms(3) by (cases b; simp)+
  have pos: "0 < length p" using i by (simp add: assms(3))
  then have "p ! ?i = last p" by (simp add: last_conv_nth)
  then have "p ! ?i = last b" using False by (simp add: assms(3))
  then have ns: "p ! ?i \<noteq> sep" using False assms(4) last_in_set by metis
  obtain n where "length p = Suc n" using pos by (cases "length p") auto
  then have "?i \<noteq> it_root p" using plain_root [OF assms(1)] ns by (cases n) auto
  moreover have "after_last_sep p ?i = length u"
  proof -
    have "take ?i p = butlast p" by (simp add: butlast_conv_take)
    then have "take ?i p = u @ butlast b" using False assms(3) by (simp add: butlast_append)
    moreover have "takeWhile (\<lambda>c. c \<noteq> sep) (rev (u @ butlast b)) = rev (butlast b)"
    proof -
      have "sep \<notin> set (butlast b)" using assms(4) in_set_butlastD by fast
      from base_unique [OF this assms(5)] show ?thesis by (metis base_def rev_rev_ident)
    qed
    ultimately show ?thesis using i by (simp add: after_last_sep_def)
  qed
  moreover have "\<not> (length u = 2 \<and> p ! 0 = sep \<and> p ! 1 = sep)" using single_nth [OF assms(1), of 0] pos i assms(3) by auto
  ultimately show ?thesis using False ns pos by (simp add: decrement_def Let_def)
qed

lemma filename_base:
  assumes "single p"
  shows "filename p = base p" "has_relative_path p \<Longrightarrow> current p (decrement p (length p)) = base p"
proof -
  obtain u where u: "p = u @ base p" "sep \<notin> set (base p)" "u = [] \<or> last u = sep" by (rule base_split)
  show cur: "current p (decrement p (length p)) = base p" if rel: "has_relative_path p"
  proof (cases "base p = []")
    case True
    then have d: "decrement p (length p) = length p - 1" using decrement_end [OF assms rel u] by simp
    have l: "p \<noteq> []" "last p = sep" using rel u True by (auto simp: has_relative_path_def)
    then have "p ! (length p - 1) = sep" by (simp add: last_conv_nth)
    moreover obtain n where "length p = Suc n" using l(1) by (cases p) auto
    moreover from this have "length p - 1 \<noteq> 0" "length p - 1 \<noteq> it_root p"
      using rel plain_root [OF assms] l by (cases n; auto simp: has_relative_path_def last_conv_nth split: if_splits)+
    ultimately show ?thesis using d True l(1) by (simp add: current_def)
  next
    case False
    then have d: "decrement p (length p) = length u" using decrement_end [OF assms rel u] by simp
    have drop: "drop (length u) p = base p" using u(1) by (metis append_eq_conv_conj)
    have lt: "length u < length p" using u(1) False by (metis append_Nil2 length_append less_add_same_cancel1 length_greater_0_conv)
    have ns: "p ! length u \<noteq> sep" using drop u(2) False lt by (metis hd_drop_conv_nth hd_in_set)
    have "sep \<notin> set (drop (Suc (length u)) p)" using drop u(2) by (metis drop_Suc in_set_dropD drop_drop plus_1_eq_Suc)
    then have "find_sep p (Suc (length u)) = length p" using find_sep_none lt by simp
    then have "increment p (length u) = length p" using lt ns by (simp add: increment_def)
    moreover have "length (base p) = length p - length u" using drop by (metis length_drop)
    ultimately show ?thesis using d drop lt ns no_sep_single [OF u(2)] by (simp add: current_def path_of_single)
  qed
  show "filename p = base p"
  proof (cases "has_relative_path p")
    case True
    then show ?thesis using cur by (simp add: filename_def)
  next
    case False
    then have "p = [] \<or> p = [sep]"
      using plain_root(3) [OF assms] by (cases p) (auto simp: has_relative_path_def split: if_splits)
    then show ?thesis using False by (auto simp: filename_def base_def)
  qed
qed

text \<open>Repeated separators do not matter for the last component.\<close>

lemma unique_sep_last: "unique_sep s \<noteq> [] \<longleftrightarrow> s \<noteq> []" "s \<noteq> [] \<Longrightarrow> last (unique_sep s) = last s"
proof -
  have "(unique_sep s \<noteq> [] \<longleftrightarrow> s \<noteq> []) \<and> (s \<noteq> [] \<longrightarrow> last (unique_sep s) = last s)"
    by (induction s rule: unique_sep.induct) auto
  then show "unique_sep s \<noteq> [] \<longleftrightarrow> s \<noteq> []" "s \<noteq> [] \<Longrightarrow> last (unique_sep s) = last s" by blast+
qed

lemma unique_sep_one: "sep \<notin> set b \<Longrightarrow> unique_sep (a # b) = a # b"
  using unique_single [OF no_sep_single [of b]] by (cases b) auto

lemma unique_sep_append: "sep \<notin> set b \<Longrightarrow> unique_sep (u @ b) = unique_sep u @ b"
  by (induction u rule: unique_sep.induct) (auto simp: unique_single no_sep_single unique_sep_one)

lemma base_unique_sep: "base (unique_sep s) = base s"
proof -
  obtain u where u: "s = u @ base s" "sep \<notin> set (base s)" "u = [] \<or> last u = sep" by (rule base_split)
  have "unique_sep u = [] \<or> last (unique_sep u) = sep" using u(3) unique_sep_last [of u] by auto
  then have "base (unique_sep u @ base s) = base s" by (rule base_unique [OF u(2)])
  then show ?thesis using unique_sep_append [OF u(2), of u] u(1) by simp
qed

lemma filename_of_argument: "\<not> network_prefix s \<Longrightarrow> filename (path_of s) = base s"
  using path_of_plain [of s] filename_base(1) [OF single_unique, of s] base_unique_sep [of s] by simp

section \<open>Stem and extension\<close>

lemma rfind_dot_split: "CHR ''.'' \<notin> set b \<Longrightarrow> rfind_dot (a @ CHR ''.'' # b) = Some (length a)"
proof -
  assume "CHR ''.'' \<notin> set b"
  then have "takeWhile (\<lambda>c. c \<noteq> CHR ''.'') (rev b @ CHR ''.'' # rev a) = rev b @ takeWhile (\<lambda>c. c \<noteq> CHR ''.'') (CHR ''.'' # rev a)"
    by (intro takeWhile_append2) auto
  then show ?thesis by (simp add: rfind_dot_def)
qed

lemma rfind_dot_cases:
  obtains "CHR ''.'' \<notin> set fn" "rfind_dot fn = None"
    | a b where "fn = a @ CHR ''.'' # b" "CHR ''.'' \<notin> set b" "rfind_dot fn = Some (length a)"
proof (cases "CHR ''.'' \<in> set fn")
  case True
  then obtain a b where "fn = a @ CHR ''.'' # b" "CHR ''.'' \<notin> set b" by (meson split_list_last)
  then show ?thesis using that(2) rfind_dot_split by blast
qed (auto simp: rfind_dot_def intro: that(1))

lemma stem_extension:
  assumes "single p"
  shows "stem p @ extension p = filename p"
proof -
  obtain u where u: "p = u @ base p" "sep \<notin> set (base p)" "u = [] \<or> last u = sep" by (rule base_split)
  have part: "path_of (take n (base p)) = take n (base p)" "path_of (drop n (base p)) = drop n (base p)" for n
    using path_of_single no_sep_single [OF u(2)] by simp_all
  have "base p = [] \<or> has_relative_path p"
    using plain_root(3) [OF assms] by (cases p) (auto simp: has_relative_path_def base_def)
  then show ?thesis
  proof
    assume "base p = []"
    then show ?thesis
      using filename_base [OF assms]
      by (simp add: stem_def extension_def rfind_dot_def path_of_def postprocess_path_def network_prefix_def)
  next
    assume rel: "has_relative_path p"
    then show ?thesis
      using filename_base(1) [OF assms] filename_base(2) [OF assms rel] part [of 0] part
      by (auto simp: stem_def extension_def rfind_dot_def Let_def split: option.splits)
  qed
qed

text \<open>Which arguments have a given extension: those whose last component has something before it.\<close>

theorem extension_of_argument:
  assumes "\<not> network_prefix s" "CHR ''.'' \<notin> set e" "e \<noteq> []" "sep \<notin> set e"
  shows "extension (path_of s) = CHR ''.'' # e \<longleftrightarrow> (\<exists>b. b \<noteq> [] \<and> base s = b @ CHR ''.'' # e)"
proof -
  let ?p = "path_of s"
  have s: "single ?p" "base ?p = base s" using path_of_plain [OF assms(1)] single_unique [of s] base_unique_sep [of s] by simp_all
  obtain u where u: "?p = u @ base ?p" "sep \<notin> set (base ?p)" "u = [] \<or> last u = sep" by (rule base_split)
  have part: "path_of (drop n (base s)) = drop n (base s)" for n
    using path_of_single no_sep_single u(2) s(2) by (metis single_parts(2))
  have none: "base s = []" if "\<not> has_relative_path ?p"
    using that plain_root(3) [OF s(1)] s(2) by (cases ?p) (auto simp: has_relative_path_def base_def split: if_splits)
  have cur: "has_relative_path ?p \<Longrightarrow> current ?p (decrement ?p (length ?p)) = base s" using filename_base(2) [OF s(1)] s(2) by simp
  show ?thesis
  proof (cases rule: rfind_dot_cases [of "base s"])
    case 1
    then show ?thesis using cur by (auto simp: extension_def Let_def)
  next
    case (2 a b)
    have "has_relative_path ?p" using none 2(1) by auto
    then have ext: "extension ?p = (if 0 < length a \<and> base s \<noteq> ''..'' then CHR ''.'' # b else [])"
      using cur 2 part [of "length a"] by (simp add: extension_def)
    have same: "c = a \<and> e = b" if "a @ CHR ''.'' # b = c @ CHR ''.'' # e" for c
    proof -
      have "length a = length c" using arg_cong [OF that, of rfind_dot] by (simp add: rfind_dot_split 2(2) assms(2))
      then show ?thesis using that by simp
    qed
    have "base s \<noteq> ''..''" if "b = e"
    proof
      assume "base s = ''..''"
      then have "last (base s) = CHR ''.''" by simp
      moreover have "last (base s) = last e" using 2(1) that assms(3) by simp
      ultimately show False using assms(2,3) last_in_set [of e] by simp
    qed
    with ext have "extension ?p = CHR ''.'' # e \<longleftrightarrow> a \<noteq> [] \<and> b = e" by auto
    then show ?thesis unfolding 2(1) using same by blast
  qed
qed

section \<open>Parent and file name\<close>

theorem parent_and_filename:
  assumes "single p" "has_relative_path p"
  shows "p = parent_path p @ (if parent_path p = [] \<or> parent_path p = [sep] then [] else [sep]) @ filename p
    \<or> p = parent_path p @ [sep] \<and> filename p = []"
proof -
  obtain u where u: "p = u @ base p" "sep \<notin> set (base p)" "u = [] \<or> last u = sep" by (rule base_split)
  note d = decrement_end [OF assms u] and r = plain_root [OF assms(1)]
  have rel: "root_path_length p < length p" using assms(2) by (simp add: has_relative_path_def)
  have part: "path_of (take n p) = take n p" for n using path_of_single single_parts(1) [OF assms(1)] by blast
  have name: "filename p = base p" by (rule filename_base(1) [OF assms(1)])
  show ?thesis
  proof (cases "base p = []")
    case True
    then have l: "p \<noteq> []" "last p = sep" using u rel by auto
    then have "p ! (length p - 1) = sep" by (simp add: last_conv_nth)
    then have "parent_path p = butlast p" using True d rel part by (simp add: parent_path_def butlast_conv_take)
    moreover have "p = butlast p @ [sep]" using l by (metis append_butlast_last_id)
    ultimately show ?thesis using True name by simp
  next
    case False
    have "p ! length u = hd (base p)" using u(1) False by (metis hd_conv_nth nth_append_length_plus add_0_right)
    then have ns: "p ! length u \<noteq> sep" using u(2) False by (metis hd_in_set)
    have take: "take (length u) p = u" "take (length u - 1) p = butlast u"
      using u(1) by (metis append_eq_conv_conj, metis append_eq_conv_conj butlast_take length_append le_add1)
    then have par: "parent_path p = (if root_path_length p < length u then butlast u else u)"
      using False d rel part [of "length u"] part [of "length u - 1"] ns by (simp add: parent_path_def)
    show ?thesis
    proof (cases "length u \<le> 1")
      case True
      then have "u = [] \<or> u = [sep]" using u(3) by (cases u) auto
      moreover have "u = [sep] \<Longrightarrow> p ! 0 = sep \<and> p \<noteq> []" using u(1) by (metis append_Cons list.distinct(1) nth_Cons_0)
      ultimately have "parent_path p = u" using par r(3) by auto
      then show ?thesis using \<open>u = [] \<or> u = [sep]\<close> u(1) name by auto
    next
      case long: False
      have "root_path_length p < length u" using long r(3) by auto
      then have pp: "parent_path p = butlast u" using par by simp
      have un: "u = butlast u @ [sep]" using u(3) long by (cases u rule: rev_cases) auto
      then have "butlast u \<noteq> [] \<and> butlast u \<noteq> [sep]"
        using long assms(1) u(1) by (metis append_Cons append_Nil length_Cons list.size(3) One_nat_def le_refl single.simps(1))
      then show ?thesis using pp un u(1) name by (metis append.assoc)
    qed
  qed
qed

section \<open>Iteration\<close>

text \<open>The components: what stands between separators; a separator at the end is followed by an empty component.\<close>

function components :: "bytes \<Rightarrow> bytes list" where
  "components p =
     (if p = [] then []
      else takeWhile (\<lambda>c. c \<noteq> sep) p #
        (case dropWhile (\<lambda>c. c \<noteq> sep) p of [] \<Rightarrow> [] | s # rest \<Rightarrow> if rest = [] then [[]] else components rest))"
  by auto
termination
proof (relation "measure length")
  fix p :: bytes and s rest
  assume "dropWhile (\<lambda>c. c \<noteq> sep) p = s # rest"
  then have "length (s # rest) \<le> length p" by (metis length_dropWhile_le)
  then show "(rest, p) \<in> measure length" by simp
qed simp

declare components.simps [simp del]

lemma skip_stops: "i = length p \<or> p ! i \<noteq> sep \<or> Suc i = length p \<Longrightarrow> skip_to_element p i = i"
  by (subst skip_to_element.simps) auto

lemma elements_end: "elements_from p (length p) = []"
  by (simp add: elements_from.simps)

lemma one_element:
  assumes "single p" "i < length p" "p ! i \<noteq> sep"
  defines "v \<equiv> takeWhile (\<lambda>c. c \<noteq> sep) (drop i p)"
  shows "v \<noteq> []" "increment p i = i + length v" "current p i = v"
proof -
  have xs: "drop i p = p ! i # drop (Suc i) p" using assms(2) by (rule Cons_nth_drop_Suc [symmetric])
  then show "v \<noteq> []" using assms(3) by (simp add: v_def)
  show inc: "increment p i = i + length v" using assms(2,3) xs by (simp add: increment_def find_sep_def v_def)
  have "take (increment p i - i) (drop i p) = v" unfolding inc by (simp add: v_def takeWhile_eq_take [symmetric])
  moreover have "path_of v = v" by (rule path_of_single, rule no_sep_single) (auto simp: v_def dest: set_takeWhileD)
  ultimately show "current p i = v" using assms(2,3) by (simp add: current_def)
qed

lemma elements_from_components:
  assumes "single p" "i \<le> length p" "i < length p \<longrightarrow> p ! i \<noteq> sep"
  shows "elements_from p i = components (drop i p)"
  using assms(2,3)
proof (induction "length p - i" arbitrary: i rule: less_induct)
  case less
  show ?case
  proof (cases "i < length p")
    case False
    then show ?thesis using less.prems(1) elements_end [of p] by (simp add: components.simps)
  next
    case True
    let ?v = "takeWhile (\<lambda>c. c \<noteq> sep) (drop i p)"
    define j where "j = i + length ?v"
    have ns: "p ! i \<noteq> sep" using less.prems(2) True by blast
    note e = one_element [OF assms(1) True ns]
    have j: "i < j" "j \<le> length p" using e(1) True length_takeWhile_le [of "\<lambda>c. c \<noteq> sep" "drop i p"] by (simp_all add: j_def)
    have rest: "dropWhile (\<lambda>c. c \<noteq> sep) (drop i p) = drop j p" by (simp add: j_def dropWhile_eq_drop add.commute)
    have comps: "components (drop i p) = ?v # (case drop j p of [] \<Rightarrow> [] | s # r \<Rightarrow> if r = [] then [[]] else components r)"
      using True by (subst components.simps) (simp add: rest)
    have els: "elements_from p i = ?v # elements_from p (skip_to_element p j)"
      using True e by (subst elements_from.simps) (simp add: iterator_next_def j_def)
    show ?thesis
    proof (cases "j = length p")
      case True
      then show ?thesis using comps els skip_stops [of j p] elements_end by simp
    next
      case False
      then have jl: "j < length p" using j by simp
      have pj: "p ! j = sep"
        using nth_length_takeWhile [of "\<lambda>c. c \<noteq> sep" "drop i p"] jl True by (simp add: j_def)
      have drop: "drop j p = sep # drop (Suc j) p" using Cons_nth_drop_Suc [OF jl] pj by simp
      have root: "j \<noteq> it_root p" using plain_root(4) [OF assms(1)] j jl by simp
      show ?thesis
      proof (cases "Suc j = length p")
        case True
        have "increment p j = Suc j" using jl pj True by (simp add: increment_def)
        then have "iterator_next p j = length p" using True skip_stops [of "length p" p] by (simp add: iterator_next_def)
        then have "elements_from p j = [[]]"
          using jl pj root True j elements_end [of p] by (subst elements_from.simps) (simp add: current_def)
        then show ?thesis using comps els skip_stops [of j p] True drop by simp
      next
        case more: False
        then have "p ! Suc j \<noteq> sep" using single_nth [OF assms(1) _ pj] jl by simp
        then have "skip_to_element p j = Suc j" using jl pj root more skip_stops [of "Suc j" p] by (subst skip_to_element.simps) simp
        moreover have "elements_from p (Suc j) = components (drop (Suc j) p)"
          using less.hyps [of "Suc j"] j jl more \<open>p ! Suc j \<noteq> sep\<close> by simp
        ultimately show ?thesis using comps els drop jl more by simp
      qed
    qed
  qed
qed

theorem elements_components:
  assumes "single p"
  shows "elements p = (if p \<noteq> [] \<and> p ! 0 = sep then [sep] # components (tl p) else components p)"
proof (cases "p \<noteq> [] \<and> p ! 0 = sep")
  case False
  then show ?thesis using elements_from_components [OF assms, of 0] by (auto simp: elements_def)
next
  case True
  have one: "Suc 0 < length p \<longrightarrow> p ! Suc 0 \<noteq> sep" using single_nth [OF assms, of 0] True by simp
  have len: "Suc 0 = length p \<or> Suc 0 < length p" using True by (cases p; cases "tl p") auto
  have inc: "increment p 0 = Suc 0" using len True one by (auto simp: increment_def)
  have "take (Suc 0) p = [sep]" using True by (cases p) auto
  then have "current p 0 = [sep]" using True inc path_of_single [of "[sep]"] by (simp add: current_def)
  moreover have "iterator_next p 0 = Suc 0"
    using len one inc skip_stops [of "Suc 0" p] by (auto simp: iterator_next_def)
  ultimately have "elements p = [sep] # elements_from p (Suc 0)"
    unfolding elements_def using True by (subst elements_from.simps) simp
  moreover have "elements_from p (Suc 0) = components (drop (Suc 0) p)"
    using True one by (intro elements_from_components [OF assms]) (auto simp: Suc_le_eq)
  ultimately show ?thesis using True by (simp add: drop_Suc)
qed

section \<open>Printing\<close>

lemma read_quoted_print:
  "read_quoted (concat (map (\<lambda>c. if c = CHR ''\"'' \<or> c = CHR 0x5C then [CHR 0x5C, c] else [c]) p) @ CHR ''\"'' # rest) = (p, rest)"
  by (induction p) auto

theorem print_read: "read_path (print_path p @ rest) = Some (path_of p, rest)"
  by (simp add: read_path_def print_path_def is_space_def read_quoted_print)

section \<open>Comparison\<close>

text \<open>A network name equals, to the right of it, the empty path, and the other way round it does not.\<close>

lemma compare_not_symmetric: "path_equal [] ''//host'' \<and> \<not> path_equal ''//host'' []"
  by (simp add: path_equal_def path_compare_def root_name_length_def has_root_directory_def network_prefix_def sep_def
    isprint_def find_sep_def Let_def)

end
