(* ===== verification/Detect_Input.thy ===== *)
theory Detect_Input
  imports Detect_Run Fs_Props
begin

text \<open>
  The detector with its file system library: how the argument of \<open>main\<close> (\<open>src/end2end/main.cpp\<close>) becomes a list of pictures or a
  video, with the paths and the questions of \<open>filesystem.hpp\<close>.
\<close>

text \<open>
  \<open>globbed\<close> is the answer of \<open>cv::glob\<close> for a pattern. An error of \<open>lstat\<close> other than a missing file is an exception that nothing
  catches, with which the program aborts.
\<close>

definition detector_input :: "file_calls \<Rightarrow> (bytes \<Rightarrow> bytes list) \<Rightarrow> bytes \<Rightarrow> stop + pictures" where
  "detector_input fs globbed arg =
     (let path = path_of arg in
      case fs_exists fs path of
        Inl e \<Rightarrow> Inl Aborted
      | Inr True \<Rightarrow> select_input True False (extension path) path []
      | Inr False \<Rightarrow>
          (case fs_is_directory fs path of
             Inl e \<Rightarrow> Inl Aborted
           | Inr d \<Rightarrow> select_input False d (extension path) path (globbed (path @ ''/*.jpg''))))"

lemma not_both: "fs_exists fs p = Inr False \<Longrightarrow> fs_is_directory fs p = Inr False"
  by (auto simp: fs_exists_def fs_is_directory_def exists_status_def status_known_def fs_status_def Let_def
    split: sum.splits prod.splits if_splits)

definition image_suffixes :: "bytes list" where
  "image_suffixes = [''.jpg'', ''.jpeg'', ''.png'']"

definition video_suffixes :: "bytes list" where
  "video_suffixes = [''.mp4'', ''.avi'', ''.m4v'', ''.mpeg'', ''.mov'', ''.mkv'']"

definition named :: "bytes list \<Rightarrow> bytes \<Rightarrow> bool" where
  "named es s \<longleftrightarrow> (\<exists>e\<in>set es. \<exists>b. b \<noteq> [] \<and> base s = b @ e)"

lemma extension_named:
  assumes "\<not> network_prefix s" "\<forall>e\<in>set es. \<exists>e'. e = CHR ''.'' # e' \<and> e' \<noteq> [] \<and> CHR ''.'' \<notin> set e' \<and> sep \<notin> set e'"
  shows "extension (path_of s) \<in> set es \<longleftrightarrow> named es s"
proof -
  have "extension (path_of s) = e \<longleftrightarrow> (\<exists>b. b \<noteq> [] \<and> base s = b @ e)" if "e \<in> set es" for e
    using assms(2) that extension_of_argument [OF assms(1)] by fastforce
  then show ?thesis unfolding named_def by blast
qed

text \<open>
  Property C35. What the detector shows depends on the name of its argument alone, once that exists: a picture or a video if the last
  component ends with a known suffix after at least one byte, also when it is a directory, and it aborts otherwise. An
  argument that does not exist shows nothing, and the pictures of a directory are never listed. Condition: the argument does
  not begin with two separators and a byte other than a separator; of such a one (//a.jpg) the library takes the first component for
  the name of a host, without an extension.
\<close>

theorem input_by_name:
  assumes "\<not> network_prefix arg"
  shows "detector_input fs globbed arg =
    (case status_ex fs (path_of arg) of
       (ft, e) \<Rightarrow>
         if ft = FtNone then Inl Aborted
         else if ft = NotFound then Inr (ImageList [])
         else if named image_suffixes arg then Inr (ImageList [path_of arg])
         else if named video_suffixes arg then Inr Video
         else Inl Aborted)"
proof -
  have i: "extension (path_of arg) \<in> {''.jpg'', ''.jpeg'', ''.png''} \<longleftrightarrow> named image_suffixes arg"
    using extension_named [OF assms, of image_suffixes] by (simp add: image_suffixes_def sep_def)
  have v: "extension (path_of arg) \<in> {''.mp4'', ''.avi'', ''.m4v'', ''.mpeg'', ''.mov'', ''.mkv''} \<longleftrightarrow> named video_suffixes arg"
    using extension_named [OF assms, of video_suffixes] by (simp add: video_suffixes_def sep_def)
  obtain ft e where s: "status_ex fs (path_of arg) = (ft, e)" by (rule prod.exhaust)
  then have ex: "fs_exists fs (path_of arg) = (if ft = FtNone then Inl e else Inr (ft \<noteq> NotFound))"
    by (simp add: fs_exists_def fs_status_def exists_status_def status_known_def)
  show ?thesis
  proof (cases "ft = NotFound")
    case True
    then have "fs_is_directory fs (path_of arg) = Inr False" using not_both ex by simp
    then show ?thesis using True ex s by (simp add: detector_input_def select_input_def Let_def)
  next
    case False
    then show ?thesis using ex s i v by (simp add: detector_input_def select_input_def Let_def del: insert_iff)
  qed
qed

definition one_file :: "bytes \<Rightarrow> file_calls" where
  "one_file f = \<lparr>fs_lstat = (\<lambda>p. if p = f then Inr 33188 else Inl ENOENT), fs_stat = (\<lambda>p. Inl ENOENT)\<rparr>"

lemma input_by_name_witness:
  "detector_input (one_file ''data/a.jpg'') (\<lambda>_. []) ''data//a.jpg'' = Inr (ImageList [''data/a.jpg''])"
proof -
  have p: "path_of ''data//a.jpg'' = ''data/a.jpg''" "\<not> network_prefix ''data//a.jpg''"
    by (simp_all add: path_of_def postprocess_path_def network_prefix_def sep_def)
  have "base ''data//a.jpg'' = ''a'' @ ''.jpg''" by (simp add: base_def sep_def)
  then have "named image_suffixes ''data//a.jpg''" unfolding named_def image_suffixes_def by (metis list.distinct(1) list.set_intros(1))
  then show ?thesis
    using input_by_name [OF p(2), of "one_file ''data/a.jpg''" "\<lambda>_. []"]
    by (simp add: p(1) status_ex_def one_file_def file_status_from_st_mode_def Let_def)
qed

end
