(* ===== verification/Fs_Modify.thy ===== *)
theory Fs_Modify
  imports Fs_Props
begin

text \<open>
  Paths put together and taken apart (\<open>filesystem.hpp\<close>): appending, replacing the file name and the extension, and the lexical
  normal form and difference. A path is the sum of its elements, but for a colon before a last separator.
\<close>

section \<open>Queries\<close>

definition has_root_path :: "bytes \<Rightarrow> bool" where
  "has_root_path p \<longleftrightarrow> has_root_name p \<or> has_root_directory p"

definition has_parent_path :: "bytes \<Rightarrow> bool" where
  "has_parent_path p \<longleftrightarrow> parent_path p \<noteq> []"

definition has_filename :: "bytes \<Rightarrow> bool" where
  "has_filename p \<longleftrightarrow> has_relative_path p \<and> filename p \<noteq> []"

definition has_stem :: "bytes \<Rightarrow> bool" where
  "has_stem p \<longleftrightarrow> stem p \<noteq> []"

definition has_extension :: "bytes \<Rightarrow> bool" where
  "has_extension p \<longleftrightarrow> extension p \<noteq> []"

definition is_relative :: "bytes \<Rightarrow> bool" where
  "is_relative p \<longleftrightarrow> \<not> is_absolute p"

section \<open>Appending and modifying\<close>

text \<open>The loop of \<open>operator/=\<close> over the elements of the other path.\<close>

fun append_elements :: "bool \<Rightarrow> bytes \<Rightarrow> bytes list \<Rightarrow> bytes" where
  "append_elements first p [] = p"
| "append_elements first p (e # es) =
     append_elements False ((if \<not> first \<and> \<not> (p \<noteq> [] \<and> last p = sep) then p @ [sep] else p) @ e) es"

definition path_append :: "bytes \<Rightarrow> bytes \<Rightarrow> bytes" where
  "path_append p q =
     (if q = [] then (if p \<noteq> [] \<and> last p \<noteq> sep \<and> last p \<noteq> CHR '':'' then p @ [sep] else p)
      else if is_absolute q \<and> (p \<noteq> root_name p \<or> q \<noteq> [sep]) \<or> has_root_name q \<and> \<not> path_equal (root_name q) (root_name p) then q
      else
        let p = (if has_root_directory q then root_name p
                 else if \<not> has_root_directory p \<and> is_absolute p \<or> has_filename p then p @ [sep] else p)
        in append_elements True p (if has_root_name q then tl (elements q) else elements q))"

definition remove_filename :: "bytes \<Rightarrow> bytes" where
  "remove_filename p = (if has_filename p then take (length p - length (filename p)) p else p)"

definition replace_filename :: "bytes \<Rightarrow> bytes \<Rightarrow> bytes" where
  "replace_filename p replacement = path_append (remove_filename p) replacement"

definition path_concat :: "bytes \<Rightarrow> bytes \<Rightarrow> bytes" where
  "path_concat p x = postprocess_path (p @ x)"

definition replace_extension :: "bytes \<Rightarrow> bytes \<Rightarrow> bytes" where
  "replace_extension p replacement =
     (let p = (if has_extension p then take (length p - length (extension p)) p else p);
          p = (if replacement \<noteq> [] \<and> replacement ! 0 \<noteq> CHR ''.'' then p @ ''.'' else p)
      in path_concat p replacement)"

section \<open>Normal form and difference\<close>

text \<open>One element in the loop of \<open>lexically_normal\<close>; \<open>p\<close> is the whole path.\<close>

definition normal_step :: "bytes \<Rightarrow> bytes \<times> bool \<Rightarrow> bytes \<Rightarrow> bytes \<times> bool" where
  "normal_step p st s =
     (let (dest, lastDotDot) = st in
      if s = ''.'' then (path_append dest [], lastDotDot)
      else if s = ''..'' \<and> dest \<noteq> [] \<and> path_equal dest (root_path p) then (dest, lastDotDot)
      else if s = ''..'' \<and> dest \<noteq> [] \<and> \<not> path_equal (current dest (decrement dest (length dest))) ''..''
      then (remove_filename (if last dest = sep then butlast dest else dest), lastDotDot)
      else (if s = [] \<and> lastDotDot then dest else path_append dest (path_of s), s = ''..''))"

definition lexically_normal :: "bytes \<Rightarrow> bytes" where
  "lexically_normal p =
     (let dest = fst (foldl (normal_step p) ([], False) (elements p)) in if dest = [] then ''.'' else dest)"

fun strip_common :: "bytes list \<Rightarrow> bytes list \<Rightarrow> bytes list \<times> bytes list" where
  "strip_common (a # as) (b # bs) = (if path_equal a b then strip_common as bs else (a # as, b # bs))"
| "strip_common as bs = (as, bs)"

text \<open>The ascents needed: ordinary elements count up, \<open>..\<close> counts down.\<close>

definition ascents :: "bytes list \<Rightarrow> int" where
  "ascents es = foldl (\<lambda>n e. if \<not> path_equal e ''.'' \<and> \<not> path_equal e [] \<and> \<not> path_equal e ''..'' then n + 1
     else if path_equal e ''..'' then n - 1 else n) 0 es"

definition lexically_relative :: "bytes \<Rightarrow> bytes \<Rightarrow> bytes" where
  "lexically_relative p bas =
     (if \<not> path_equal (root_name p) (root_name bas) \<or> is_absolute p \<noteq> is_absolute bas
         \<or> \<not> has_root_directory p \<and> has_root_directory bas then []
      else
        let (a, b) = strip_common (elements p) (elements bas) in
        if a = [] \<and> b = [] then ''.''
        else
          let n = ascents b in
          if n = 0 \<and> (a = [] \<or> hd a = []) then ''.''
          else if n < 0 then []
          else foldl path_append (foldl path_append [] (replicate (nat n) ''..'')) a)"

definition lexically_proximate :: "bytes \<Rightarrow> bytes \<Rightarrow> bytes" where
  "lexically_proximate p bas = (let result = lexically_relative p bas in if result = [] then p else result)"

section \<open>A path is the sum of its elements\<close>

lemma components_last:
  assumes "xs \<noteq> []" "dropWhile (\<lambda>c. c \<noteq> sep) xs = []"
  shows "components xs = [takeWhile (\<lambda>c. c \<noteq> sep) xs]"
  unfolding components.simps [of xs] assms(2) using assms(1) by simp

lemma components_one: "c \<noteq> [] \<Longrightarrow> sep \<notin> set c \<Longrightarrow> components c = [c]"
proof -
  assume c: "c \<noteq> []" "sep \<notin> set c"
  then have "dropWhile (\<lambda>c. c \<noteq> sep) c = []" by (subst dropWhile_eq_Nil_conv) auto
  moreover have "takeWhile (\<lambda>c. c \<noteq> sep) c = c" using c(2) by (subst takeWhile_eq_all_conv) auto
  ultimately show ?thesis using components_last [OF c(1)] by metis
qed

lemma has_filename_base: "single p \<Longrightarrow> has_filename p \<longleftrightarrow> base p \<noteq> []"
  using filename_base(1) [of p] plain_root(3) [of p]
  by (cases p) (auto simp: has_filename_def has_relative_path_def base_def split: if_splits)

lemma append_component:
  assumes "single d" "c \<noteq> []" "sep \<notin> set c"
  shows "path_append d c = (if base d \<noteq> [] then d @ [sep] @ c else d @ c)"
proof -
  have c: "single c" by (rule no_sep_single [OF assms(3)])
  have "c ! 0 \<noteq> sep" using assms(2,3) by (cases c) auto
  then have r: "\<not> has_root_directory c" "\<not> has_root_name c" "elements c = [c]"
    using plain_root [OF c(1)] elements_components [OF c(1)] components_one [OF assms(2,3)] by (simp_all add: has_root_name_def)
  then show ?thesis
    using assms(1,2) has_filename_base by (simp add: path_append_def is_absolute_def Let_def)
qed

lemma base_append: "c \<noteq> [] \<Longrightarrow> sep \<notin> set c \<Longrightarrow> base (d @ c) \<noteq> []"
proof -
  assume c: "c \<noteq> []" "sep \<notin> set c"
  then have "takeWhile (\<lambda>c. c \<noteq> sep) (rev c @ rev d) = rev c @ takeWhile (\<lambda>c. c \<noteq> sep) (rev d)"
    by (intro takeWhile_append2) auto
  then show ?thesis using c by (simp add: base_def)
qed

text \<open>Adding the components one by one; the end of the path must not be a colon and a separator.\<close>

lemma sum_components:
  assumes "base d \<noteq> [] \<Longrightarrow> p = d @ [sep] @ xs" "base d = [] \<Longrightarrow> p = d @ xs" "single p" "xs \<noteq> []" "hd xs \<noteq> sep"
    "\<nexists>u. xs = u @ '':/''"
  shows "foldl path_append d (components xs) = p"
  using assms
proof (induction xs arbitrary: d rule: components.induct)
  case (1 xs)
  let ?v = "takeWhile (\<lambda>c. c \<noteq> sep) xs"
  have v: "?v \<noteq> []" "sep \<notin> set ?v" using 1(5,6) by (cases xs; auto dest: set_takeWhileD)+
  have d: "single d" using 1(2,3,4) single_append [of d] by metis
  define e where "e = path_append d ?v"
  have e: "e = (if base d \<noteq> [] then d @ [sep] @ ?v else d @ ?v)" unfolding e_def by (rule append_component [OF d v])
  then have be: "base e \<noteq> []" using base_append [OF v, of d] base_append [OF v, of "d @ [sep]"] by simp
  have pe: "p = e @ dropWhile (\<lambda>c. c \<noteq> sep) xs" using e 1(2,3) by (auto simp: takeWhile_dropWhile_id)
  show ?case
  proof (cases "dropWhile (\<lambda>c. c \<noteq> sep) xs")
    case Nil
    have "p = e" using pe unfolding Nil by simp
    then show ?thesis unfolding components_last [OF 1(5) Nil] by (simp add: e_def)
  next
    case (Cons s rest)
    then have s: "s = sep" using hd_dropWhile [of "\<lambda>c. c \<noteq> sep" xs] by auto
    have xs: "xs = ?v @ sep # rest" using Cons s by (metis takeWhile_dropWhile_id)
    show ?thesis
    proof (cases "rest = []")
      case True
      then have "last ?v \<noteq> CHR '':''" using 1(7) xs v(1) by (metis append.assoc append_Cons append_Nil append_butlast_last_id sep_def)
      moreover have "last e = last ?v" using e v(1) by simp
      moreover have "last ?v \<noteq> sep" using v last_in_set by metis
      ultimately have "path_append e [] = e @ [sep]" using be by (auto simp: path_append_def base_def)
      then show ?thesis using True Cons s pe 1(5) by (subst components.simps) (simp add: e_def)
    next
      case False
      have "single (sep # rest)" using pe 1(4) Cons s single_append by metis
      then have "hd rest \<noteq> sep" using False by (simp add: single_Cons)
      moreover have "\<nexists>u. rest = u @ '':/''" using 1(7) xs by (metis append.assoc append_Cons)
      moreover have "p = e @ [sep] @ rest" using pe Cons s by simp
      ultimately have "foldl path_append e (components rest) = p"
        using 1(1) [OF 1(5) Cons False, of e] be False 1(4) by simp
      then show ?thesis using False Cons 1(5) by (subst components.simps) (simp add: e_def)
    qed
  qed
qed

theorem path_sum_of_elements:
  assumes "single p" "\<nexists>u. p = u @ '':/''"
  shows "foldl path_append [] (elements p) = p"
proof (cases "p \<noteq> [] \<and> p ! 0 = sep")
  case False
  have "p \<noteq> [] \<Longrightarrow> foldl path_append [] (components p) = p"
    using False assms by (intro sum_components) (auto simp: base_def hd_conv_nth)
  then show ?thesis using elements_components [OF assms(1)] False by (auto simp: components.simps)
next
  case True
  then obtain xs where p: "p = sep # xs" by (cases p) auto
  have one: "single [sep]" "components [] = []" by (simp_all add: components.simps)
  have root: "root_name [] = []" by (simp add: root_name_def root_name_length_def network_prefix_def path_of_def postprocess_path_def)
  have els: "elements [sep] = [[sep]]" using elements_components [OF one(1)] one(2) by simp
  have "path_append [] [sep] = [sep]"
    using plain_root [OF one(1)] root els by (simp add: path_append_def is_absolute_def has_root_name_def)
  moreover have "xs \<noteq> [] \<Longrightarrow> foldl path_append [sep] (components xs) = p"
    using assms p by (intro sum_components) (auto simp: base_def single_Cons)
  ultimately show ?thesis using elements_components [OF assms(1)] True p by (cases "xs = []") (auto simp: one(2))
qed

text \<open>A colon before the last separator is taken for a drive: the separator is lost.\<close>

lemma colon_loses_separator: "elements ''a:/'' = [''a:'', []] \<and> path_append ''a:'' [] = ''a:''"
proof -
  have "single ''a:/''" by (simp add: sep_def)
  from elements_components [OF this] show ?thesis by (simp add: components.simps sep_def path_append_def)
qed

text \<open>Parent and file name, put together again.\<close>

lemma append_parent_filename:
  assumes "single p" "has_relative_path p" "filename p \<noteq> []"
  shows "path_append (parent_path p) (filename p) = p"
proof -
  have f: "filename p = base p" "sep \<notin> set (filename p)"
    using filename_base(1) [OF assms(1)] by (auto simp: base_def dest: set_takeWhileD)
  have p: "p = parent_path p @ (if parent_path p = [] \<or> parent_path p = [sep] then [] else [sep]) @ filename p"
    using parent_and_filename [OF assms(1,2)] assms(3) by blast
  then have par: "single (parent_path p)" using assms(1) single_append by metis
  show ?thesis
  proof (cases "parent_path p = [] \<or> parent_path p = [sep]")
    case True
    then show ?thesis using append_component [OF par assms(3) f(2)] p by (auto simp: base_def)
  next
    case False
    obtain u where u: "parent_path p = u @ base (parent_path p)" "u = [] \<or> last u = sep" by (rule base_split)
    have "base (parent_path p) \<noteq> []"
    proof
      assume "base (parent_path p) = []"
      then have "last (parent_path p) = sep" using u False by auto
      then obtain v where "parent_path p = v @ [sep]" using False by (metis append_butlast_last_id)
      then have "single (v @ [sep] @ [sep] @ filename p)" using p False assms(1) by (metis append.assoc)
      then show False using single_append [of v] by (metis append_Cons append_Nil single.simps(1))
    qed
    then show ?thesis using append_component [OF par assms(3) f(2)] p False by simp
  qed
qed

end
