(* ===== verification/Fs_Dirs.thy ===== *)
theory Fs_Dirs
  imports Fs_Modify
begin

text \<open>
  Links and directories (\<open>src/end2end/include/filesystem.hpp\<close>, on Linux): reading a symbolic link, the absolute form of a path,
  and making directories. The state of the file system is a type parameter; the calls on it are parameters.
\<close>

section \<open>Symbolic links\<close>

text \<open>\<open>symlink_status\<close>: the type and the error number, 0 for none.\<close>

definition symlink_status :: "file_calls \<Rightarrow> bytes \<Rightarrow> file_type \<times> int" where
  "symlink_status fs p =
     (case fs_lstat fs p of
        Inl e \<Rightarrow> (if is_not_found_error e then NotFound else FtNone, e)
      | Inr mode \<Rightarrow> (file_status_from_st_mode mode, 0))"

text \<open>
  The loop of \<open>resolveSymlink\<close>, which doubles its buffer until the answer of \<open>readlink\<close> is shorter. \<open>readlink\<close> cuts the text off at
  the size of the buffer. The loop has a number of rounds; None means they ran out.
\<close>

fun resolve_loop :: "nat \<Rightarrow> int + bytes \<Rightarrow> nat \<Rightarrow> (int + bytes) option" where
  "resolve_loop 0 link bufferSize = None"
| "resolve_loop (Suc m) link bufferSize =
     (case link of
        Inl e \<Rightarrow> Some (Inl e)
      | Inr t \<Rightarrow>
          let rc = min (length t) bufferSize
          in if rc < bufferSize then Some (Inr (path_of (take rc t))) else resolve_loop m link (bufferSize * 2))"

definition resolveSymlink :: "nat \<Rightarrow> int + bytes \<Rightarrow> (int + bytes) option" where
  "resolveSymlink m link = resolve_loop m link 256"

definition EINVAL :: int where "EINVAL = 22"

definition read_symlink :: "nat \<Rightarrow> file_calls \<Rightarrow> (bytes \<Rightarrow> int + bytes) \<Rightarrow> bytes \<Rightarrow> (int + bytes) option" where
  "read_symlink m fs readlink p =
     (let (ft, e) = symlink_status fs p in if ft \<noteq> Symlink then Some (Inl EINVAL) else resolveSymlink m (readlink p))"

lemma resolve_loop_ends:
  "length t < n * 2 ^ m \<Longrightarrow> 0 < n \<Longrightarrow> resolve_loop (Suc m) (Inr t) n = Some (Inr (path_of t))"
proof (induction m arbitrary: n)
  case (Suc m)
  show ?case
  proof (cases "length t < n")
    case False
    then have "resolve_loop (Suc (Suc m)) (Inr t) n = resolve_loop (Suc m) (Inr t) (n * 2)" by (simp add: Let_def)
    then show ?thesis using Suc.IH [of "n * 2"] Suc.prems by (simp add: mult.assoc)
  qed (use Suc.prems in \<open>simp add: Let_def\<close>)
qed (simp add: Let_def)

text \<open>A link is read whole, however long it is.\<close>

theorem read_symlink_whole:
  assumes "symlink_status fs p = (Symlink, e)" "readlink p = Inr t" "length t < 256 * 2 ^ m"
  shows "read_symlink (Suc m) fs readlink p = Some (Inr (path_of t))"
  using resolve_loop_ends [of t 256 m] assms by (simp add: read_symlink_def resolveSymlink_def)

section \<open>Absolute paths\<close>

text \<open>\<open>cwd\<close> is the answer of \<open>getcwd\<close>.\<close>

definition path_slash :: "bytes \<Rightarrow> bytes \<Rightarrow> bytes" where
  "path_slash lhs rhs = path_append lhs rhs"

definition absolute :: "int + bytes \<Rightarrow> bytes \<Rightarrow> int + bytes" where
  "absolute cwd p =
     (case cwd of
        Inl e \<Rightarrow> Inl e
      | Inr d \<Rightarrow>
          let bas = path_of d
          in if p = [] then Inr (path_slash bas p)
             else if has_root_name p then
               (if has_root_directory p then Inr p
                else Inr (path_slash (path_slash (path_slash (root_name p) (root_directory bas)) (relative_path bas)) (relative_path p)))
             else if has_root_directory p then Inr (path_slash (root_name bas) p)
             else Inr (path_slash bas p))"

section \<open>Making directories\<close>

record 'w dir_calls =
  files_in :: "'w \<Rightarrow> file_calls"
  mkdir_in :: "bytes \<Rightarrow> nat \<Rightarrow> 'w \<Rightarrow> int option \<times> 'w"

definition type_in :: "'w dir_calls \<Rightarrow> 'w \<Rightarrow> bytes \<Rightarrow> file_type" where
  "type_in os w p = fst (status_ex (files_in os w) p)"

text \<open>The answer, the error code (0 for none) and the new state.\<close>

definition create_directory :: "'w dir_calls \<Rightarrow> bytes \<Rightarrow> bytes \<Rightarrow> 'w \<Rightarrow> bool \<times> int \<times> 'w" where
  "create_directory os p attributes w =
     (let ft = type_in os w p in
      if status_known ft \<and> exists_status ft \<and> ft = Directory then (False, 0, w)
      else
        case (if attributes \<noteq> [] then fs_stat (files_in os w) attributes else Inr 511) of
          Inl e \<Rightarrow> (False, e, w)
        | Inr attribs \<Rightarrow> (case mkdir_in os p attribs w of (Some e, w) \<Rightarrow> (False, e, w) | (None, w) \<Rightarrow> (True, 0, w)))"

text \<open>The loop over the parts below the root.\<close>

fun create_parts :: "'w dir_calls \<Rightarrow> bytes \<Rightarrow> bool \<Rightarrow> bytes list \<Rightarrow> 'w \<Rightarrow> bool \<times> int \<times> 'w" where
  "create_parts os cur didCreate [] w = (didCreate, 0, w)"
| "create_parts os cur didCreate (part # parts) w =
     (let cur = path_append cur (path_of part); (ft, tec) = status_ex (files_in os w) cur
      in if tec \<noteq> 0 \<and> ft \<noteq> NotFound then (False, tec, w)
         else if \<not> exists_status ft then
           (let (ok, ec, w) = create_directory os cur [] w
            in if ec \<noteq> 0 \<and> type_in os w cur \<noteq> Directory then (False, ec, w) else create_parts os cur True parts w)
         else if ft \<noteq> Directory then (False, EEXIST, w)
         else create_parts os cur didCreate parts w)"

definition create_directories :: "'w dir_calls \<Rightarrow> bytes \<Rightarrow> 'w \<Rightarrow> bool \<times> int \<times> 'w" where
  "create_directories os p w =
     (let rootPathLen = root_path_length p
      in create_parts os (path_of (take rootPathLen p)) False (elements (path_of (drop rootPathLen p))) w)"

text \<open>
  What the file system keeps: \<open>mkdir\<close> makes a directory when it says so, directories stay, and no error is 0.
\<close>

definition dir_laws :: "'w dir_calls \<Rightarrow> bool" where
  "dir_laws os \<longleftrightarrow>
     (\<forall>q a w w'. mkdir_in os q a w = (None, w') \<longrightarrow> type_in os w' q = Directory)
     \<and> (\<forall>q a w r w' x. mkdir_in os q a w = (r, w') \<longrightarrow> type_in os w x = Directory \<longrightarrow> type_in os w' x = Directory)
     \<and> (\<forall>q a w w'. mkdir_in os q a w \<noteq> (Some 0, w'))"

lemma create_directory_laws:
  assumes "dir_laws os" "create_directory os q [] w = (ok, ec, w')"
  shows "type_in os w x = Directory \<Longrightarrow> type_in os w' x = Directory" "ec = 0 \<Longrightarrow> type_in os w' q = Directory"
  using assms unfolding dir_laws_def create_directory_def
  by (auto simp: Let_def split: if_splits prod.splits option.splits)

lemma create_parts_laws:
  assumes "dir_laws os"
  shows "create_parts os cur did parts w = (b, 0, w') \<Longrightarrow>
    (\<forall>x. type_in os w x = Directory \<longrightarrow> type_in os w' x = Directory)
    \<and> (parts \<noteq> [] \<longrightarrow> type_in os w' (foldl path_append cur (map path_of parts)) = Directory)"
proof (induction parts arbitrary: cur did w)
  case (Cons part parts)
  let ?c = "path_append cur (path_of part)"
  obtain ft tec where s: "status_ex (files_in os w) ?c = (ft, tec)" by (rule prod.exhaust)
  obtain ok ec v where c: "create_directory os ?c [] w = (ok, ec, v)" by (rule prod_cases3)
  obtain u did' where u: "create_parts os ?c did' parts u = (b, 0, w')" "type_in os u ?c = Directory"
    "\<forall>x. type_in os w x = Directory \<longrightarrow> type_in os u x = Directory"
  proof (cases "exists_status ft")
    case True
    then have "create_parts os ?c did parts w = (b, 0, w')" "ft = Directory"
      using Cons.prems s by (auto simp: Let_def EEXIST_def split: if_splits)
    then show thesis using s by (intro that [of did w]) (simp_all add: type_in_def)
  next
    case False
    then have "create_parts os ?c True parts v = (b, 0, w')" "ec = 0 \<or> type_in os v ?c = Directory"
      using Cons.prems s c by (auto simp: Let_def split: if_splits)
    then show thesis using create_directory_laws [OF assms c] by (intro that [of True v]) auto
  qed
  note ih = Cons.IH [OF u(1)]
  show ?case
  proof (cases "parts = []")
    case True
    then show ?thesis using u by simp
  next
    case False
    then show ?thesis using ih u(3) by simp
  qed
qed simp

text \<open>The parts below the root, put together again, are the path.\<close>

lemma parts_of_path:
  assumes "single p" "p \<noteq> []" "p \<noteq> [sep]" "\<nexists>u. p = u @ '':/''"
  defines "r \<equiv> root_path_length p"
  shows "elements (drop r p) \<noteq> []" "foldl path_append (take r p) (elements (drop r p)) = p" "single (take r p)" "single (drop r p)"
proof -
  have tails: "single (take r p)" "single (drop r p)" using assms(1) single_append [of "take r p" "drop r p"] by simp_all
  then show "single (take r p)" "single (drop r p)" .
  have "elements (drop r p) \<noteq> [] \<and> foldl path_append (take r p) (elements (drop r p)) = p"
  proof (cases "p ! 0 = sep")
    case False
    then have r: "r = 0" using plain_root(3) [OF assms(1)] by (simp add: r_def)
    then show ?thesis using path_sum_of_elements [OF assms(1,4)] elements_components [OF assms(1)] False assms(2)
      by (auto simp: components.simps)
  next
    case True
    then have r: "r = 1" using plain_root(3) [OF assms(1)] assms(2) by (simp add: r_def)
    obtain xs where p: "p = sep # xs" using True assms(2) by (cases p) auto
    then have xs: "xs \<noteq> []" "single xs" "hd xs \<noteq> sep" using assms(1,3) by (auto simp: single_Cons)
    then have "elements xs = components xs" using elements_components [OF xs(2)] by (cases xs) auto
    moreover have "foldl path_append [sep] (components xs) = p"
      using assms(1,4) p xs by (intro sum_components) (auto simp: base_def)
    ultimately show ?thesis using p r xs(1) by (simp add: components.simps)
  qed
  then show "elements (drop r p) \<noteq> []" "foldl path_append (take r p) (elements (drop r p)) = p" by blast+
qed

lemma elements_are_paths: "e \<in> set (elements p) \<Longrightarrow> path_of e = e"
proof -
  have "path_of (current p i) = current p i" for i
    using path_of_idempotent by (simp add: current_def path_of_single)
  then have "e \<in> set (elements_from p i) \<Longrightarrow> path_of e = e" for i
  proof (induction p i rule: elements_from.induct)
    case (1 p i)
    then show ?case by (subst (asm) (2) elements_from.simps) (auto split: if_splits)
  qed
  then show "e \<in> set (elements p) \<Longrightarrow> path_of e = e" by (simp add: elements_def)
qed

text \<open>When no error is reported the path is a directory, and every directory from before is one still.\<close>

theorem create_directories_makes:
  assumes "dir_laws os" "single p" "p \<noteq> []" "p \<noteq> [sep]" "\<nexists>u. p = u @ '':/''" "create_directories os p w = (b, 0, w')"
  shows "type_in os w' p = Directory \<and> (\<forall>x. type_in os w x = Directory \<longrightarrow> type_in os w' x = Directory)"
proof -
  let ?r = "root_path_length p"
  note e = parts_of_path [OF assms(2-5)]
  have "map path_of (elements (drop ?r p)) = elements (drop ?r p)" by (rule map_idI) (rule elements_are_paths)
  then show ?thesis
    using create_parts_laws [OF assms(1), of "take ?r p" False "elements (drop ?r p)" w b w'] assms(6) e
    by (simp add: create_directories_def Let_def path_of_single)
qed

text \<open>When the whole chain is there already nothing happens; a part that is no directory is an error.\<close>

lemma create_parts_idle:
  "(\<And>n. n < length parts \<Longrightarrow> type_in os w (foldl path_append cur (map path_of (take (Suc n) parts))) = Directory) \<Longrightarrow>
   create_parts os cur did parts w = (did, 0, w)"
proof (induction parts arbitrary: cur)
  case (Cons part parts)
  let ?c = "path_append cur (path_of part)"
  have "type_in os w ?c = Directory" using Cons.prems [of 0] by simp
  then obtain tec where s: "status_ex (files_in os w) ?c = (Directory, tec)" unfolding type_in_def by (metis prod.collapse)
  have "tec = 0" using s by (auto simp: status_ex_def Let_def split: sum.splits if_splits)
  have "create_parts os ?c did parts w = (did, 0, w)"
  proof (rule Cons.IH)
    show "type_in os w (foldl path_append ?c (map path_of (take (Suc n) parts))) = Directory" if "n < length parts" for n
      using Cons.prems [of "Suc n"] that by simp
  qed
  then show ?case using s \<open>tec = 0\<close> by (simp add: Let_def exists_status_def status_known_def)
qed simp

lemma create_parts_blocked:
  assumes "status_ex (files_in os w) (path_append cur (path_of part)) = (Regular, 0)"
  shows "create_parts os cur did (part # parts) w = (False, EEXIST, w)"
  using assms by (simp add: Let_def exists_status_def status_known_def)

section \<open>Example\<close>

text \<open>A file system that holds the names of its directories.\<close>

definition names_calls :: "bytes list dir_calls" where
  "names_calls =
     \<lparr>files_in = (\<lambda>ds. \<lparr>fs_lstat = (\<lambda>p. if p \<in> set ds then Inr 16877 else Inl ENOENT), fs_stat = (\<lambda>p. if p \<in> set ds then Inr 16877 else Inl ENOENT)\<rparr>),
      mkdir_in = (\<lambda>q a ds. if q \<in> set ds then (Some EEXIST, ds) else (None, q # ds))\<rparr>"

lemma names_status: "status_ex (files_in names_calls ds) p = (if p \<in> set ds then (Directory, 0) else (NotFound, ENOENT))"
  by (simp add: names_calls_def status_ex_def file_status_from_st_mode_def is_not_found_error_def)

lemma names_laws: "dir_laws names_calls"
  by (auto simp: dir_laws_def type_in_def names_status) (auto simp: names_calls_def EEXIST_def split: if_splits)

lemma create_directories_makes_witness:
  "\<exists>ds. create_directories names_calls ''a/b'' [''a''] = (True, 0, ds) \<and> type_in names_calls ds ''a/b'' = Directory \<and> type_in names_calls ds ''a'' = Directory"
proof -
  have sg: "single ''a/b''" by (simp add: sep_def)
  have e: "elements ''a/b'' = [''a'', ''b'']" using elements_components [OF sg] by (simp add: components.simps sep_def)
  have a: "path_append [] ''a'' = ''a''" "path_append ''a'' ''b'' = ''a/b''"
    using append_component [of "[]" "''a''"] append_component [of "''a''" "''b''"] by (simp_all add: sep_def base_def)
  have p: "path_of ''a'' = ''a''" "path_of ''b'' = ''b''" "path_of [] = []" "path_of ''a/b'' = ''a/b''" by (simp_all add: path_of_single sep_def)
  have r: "root_path_length ''a/b'' = 0" using plain_root(3) [OF sg] by (simp add: sep_def)
  have c: "create_directories names_calls ''a/b'' [''a''] = (True, 0, [''a/b'', ''a''])"
    unfolding create_directories_def r
    by (simp add: Let_def p e a names_status exists_status_def status_known_def create_directory_def type_in_def)
      (simp add: names_calls_def)
  show ?thesis using create_directories_makes [OF names_laws sg _ _ _ c] c by (auto simp: sep_def type_in_def names_status)
qed

end
