(* ===== verification/Fs_Copy.thy ===== *)
theory Fs_Copy
  imports Fs_Path
begin

text \<open>
  \<open>copy_file\<close> of \<open>src/end2end/include/filesystem.hpp\<close> on Linux. The answers of the system are parameters, \<open>errno\<close> is part of the
  state, because the code looks at it after calls that do not set it. The loops may run forever, so they have a number of
  rounds; None means they ran out.
\<close>

unbundle bit_operations_syntax

section \<open>The system\<close>

text \<open>
  \<open>identity\<close> and \<open>mtime\<close> are what \<open>stat\<close> says of a file (device, inode, size and time). The \<open>k\<close>-th \<open>read\<close> fails or takes up to so
  many bytes, the \<open>k\<close>-th \<open>write\<close> fails or takes so many of the bytes it is offered. None is success.
\<close>

record copy_env =
  files :: file_calls
  identity :: "bytes \<Rightarrow> int + nat \<times> nat \<times> nat \<times> int"
  mtime :: "bytes \<Rightarrow> int"
  open_in :: "int option"
  open_out :: "bool \<Rightarrow> nat \<Rightarrow> int option"
  fchmod_answer :: "nat \<Rightarrow> int option"
  read_answer :: "nat \<Rightarrow> int + nat"
  write_answer :: "nat \<Rightarrow> nat \<Rightarrow> int + nat"
  source :: bytes

record copying =
  left :: bytes
  written :: bytes
  errno :: int
  reads :: nat
  writes :: nat

definition EINTR :: int where "EINTR = 4"

definition sys_read :: "copy_env \<Rightarrow> copying \<Rightarrow> (int + bytes) \<times> copying" where
  "sys_read e s =
     (case read_answer e (reads s) of
        Inl er \<Rightarrow> (Inl er, s\<lparr>errno := er, reads := Suc (reads s)\<rparr>)
      | Inr n \<Rightarrow> let d = take (min n 16384) (left s) in (Inr d, s\<lparr>left := drop (length d) (left s), reads := Suc (reads s)\<rparr>))"

definition sys_write :: "copy_env \<Rightarrow> bytes \<Rightarrow> copying \<Rightarrow> (int + nat) \<times> copying" where
  "sys_write e d s =
     (case write_answer e (writes s) (length d) of
        Inl er \<Rightarrow> (Inl er, s\<lparr>errno := er, writes := Suc (writes s)\<rparr>)
      | Inr n \<Rightarrow> (Inr n, s\<lparr>written := written s @ take n d, writes := Suc (writes s)\<rparr>))"

section \<open>The loops\<close>

text \<open>\<open>do { br = read } while (errno == EINTR && !br)\<close>.\<close>

fun read_chunk :: "nat \<Rightarrow> copy_env \<Rightarrow> copying \<Rightarrow> ((int + bytes) \<times> copying) option" where
  "read_chunk 0 e s = None"
| "read_chunk (Suc m) e s =
     (let (br, s) = sys_read e s in if errno s = EINTR \<and> br = Inr [] then read_chunk m e s else Some (br, s))"

text \<open>The loop around \<open>write\<close>: \<open>d\<close> is what is left of the buffer.\<close>

fun write_chunk :: "nat \<Rightarrow> copy_env \<Rightarrow> bytes \<Rightarrow> copying \<Rightarrow> (int option \<times> copying) option" where
  "write_chunk 0 e d s = None"
| "write_chunk (Suc m) e d s =
     (let (bw, s) = sys_write e d s
      in case bw of
           Inl er \<Rightarrow> if er \<noteq> EINTR then Some (Some er, s) else write_chunk m e d s
         | Inr n \<Rightarrow> let d = drop n d in if d = [] then Some (None, s) else write_chunk m e d s)"

fun copy_bytes :: "nat \<Rightarrow> copy_env \<Rightarrow> copying \<Rightarrow> (int option \<times> copying) option" where
  "copy_bytes 0 e s = None"
| "copy_bytes (Suc m) e s =
     (case read_chunk m e s of
        None \<Rightarrow> None
      | Some (Inl er, s) \<Rightarrow> Some (Some er, s)
      | Some (Inr d, s) \<Rightarrow>
          if d = [] then Some (None, s)
          else case write_chunk m e d s of
                 None \<Rightarrow> None
               | Some (Some er, s) \<Rightarrow> Some (Some er, s)
               | Some (None, s) \<Rightarrow> copy_bytes m e s)"

section \<open>The function\<close>

text \<open>The permissions in the answer of \<open>status\<close>, all bits set if there is none, and \<open>errno\<close> after it.\<close>

definition permissions :: "file_calls \<Rightarrow> bytes \<Rightarrow> nat" where
  "permissions fs p =
     (case fs_lstat fs p of
        Inl er \<Rightarrow> 65535
      | Inr mode \<Rightarrow>
          if file_status_from_st_mode mode = Symlink
          then (case fs_stat fs p of Inl er \<Rightarrow> 65535 | Inr mode \<Rightarrow> mode mod 4096) else mode mod 4096)"

definition errno_after :: "int \<Rightarrow> int \<Rightarrow> int" where
  "errno_after er old = (if er \<noteq> 0 then er else old)"

text \<open>\<open>equivalent\<close>: the answer, the error code and \<open>errno\<close>.\<close>

definition equivalent :: "copy_env \<Rightarrow> bytes \<Rightarrow> bytes \<Rightarrow> int \<Rightarrow> bool \<times> int \<times> int" where
  "equivalent e p1 p2 er =
     (let e1 = (case identity e p1 of Inl x \<Rightarrow> x | Inr i \<Rightarrow> er); e2 = (case identity e p2 of Inl x \<Rightarrow> x | Inr i \<Rightarrow> e1)
      in case (identity e p1, identity e p2) of
           (Inr i, Inr j) \<Rightarrow> (i = j, 0, e2)
         | _ \<Rightarrow> (False, if e1 \<noteq> 0 then e1 else e2, e2))"

definition last_write_time :: "copy_env \<Rightarrow> bytes \<Rightarrow> int + int" where
  "last_write_time e p = (let (ft, er) = status_ex (files e) p in if er \<noteq> 0 then Inl er else Inr (mtime e p))"

text \<open>The end: the answer, the error code, what was opened and closed, and what the target holds if it was opened.\<close>

datatype fd_event = OpenedIn | OpenedOut | ClosedIn | ClosedOut

record copy_end =
  answer :: bool
  code :: int
  descriptors :: "fd_event list"
  target :: "bytes option"

definition transfer :: "nat \<Rightarrow> copy_env \<Rightarrow> bool \<Rightarrow> nat \<Rightarrow> nat \<Rightarrow> int \<Rightarrow> int \<Rightarrow> copy_end option" where
  "transfer m e overwrite sf st ec er =
     (case open_in e of
        Some x \<Rightarrow> Some \<lparr>answer = False, code = x, descriptors = [], target = None\<rparr>
      | None \<Rightarrow>
     (case open_out e (\<not> overwrite) (sf mod 512) of
        Some x \<Rightarrow> Some \<lparr>answer = False, code = x, descriptors = [OpenedIn, ClosedIn], target = None\<rparr>
      | None \<Rightarrow>
     (case (if st \<noteq> sf then fchmod_answer e (sf mod 512) else None) of
        Some x \<Rightarrow> Some \<lparr>answer = False, code = x, descriptors = [OpenedIn, OpenedOut, ClosedIn, ClosedOut], target = Some []\<rparr>
      | None \<Rightarrow>
     (case copy_bytes m e \<lparr>left = source e, written = [], errno = er, reads = 0, writes = 0\<rparr> of
        None \<Rightarrow> None
      | Some (Some x, s) \<Rightarrow> Some \<lparr>answer = False, code = x, descriptors = [OpenedIn, OpenedOut, ClosedIn, ClosedOut], target = Some (written s)\<rparr>
      | Some (None, s) \<Rightarrow> Some \<lparr>answer = True, code = ec, descriptors = [OpenedIn, OpenedOut, ClosedIn, ClosedOut], target = Some (written s)\<rparr>))))"

definition refused :: "int \<Rightarrow> copy_end option" where
  "refused x = Some \<lparr>answer = False, code = x, descriptors = [], target = None\<rparr>"

text \<open>The options are those of \<open>copy_options\<close>: 1 to skip an existing target, 2 to overwrite it, 4 to overwrite an older one.\<close>

definition copy_file :: "nat \<Rightarrow> copy_env \<Rightarrow> bytes \<Rightarrow> bytes \<Rightarrow> 16 word \<Rightarrow> int \<Rightarrow> copy_end option" where
  "copy_file m e src dst options er =
     (let fs = files e; (sf, tecf) = status_ex fs src; (st, tect) = status_ex fs dst;
          er = errno_after tect (errno_after tecf er); go = (\<lambda>overwrite. transfer m e overwrite (permissions fs src) (permissions fs dst))
      in if sf \<noteq> Regular then refused tecf
         else if \<not> exists_status st then go False 0 er
         else if options AND 1 = 1 then refused 0
         else
           let (same, ec, er) = (if st \<noteq> Regular then (False, 0, er) else equivalent e src dst er)
           in if st \<noteq> Regular \<or> same \<or> options AND 6 = 0 then refused (if tect \<noteq> 0 then tect else EEXIST)
              else if options AND 4 = 4 then
                (case last_write_time e src of
                   Inl x \<Rightarrow> refused x
                 | Inr t \<Rightarrow>
                     (case last_write_time e dst of
                        Inl x \<Rightarrow> refused x
                      | Inr u \<Rightarrow> if t \<le> u then refused 0 else go True 0 er))
              else go True ec er)"


section \<open>What it does\<close>

text \<open>A system that always makes some progress: no call fails, and none takes nothing while there is something to take.\<close>

definition smooth :: "copy_env \<Rightarrow> bool" where
  "smooth e \<longleftrightarrow> (\<forall>k. \<exists>n. read_answer e k = Inr n \<and> 0 < n) \<and> (\<forall>k l. 0 < l \<longrightarrow> (\<exists>n. write_answer e k l = Inr n \<and> 0 < n \<and> n \<le> l))"

lemma smooth_read:
  assumes "smooth e"
  obtains d where "sys_read e s = (Inr d, s\<lparr>left := drop (length d) (left s), reads := Suc (reads s)\<rparr>)"
    "d = take (length d) (left s)" "d = [] \<longleftrightarrow> left s = []"
proof -
  obtain n where n: "read_answer e (reads s) = Inr n" "0 < n" using assms unfolding smooth_def by blast
  show thesis
  proof (rule that [of "take (min n 16384) (left s)"])
    have "min n 16384 \<noteq> 0" using n(2) by simp
    then show "take (min n 16384) (left s) = [] \<longleftrightarrow> left s = []" by (simp only: take_eq_Nil simp_thms)
  qed (simp_all add: sys_read_def n(1) Let_def min_def)
qed

lemma write_smooth:
  assumes "smooth e" "d \<noteq> []" "length d \<le> m"
  shows "\<exists>k. write_chunk m e d s = Some (None, s\<lparr>written := written s @ d, writes := k\<rparr>)"
  using assms(2,3)
proof (induction m arbitrary: d s)
  case (Suc m)
  obtain n where n: "write_answer e (writes s) (length d) = Inr n" "0 < n" "n \<le> length d"
    using assms(1) Suc.prems(1) unfolding smooth_def by (metis length_greater_0_conv)
  let ?s = "s\<lparr>written := written s @ take n d, writes := Suc (writes s)\<rparr>"
  show ?case
  proof (cases "drop n d = []")
    case True
    then have "take n d = d" by simp
    then show ?thesis using n True by (intro exI [of _ "Suc (writes s)"]) (simp add: sys_write_def Let_def)
  next
    case False
    have "length (drop n d) \<le> m" using n Suc.prems(2) by simp
    from Suc.IH [OF False this, of ?s] show ?thesis using n False by (auto simp: sys_write_def Let_def)
  qed
qed simp

lemma copy_smooth:
  assumes "smooth e" "errno s \<noteq> EINTR" "length (left s) + 2 \<le> m"
  shows "\<exists>s'. copy_bytes m e s = Some (None, s') \<and> written s' = written s @ left s"
  using assms(2,3)
proof (induction m arbitrary: s)
  case (Suc m)
  then obtain m' where m': "m = Suc m'" by (cases m) auto
  obtain d where d: "sys_read e s = (Inr d, s\<lparr>left := drop (length d) (left s), reads := Suc (reads s)\<rparr>)"
    "d = take (length d) (left s)" "d = [] \<longleftrightarrow> left s = []"
    by (rule smooth_read [OF assms(1)])
  let ?s = "s\<lparr>left := drop (length d) (left s), reads := Suc (reads s)\<rparr>"
  have r: "read_chunk m e s = Some (Inr d, ?s)" using d(1) Suc.prems(1) by (simp add: m')
  show ?case
  proof (cases "d = []")
    case True
    then show ?thesis using r d(3) by simp
  next
    case False
    have len: "length d \<le> length (left s)" using d(2) by (metis length_take min.cobounded1)
    obtain k where w: "write_chunk m e d ?s = Some (None, ?s\<lparr>written := written s @ d, writes := k\<rparr>)"
      using write_smooth [OF assms(1) False, of m ?s] len Suc.prems(2) by auto
    have "length (left ?s) + 2 \<le> m" using len Suc.prems(2) False by (cases d) auto
    with Suc.IH [of "?s\<lparr>written := written s @ d, writes := k\<rparr>"] Suc.prems(1)
    obtain s' where "copy_bytes m e (?s\<lparr>written := written s @ d, writes := k\<rparr>) = Some (None, s')"
      "written s' = written s @ d @ drop (length d) (left s)"
      by auto
    moreover have "d @ drop (length d) (left s) = left s" using d(2) by (metis append_take_drop_id)
    ultimately show ?thesis using r w False by auto
  qed
qed simp

lemma st_mode_found: "file_status_from_st_mode mode \<noteq> NotFound" "file_status_from_st_mode mode \<noteq> FtNone"
  by (simp_all add: file_status_from_st_mode_def Let_def)

lemma not_found_code: "status_ex fs p = (NotFound, x) \<Longrightarrow> is_not_found_error x"
  using st_mode_found by (auto simp: status_ex_def Let_def split: sum.splits if_splits)

text \<open>
  A file that is copied to a new name arrives whole, however the bytes are cut by \<open>read\<close> and \<open>write\<close>, and both descriptors are
  closed.
\<close>

theorem copy_file_exact:
  assumes "smooth e" "open_in e = None" "\<And>x p. open_out e x p = None" "\<And>p. fchmod_answer e p = None"
    "status_ex (files e) src = (Regular, tecf)" "status_ex (files e) dst = (NotFound, tect)" "length (source e) + 2 \<le> m"
  shows "copy_file m e src dst options er =
    Some \<lparr>answer = True, code = 0, descriptors = [OpenedIn, OpenedOut, ClosedIn, ClosedOut], target = Some (source e)\<rparr>"
proof -
  have "tect = ENOENT \<or> tect = ENOTDIR"
    using not_found_code [OF assms(6)] by (simp add: is_not_found_error_def)
  then have ne: "errno_after tect (errno_after tecf er) \<noteq> EINTR" by (auto simp: errno_after_def ENOENT_def ENOTDIR_def EINTR_def)
  let ?s = "\<lparr>left = source e, written = [], errno = errno_after tect (errno_after tecf er), reads = 0, writes = 0\<rparr>"
  obtain s' where "copy_bytes m e ?s = Some (None, s')" "written s' = source e"
    using copy_smooth [OF assms(1), of ?s m] ne assms(7) by auto
  then show ?thesis using assms(2-6) by (simp add: copy_file_def transfer_def exists_status_def status_known_def Let_def)
qed

text \<open>What \<open>transfer\<close> opened is closed at every end.\<close>

lemma descriptors_closed:
  assumes "copy_file m e src dst options er = Some r"
  shows "(OpenedIn \<in> set (descriptors r) \<longleftrightarrow> ClosedIn \<in> set (descriptors r))
    \<and> (OpenedOut \<in> set (descriptors r) \<longleftrightarrow> ClosedOut \<in> set (descriptors r))"
proof -
  have t: "transfer m e overwrite p q ec er = Some r \<Longrightarrow> (OpenedIn \<in> set (descriptors r) \<longleftrightarrow> ClosedIn \<in> set (descriptors r))
      \<and> (OpenedOut \<in> set (descriptors r) \<longleftrightarrow> ClosedOut \<in> set (descriptors r))" for overwrite p q ec er
    by (auto simp: transfer_def split: option.splits if_splits)
  have f: "refused x = Some r \<Longrightarrow> (OpenedIn \<in> set (descriptors r) \<longleftrightarrow> ClosedIn \<in> set (descriptors r))
      \<and> (OpenedOut \<in> set (descriptors r) \<longleftrightarrow> ClosedOut \<in> set (descriptors r))" for x
    by (auto simp: refused_def)
  show ?thesis using assms t f unfolding copy_file_def Let_def by (auto split: prod.splits if_splits sum.splits)
qed

section \<open>Interrupted calls\<close>

text \<open>At the end of the file the loop around \<open>read\<close> looks at an \<open>errno\<close> that \<open>read\<close> has not set.\<close>

definition no_read_error :: "copy_env \<Rightarrow> bool" where
  "no_read_error e \<longleftrightarrow> (\<forall>k. \<exists>n. read_answer e k = Inr n)"

lemma read_spins:
  assumes "no_read_error e"
  shows "errno s = EINTR \<Longrightarrow> left s = [] \<Longrightarrow> read_chunk m e s = None"
proof (induction m arbitrary: s)
  case (Suc m)
  obtain n where "read_answer e (reads s) = Inr n" using assms unfolding no_read_error_def by blast
  then show ?case using Suc by (simp add: sys_read_def Let_def)
qed simp

definition writes_retry :: "copy_env \<Rightarrow> bool" where
  "writes_retry e \<longleftrightarrow> (\<forall>k l er. write_answer e k l = Inl er \<longrightarrow> er = EINTR)"

lemma write_keeps_errno:
  assumes "writes_retry e"
  shows "errno s = EINTR \<Longrightarrow> write_chunk m e d s = Some (r, s') \<Longrightarrow> r = None \<and> errno s' = EINTR"
proof (induction m arbitrary: d s)
  case (Suc m)
  show ?case
  proof (cases "write_answer e (writes s) (length d)")
    case (Inl er)
    then have "er = EINTR" using assms unfolding writes_retry_def by blast
    then show ?thesis using Suc.IH [of "s\<lparr>errno := er, writes := Suc (writes s)\<rparr>" d] Suc.prems Inl by (simp add: sys_write_def Let_def)
  next
    case (Inr n)
    then show ?thesis
      using Suc.IH [of "s\<lparr>written := written s @ take n d, writes := Suc (writes s)\<rparr>" "drop n d"] Suc.prems
      by (auto simp: sys_write_def Let_def split: if_splits)
  qed
qed simp

lemma read_keeps_errno:
  assumes "no_read_error e"
  shows "errno s = EINTR \<Longrightarrow> read_chunk m e s = Some (r, s') \<Longrightarrow> \<exists>d. r = Inr d \<and> d \<noteq> [] \<and> errno s' = EINTR"
proof (induction m arbitrary: s)
  case (Suc m)
  obtain n where n: "read_answer e (reads s) = Inr n" using assms unfolding no_read_error_def by blast
  let ?d = "take (min n 16384) (left s)" and ?s = "s\<lparr>left := drop (length (take (min n 16384) (left s))) (left s), reads := Suc (reads s)\<rparr>"
  have step: "read_chunk (Suc m) e s = (if ?d = [] then read_chunk m e ?s else Some (Inr ?d, ?s))"
    using n Suc.prems(1) by (auto simp: sys_read_def Let_def min_def)
  show ?case
  proof (cases "?d = []")
    case True
    have "errno ?s = EINTR" using Suc.prems(1) by simp
    moreover have "read_chunk m e ?s = Some (r, s')" using Suc.prems(2) unfolding step if_P [OF True] .
    ultimately show ?thesis by (rule Suc.IH)
  next
    case False
    then have "r = Inr ?d" "s' = ?s" using Suc.prems(2) unfolding step if_not_P [OF False] by simp_all
    then show ?thesis using False Suc.prems(1) by (intro exI [of _ ?d]) simp
  qed
qed simp

lemma copy_spins:
  assumes "no_read_error e" "writes_retry e"
  shows "errno s = EINTR \<Longrightarrow> copy_bytes m e s = None"
proof (induction m arbitrary: s)
  case (Suc m)
  show ?case
  proof (cases "read_chunk m e s")
    case (Some a)
    obtain r t where a: "a = (r, t)" by (rule prod.exhaust)
    obtain d where d: "r = Inr d" "d \<noteq> []" "errno t = EINTR" using read_keeps_errno [OF assms(1) Suc.prems] Some a by blast
    show ?thesis
    proof (cases "write_chunk m e d t")
      case (Some b)
      obtain q u where b: "b = (q, u)" by (rule prod.exhaust)
      then have "q = None" "errno u = EINTR" using write_keeps_errno [OF assms(2) d(3)] Some by blast+
      then show ?thesis using Suc.IH [of u] Some b \<open>read_chunk m e s = Some a\<close> a d by simp
    qed (use Some a d in simp)
  qed simp
qed simp

text \<open>
  A copy whose first \<open>write\<close> is interrupted never ends: the write is repeated and succeeds, but at the end of the file \<open>errno\<close> still
  says \<open>EINTR\<close>, and \<open>read\<close> is called again and again.
\<close>

theorem interrupted_copy_spins:
  assumes "no_read_error e" "writes_retry e" "\<And>l. write_answer e 0 l = Inl EINTR" "source e \<noteq> []"
    "read_answer e 0 = Inr n" "0 < n" "open_in e = None" "\<And>x p. open_out e x p = None" "\<And>p. fchmod_answer e p = None"
    "status_ex (files e) src = (Regular, tecf)" "status_ex (files e) dst = (NotFound, tect)"
  shows "copy_file m e src dst options er = None"
proof -
  let ?s = "\<lparr>left = source e, written = [], errno = errno_after tect (errno_after tecf er), reads = 0, writes = 0\<rparr>"
  let ?d = "take (min n 16384) (source e)"
  have "copy_bytes m e ?s = None"
  proof (cases m)
    case (Suc m1)
    show ?thesis
    proof (cases m1)
      case m2: (Suc m2)
      let ?t = "?s\<lparr>left := drop (length ?d) (source e), reads := 1\<rparr>"
      obtain k where k: "min n 16384 = Suc k" using assms(6) by (cases "min n 16384") auto
      have ne: "?d \<noteq> []" using assms(4) k by simp
      then have r: "read_chunk m1 e ?s = Some (Inr ?d, ?t)" using assms(5) by (simp only: m2 read_chunk.simps) (simp add: sys_read_def Let_def k)
      have w: "write_chunk m1 e ?d ?t = write_chunk m2 e ?d (?t\<lparr>errno := EINTR, writes := 1\<rparr>)"
        using assms(3) by (simp add: m2 sys_write_def)
      show ?thesis
      proof (cases "write_chunk m1 e ?d ?t")
        case (Some b)
        obtain q u where b: "b = (q, u)" by (rule prod.exhaust)
        then have "q = None" "errno u = EINTR"
          using write_keeps_errno [OF assms(2), of "?t\<lparr>errno := EINTR, writes := 1\<rparr>" m2 ?d q u] Some w by simp_all
        then show ?thesis using copy_spins [OF assms(1,2), of u m1] Some b r ne Suc by simp
      qed (use r ne Suc in simp)
    qed (use Suc in simp)
  qed simp
  then show ?thesis using assms(7-11) by (simp add: copy_file_def transfer_def exists_status_def status_known_def Let_def)
qed

text \<open>An interrupted \<open>read\<close> is not repeated: the copy fails and leaves a target that holds nothing.\<close>

lemma interrupted_read_fails:
  assumes "read_answer e 0 = Inl EINTR" "open_in e = None" "\<And>x p. open_out e x p = None" "\<And>p. fchmod_answer e p = None"
    "status_ex (files e) src = (Regular, tecf)" "status_ex (files e) dst = (NotFound, tect)" "2 \<le> m"
  shows "copy_file m e src dst options er =
    Some \<lparr>answer = False, code = EINTR, descriptors = [OpenedIn, OpenedOut, ClosedIn, ClosedOut], target = Some []\<rparr>"
proof -
  obtain k where "m = Suc (Suc k)" using assms(7) by (intro that [of "m - 2"]) simp
  then show ?thesis using assms(1-6) by (simp add: copy_file_def transfer_def exists_status_def status_known_def Let_def sys_read_def)
qed

section \<open>Examples\<close>

text \<open>A file of three bytes that is read one byte at a time; the second environment has its first \<open>write\<close> interrupted.\<close>

definition env3 :: "(nat \<Rightarrow> nat \<Rightarrow> int + nat) \<Rightarrow> copy_env" where
  "env3 w =
     \<lparr>files = \<lparr>fs_lstat = (\<lambda>p. if p = ''a'' then Inr 33188 else Inl ENOENT), fs_stat = (\<lambda>p. Inl ENOENT)\<rparr>,
      identity = (\<lambda>p. Inl ENOENT), mtime = (\<lambda>p. 0), open_in = None, open_out = (\<lambda>x p. None), fchmod_answer = (\<lambda>p. None),
      read_answer = (\<lambda>k. Inr 1), write_answer = w, source = ''xyz''\<rparr>"

lemma env3_status: "status_ex (files (env3 w)) ''a'' = (Regular, 0)" "status_ex (files (env3 w)) ''b'' = (NotFound, ENOENT)"
  by (simp_all add: env3_def status_ex_def file_status_from_st_mode_def is_not_found_error_def)

lemma copy_file_exact_witness:
  "copy_file 5 (env3 (\<lambda>k l. Inr l)) ''a'' ''b'' 0 EINTR =
    Some \<lparr>answer = True, code = 0, descriptors = [OpenedIn, OpenedOut, ClosedIn, ClosedOut], target = Some ''xyz''\<rparr>"
  using copy_file_exact [of "env3 (\<lambda>k l. Inr l)" "''a''" 0 "''b''" ENOENT 5 0 EINTR]
  by (simp add: env3_status) (simp add: env3_def smooth_def)

lemma interrupted_copy_spins_witness:
  "\<forall>m. copy_file m (env3 (\<lambda>k l. if k = 0 then Inl EINTR else Inr l)) ''a'' ''b'' 0 0 = None"
proof
  fix m
  let ?e = "env3 (\<lambda>k l. if k = 0 then Inl EINTR else Inr l)"
  have "no_read_error ?e" "writes_retry ?e" by (simp_all add: no_read_error_def writes_retry_def env3_def)
  from interrupted_copy_spins [OF this, of 1 "''a''" 0 "''b''" ENOENT m 0 0]
  show "copy_file m ?e ''a'' ''b'' 0 0 = None" by (simp add: env3_status) (simp add: env3_def)
qed

end
