(* ===== verification/Fs_Utf8.thy ===== *)
theory Fs_Utf8
  imports Prelude
begin

text \<open>
  The Unicode conversions of \<open>src/end2end/include/filesystem.hpp\<close>: the automaton that decodes UTF-8, the encoder, and the
  conversions to and from 16-bit and 32-bit strings that paths offer. The build does not define
  \<open>GHC_RAISE_UNICODE_ERRORS\<close>, so that what is wrong becomes the replacement character.
\<close>

unbundle bit_operations_syntax

section \<open>The code\<close>

definition in_range :: "32 word \<Rightarrow> 32 word \<Rightarrow> 32 word \<Rightarrow> bool" where
  "in_range c lo hi \<longleftrightarrow> c - lo < hi - lo + 1"

definition is_surrogate :: "32 word \<Rightarrow> bool" where
  "is_surrogate c = in_range c 0xd800 0xdfff"

definition is_high_surrogate :: "32 word \<Rightarrow> bool" where
  "is_high_surrogate c \<longleftrightarrow> c AND 0xfffffc00 = 0xd800"

definition is_low_surrogate :: "32 word \<Rightarrow> bool" where
  "is_low_surrogate c \<longleftrightarrow> c AND 0xfffffc00 = 0xdc00"

text \<open>The cast to \<open>char\<close> keeps the low eight bits.\<close>

definition as_char :: "32 word \<Rightarrow> char" where
  "as_char w = char_of (unat w)"

function appendUTF8 :: "bytes \<Rightarrow> 32 word \<Rightarrow> bytes" where
  "appendUTF8 str unicode =
     (if unicode \<le> 0x7f then str @ [as_char unicode]
      else if 0x80 \<le> unicode \<and> unicode \<le> 0x7ff then
        str @ [as_char (drop_bit 6 unicode + 192), as_char ((unicode AND 0x3f) + 128)]
      else if 0x800 \<le> unicode \<and> unicode \<le> 0xd7ff \<or> 0xe000 \<le> unicode \<and> unicode \<le> 0xffff then
        str @ [as_char (drop_bit 12 unicode + 224), as_char (drop_bit 6 (unicode AND 0xfff) + 128), as_char ((unicode AND 0x3f) + 128)]
      else if 0x10000 \<le> unicode \<and> unicode \<le> 0x10ffff then
        str @ [as_char (drop_bit 18 unicode + 240), as_char (drop_bit 12 (unicode AND 0x3ffff) + 128),
          as_char (drop_bit 6 (unicode AND 0xfff) + 128), as_char ((unicode AND 0x3f) + 128)]
      else appendUTF8 str 0xfffd)"
  by pat_completeness auto
termination by (relation "measure (\<lambda>(str, u). if u = 0xfffd then 0 else 1)") auto

declare appendUTF8.simps [simp del]

text \<open>The table: 16 words of byte categories, and one word of next states for each of the 12 categories.\<close>

definition utf8_state_info :: "32 word list" where
  "utf8_state_info =
     [0x11111111, 0x11111111, 0x77777777, 0x77777777, 0x88888888, 0x88888888, 0x88888888, 0x88888888,
      0x22222299, 0x22222222, 0x22222222, 0x22222222, 0x3333333a, 0x33433333, 0x9995666b, 0x99999999,
      0x88888880, 0x22818108, 0x88888881, 0x88888882, 0x88888884, 0x88888887, 0x88888886, 0x82218108,
      0x82281108, 0x88888888, 0x88888883, 0x88888885, 0, 0, 0, 0]"

definition S_STRT :: "32 word" where "S_STRT = 0"
definition S_RJCT :: "32 word" where "S_RJCT = 8"

definition consumeUtf8Fragment :: "32 word \<Rightarrow> 8 word \<Rightarrow> 32 word \<Rightarrow> 32 word \<times> 32 word" where
  "consumeUtf8Fragment state fragment codepoint =
     (let f = ucast fragment :: 32 word;
          category = (if f < 128 then 0
                      else drop_bit (unat (push_bit 2 (f AND 7))) (utf8_state_info ! unat (drop_bit 3 f AND 0xf)) AND 0xf);
          codepoint = (if state \<noteq> 0 then push_bit 6 codepoint OR (f AND 0x3f) else drop_bit (unat category) 0xff AND f)
      in (if state = S_RJCT then S_RJCT
          else drop_bit (unat (push_bit 2 state)) (utf8_state_info ! unat (category + 16)) AND 0xf, codepoint))"

definition uint8 :: "char \<Rightarrow> 8 word" where
  "uint8 c = of_char c"

text \<open>The loop of \<open>validUtf8\<close>.\<close>

fun valid_loop :: "32 word \<Rightarrow> 32 word \<Rightarrow> bytes \<Rightarrow> bool" where
  "valid_loop utf8_state codepoint [] \<longleftrightarrow> utf8_state = 0"
| "valid_loop utf8_state codepoint (c # cs) \<longleftrightarrow>
     (let (utf8_state, codepoint) = consumeUtf8Fragment utf8_state (uint8 c) codepoint
      in utf8_state \<noteq> S_RJCT \<and> valid_loop utf8_state codepoint cs)"

definition validUtf8 :: "bytes \<Rightarrow> bool" where
  "validUtf8 s = valid_loop S_STRT 0 s"

text \<open>The loop of \<open>fromUtf8\<close>; \<open>emit\<close> is what it adds for a code point.\<close>

fun from_loop :: "(32 word \<Rightarrow> 'u list) \<Rightarrow> 32 word \<Rightarrow> 32 word \<Rightarrow> bytes \<Rightarrow> 'u list" where
  "from_loop emit utf8_state codepoint [] = (if utf8_state \<noteq> 0 then emit 0xfffd else [])"
| "from_loop emit utf8_state codepoint (c # cs) =
     (let (utf8_state, codepoint) = consumeUtf8Fragment utf8_state (uint8 c) codepoint
      in if utf8_state = S_STRT then emit codepoint @ from_loop emit utf8_state 0 cs
         else if utf8_state = S_RJCT then emit 0xfffd @ from_loop emit S_STRT 0 cs
         else from_loop emit utf8_state codepoint cs)"

definition emit16 :: "32 word \<Rightarrow> 16 word list" where
  "emit16 codepoint =
     (if codepoint \<le> 0xffff then [ucast codepoint]
      else let codepoint = codepoint - 0x10000 in [ucast (drop_bit 10 codepoint + 0xd800), ucast ((codepoint AND 0x3ff) + 0xdc00)])"

definition emit32 :: "32 word \<Rightarrow> 32 word list" where
  "emit32 codepoint = [codepoint]"

definition fromUtf8_16 :: "bytes \<Rightarrow> 16 word list" where
  "fromUtf8_16 s = from_loop emit16 S_STRT 0 s"

definition fromUtf8_32 :: "bytes \<Rightarrow> 32 word list" where
  "fromUtf8_32 s = from_loop emit32 S_STRT 0 s"

text \<open>\<open>toUtf8\<close> of 16-bit units. After an unpaired surrogate the loop goes on behind the unit it looked at.\<close>

fun to_loop16 :: "bytes \<Rightarrow> 16 word list \<Rightarrow> bytes" where
  "to_loop16 result [] = result"
| "to_loop16 result [u] = (let c = ucast u in if is_surrogate c then appendUTF8 result 0xfffd else appendUTF8 result c)"
| "to_loop16 result (u # v # us) =
     (let c = ucast u; d = ucast v
      in if is_surrogate c then
           (if is_high_surrogate c \<and> is_low_surrogate d
            then to_loop16 (appendUTF8 result (push_bit 10 c + d - 0x35fdc00)) us
            else to_loop16 (appendUTF8 result 0xfffd) us)
         else to_loop16 (appendUTF8 result c) (v # us))"

definition toUtf8_16 :: "16 word list \<Rightarrow> bytes" where
  "toUtf8_16 s = to_loop16 [] s"

definition toUtf8_32 :: "32 word list \<Rightarrow> bytes" where
  "toUtf8_32 s = foldl appendUTF8 [] s"

section \<open>The encoding forms\<close>

text \<open>Scalar values, and the bytes and units the Unicode standard gives them.\<close>

definition scalar :: "nat \<Rightarrow> bool" where
  "scalar n \<longleftrightarrow> n < 0xd800 \<or> 0xe000 \<le> n \<and> n < 0x110000"

definition enc :: "nat \<Rightarrow> nat list" where
  "enc n =
     (if n < 0x80 then [n]
      else if n < 0x800 then [192 + n div 64, 128 + n mod 64]
      else if n < 0x10000 then [224 + n div 4096, 128 + n div 64 mod 64, 128 + n mod 64]
      else [240 + n div 262144, 128 + n div 4096 mod 64, 128 + n div 64 mod 64, 128 + n mod 64])"

definition utf8 :: "nat \<Rightarrow> bytes" where
  "utf8 n = map char_of (enc n)"

definition utf16 :: "nat \<Rightarrow> 16 word list" where
  "utf16 n = (if n < 0x10000 then [of_nat n] else [of_nat (0xd800 + (n - 0x10000) div 1024), of_nat (0xdc00 + n mod 1024)])"

section \<open>The automaton\<close>

text \<open>In the middle: the bytes a state takes, without their first bit, and the next state.\<close>

definition taken :: "nat \<Rightarrow> nat \<Rightarrow> bool" where
  "taken st k \<longleftrightarrow>
     (if st = 3 then 32 \<le> k \<and> k < 64 else if st = 4 then k < 32 else if st = 5 then 16 \<le> k \<and> k < 64
      else if st = 7 then k < 16 else k < 64)"

definition next_state :: "nat \<Rightarrow> nat" where
  "next_state st = (if st = 1 then 0 else if st \<le> 4 then 1 else 2)"

text \<open>The table over natural numbers, and the category it gives a byte.\<close>

definition info :: "nat list" where
  "info =
     [0x11111111, 0x11111111, 0x77777777, 0x77777777, 0x88888888, 0x88888888, 0x88888888, 0x88888888,
      0x22222299, 0x22222222, 0x22222222, 0x22222222, 0x3333333a, 0x33433333, 0x9995666b, 0x99999999,
      0x88888880, 0x22818108, 0x88888881, 0x88888882, 0x88888884, 0x88888887, 0x88888886, 0x82218108,
      0x82281108, 0x88888888, 0x88888883, 0x88888885, 0, 0, 0, 0]"

definition cat :: "nat \<Rightarrow> nat" where
  "cat n = (if n < 128 then 0 else info ! (n div 8 mod 16) div 2 ^ (4 * (n mod 8)) mod 16)"

lemma info_words: "utf8_state_info = map of_nat info"
  by (simp add: utf8_state_info_def info_def)

lemma info_length: "length info = 32"
  by (simp add: info_def)

lemma info_bounded: "i < 32 \<Longrightarrow> info ! i < 2 ^ 32"
proof -
  assume "i < 32"
  then have "info ! i \<in> set info" by (intro nth_mem) (simp add: info_def)
  then show ?thesis by (auto simp: info_def)
qed

lemma low_bits: "of_nat n AND mask k = (of_nat (n mod 2 ^ k) :: 'a::len word)"
  by (simp only: take_bit_eq_mask [symmetric] take_bit_of_nat take_bit_nat_def)

lemma drop_bits: "n < 2 ^ 32 \<Longrightarrow> drop_bit k (of_nat n :: 32 word) = of_nat (n div 2 ^ k)"
proof -
  assume "n < 2 ^ 32"
  then have "unat (of_nat n :: 32 word) = n" by (simp add: unat_of_nat)
  then have "unat (drop_bit k (of_nat n :: 32 word)) = n div 2 ^ k" by (simp only: unat_drop_bit_eq drop_bit_nat_def)
  then show ?thesis by (metis of_nat_unat ucast_id)
qed

lemma nibble:
  assumes "w < 2 ^ 32"
  shows "drop_bit k (of_nat w :: 32 word) AND 0xf = of_nat (w div 2 ^ k mod 16)"
proof -
  have "(0xf :: 32 word) = mask 4" by (simp add: mask_eq_exp_minus_1)
  then show ?thesis using drop_bits [OF assms, of k] low_bits [of "w div 2 ^ k" 4, where 'a = 32] by simp
qed

lemma consume_nat:
  assumes "n < 256" "st < 8"
  shows "consumeUtf8Fragment (of_nat st) (of_nat n) cp =
    (of_nat (info ! (cat n + 16) div 2 ^ (4 * st) mod 16),
     if st \<noteq> 0 then push_bit 6 cp OR (of_nat n AND 0x3f) else of_nat (n mod 2 ^ (8 - cat n)))"
proof -
  have "unat (of_nat n :: 8 word) = n" using assms(1) by (simp add: unat_of_nat)
  then have f: "ucast (of_nat n :: 8 word) = (of_nat n :: 32 word)" by (metis of_nat_unat)
  have m: "(7 :: 32 word) = mask 3" "(0xf :: 32 word) = mask 4" "(0xff :: 32 word) = mask 8" by (simp_all add: mask_eq_exp_minus_1)
  have "unat (of_nat n :: 32 word) = n" using assms(1) by (simp add: unat_of_nat)
  then have "unat (drop_bit 3 (of_nat n :: 32 word)) = n div 8" by (simp only: unat_drop_bit_eq drop_bit_nat_def) simp
  then have d: "drop_bit 3 (of_nat n :: 32 word) = of_nat (n div 8)" by (metis of_nat_unat ucast_id)
  have i: "unat (drop_bit 3 (of_nat n) AND 0xf :: 32 word) = n div 8 mod 16" "unat (push_bit 2 (of_nat n AND 7 :: 32 word)) = 4 * (n mod 8)"
    unfolding d m low_bits push_bit_of_nat
    by (simp_all add: unat_of_nat push_bit_eq_mult mult.commute del: of_nat_mult)
  have c: "(if (of_nat n :: 32 word) < 128 then 0
      else drop_bit (unat (push_bit 2 (of_nat n AND 7 :: 32 word))) (utf8_state_info ! unat (drop_bit 3 (of_nat n) AND 0xf :: 32 word)) AND 0xf)
      = (of_nat (cat n) :: 32 word)"
  proof (cases "n < 128")
    case False
    have "utf8_state_info ! (n div 8 mod 16) = of_nat (info ! (n div 8 mod 16))" by (simp add: info_words info_length)
    moreover have "\<not> (of_nat n :: 32 word) < 128" using False assms(1) by (simp add: word_less_nat_alt unat_of_nat)
    ultimately show ?thesis
      unfolding i cat_def using False nibble [OF info_bounded, of "n div 8 mod 16" "4 * (n mod 8)"] by (simp only: if_False)
  next
    case True
    then have "(of_nat n :: 32 word) < 128" by (simp add: word_less_nat_alt unat_of_nat)
    then show ?thesis using True by (simp only: cat_def if_True semiring_1_class.of_nat_0)
  qed
  have k: "cat n < 16" by (simp add: cat_def)
  have k': "unat (of_nat (cat n) + 16 :: 32 word) = cat n + 16" "unat (of_nat (cat n) :: 32 word) = cat n"
  proof -
    have "of_nat (cat n) + 16 = (of_nat (cat n + 16) :: 32 word)" by simp
    then show "unat (of_nat (cat n) + 16 :: 32 word) = cat n + 16" using \<open>cat n < 16\<close> by (simp only: unat_of_nat) simp
    show "unat (of_nat (cat n) :: 32 word) = cat n" using \<open>cat n < 16\<close> by (simp add: unat_of_nat)
  qed
  have "drop_bit (cat n) (0xff :: 32 word) = mask (8 - cat n)" unfolding m by (rule bit_eqI) (auto simp: bit_simps)
  then have l: "drop_bit (cat n) (0xff :: 32 word) AND of_nat n = of_nat (n mod 2 ^ (8 - cat n))"
    using low_bits [of n "8 - cat n", where 'a = 32] by (simp add: and.commute)
  have "push_bit 2 (of_nat st :: 32 word) = of_nat (4 * st)" by (simp add: push_bit_eq_mult)
  then have t1: "unat (push_bit 2 (of_nat st :: 32 word)) = 4 * st" using assms(2) by (simp only: unat_of_nat) simp
  have t2: "(of_nat st = (0 :: 32 word)) = (st = 0)" "of_nat st \<noteq> S_RJCT"
    using assms(2) by (auto simp: unat_of_nat S_RJCT_def word_unat_eq_iff)
  have x: "drop_bit (4 * st) (utf8_state_info ! (cat n + 16)) AND 0xf = of_nat (info ! (cat n + 16) div 2 ^ (4 * st) mod 16)"
    using k info_bounded [of "cat n + 16"] nibble by (simp add: info_words info_length)
  show ?thesis unfolding consumeUtf8Fragment_def Let_def f c k' t1 x l using t2 by simp
qed


section \<open>Steps by the value of the byte\<close>

lemma cat_high: "list_all (\<lambda>n. cat n = (if n < 144 then 1 else if n < 160 then 7 else if n < 192 then 8 else if n < 194 then 9 else if n < 224 then 2
    else if n = 224 then 10 else if n = 237 then 4 else if n < 240 then 3 else if n = 240 then 11 else if n < 244 then 6
    else if n = 244 then 5 else 9)) [128..<256]"
  by (simp add: cat_def info_def upt_rec_numeral)

lemma cat_cases:
  assumes "n < 256"
  shows "cat n = (if n < 128 then 0 else if n < 144 then 1 else if n < 160 then 7 else if n < 192 then 8 else if n < 194 then 9
    else if n < 224 then 2 else if n = 224 then 10 else if n = 237 then 4 else if n < 240 then 3 else if n = 240 then 11
    else if n < 244 then 6 else if n = 244 then 5 else 9)"
proof (cases "n < 128")
  case False
  then have "n \<in> set [128..<256]" using assms by (simp only: set_upt atLeastLessThan_iff not_less simp_thms)
  from cat_high [unfolded list_all_iff, THEN bspec, OF this] False show ?thesis by simp
qed (simp add: cat_def)

lemma six_bits: "push_bit 6 (of_nat m) OR (of_nat n AND 0x3f) = (of_nat (m * 64 + n mod 64) :: 32 word)"
proof -
  have "(0x3f :: 32 word) = mask 6" by (simp add: mask_eq_exp_minus_1)
  then have n: "of_nat n AND 0x3f = (of_nat (n mod 64) :: 32 word)" using low_bits [of n 6, where 'a = 32] by simp
  have m: "push_bit 6 (of_nat m) = (of_nat (m * 64) :: 32 word)" by (simp add: push_bit_eq_mult)
  have "push_bit 6 (of_nat m) AND (of_nat n AND 0x3f) = (0 :: 32 word)"
    unfolding \<open>0x3f = mask 6\<close> by (rule bit_eqI) (auto simp: bit_simps)
  then have "push_bit 6 (of_nat m) OR (of_nat n AND 0x3f) = push_bit 6 (of_nat m) + (of_nat n AND 0x3f :: 32 word)"
    by (simp only: disjunctive_add_eq_or)
  then show ?thesis using m n by simp
qed

lemma uint8_char: "n < 256 \<Longrightarrow> uint8 (char_of n) = of_nat n"
  by (metis mod_less of_char_of of_nat_of_char uint8_def)

lemma char_nat: obtains n where "c = char_of (n :: nat)" "n < 256"
proof
  show "c = char_of (of_char c :: nat)" by simp
qed simp

text \<open>A first byte gives the bits it holds, and the state tells what may follow.\<close>

lemma first_table: "c < 12 \<Longrightarrow> info ! (c + 16) mod 16 = [0, 8, 1, 2, 4, 7, 6, 8, 8, 8, 3, 5] ! c"
proof -
  assume "c < 12"
  then have "c \<in> {0, 1, 2, 3, 4, 5, 6, 7, 8, 9, 10, 11}" unfolding insert_iff empty_iff by presburger
  then show ?thesis by (elim insertE emptyE) (simp_all add: info_def)
qed

lemma first_byte:
  assumes "n < 256"
  shows "consumeUtf8Fragment 0 (uint8 (char_of n)) cp =
    (if n < 128 then 0 else if n < 194 then 8 else if n < 224 then 1 else if n = 224 then 3 else if n = 237 then 4
     else if n < 240 then 2 else if n = 240 then 5 else if n < 244 then 6 else if n = 244 then 7 else 8, of_nat (n mod 2 ^ (8 - cat n)))"
proof -
  have "cat n < 12" using cat_cases [OF assms] by simp
  then have "consumeUtf8Fragment 0 (of_nat n) cp = (of_nat ([0, 8, 1, 2, 4, 7, 6, 8, 8, 8, 3, 5] ! cat n), of_nat (n mod 2 ^ (8 - cat n)))"
    using consume_nat [OF assms, of 0 cp] first_table by simp
  moreover have "[0, 8, 1, 2, 4, 7, 6, 8, 8, 8, 3, 5] ! cat n =
      (if n < 128 then 0 else if n < 194 then 8 else if n < 224 then 1 else if n = 224 then 3 else if n = 237 then 4
       else if n < 240 then 2 else if n = 240 then 5 else if n < 244 then 6 else if n = 244 then 7 else (8 :: nat))"
    unfolding cat_cases [OF assms] by simp
  ultimately show ?thesis unfolding uint8_char [OF assms] by (simp only: of_nat_numeral semiring_1_class.of_nat_0 semiring_1_class.of_nat_1 if_distrib [of of_nat] cong: if_cong)
qed

text \<open>The rows of the table that the continuation bytes select, and that no other byte continues.\<close>

lemma next_table:
  assumes "c < 12" "st \<in> {1, 2, 3, 4, 5, 6, 7}"
  shows "info ! (c + 16) div 2 ^ (4 * st) mod 16 =
    (if c = 1 then [8, 0, 1, 8, 1, 8, 2, 2] ! st else if c = 7 then [8, 0, 1, 8, 1, 2, 2, 8] ! st
     else if c = 8 then [8, 0, 1, 1, 8, 2, 2, 8] ! st else 8)"
proof -
  have "c \<in> {0, 1, 2, 3, 4, 5, 6, 7, 8, 9, 10, 11}" unfolding insert_iff empty_iff using assms(1) by presburger
  then show ?thesis using assms(2) by (elim insertE emptyE) (simp_all add: info_def)
qed

lemma middle_byte:
  assumes "n < 256" "st \<in> {1, 2, 3, 4, 5, 6, 7}"
  shows "consumeUtf8Fragment (of_nat st) (uint8 (char_of n)) (of_nat m) =
    (if 128 \<le> n \<and> n < 192 \<and> taken st (n - 128) then of_nat (next_state st) else 8, of_nat (m * 64 + n mod 64))"
proof -
  have st: "st < 8" "st \<noteq> 0" using assms(2) by auto
  have c: "cat n < 12" "cat n = 1 \<longleftrightarrow> 128 \<le> n \<and> n < 144" "cat n = 7 \<longleftrightarrow> 144 \<le> n \<and> n < 160"
      "cat n = 8 \<longleftrightarrow> 160 \<le> n \<and> n < 192"
    using cat_cases [OF assms(1)] by simp_all
  have "(of_nat (info ! (cat n + 16) div 2 ^ (4 * st) mod 16) :: 32 word) =
      (if 128 \<le> n \<and> n < 192 \<and> taken st (n - 128) then of_nat (next_state st) else 8)"
    unfolding next_table [OF c(1) assms(2)]
    using assms(2) c(2-4) by (elim insertE emptyE) (auto simp: taken_def next_state_def)
  then show ?thesis
    using consume_nat [OF assms(1) st(1), of "of_nat m"] st(2) by (simp add: uint8_char [OF assms(1)] six_bits)
qed


section \<open>Decoding what was encoded\<close>

lemma middle_step:
  assumes "st \<in> {1, 2, 3, 4, 5, 6, 7}" "k < 64" "taken st k"
  shows "consumeUtf8Fragment (of_nat st) (uint8 (char_of (128 + k))) (of_nat m) = (of_nat (next_state st), of_nat (m * 64 + k))"
proof -
  have "(128 + k) mod 64 = k" using assms(2) mod_mult_self1 [of k 2 64] by (simp add: add.commute)
  then show ?thesis using middle_byte [of "128 + k" st m] assms by (simp del: of_nat_add of_nat_mult)
qed

lemma first_step:
  "k < 128 \<Longrightarrow> consumeUtf8Fragment 0 (uint8 (char_of k)) cp = (0, of_nat k)"
  "2 \<le> k \<Longrightarrow> k < 32 \<Longrightarrow> consumeUtf8Fragment 0 (uint8 (char_of (192 + k))) cp = (1, of_nat k)"
  "k < 16 \<Longrightarrow> consumeUtf8Fragment 0 (uint8 (char_of (224 + k))) cp = (if k = 0 then 3 else if k = 13 then 4 else 2, of_nat k)"
  "k \<le> 4 \<Longrightarrow> consumeUtf8Fragment 0 (uint8 (char_of (240 + k))) cp = (if k = 0 then 5 else if k = 4 then 7 else 6, of_nat k)"
proof -
  show "k < 128 \<Longrightarrow> consumeUtf8Fragment 0 (uint8 (char_of k)) cp = (0, of_nat k)"
    using first_byte [of k cp] by (simp add: cat_def)
  show "consumeUtf8Fragment 0 (uint8 (char_of (192 + k))) cp = (1, of_nat k)" if k: "2 \<le> k" "k < 32"
  proof -
    have "(192 + k) mod 64 = k" using k mod_mult_self1 [of k 3 64] by (simp add: add.commute)
    then show ?thesis using k first_byte [of "192 + k" cp] cat_cases [of "192 + k"] by (simp del: of_nat_add)
  qed
  show "consumeUtf8Fragment 0 (uint8 (char_of (224 + k))) cp = (if k = 0 then 3 else if k = 13 then 4 else 2, of_nat k)" if k: "k < 16"
  proof -
    have "(224 + k) mod 2 ^ (8 - cat (224 + k)) = k"
    proof -
      have "cat (224 + k) = (if k = 0 then 10 else if k = 13 then 4 else 3)" using k cat_cases [of "224 + k"] by simp
      moreover have "(224 + k) mod 32 = k" using k mod_mult_self1 [of k 7 32] by (simp add: add.commute)
      ultimately show ?thesis by simp
    qed
    then show ?thesis using k first_byte [of "224 + k" cp] by (simp del: of_nat_add)
  qed
  show "consumeUtf8Fragment 0 (uint8 (char_of (240 + k))) cp = (if k = 0 then 5 else if k = 4 then 7 else 6, of_nat k)" if k: "k \<le> 4"
  proof -
    have "(240 + k) mod 2 ^ (8 - cat (240 + k)) = k"
    proof -
      have "cat (240 + k) = (if k = 0 then 11 else if k = 4 then 5 else 6)" using k cat_cases [of "240 + k"] by simp
      moreover have "k \<noteq> 4 \<Longrightarrow> (240 + k) mod 4 = k" using k mod_mult_self1 [of k 60 4] by (simp add: add.commute)
      ultimately show ?thesis using k by simp
    qed
    then show ?thesis using k first_byte [of "240 + k" cp] by (simp del: of_nat_add)
  qed
qed

text \<open>The lengths of an encoding.\<close>

lemma enc_two: "2 \<le> a \<Longrightarrow> a < 32 \<Longrightarrow> b < 64 \<Longrightarrow> scalar (a * 64 + b) \<and> enc (a * 64 + b) = [192 + a, 128 + b]"
  by (simp add: scalar_def enc_def)

lemma mod_64: "c < 64 \<Longrightarrow> (m * 64 + c) mod 64 = (c :: nat)"
  by simp

lemma enc_three:
  assumes "a < 16" "b < 64" "c < 64" "a = 0 \<Longrightarrow> 32 \<le> b" "a = 13 \<Longrightarrow> b < 32"
  shows "scalar ((a * 64 + b) * 64 + c) \<and> enc ((a * 64 + b) * 64 + c) = [224 + a, 128 + b, 128 + c]"
proof -
  let ?n = "(a * 64 + b) * 64 + c"
  have "?n div 64 = a * 64 + b" using assms(3) by simp
  moreover have "?n div 4096 = ?n div 64 div 64" by (simp add: div_mult2_eq [symmetric])
  moreover have "32 \<le> a * 64 + b" using assms(4) by (cases "a = 0") auto
  moreover have "a * 64 + b < 864 \<or> 896 \<le> a * 64 + b" using assms(2,5) by (cases "a < 13"; cases "a = 13") auto
  then have sc: "?n < 0xd800 \<or> 0xe000 \<le> ?n" using assms(1-3) by (elim disjE) (simp_all add: algebra_simps)
  moreover have "?n < 0x10000" "0x800 \<le> ?n" using assms(1-3) \<open>32 \<le> a * 64 + b\<close> by (simp_all add: algebra_simps)
  moreover have "?n mod 64 = c" by (rule mod_64 [OF assms(3)])
  moreover have "scalar ?n" using sc \<open>?n < 0x10000\<close> unfolding scalar_def by linarith
  ultimately show ?thesis using assms(2,3) by (simp add: enc_def)
qed

lemma enc_four:
  assumes "a \<le> 4" "b < 64" "c < 64" "d < 64" "a = 0 \<Longrightarrow> 16 \<le> b" "a = 4 \<Longrightarrow> b < 16"
  shows "scalar (((a * 64 + b) * 64 + c) * 64 + d) \<and> enc (((a * 64 + b) * 64 + c) * 64 + d) = [240 + a, 128 + b, 128 + c, 128 + d]"
proof -
  let ?n = "((a * 64 + b) * 64 + c) * 64 + d"
  have "?n div 64 = (a * 64 + b) * 64 + c" using assms(4) by simp
  moreover have "((a * 64 + b) * 64 + c) div 64 = a * 64 + b" using assms(3) by simp
  moreover have "?n mod 64 = d" "((a * 64 + b) * 64 + c) mod 64 = c" by (rule mod_64 [OF assms(4)], rule mod_64 [OF assms(3)])
  moreover have "?n div 4096 = ?n div 64 div 64" "?n div 262144 = ?n div 64 div 64 div 64" by (simp_all add: div_mult2_eq [symmetric])
  moreover have "16 \<le> a * 64 + b" using assms(5) by (cases "a = 0") auto
  moreover have "a * 64 + b < 272" using assms(1,2,6) by (cases "a = 4") auto
  then have "?n < 0x110000" using assms(3,4) by (simp add: algebra_simps)
  moreover have "0x10000 \<le> ?n" using \<open>16 \<le> a * 64 + b\<close> by (simp add: algebra_simps)
  ultimately show ?thesis using assms(2-4) by (simp add: enc_def scalar_def)
qed

lemma scalar_cases:
  assumes "scalar n"
  obtains "n < 128"
  | a b where "2 \<le> a" "a < 32" "b < 64" "n = a * 64 + b"
  | a b c where "a < 16" "b < 64" "c < 64" "a = 0 \<Longrightarrow> 32 \<le> b" "a = 13 \<Longrightarrow> b < 32" "n = (a * 64 + b) * 64 + c"
  | a b c d where "a \<le> 4" "b < 64" "c < 64" "d < 64" "a = 0 \<Longrightarrow> 16 \<le> b" "a = 4 \<Longrightarrow> b < 16"
      "n = ((a * 64 + b) * 64 + c) * 64 + d"
proof -
  define m where "m = n div 64"
  define l where "l = m div 64"
  have d: "n = m * 64 + n mod 64" "m = l * 64 + m mod 64" "l = l div 64 * 64 + l mod 64"
    "n mod 64 < 64" "m mod 64 < 64" "l mod 64 < 64"
    unfolding m_def l_def by simp_all
  have n3: "n = (l * 64 + m mod 64) * 64 + n mod 64" using d(1,2) by simp
  have n4: "n = ((l div 64 * 64 + l mod 64) * 64 + m mod 64) * 64 + n mod 64" using n3 d(3) by simp
  consider "n < 128" | "128 \<le> n" "n < 0x800" | "0x800 \<le> n" "n < 0x10000" | "0x10000 \<le> n" by linarith
  then show thesis
  proof cases
    case 2
    then show thesis using d(1,4) by (intro that(2) [of m "n mod 64"]) linarith+
  next
    case 3
    show thesis
    proof (rule that(3) [OF _ d(5,4) _ _ n3])
      show "l < 16" using 3 d(1,2) by linarith
      show "l = 0 \<Longrightarrow> 32 \<le> m mod 64" using 3 d(1,2,4) by linarith
      show "l = 13 \<Longrightarrow> m mod 64 < 32" using 3 d(1,2,4,5) assms unfolding scalar_def by linarith
    qed
  next
    case 4
    have "n < 0x110000" using 4 assms unfolding scalar_def by linarith
    show thesis
    proof (rule that(4) [OF _ d(6,5,4) _ _ n4])
      show "l div 64 \<le> 4" using d(1-3) \<open>n < 0x110000\<close> by linarith
      show "l div 64 = 0 \<Longrightarrow> 16 \<le> l mod 64" using 4 d(1-6) by linarith
      show "l div 64 = 4 \<Longrightarrow> l mod 64 < 16" using d(1-3) \<open>n < 0x110000\<close> by linarith
    qed
  qed (rule that(1))
qed


text \<open>One encoded scalar value at the front of the input, for both loops.\<close>

lemma middle_steps:
  "k < 64 \<Longrightarrow> consumeUtf8Fragment 1 (uint8 (char_of (128 + k))) (of_nat m) = (0, of_nat (m * 64 + k))"
  "k < 64 \<Longrightarrow> consumeUtf8Fragment 2 (uint8 (char_of (128 + k))) (of_nat m) = (1, of_nat (m * 64 + k))"
  "32 \<le> k \<Longrightarrow> k < 64 \<Longrightarrow> consumeUtf8Fragment 3 (uint8 (char_of (128 + k))) (of_nat m) = (1, of_nat (m * 64 + k))"
  "k < 32 \<Longrightarrow> consumeUtf8Fragment 4 (uint8 (char_of (128 + k))) (of_nat m) = (1, of_nat (m * 64 + k))"
  "16 \<le> k \<Longrightarrow> k < 64 \<Longrightarrow> consumeUtf8Fragment 5 (uint8 (char_of (128 + k))) (of_nat m) = (2, of_nat (m * 64 + k))"
  "k < 64 \<Longrightarrow> consumeUtf8Fragment 6 (uint8 (char_of (128 + k))) (of_nat m) = (2, of_nat (m * 64 + k))"
  "k < 16 \<Longrightarrow> consumeUtf8Fragment 7 (uint8 (char_of (128 + k))) (of_nat m) = (2, of_nat (m * 64 + k))"
  using middle_step [of 1 k m] middle_step [of 2 k m] middle_step [of 3 k m] middle_step [of 4 k m] middle_step [of 5 k m]
    middle_step [of 6 k m] middle_step [of 7 k m]
  by (simp_all add: taken_def next_state_def del: of_nat_add of_nat_mult)

lemma three_bytes:
  assumes "a < 16" "b < 64" "a = 0 \<Longrightarrow> 32 \<le> b" "a = 13 \<Longrightarrow> b < 32"
  obtains st where "st \<noteq> 0" "st \<noteq> S_RJCT" "consumeUtf8Fragment 0 (uint8 (char_of (224 + a))) cp = (st, of_nat a)"
    "consumeUtf8Fragment st (uint8 (char_of (128 + b))) (of_nat a) = (1, of_nat (a * 64 + b))"
proof (rule that)
  let ?st = "if a = 0 then 3 else if a = 13 then 4 else 2 :: 32 word"
  show "?st \<noteq> 0" "?st \<noteq> S_RJCT" by (simp_all add: S_RJCT_def)
  show "consumeUtf8Fragment 0 (uint8 (char_of (224 + a))) cp = (?st, of_nat a)" by (rule first_step(3) [OF assms(1)])
  show "consumeUtf8Fragment ?st (uint8 (char_of (128 + b))) (of_nat a) = (1, of_nat (a * 64 + b))"
  proof (cases "a = 0")
    case True
    then show ?thesis using middle_steps(3) [OF assms(3) [OF True] assms(2)] by (simp only: if_P)
  next
    case nz: False
    show ?thesis
    proof (cases "a = 13")
      case True
      then show ?thesis using middle_steps(4) [OF assms(4) [OF True]] nz by (simp only: if_P if_not_P if_False)
    next
      case False
      then show ?thesis using middle_steps(2) [OF assms(2)] nz by (simp only: if_not_P if_False)
    qed
  qed
qed

lemma four_bytes:
  assumes "a \<le> 4" "b < 64" "a = 0 \<Longrightarrow> 16 \<le> b" "a = 4 \<Longrightarrow> b < 16"
  obtains st where "st \<noteq> 0" "st \<noteq> S_RJCT" "consumeUtf8Fragment 0 (uint8 (char_of (240 + a))) cp = (st, of_nat a)"
    "consumeUtf8Fragment st (uint8 (char_of (128 + b))) (of_nat a) = (2, of_nat (a * 64 + b))"
proof (rule that)
  let ?st = "if a = 0 then 5 else if a = 4 then 7 else 6 :: 32 word"
  show "?st \<noteq> 0" "?st \<noteq> S_RJCT" by (simp_all add: S_RJCT_def)
  show "consumeUtf8Fragment 0 (uint8 (char_of (240 + a))) cp = (?st, of_nat a)" by (rule first_step(4) [OF assms(1)])
  show "consumeUtf8Fragment ?st (uint8 (char_of (128 + b))) (of_nat a) = (2, of_nat (a * 64 + b))"
  proof (cases "a = 0")
    case True
    then show ?thesis using middle_steps(5) [OF assms(3) [OF True] assms(2)] by (simp only: if_P)
  next
    case nz: False
    show ?thesis
    proof (cases "a = 4")
      case True
      then show ?thesis using middle_steps(7) [OF assms(4) [OF True]] nz by (simp only: if_P if_not_P if_False)
    next
      case False
      then show ?thesis using middle_steps(6) [OF assms(2)] nz by (simp only: if_not_P if_False)
    qed
  qed
qed

lemma from_loop_utf8:
  assumes "scalar n"
  shows "from_loop emit 0 cp (utf8 n @ cs) = emit (of_nat n) @ from_loop emit 0 0 cs"
  using assms
proof (cases rule: scalar_cases)
  case 1
  then show ?thesis by (simp add: utf8_def enc_def first_step S_STRT_def)
next
  case (2 a b)
  then show ?thesis
    by (simp add: utf8_def enc_two first_step middle_steps S_STRT_def S_RJCT_def del: of_nat_add of_nat_mult)
next
  case (3 a b c)
  then have "utf8 n = map char_of [224 + a, 128 + b, 128 + c]" using enc_three [of a b c] by (simp add: utf8_def)
  moreover obtain st where "st \<noteq> 0" "st \<noteq> S_RJCT" "consumeUtf8Fragment 0 (uint8 (char_of (224 + a))) cp = (st, of_nat a)"
    "consumeUtf8Fragment st (uint8 (char_of (128 + b))) (of_nat a) = (1, of_nat (a * 64 + b))"
    using three_bytes [OF 3(1,2,4,5)] by blast
  ultimately show ?thesis using 3 middle_steps
    by (simp add: S_STRT_def S_RJCT_def del: of_nat_add of_nat_mult)
next
  case (4 a b c d)
  then have "utf8 n = map char_of [240 + a, 128 + b, 128 + c, 128 + d]" using enc_four [of a b c d] by (simp add: utf8_def)
  moreover obtain st where "st \<noteq> 0" "st \<noteq> S_RJCT" "consumeUtf8Fragment 0 (uint8 (char_of (240 + a))) cp = (st, of_nat a)"
    "consumeUtf8Fragment st (uint8 (char_of (128 + b))) (of_nat a) = (2, of_nat (a * 64 + b))"
    using four_bytes [OF 4(1,2,5,6)] by blast
  ultimately show ?thesis using 4 middle_steps
    by (simp add: S_STRT_def S_RJCT_def del: of_nat_add of_nat_mult)
qed

lemma valid_loop_utf8:
  assumes "scalar n"
  shows "valid_loop 0 cp (utf8 n @ cs) = valid_loop 0 (of_nat n) cs"
  using assms
proof (cases rule: scalar_cases)
  case 1
  then show ?thesis by (simp add: utf8_def enc_def first_step S_RJCT_def)
next
  case (2 a b)
  then show ?thesis
    by (simp add: utf8_def enc_two first_step middle_steps S_RJCT_def del: of_nat_add of_nat_mult)
next
  case (3 a b c)
  then have "utf8 n = map char_of [224 + a, 128 + b, 128 + c]" using enc_three [of a b c] by (simp add: utf8_def)
  moreover obtain st where "st \<noteq> 0" "st \<noteq> S_RJCT" "consumeUtf8Fragment 0 (uint8 (char_of (224 + a))) cp = (st, of_nat a)"
    "consumeUtf8Fragment st (uint8 (char_of (128 + b))) (of_nat a) = (1, of_nat (a * 64 + b))"
    using three_bytes [OF 3(1,2,4,5)] by blast
  ultimately show ?thesis using 3 middle_steps
    by (simp add: S_RJCT_def del: of_nat_add of_nat_mult)
next
  case (4 a b c d)
  then have "utf8 n = map char_of [240 + a, 128 + b, 128 + c, 128 + d]" using enc_four [of a b c d] by (simp add: utf8_def)
  moreover obtain st where "st \<noteq> 0" "st \<noteq> S_RJCT" "consumeUtf8Fragment 0 (uint8 (char_of (240 + a))) cp = (st, of_nat a)"
    "consumeUtf8Fragment st (uint8 (char_of (128 + b))) (of_nat a) = (2, of_nat (a * 64 + b))"
    using four_bytes [OF 4(1,2,5,6)] by blast
  ultimately show ?thesis using 4 middle_steps
    by (simp add: S_RJCT_def del: of_nat_add of_nat_mult)
qed


section \<open>The encoder\<close>

lemma as_char_of_nat: "as_char (of_nat x) = char_of x"
proof -
  have "char_of (x mod 2 ^ 32) = (char_of (x mod 2 ^ 32 mod 256) :: char)" by simp
  also have "x mod 2 ^ 32 mod 256 = x mod 256" by (simp add: mod_mod_cancel)
  finally show ?thesis by (simp add: as_char_def unat_of_nat)
qed

lemma mod_div: "n mod 4096 div 64 = n div 64 mod (64 :: nat)" "n mod 262144 div 4096 = n div 4096 mod (64 :: nat)"
proof -
  have "n mod 4096 = 64 * (n div 64 mod 64) + n mod 64" using mod_mult2_eq [of n 64 64] by simp
  then show "n mod 4096 div 64 = n div 64 mod 64" by simp
  have "n mod 262144 = 4096 * (n div 4096 mod 64) + n mod 4096" using mod_mult2_eq [of n 4096 64] by simp
  moreover have "n mod 4096 < 4096" by simp
  ultimately show "n mod 262144 div 4096 = n div 4096 mod 64" by (metis div_less div_mult_self4 add.right_neutral zero_neq_numeral add.commute)
qed

lemma encoder_bytes:
  assumes "n < 2 ^ 32"
  defines "u \<equiv> of_nat n :: 32 word"
  shows "as_char u = char_of n" "as_char (drop_bit 6 u + 192) = char_of (192 + n div 64)"
    "as_char ((u AND 0x3f) + 128) = char_of (128 + n mod 64)" "as_char (drop_bit 12 u + 224) = char_of (224 + n div 4096)"
    "as_char (drop_bit 6 (u AND 0xfff) + 128) = char_of (128 + n div 64 mod 64)"
    "as_char (drop_bit 18 u + 240) = char_of (240 + n div 262144)"
    "as_char (drop_bit 12 (u AND 0x3ffff) + 128) = char_of (128 + n div 4096 mod 64)"
proof -
  have m: "(0x3f :: 32 word) = mask 6" "(0xfff :: 32 word) = mask 12" "(0x3ffff :: 32 word) = mask 18" by (simp_all add: mask_eq_exp_minus_1)
  have plus: "of_nat x + numeral y = (of_nat (numeral y + x) :: 32 word)" for x y by simp
  have b: "n mod 2 ^ k < 2 ^ 32" for k using assms(1) by (meson mod_less_eq_dividend order.strict_trans1)
  show "as_char u = char_of n" "as_char (drop_bit 6 u + 192) = char_of (192 + n div 64)"
    "as_char ((u AND 0x3f) + 128) = char_of (128 + n mod 64)" "as_char (drop_bit 12 u + 224) = char_of (224 + n div 4096)"
    "as_char (drop_bit 6 (u AND 0xfff) + 128) = char_of (128 + n div 64 mod 64)"
    "as_char (drop_bit 18 u + 240) = char_of (240 + n div 262144)"
    "as_char (drop_bit 12 (u AND 0x3ffff) + 128) = char_of (128 + n div 4096 mod 64)"
    unfolding u_def m low_bits drop_bits [OF assms(1)] drop_bits [OF b] plus as_char_of_nat by (simp_all add: mod_div)
qed

lemma word_ranges:
  fixes u :: "32 word"
  shows "u \<le> 0x7f \<longleftrightarrow> unat u \<le> 0x7f" "0x80 \<le> u \<longleftrightarrow> 0x80 \<le> unat u" "u \<le> 0x7ff \<longleftrightarrow> unat u \<le> 0x7ff"
    "0x800 \<le> u \<longleftrightarrow> 0x800 \<le> unat u" "u \<le> 0xd7ff \<longleftrightarrow> unat u \<le> 0xd7ff" "0xe000 \<le> u \<longleftrightarrow> 0xe000 \<le> unat u"
    "u \<le> 0xffff \<longleftrightarrow> unat u \<le> 0xffff" "0x10000 \<le> u \<longleftrightarrow> 0x10000 \<le> unat u" "u \<le> 0x10ffff \<longleftrightarrow> unat u \<le> 0x10ffff"
  by (simp_all add: word_le_nat_alt)

lemma append_utf8:
  assumes "scalar n"
  shows "appendUTF8 str (of_nat n) = str @ utf8 n"
proof -
  have n: "n < 2 ^ 32" using assms unfolding scalar_def by auto
  then have u: "unat (of_nat n :: 32 word) = n" by (simp add: unat_of_nat)
  show ?thesis unfolding appendUTF8.simps [of str "of_nat n"] encoder_bytes [OF n] word_ranges u
    using assms by (auto simp: scalar_def utf8_def enc_def)
qed

lemma append_other:
  assumes "\<not> scalar (unat u)"
  shows "appendUTF8 str u = str @ utf8 0xfffd"
proof -
  have u: "0xd800 \<le> unat u" "unat u < 0xe000 \<or> 0x110000 \<le> unat u" using assms unfolding scalar_def by auto
  then have "appendUTF8 str u = appendUTF8 str 0xfffd"
    unfolding appendUTF8.simps [of str u] word_ranges by (elim disjE) simp_all
  then show ?thesis using append_utf8 [of "0xfffd" str] by (simp add: scalar_def)
qed

section \<open>Strings\<close>

lemma scalar_fffd: "scalar 0xfffd"
  by (simp add: scalar_def)

definition scalar_of :: "32 word \<Rightarrow> nat" where
  "scalar_of u = (if scalar (unat u) then unat u else 0xfffd)"

lemma scalar_of: "scalar (scalar_of u)"
  by (simp add: scalar_of_def scalar_fffd)

lemma append_scalar_of: "appendUTF8 str u = str @ utf8 (scalar_of u)"
  using append_utf8 [of "unat u" str] append_other [of u str] by (simp add: scalar_of_def)

lemma toUtf8_32_eq: "toUtf8_32 us = concat (map (utf8 \<circ> scalar_of) us)"
proof -
  have "foldl appendUTF8 str us = str @ concat (map (utf8 \<circ> scalar_of) us)" for str
    by (induction us arbitrary: str) (simp_all add: append_scalar_of)
  then show ?thesis by (simp add: toUtf8_32_def)
qed

lemma from_loop_string:
  "\<forall>n\<in>set ns. scalar n \<Longrightarrow> from_loop emit 0 cp (concat (map utf8 ns)) = concat (map (emit \<circ> of_nat) ns)"
  by (induction ns arbitrary: cp) (simp_all add: from_loop_utf8)

lemma valid_string: "\<forall>n\<in>set ns. scalar n \<Longrightarrow> validUtf8 (concat (map utf8 ns))"
proof -
  have "\<forall>n\<in>set ns. scalar n \<Longrightarrow> valid_loop 0 cp (concat (map utf8 ns))" for cp
    by (induction ns arbitrary: cp) (simp_all add: valid_loop_utf8)
  then show "\<forall>n\<in>set ns. scalar n \<Longrightarrow> validUtf8 (concat (map utf8 ns))" by (simp add: validUtf8_def S_STRT_def)
qed

text \<open>What \<open>validUtf8\<close> accepts is a string of encoded scalar values.\<close>

lemma valid_middle:
  assumes "valid_loop (of_nat st) (of_nat m) cs" "st \<in> {1, 2, 3, 4, 5, 6, 7}"
  obtains k rest where "cs = char_of (128 + k) # rest" "k < 64" "taken st k" "valid_loop (of_nat (next_state st)) (of_nat (m * 64 + k)) rest"
proof (cases cs)
  case Nil
  have "(of_nat st :: 32 word) \<noteq> 0" using assms(2) by auto
  then show ?thesis using assms(1) Nil by simp
next
  case (Cons c rest)
  obtain x where x: "c = char_of (x :: nat)" "x < 256" by (rule char_nat)
  have v: "128 \<le> x \<and> x < 192 \<and> taken st (x - 128)" "valid_loop (of_nat (next_state st)) (of_nat (m * 64 + x mod 64)) rest"
    using assms(1) unfolding Cons x(1) valid_loop.simps middle_byte [OF x(2) assms(2)]
    by (auto simp: S_RJCT_def split: if_splits simp del: of_nat_add of_nat_mult)
  then obtain k where k: "x = 128 + k" "k < 64" "taken st k" by (intro that [of "x - 128"]) auto
  then have "x mod 64 = k" using mod_mult_self1 [of k 2 64] by (simp add: add.commute)
  then show ?thesis using Cons x(1) v(2) k by (intro that [of k rest]) auto
qed

lemma next1: "of_nat (next_state 1) = (0 :: 32 word)" and next2: "next_state 2 = 1"
  by (simp_all add: next_state_def)

lemma valid_front:
  assumes "valid_loop 0 cp (c # cs)"
  obtains n rest where "scalar n" "c # cs = utf8 n @ rest" "valid_loop 0 (of_nat n) rest"
proof -
  obtain x where x: "c = char_of (x :: nat)" "x < 256" by (rule char_nat)
  let ?st = "fst (consumeUtf8Fragment 0 (uint8 c) cp)" and ?cp = "snd (consumeUtf8Fragment 0 (uint8 c) cp)"
  have v: "?st \<noteq> S_RJCT" "valid_loop ?st ?cp cs" using assms by (auto simp: case_prod_beta)
  then have "x < 128 \<or> 194 \<le> x \<and> x < 224 \<or> 224 \<le> x \<and> x < 240 \<or> 240 \<le> x \<and> x \<le> 244"
    unfolding x(1) first_byte [OF x(2)] by (auto simp: S_RJCT_def split: if_splits)
  then consider "x < 128" | "194 \<le> x" "x < 224" | "224 \<le> x" "x < 240" | "240 \<le> x" "x \<le> 244" by blast
  then show thesis
  proof cases
    case 1
    then show thesis using v(2) x(1) by (intro that [of x cs]) (simp_all add: scalar_def utf8_def enc_def first_step)
  next
    case case2: 2
    obtain a where 2: "x = 192 + a" "2 \<le> a" "a < 32" using case2 by (intro that [of "x - 192"]) auto
    have "valid_loop (of_nat 1) (of_nat a) cs" using v(2) x(1) 2 by (simp add: first_step(2))
    then obtain b r where b: "cs = char_of (128 + b) # r" "b < 64" "valid_loop 0 (of_nat (a * 64 + b)) r"
      by (rule valid_middle) (auto simp: next_state_def)
    show thesis
    proof (rule that [OF _ _ b(3)])
      show "scalar (a * 64 + b)" using enc_two [OF 2(2,3) b(2)] by simp
      show "c # cs = utf8 (a * 64 + b) @ r" using enc_two [OF 2(2,3) b(2)] x(1) 2(1) b(1) by (simp add: utf8_def)
    qed
  next
    case case3: 3
    obtain a where 3: "x = 224 + a" "a < 16" using case3 by (intro that [of "x - 224"]) auto
    define st :: nat where "st = (if a = 0 then 3 else if a = 13 then 4 else 2)"
    have st: "st \<in> {1, 2, 3, 4, 5, 6, 7}" "next_state st = 1" "taken st b \<Longrightarrow> (a = 0 \<longrightarrow> 32 \<le> b) \<and> (a = 13 \<longrightarrow> b < 32)" for b
      by (auto simp: st_def next_state_def taken_def split: if_splits)
    have "of_nat st = (if a = 0 then 3 else if a = 13 then 4 else 2 :: 32 word)" by (simp add: st_def)
    then have "valid_loop (of_nat st) (of_nat a) cs" using v(2) unfolding x(1) 3(1) first_step(3) [OF 3(2)] by (simp only: fst_conv snd_conv)
    from valid_middle [OF this st(1)] obtain b r where b: "cs = char_of (128 + b) # r" "b < 64" "taken st b"
      "valid_loop (of_nat 1) (of_nat (a * 64 + b)) r" unfolding st(2) by metis
    obtain d q where d: "r = char_of (128 + d) # q" "d < 64" "valid_loop 0 (of_nat ((a * 64 + b) * 64 + d)) q"
      by (rule valid_middle [OF b(4)]) (simp, simp only: next1)
    have e: "scalar ((a * 64 + b) * 64 + d)" "enc ((a * 64 + b) * 64 + d) = [224 + a, 128 + b, 128 + d]"
      using enc_three [OF 3(2) b(2) d(2)] st(3) [OF b(3)] by blast+
    then show thesis using x(1) 3(1) b(1) d(1) by (intro that [OF e(1) _ d(3)]) (simp add: utf8_def)
  next
    case case4: 4
    obtain a where 4: "x = 240 + a" "a \<le> 4" using case4 by (intro that [of "x - 240"]) auto
    define st :: nat where "st = (if a = 0 then 5 else if a = 4 then 7 else 6)"
    have st: "st \<in> {1, 2, 3, 4, 5, 6, 7}" "next_state st = 2" "taken st b \<Longrightarrow> (a = 0 \<longrightarrow> 16 \<le> b) \<and> (a = 4 \<longrightarrow> b < 16)" for b
      by (auto simp: st_def next_state_def taken_def split: if_splits)
    have "of_nat st = (if a = 0 then 5 else if a = 4 then 7 else 6 :: 32 word)" by (simp add: st_def)
    then have "valid_loop (of_nat st) (of_nat a) cs" using v(2) unfolding x(1) 4(1) first_step(4) [OF 4(2)] by (simp only: fst_conv snd_conv)
    from valid_middle [OF this st(1)] obtain b r where b: "cs = char_of (128 + b) # r" "b < 64" "taken st b"
      "valid_loop (of_nat 2) (of_nat (a * 64 + b)) r" unfolding st(2) by metis
    obtain d q where d: "r = char_of (128 + d) # q" "d < 64" "valid_loop (of_nat 1) (of_nat ((a * 64 + b) * 64 + d)) q"
      by (rule valid_middle [OF b(4)]) (simp, simp only: next2)
    obtain f p where f: "q = char_of (128 + f) # p" "f < 64" "valid_loop 0 (of_nat (((a * 64 + b) * 64 + d) * 64 + f)) p"
      by (rule valid_middle [OF d(3)]) (simp, simp only: next1)
    have e: "scalar (((a * 64 + b) * 64 + d) * 64 + f)" "enc (((a * 64 + b) * 64 + d) * 64 + f) = [240 + a, 128 + b, 128 + d, 128 + f]"
      using enc_four [OF 4(2) b(2) d(2) f(2)] st(3) [OF b(3)] by blast+
    then show thesis using x(1) 4(1) b(1) d(1) f(1) by (intro that [OF e(1) _ f(3)]) (simp add: utf8_def)
  qed
qed

lemma valid_string_iff: "validUtf8 s \<longleftrightarrow> (\<exists>ns. (\<forall>n\<in>set ns. scalar n) \<and> s = concat (map utf8 ns))"
proof
  have "valid_loop 0 cp s \<Longrightarrow> \<exists>ns. (\<forall>n\<in>set ns. scalar n) \<and> s = concat (map utf8 ns)" for cp
  proof (induction s arbitrary: cp rule: length_induct)
    case (1 s)
    show ?case
    proof (cases s)
      case Nil
      then show ?thesis by (intro exI [of _ "[]"]) simp
    next
      case (Cons c cs)
      obtain n rest where f: "scalar n" "s = utf8 n @ rest" "valid_loop 0 (of_nat n) rest"
        using valid_front [of cp c cs] "1.prems" Cons by blast
      have "utf8 n \<noteq> []" by (simp add: utf8_def enc_def)
      then have "length rest < length s" using f(2) by simp
      then obtain ns where "\<forall>n\<in>set ns. scalar n" "rest = concat (map utf8 ns)" using "1.IH" f(3) by blast
      then show ?thesis using f(1,2) by (intro exI [of _ "n # ns"]) simp
    qed
  qed
  then show "validUtf8 s \<Longrightarrow> \<exists>ns. (\<forall>n\<in>set ns. scalar n) \<and> s = concat (map utf8 ns)" by (simp add: validUtf8_def S_STRT_def)
qed (auto intro: valid_string)


section \<open>The conversions\<close>

text \<open>32-bit strings: what is no scalar value is replaced on the way, and nothing else changes.\<close>

lemma emit32_string: "concat (map (emit32 \<circ> of_nat) ns) = map of_nat ns"
  by (induction ns) (simp_all add: emit32_def)

lemma unat_scalar: "scalar n \<Longrightarrow> unat (of_nat n :: 32 word) = n"
  by (auto simp: scalar_def unat_of_nat)

theorem utf32_roundtrip:
  "fromUtf8_32 (toUtf8_32 us) = map (\<lambda>u. if scalar (unat u) then u else 0xfffd) us \<and> validUtf8 (toUtf8_32 us)"
proof -
  have "fromUtf8_32 (toUtf8_32 us) = map of_nat (map scalar_of us)"
    using from_loop_string [of "map scalar_of us" emit32 0] emit32_string [of "map scalar_of us"] scalar_of
    by (simp add: fromUtf8_32_def S_STRT_def toUtf8_32_eq comp_assoc)
  moreover have "of_nat (scalar_of u) = (if scalar (unat u) then u else 0xfffd)" for u by (simp add: scalar_of_def)
  moreover have "validUtf8 (toUtf8_32 us)" using valid_string [of "map scalar_of us"] scalar_of by (simp add: toUtf8_32_eq flip: map_map)
  ultimately show ?thesis by simp
qed

theorem utf8_roundtrip: "toUtf8_32 (fromUtf8_32 s) = s \<longleftrightarrow> validUtf8 s"
proof
  assume "validUtf8 s"
  then obtain ns where ns: "\<forall>n\<in>set ns. scalar n" "s = concat (map utf8 ns)" using valid_string_iff by blast
  have "scalar_of (of_nat n) = n" if "scalar n" for n
    using that by (simp add: scalar_of_def unat_scalar)
  then have "map (scalar_of \<circ> of_nat) ns = ns" using ns(1) by (simp add: map_idI)
  moreover have "fromUtf8_32 s = map of_nat ns" using from_loop_string [OF ns(1), of emit32 0] ns(2)
    by (simp add: fromUtf8_32_def S_STRT_def emit32_string)
  ultimately show "toUtf8_32 (fromUtf8_32 s) = s" using ns(2) by (simp add: toUtf8_32_eq) (metis map_map)
next
  assume "toUtf8_32 (fromUtf8_32 s) = s"
  then show "validUtf8 s" using utf32_roundtrip [of "fromUtf8_32 s"] by metis
qed

text \<open>16-bit strings: a string of scalar values in UTF-16 is encoded as they are, and comes back.\<close>

lemma surrogates:
  shows "is_surrogate c \<longleftrightarrow> 0xd800 \<le> unat c \<and> unat c < 0xe000" "is_high_surrogate c \<longleftrightarrow> 0xd800 \<le> unat c \<and> unat c < 0xdc00"
    "is_low_surrogate c \<longleftrightarrow> 0xdc00 \<le> unat c \<and> unat c < 0xe000"
proof -
  have "unat c < 2 ^ 32" using unsigned_less [of c, where 'a = nat] by simp
  then show "is_surrogate c \<longleftrightarrow> 0xd800 \<le> unat c \<and> unat c < 0xe000"
    by (auto simp: is_surrogate_def in_range_def word_less_nat_alt unat_sub_if')
  have m: "(0xfffffc00 :: 32 word) = NOT (mask 10)" by (simp add: mask_eq_exp_minus_1)
  have "c - (c AND mask 10) = c AND NOT (c AND mask 10)"
    by (rule disjunctive_diff_eq_and_not) (rule bit_eqI, simp add: bit_simps)
  also have "\<dots> = c AND NOT (mask 10)" by (rule bit_eqI) (auto simp: bit_simps)
  finally have "c AND NOT (mask 10) = of_nat (unat c) - of_nat (unat c mod 1024)"
    using low_bits [of "unat c" 10, where 'a = 32] by simp
  also have "\<dots> = of_nat (unat c - unat c mod 1024)" by (simp add: of_nat_diff)
  finally have "unat (c AND 0xfffffc00) = unat c - unat c mod 1024"
    unfolding m using \<open>unat c < 2 ^ 32\<close> by (simp only: unat_of_nat) simp
  also have "\<dots> = 1024 * (unat c div 1024)" by (simp add: minus_mod_eq_mult_div)
  finally have u: "unat (c AND 0xfffffc00) = 1024 * (unat c div 1024)" .
  have "is_high_surrogate c \<longleftrightarrow> unat c div 1024 = 54" "is_low_surrogate c \<longleftrightarrow> unat c div 1024 = 55"
    unfolding is_high_surrogate_def is_low_surrogate_def word_unat_eq_iff u by simp_all
  then show "is_high_surrogate c \<longleftrightarrow> 0xd800 \<le> unat c \<and> unat c < 0xdc00" "is_low_surrogate c \<longleftrightarrow> 0xdc00 \<le> unat c \<and> unat c < 0xe000"
    by (auto simp: div_nat_eqI dest: div_less_iff_less_mult)
qed

lemma ucast_units:
  "x < 0x10000 \<Longrightarrow> ucast (of_nat x :: 16 word) = (of_nat x :: 32 word)" "x < 0x100000000 \<Longrightarrow> ucast (of_nat x :: 32 word) = (of_nat x :: 16 word)"
proof -
  assume "x < 0x10000"
  then have "unat (of_nat x :: 16 word) = x" by (simp add: unat_of_nat)
  then show "ucast (of_nat x :: 16 word) = (of_nat x :: 32 word)" by (metis of_nat_unat)
next
  assume "x < 0x100000000"
  then have "unat (of_nat x :: 32 word) = x" by (simp add: unat_of_nat)
  then show "ucast (of_nat x :: 32 word) = (of_nat x :: 16 word)" by (metis of_nat_unat)
qed

lemma emit16_utf16:
  assumes "scalar n"
  shows "emit16 (of_nat n) = utf16 n"
proof (cases "n < 0x10000")
  case True
  then have "(of_nat n :: 32 word) \<le> 0xffff" using unat_scalar [OF assms] by (simp add: word_le_nat_alt)
  then show ?thesis using True by (simp add: emit16_def utf16_def ucast_units)
next
  case False
  define m where "m = n - 0x10000"
  have m: "m < 0x100000" "n mod 1024 = m mod 1024" "m < 2 ^ 32" using assms False mod_mult_self1 [of m 64 1024] by (auto simp: m_def scalar_def)
  have "\<not> (of_nat n :: 32 word) \<le> 0xffff" using False unat_scalar [OF assms] by (simp add: word_le_nat_alt)
  moreover have "of_nat n - 0x10000 = (of_nat m :: 32 word)" using False by (simp add: m_def of_nat_diff)
  moreover have "(of_nat m AND 0x3ff :: 32 word) = of_nat (m mod 1024)"
    using low_bits [of m 10, where 'a = 32] by (simp add: mask_eq_exp_minus_1)
  moreover have "drop_bit 10 (of_nat m :: 32 word) = of_nat (m div 1024)" using drop_bits [OF m(3), of 10] by simp
  moreover have "of_nat (m div 1024) + 0xd800 = (of_nat (0xd800 + m div 1024) :: 32 word)" "of_nat (m mod 1024) + 0xdc00 = (of_nat (0xdc00 + m mod 1024) :: 32 word)"
    by simp_all
  moreover have "0xd800 + m div 1024 < 0x100000000" "0xdc00 + m mod 1024 < 0x100000000" using m(1) by auto
  ultimately show ?thesis
    using False by (simp only: emit16_def utf16_def Let_def if_False m(2) ucast_units flip: m_def)
qed

lemma to_loop16_front: "\<not> is_surrogate (ucast u) \<Longrightarrow> to_loop16 str (u # us) = to_loop16 (appendUTF8 str (ucast u)) us"
  by (cases us) (simp_all add: Let_def)

lemma to_loop16_step:
  assumes "scalar n"
  shows "to_loop16 str (utf16 n @ us) = to_loop16 (str @ utf8 n) us"
proof (cases "n < 0x10000")
  case True
  then have "\<not> is_surrogate (of_nat n)" using assms unat_scalar [OF assms] by (auto simp: surrogates scalar_def)
  then show ?thesis using True append_utf8 [OF assms] by (simp add: utf16_def ucast_units to_loop16_front)
next
  case False
  define a b where "a = 0xd800 + (n - 0x10000) div 1024" and "b = 0xdc00 + n mod 1024"
  have ab: "0xd800 \<le> a" "a < 0xdc00" "0xdc00 \<le> b" "b < 0xe000" using assms False by (auto simp: a_def b_def scalar_def)
  have "a * 1024 + b = n + 0x35fdc00"
  proof -
    have "n = (n - 0x10000) + 64 * 1024" using False by simp
    then have "n mod 1024 = (n - 0x10000) mod 1024" by (metis mod_mult_self1)
    then show ?thesis using False div_mult_mod_eq [of "n - 0x10000" 1024] by (simp add: a_def b_def)
  qed
  moreover have "push_bit 10 (of_nat a) + of_nat b = (of_nat (a * 1024 + b) :: 32 word)" by (simp add: push_bit_eq_mult)
  ultimately have "push_bit 10 (of_nat a) + of_nat b - 0x35fdc00 = (of_nat n :: 32 word)" by simp
  moreover have "unat (of_nat a :: 32 word) = a" "unat (of_nat b :: 32 word) = b" using ab by (simp_all add: unat_of_nat)
  moreover have "utf16 n = [of_nat a, of_nat b]" using False by (simp add: utf16_def a_def b_def)
  ultimately show ?thesis using ab append_utf8 [OF assms] by (simp add: ucast_units surrogates Let_def)
qed

lemma to_loop16_utf16: "\<forall>n\<in>set ns. scalar n \<Longrightarrow> to_loop16 str (concat (map utf16 ns)) = str @ concat (map utf8 ns)"
  by (induction ns arbitrary: str) (simp_all add: to_loop16_step)

theorem utf16_roundtrip:
  assumes "\<forall>n\<in>set ns. scalar n"
  shows "toUtf8_16 (concat (map utf16 ns)) = concat (map utf8 ns) \<and> fromUtf8_16 (concat (map utf8 ns)) = concat (map utf16 ns)"
proof -
  have "concat (map (emit16 \<circ> of_nat) ns) = concat (map utf16 ns)" using assms by (simp add: emit16_utf16 cong: map_cong)
  then show ?thesis using to_loop16_utf16 [OF assms, of "[]"] from_loop_string [OF assms, of emit16 0]
    by (simp add: toUtf8_16_def fromUtf8_16_def S_STRT_def)
qed

text \<open>A byte that breaks off a character is swallowed with it, and so is the unit after an unpaired surrogate.\<close>

lemma broken_character_swallows: "fromUtf8_32 [CHR 0xC3, CHR ''A''] = [0xfffd]"
  by code_simp

lemma unpaired_surrogate_swallows: "toUtf8_16 [0xd800, 0x41] = utf8 0xfffd"
  using append_utf8 [of "0xfffd" "[]"] by (simp add: toUtf8_16_def surrogates Let_def scalar_def)

end
