(* ===== verification/Service_Stop.thy ===== *)
theory Service_Stop
  imports Infer_Flow Service_Props
begin

text \<open>
  \<open>main\<close> of \<open>src/src/http/main.cc\<close> from its last lines: the signal thread, \<open>loop.loop()\<close>, \<open>scheduler.stop()\<close> and the join, run
  together with the service. No thread count is set, so every connection belongs to the loop of \<open>main\<close>: what is in the inbox
  runs only while that loop does.
\<close>

section \<open>The run\<close>

text \<open>Before \<open>loop()\<close>, in it, in \<open>scheduler.stop()\<close>, in \<open>signalThread.join()\<close>, and after it.\<close>

datatype main_phase = Starting | Serving | Draining | Joining | Finished

text \<open>\<open>run_quit\<close> is \<open>quit_\<close> of the loop; \<open>signalled\<close> says that \<open>sigwait\<close> has returned, with which the signal thread ends.\<close>

record 's main_run =
  run_phase :: main_phase
  run_quit :: bool
  signalled :: bool
  run_sys :: "'s infer_system"


definition signal_thread :: "'s main_run \<Rightarrow> 's main_run" where
  "signal_thread m = m\<lparr>signalled := True, run_quit := True\<rparr>"

text \<open>The system after a step of the scheduler, whose new completions have been called.\<close>

definition scheduled :: "(nat, 's) scheduler \<Rightarrow> (nat, 's) scheduler \<Rightarrow> 's infer_system \<Rightarrow> 's infer_system" where
  "scheduled sc sc' sys = fold completion_call (drop (length (completions sc)) (completions sc'))
     (sys\<lparr>sys_api := (sys_api sys)\<lparr>api_scheduler := Some sc'\<rparr>\<rparr>)"

inductive main_step :: "(json \<Rightarrow> bytes) \<Rightarrow> (http_response \<Rightarrow> (bytes \<times> bytes) list) \<Rightarrow> (nat \<Rightarrow> 's backend_class)
    \<Rightarrow> 's main_run \<Rightarrow> 's main_run \<Rightarrow> bool"
  for dump :: "json \<Rightarrow> bytes" and order :: "http_response \<Rightarrow> (bytes \<times> bytes) list" and cls :: "nat \<Rightarrow> 's backend_class" where
  signal: "\<not> signalled m \<Longrightarrow> main_step dump order cls m (signal_thread m)"
| enter_loop: "run_phase m = Starting \<Longrightarrow> main_step dump order cls m (m\<lparr>run_phase := Serving, run_quit := False\<rparr>)"
| serve: "run_phase m = Serving \<Longrightarrow> infer_step dump order cls (run_sys m) sys' \<Longrightarrow>
     api_scheduler (sys_api sys') = Some sc \<Longrightarrow> running_flag sc \<and> \<not> stopping sc \<Longrightarrow>
     main_step dump order cls m (m\<lparr>run_sys := sys'\<rparr>)"
| leave_loop: "run_phase m = Serving \<Longrightarrow> run_quit m \<Longrightarrow> main_step dump order cls m (m\<lparr>run_phase := Draining\<rparr>)"
| threads: "run_phase m \<in> {Starting, Draining} \<Longrightarrow> api_scheduler (sys_api (run_sys m)) = Some sc \<Longrightarrow>
     worker_step cls sc sc' \<or> (\<exists>i < length (workers sc). workers sc ! i = Sleeping \<and> sc' = notify_one i sc) \<Longrightarrow>
     main_step dump order cls m (m\<lparr>run_sys := scheduled sc sc' (run_sys m)\<rparr>)"
| stop_called: "run_phase m = Draining \<Longrightarrow> api_scheduler (sys_api (run_sys m)) = Some sc \<Longrightarrow> \<not> stopping sc \<Longrightarrow>
     main_step dump order cls m (m\<lparr>run_sys := scheduled sc (stop_begin sc) (run_sys m)\<rparr>)"
| stop_returns: "run_phase m = Draining \<Longrightarrow> api_scheduler (sys_api (run_sys m)) = Some sc \<Longrightarrow>
     stopping sc \<Longrightarrow> \<not> notifying sc \<Longrightarrow> \<forall>w\<in>set (workers sc). w = Exited \<Longrightarrow>
     main_step dump order cls m (m\<lparr>run_phase := Joining, run_sys := scheduled sc (stop_end sc) (run_sys m)\<rparr>)"
| joined: "run_phase m = Joining \<Longrightarrow> signalled m \<Longrightarrow> main_step dump order cls m (m\<lparr>run_phase := Finished\<rparr>)"

definition main_reach :: "(json \<Rightarrow> bytes) \<Rightarrow> (http_response \<Rightarrow> (bytes \<times> bytes) list) \<Rightarrow> (nat \<Rightarrow> 's backend_class)
    \<Rightarrow> 's main_run \<Rightarrow> 's main_run \<Rightarrow> bool" where
  "main_reach dump order cls = (main_step dump order cls)\<^sup>*\<^sup>*"

lemmas main_reach_induct [consumes 1, case_names here on] =
  rtranclp_induct [of "main_step dump order cls", folded main_reach_def] for dump order cls

section \<open>A signal before the loop\<close>

text \<open>
  A signal that arrives before \<open>loop()\<close> is lost, and with it the only thread that waits for one: the process serves on and
  can no longer be stopped by a signal.
\<close>

lemma early_signal_lost:
  assumes "main_reach dump order cls m0 m" "run_phase m0 = Starting" "signalled m0"
  shows "run_phase m = Starting \<or> run_phase m = Serving"
proof -
  have "signalled m \<and> (run_phase m = Starting \<or> run_phase m = Serving \<and> \<not> run_quit m)"
    using assms(1)
  proof (induction rule: main_reach_induct)
    case here
    then show ?case using assms(2,3) by simp
  next
    case (on m m')
    from on(2,3) show ?case by cases auto
  qed
  then show ?thesis by blast
qed

section \<open>Runs of the service\<close>







section \<open>After the loop\<close>







section \<open>What a shutdown leaves\<close>




end
