(* ===== verification/Ping_Pong.thy ===== *)
theory Ping_Pong
  imports Tcp_Server Http_Server
begin

text \<open>
  The plain echo server and its client (\<open>src/example/server/testserver.cc\<close>, \<open>src/example/client/client.cpp\<close>). The server
  answers the first message of a connection with its own bytes and closes its side; the client sends one line and prints
  what it receives.
\<close>

section \<open>The server\<close>

text \<open>\<open>onConnection\<close> only formats a log message.\<close>

definition pp_onConnection :: "'a conn_world \<Rightarrow> 'a conn_world" where
  "pp_onConnection w = w"

definition pp_onMessage :: "int \<Rightarrow> timestamp \<Rightarrow> 'a conn_world \<Rightarrow> 'a conn_world" where
  "pp_onMessage cur time w =
     (let (msg, buf) = retrieveAllAsString (inputBuffer (conn w));
          w = w\<lparr>conn := (conn w)\<lparr>inputBuffer := buf\<rparr>\<rparr>;
          w = send cur msg w
      in shutdown cur w)"

definition pp_callbacks :: "int \<Rightarrow> ('a conn_world \<Rightarrow> 'a conn_world) \<Rightarrow> 'a conn_callbacks" where
  "pp_callbacks cur removal =
     \<lparr>connectionCallback = pp_onConnection, messageCallback = pp_onMessage cur, connCloseCallback = removal\<rparr>"

text \<open>
  The number of loop threads: \<open>hardware_concurrency()\<close> is unsigned, so that on a machine with one core the difference wraps and
  is negative as an \<open>int\<close>.
\<close>

definition pp_threads :: "32 word \<Rightarrow> int" where
  "pp_threads hardware_concurrency = sint (hardware_concurrency - 2)"

text \<open>The constructor with the name \<open>main\<close> gives it: a server whose number of threads is set.\<close>

definition pp_new :: "int \<Rightarrow> int \<Rightarrow> nat \<Rightarrow> nat option \<Rightarrow> sockaddr_in \<Rightarrow> 32 word \<Rightarrow> trace \<Rightarrow> crash + (tcp_server \<times> trace)" where
  "pp_new sock_answer bind_answer chaddr base addr hardware_concurrency tr =
     (case tcp_server_new sock_answer bind_answer chaddr base addr ''pingpangtest'' kNoReusePort tr of
        Inl e \<Rightarrow> Inl e
      | Inr (srv, tr) \<Rightarrow> Inr (server_setThreadNum (pp_threads hardware_concurrency) srv, tr))"

text \<open>With one or two cores no loop thread is made, and with more than two all but two cores get one.\<close>

lemma pp_threads_cores:
  assumes "1 \<le> n" "n < 2 ^ 31"
  shows "pp_threads (of_nat n) = int n - 2"
proof -
  have "sint (word_of_int x :: 32 word) = x" if "- (2 ^ 31) \<le> x" "x < 2 ^ 31" for x
    using that by (simp add: sint_sbintrunc' signed_take_bit_int_eq_self)
  moreover have "- (2 ^ 31) \<le> int n - 2" "int n - 2 < 2 ^ 31" using assms by simp_all
  ultimately have "sint (word_of_int (int n - 2) :: 32 word) = int n - 2" by blast
  moreover have "(of_nat n - 2 :: 32 word) = word_of_int (int n - 2)" by simp
  ultimately show ?thesis by (simp only: pp_threads_def)
qed

text \<open>A message for a connection that is up, and for one whose side is closed already.\<close>

definition pp_ready :: "int \<Rightarrow> 'a conn_world \<Rightarrow> bool" where
  "pp_ready cur w \<longleftrightarrow> conn_ok w \<and> isInLoopThread cur (io_loop w) \<and> net_calm (net_answer w)
     \<and> buf_ok (inputBuffer (conn w)) \<and> content (inputBuffer (conn w)) = []"

lemma retrieve_everything:
  "buf_ok b \<Longrightarrow> retrieveAllAsString b = (content b, retrieve (readableBytes b) b)"
  "buf_ok b \<Longrightarrow> buf_ok (retrieve (readableBytes b) b) \<and> content (retrieve (readableBytes b) b) = []"
  by (auto simp: retrieveAllAsString_def retrieveAsString_eq buf_defs length_content)

lemma message_arrives:
  assumes "pp_ready cur w" "chunk \<noteq> []"
  obtains b where "buf_ok b" "content b = []"
    "handleRead (pp_callbacks cur removal) (Inr chunk) t w = shutdown cur (send cur chunk (w\<lparr>conn := (conn w)\<lparr>inputBuffer := b\<rparr>\<rparr>))"
proof -
  obtain n b0 where r: "readFd (sock_fd (conn w)) (Inr chunk) (inputBuffer (conn w)) = (n, b0)" by (metis surj_pair)
  have b0: "n = Inr (length chunk)" "buf_ok b0" "content b0 = chunk"
    using readFd_Inr [of "inputBuffer (conn w)" "sock_fd (conn w)" chunk] assms(1) r by (simp_all add: pp_ready_def)
  show thesis
    using retrieve_everything [OF b0(2)] b0 r assms(2)
    by (intro that [of "retrieve (readableBytes b0) b0"])
      (simp_all add: handleRead_def pp_callbacks_def pp_onMessage_def Let_def)
qed

lemma first_message:
  fixes w :: "'a conn_world" and removal :: "'a conn_world \<Rightarrow> 'a conn_world" and chunk :: bytes and cur :: int and t :: timestamp
  assumes "pp_ready cur w" "conn_state (conn w) = kConnected" "chunk \<noteq> []"
  defines "w' \<equiv> handleRead (pp_callbacks cur removal) (Inr chunk) t w"
  shows "pp_ready cur w'" "conn_state (conn w') = kDisconnecting" "wire w' @ out_pending w' = wire w @ out_pending w @ chunk"
    "calls w' = calls w @ (if out_pending w' = [] then [SysShutdownWr (sock_fd (conn w'))] else [])"
proof -
  obtain b where b: "buf_ok b" "content b = []" "w' = shutdown cur (send cur chunk (w\<lparr>conn := (conn w)\<lparr>inputBuffer := b\<rparr>\<rparr>))"
    unfolding w'_def by (rule message_arrives [OF assms(1,3)])
  let ?w = "w\<lparr>conn := (conn w)\<lparr>inputBuffer := b\<rparr>\<rparr>" and ?s = "sendInLoop cur chunk (w\<lparr>conn := (conn w)\<lparr>inputBuffer := b\<rparr>\<rparr>)"
  have w: "conn_ok ?w" "conn_state (conn ?w) = kConnected" "isInLoopThread cur (io_loop ?w)" "net_calm (net_answer ?w)"
    "wire ?w = wire w" "out_pending ?w = out_pending w" "calls ?w = calls w"
    using assms(1,2) by (simp_all add: pp_ready_def conn_ok_def out_pending_def)
  have sent: "send cur chunk ?w = ?s" using w(2,3) by (simp add: send_def)
  note s = sendInLoop_ok [OF w(1), of cur chunk]
  have st: "conn_state (conn ?s) = kConnected" "isInLoopThread cur (io_loop ?s)" using s(3,5) w(2,3) by (simp_all add: isInLoopThread_def)
  then have w': "w' = shutdownInLoop (setState kDisconnecting ?s)" using b(3) sent by (simp add: shutdown_def Let_def)
  have ok: "conn_ok (setState kDisconnecting ?s)" using setState_ok [OF s(1)] st(1) by simp
  have idle: "isWriting (conn_channel (conn (setState kDisconnecting ?s))) = (out_pending (setState kDisconnecting ?s) \<noteq> [])"
    by (rule conn_ok_idle [OF ok]) simp
  have pend: "out_pending w' = out_pending ?s" by (simp add: w' out_pending_def)
  show "conn_state (conn w') = kDisconnecting" by (simp add: w')
  show "wire w' @ out_pending w' = wire w @ out_pending w @ chunk"
    using s(2) calm_accepts [OF w(4,2)] w(5,6) pend by (simp add: w')
  show "calls w' = calls w @ (if out_pending w' = [] then [SysShutdownWr (sock_fd (conn w'))] else [])"
    using s(4) idle w(7) by (simp add: w' out_pending_def)
  have "inputBuffer (conn ?s) = b" using send_frame(1) [of cur chunk ?w] sent by simp
  then show "pp_ready cur w'"
    using shutdownInLoop_ok [OF ok] b(1,2) st(2) w(4) sendInLoop_net [of cur chunk ?w]
    by (simp add: pp_ready_def w' setState_def shutdownInLoop_def isInLoopThread_def)
qed

lemma later_message:
  fixes w :: "'a conn_world" and removal :: "'a conn_world \<Rightarrow> 'a conn_world" and chunk :: bytes and cur :: int and t :: timestamp
  assumes "pp_ready cur w" "conn_state (conn w) = kDisconnecting" "chunk \<noteq> []"
  defines "w' \<equiv> handleRead (pp_callbacks cur removal) (Inr chunk) t w"
  shows "pp_ready cur w'" "conn_state (conn w') = kDisconnecting" "wire w' = wire w" "out_pending w' = out_pending w" "calls w' = calls w"
    "sock_fd (conn w') = sock_fd (conn w)"
proof -
  obtain b where b: "buf_ok b" "content b = []" "w' = shutdown cur (send cur chunk (w\<lparr>conn := (conn w)\<lparr>inputBuffer := b\<rparr>\<rparr>))"
    unfolding w'_def by (rule message_arrives [OF assms(1,3)])
  then have "w' = w\<lparr>conn := (conn w)\<lparr>inputBuffer := b\<rparr>\<rparr>" using assms(2) by (simp add: send_def shutdown_def)
  then show "pp_ready cur w'" "conn_state (conn w') = kDisconnecting" "wire w' = wire w" "out_pending w' = out_pending w" "calls w' = calls w"
    "sock_fd (conn w') = sock_fd (conn w)"
    using assms(1,2) b by (simp_all add: pp_ready_def conn_ok_def out_pending_def)
qed

text \<open>However a client's bytes are cut into messages, exactly the first message comes back, and then the FIN.\<close>

lemma later_messages:
  "pp_ready cur w \<Longrightarrow> conn_state (conn w) = kDisconnecting \<Longrightarrow> [] \<notin> set cs \<Longrightarrow>
   w' = fold (\<lambda>c. handleRead (pp_callbacks cur removal) (Inr c) t) cs w \<Longrightarrow>
   conn_state (conn w') = kDisconnecting \<and> wire w' = wire w \<and> out_pending w' = out_pending w \<and> calls w' = calls w
     \<and> sock_fd (conn w') = sock_fd (conn w)"
proof (induction cs arbitrary: w)
  case (Cons c cs)
  let ?w = "handleRead (pp_callbacks cur removal) (Inr c) t w"
  have ne: "c \<noteq> []" using Cons.prems(3) by auto
  note l = later_message [OF Cons.prems(1,2) ne, of removal t]
  have "conn_state (conn w') = kDisconnecting \<and> wire w' = wire ?w \<and> out_pending w' = out_pending ?w \<and> calls w' = calls ?w
      \<and> sock_fd (conn w') = sock_fd (conn ?w)"
    using Cons.IH [OF l(1,2)] Cons.prems(3,4) by simp
  then show ?case using l by simp
qed simp

theorem first_message_echoed:
  assumes "pp_ready cur w" "conn_state (conn w) = kConnected" "[] \<notin> set (c # cs)"
    "w' = fold (\<lambda>c. handleRead (pp_callbacks cur removal) (Inr c) t) (c # cs) w"
  shows "conn_state (conn w') = kDisconnecting \<and> wire w' @ out_pending w' = wire w @ out_pending w @ c
    \<and> calls w' = calls w @ (if out_pending w' = [] then [SysShutdownWr (sock_fd (conn w'))] else [])"
proof -
  have ne: "c \<noteq> []" "[] \<notin> set cs" using assms(3) by auto
  note f = first_message [OF assms(1,2) ne(1), of removal t]
  from later_messages [OF f(1,2) ne(2), of w' removal t] assms(4) f(3,4) show ?thesis by simp
qed

section \<open>The client\<close>

text \<open>
  The answers of the system: \<open>connect\<close>, the line typed in, \<open>send\<close>, and the two calls of \<open>recv\<close>, which give at most 1024 bytes.
\<close>

record client_env =
  connects :: bool
  typed :: bytes
  send_answer :: "bytes \<Rightarrow> int + nat"
  recv_first :: "int + bytes"
  recv_second :: "int + bytes"

text \<open>How a run ends: the exit code, the lines printed, and whether the socket was closed.\<close>

record client_end =
  exit_code :: int
  printed :: "bytes list"
  sock_closed :: bool

definition rbuf_of :: "client_env \<Rightarrow> bytes" where
  "rbuf_of c = c_str (take 1023 (typed c))"

text \<open>\<open>recv\<close> into an array, and the array as a C string: None if it has no terminator, so that printing it reads past its end.\<close>

definition recv_into :: "bytes \<Rightarrow> bytes \<Rightarrow> bytes" where
  "recv_into wbuf d = d @ drop (length d) wbuf"

definition as_text :: "bytes \<Rightarrow> bytes option" where
  "as_text wbuf = (if NUL \<in> set wbuf then Some (takeWhile (\<lambda>c. c \<noteq> NUL) wbuf) else None)"

definition received :: "bytes \<Rightarrow> bytes" where
  "received s = ''Received message from server: '' @ s"

definition recv_failed :: bytes where
  "recv_failed = ''Failed to receive data from server.''"

definition client_main :: "client_env \<Rightarrow> client_end option" where
  "client_main c =
     (if \<not> connects c then Some \<lparr>exit_code = 1, printed = [''Failed to connect to server.''], sock_closed = True\<rparr>
      else case send_answer c (rbuf_of c) of
        Inl e \<Rightarrow> Some \<lparr>exit_code = 1, printed = [''Failed to send data to server.''], sock_closed = True\<rparr>
      | Inr n \<Rightarrow>
     (case recv_first c of
        Inl e \<Rightarrow> Some \<lparr>exit_code = 1, printed = [recv_failed], sock_closed = True\<rparr>
      | Inr d \<Rightarrow>
          let wbuf = recv_into (replicate 1024 (NUL)) d in
          case as_text wbuf of
            None \<Rightarrow> None
          | Some s \<Rightarrow>
         (case recv_second c of
            Inl e \<Rightarrow> Some \<lparr>exit_code = 0, printed = [received s, recv_failed], sock_closed = False\<rparr>
          | Inr d2 \<Rightarrow>
              if d2 = [] then Some \<lparr>exit_code = 0, printed = [received s, ''Server closed the connection.''], sock_closed = True\<rparr>
              else
                case as_text (recv_into wbuf d2) of
                  None \<Rightarrow> None
                | Some s2 \<Rightarrow> Some \<lparr>exit_code = 0, printed = [received s, received s2], sock_closed = False\<rparr>)))"

lemma as_text_short:
  assumes "NUL \<notin> set d"
  shows "as_text (d @ replicate (Suc k) (NUL)) = Some d"
  using assms by (auto simp: as_text_def takeWhile_append)

text \<open>A message that fills the array has no terminator.\<close>

lemma full_array: "length d = 1024 \<Longrightarrow> NUL \<notin> set d \<Longrightarrow> as_text (recv_into (replicate 1024 (NUL)) d) = None"
  by (simp add: as_text_def recv_into_def)

text \<open>The second message is followed by what is left of the first.\<close>

lemma stale_tail:
  assumes "NUL \<notin> set d" "NUL \<notin> set d2" "length d2 \<le> length d" "length d < 1024"
  shows "as_text (recv_into (recv_into (replicate 1024 (NUL)) d) d2) = Some (d2 @ drop (length d2) d)"
proof -
  obtain k where k: "1024 - length d = Suc k" using assms(4) by (cases "1024 - length d") auto
  have "recv_into (recv_into (replicate 1024 (NUL)) d) d2 = (d2 @ drop (length d2) d) @ replicate (Suc k) (NUL)"
    using assms(3) by (simp add: recv_into_def k del: replicate_Suc)
  then show ?thesis using assms(1,2) as_text_short [of "d2 @ drop (length d2) d" k] by (auto dest: in_set_dropD)
qed

text \<open>
  Client and server together: what the client types comes back as far as it was in the first message, and then the connection
  ends. The client gets the reply in one piece.
\<close>

theorem client_gets_echo:
  assumes "connects c" "0 < length (typed c)" "length (typed c) < 1024" "NUL \<notin> set (typed c)"
    "send_answer c (typed c) = Inr (length (typed c))"
    "pp_ready cur w" "conn_state (conn w) = kConnected" "wire w = []" "out_pending w = []"
    "concat (m # ms) = typed c" "[] \<notin> set (m # ms)"
    "w' = fold (\<lambda>c. handleRead (pp_callbacks cur removal) (Inr c) t) (m # ms) w"
    "recv_first c = Inr (wire w' @ out_pending w')" "recv_second c = Inr []"
  shows "client_main c = Some \<lparr>exit_code = 0, printed = [received m, ''Server closed the connection.''], sock_closed = True\<rparr>"
proof -
  have "rbuf_of c = typed c" using assms(3,4) by (auto simp: rbuf_of_def c_str_def takeWhile_eq_all_conv)
  moreover have m: "wire w' @ out_pending w' = m" using first_message_echoed [OF assms(6,7,11,12)] assms(8,9) by simp
  have nul: "NUL \<notin> set m" "length m < 1024" using assms(3,4) unfolding assms(10) [symmetric] by auto
  then obtain k where "1024 - length m = Suc k" by (cases "1024 - length m") auto
  then have "as_text (recv_into (replicate 1024 (NUL)) m) = Some m"
    using as_text_short [OF nul(1), of k] by (simp add: recv_into_def del: replicate_Suc)
  ultimately show ?thesis using assms(1,5,13,14) m by (simp add: client_main_def)
qed

lemma client_gets_echo_witness:
  "\<exists>w :: bool list conn_world. pp_ready 1 w \<and> (let w' = fold (\<lambda>c. handleRead (pp_callbacks 1 id) (Inr c) timestamp_default) [''hel'', ''lo''] w in
     client_main \<lparr>connects = True, typed = ''hello'', send_answer = (\<lambda>s. Inr (length s)), recv_first = Inr (wire w' @ out_pending w'),
       recv_second = Inr []\<rparr> = Some \<lparr>exit_code = 0, printed = [received ''hel'', ''Server closed the connection.''], sock_closed = True\<rparr>)"
proof -
  let ?w = "connectEstablished no_callbacks sample_world"
  note e = established_ok [OF sample_fresh(1)]
  have "net_answer ?w = net_answer sample_world" "inputBuffer (conn ?w) = buffer_new kInitialSize"
    by (simp_all add: connectEstablished_def no_callbacks_def setState_def sample_world_def tcp_connection_new_def Let_def)
  then have ready: "pp_ready 1 ?w" "conn_state (conn ?w) = kConnected"
    using e sample_fresh(2)
    by (simp_all add: pp_ready_def run_ok_def isInLoopThread_def net_calm_def sample_world_def tcp_connection_new_def buf_ok_new Let_def)
  let ?v = "fold (\<lambda>c. handleRead (pp_callbacks 1 id) (Inr c) timestamp_default) [''hel'', ''lo''] ?w"
  have "client_main \<lparr>connects = True, typed = ''hello'', send_answer = (\<lambda>s. Inr (length s)), recv_first = Inr (wire ?v @ out_pending ?v),
       recv_second = Inr []\<rparr> = Some \<lparr>exit_code = 0, printed = [received ''hel'', ''Server closed the connection.''], sock_closed = True\<rparr>"
    by (rule client_gets_echo [OF _ _ _ _ _ ready e(2,3) _ _ refl, where ms = "[''lo'']" and removal = id and t = timestamp_default]) simp_all
  then show ?thesis using ready(1) by (intro exI [of _ ?w] conjI) (simp_all only: Let_def)
qed

end
