(* ===== verification/Spec2Isabelle.thy ===== *)
theory Spec2Isabelle
  imports Http_Server Http_Roundtrip Timer_Queue Tcp_Server Tcp_Connection_Props Http_Parser_Props Inference_Api_Props
    Infer_Flow Service_Props Registry_Load Backend_Props Yolo_Post Yolo_Pre Idle_Wheel Log_Props Async_Logging
    Detect_Input Fs_Dirs Fs_Copy Fs_Utf8 Service_Stop Ping_Pong
begin

text \<open>
  A verification development for the repository: a reactor network library in C++ (\<open>src/src/muduo_core\<close>, \<open>base\<close>, \<open>timer\<close>),
  an HTTP server on it (\<open>src/src/http\<close>), an object-detection service on that (\<open>src/src/inference\<close>, \<open>src/src/api\<close>), and the
  library's logger and keep-alive wheel (\<open>src/src/logger\<close>, \<open>src/src/keepalive\<close>).

  The parts and how they interact:

  \<^item> A loop thread waits in its poller, dispatches the events of its channels, and then runs the functors other threads queued.
    A connection lives in one loop; sends, half-closes and read stops from other threads become functors.
  \<^item> The HTTP server feeds the input buffer of a connection to a parser and hands complete requests to a handler. A request
    for \<open>/v1/infer\<close> becomes a task of the scheduler; a worker runs it on a backend the registry chose, and the completion
    queues the response in the loop of the connection.
  \<^item> \<open>main\<close> reads the configuration, fills the registry, starts the scheduler (which loads the backends) and then the server.

  Theories, from the bottom:

  \<^item> \<open>Prelude\<close>: byte strings, decimal numerals, \<open>strtoull\<close>, C division, searching in strings, and the shared automation.
    \<open>Machine_Float\<close>, \<open>Float_Facts\<close>: IEEE single precision as a rational rounded after every operation, with NaN and infinities.
  \<^item> \<open>Net_Buffer\<close> (\<open>Buffer.h\<close>, \<open>Buffer.cc\<close>): the array with its two indices refines a byte queue (locale \<open>byte_queue\<close>).
    \<open>Time_Stamp\<close> (\<open>Timestamp\<close>).
  \<^item> \<open>Reactor\<close> (\<open>Channel\<close>, \<open>Poller\<close>, \<open>EPollPoller\<close>): the requests to \<open>epoll_ctl\<close> are recorded; locale \<open>io_multiplexer\<close> is what a loop
    expects of a poller. \<open>Event_Loop\<close> (\<open>EventLoop\<close>): sequential code, and a step relation of one loop with posting threads.
    \<open>Net_Socket\<close> (\<open>InetAddress\<close>, \<open>Socket\<close>, \<open>Thread\<close>, \<open>CurrentThread\<close>), \<open>Timer_Queue\<close> (\<open>Timer\<close>, \<open>TimerQueue\<close>: callbacks may add
    timers, and every \<open>Timestamp::now()\<close> is a reading of its own).
  \<^item> \<open>Tcp_Connection\<close> (\<open>TcpConnection\<close>) with \<open>Tcp_Connection_Props\<close>: runs of a connection under all orders of operations, events and
    functors. \<open>Tcp_Server\<close> (\<open>Acceptor\<close>, \<open>EventLoopThread\<close>, \<open>EventLoopThreadPool\<close>, \<open>TcpServer\<close>).
  \<^item> \<open>Http_Request\<close>, \<open>Http_Context\<close>, \<open>Http_Response\<close>, \<open>Http_Server\<close> (the classes of these names); \<open>Http_Parser_Props\<close> on fragmentation
    and bounds, \<open>Http_Multipart\<close> and \<open>Http_Roundtrip\<close> on what a client sends, multipart forms included: a wire format
    (which models no code) and the request the parser makes of it.
  \<^item> \<open>Inference_Types\<close> (the data types, and \<open>MockBackend\<close>): a backend class is a record of its operations over a state, and
    locale \<open>inference_backend\<close> is the contract of \<open>IInferenceBackend\<close>, which the mock backend and those of
    \<open>Inference_Backends\<close> (\<open>TensorFlowBackend\<close>, \<open>TensorRTBackend\<close>) are shown to keep. \<open>Backend_Props\<close>: who holds which handle, and
    the tensor order. \<open>Yolo_Processor\<close> (\<open>YoloV8Processor\<close>) with \<open>Yolo_Pre\<close> and \<open>Yolo_Post\<close>.
  \<^item> \<open>Model_Registry\<close>, \<open>Registry_File\<close>, \<open>Registry_Load\<close> (\<open>ModelRegistry\<close>): choosing a backend, reading the file, loading the backends;
    locale \<open>backend_table\<close> is what \<open>initialize\<close> needs of the objects.
  \<^item> \<open>Inference_Metrics\<close> (\<open>InferenceMetrics\<close>); \<open>Inference_Scheduler\<close> (\<open>InferenceScheduler\<close>): each critical section is a step;
    \<open>Scheduler_Props\<close>, \<open>Scheduler_Runs\<close>, \<open>Scheduler_Backends\<close>: invariants of all interleavings, the end of \<open>stop\<close>, and the backends of
    accepted tasks.
  \<^item> \<open>Inference_Api\<close>, \<open>Inference_Api_Props\<close> (\<open>InferenceController\<close>, \<open>InferenceJson\<close>); \<open>Infer_Flow\<close> runs controller, scheduler, loops and
    connections together, and shows that a client gets no answer but its own, at most once, and exactly one unless its
    connection went down or a write to it failed (the kernel's \<open>write\<close> may fail at any time); \<open>Service_Main\<close>, \<open>Service_Props\<close>
    (\<open>ManagementController\<close>, \<open>http/main.cc\<close>); \<open>Service_Stop\<close>: the signal thread, and what a shutdown does to waiting clients.
  \<^item> \<open>Idle_Wheel\<close> (\<open>CircularBuffer.h\<close>, \<open>myEntry.h\<close>, and the example that uses them, \<open>echoserver.cc\<close>); \<open>Log_Stream\<close>, \<open>Log_Props\<close>
    (\<open>FixedBuffer\<close>, \<open>LogStream\<close>, \<open>Logging\<close>, \<open>Logger\<close>), \<open>Log_File\<close> (\<open>FileUtil\<close>, \<open>LogFile\<close>), \<open>Async_Logging\<close> (\<open>AsyncLogging\<close>).
  \<^item> \<open>Detect_Demo\<close>, \<open>Detect_Props\<close>, \<open>Detect_Run\<close>: the stand-alone detector in \<open>src/end2end\<close> (\<open>common.hpp\<close>, \<open>yolov8.hpp\<close>, \<open>main.cpp\<close>), a
    program of its own: its buffers on device and host, the letterbox, and what ends a run. The CUDA calls whose results it ignores
    may fail without effect, and whether \<open>assert\<close> is compiled in is a parameter.
  \<^item> \<open>Fs_Path\<close>, \<open>Fs_Props\<close>, \<open>Fs_Modify\<close>: paths and the questions about files in the detector's file system library
    (\<open>end2end/include/filesystem.hpp\<close>, on Linux): a path as a string with its iterators, what its last element, stem and
    extension are, and how paths are put together. \<open>Detect_Input\<close>: what the detector does with its argument, over that library.
    \<open>Fs_Utf8\<close>: its conversions between UTF-8 and strings of wider units; the automaton accepts exactly what encodes scalar values.
    \<open>Fs_Copy\<close>: copying a file, whose loops have a number of rounds (two more than there are bytes, when every call makes progress;
    after an interrupted \<open>write\<close> no number is enough). \<open>Fs_Dirs\<close>: links, absolute paths and making directories.
  \<^item> \<open>Ping_Pong\<close>: the plain echo server and its client (\<open>example/server/testserver.cc\<close>, \<open>example/client/client.cpp\<close>), separately and
    together.

  How code becomes definitions. A class is a record with one field per member that matters, a member function is a
  definition that returns the new state; null pointers are None and using one is None for the operation. System and library
  calls outside the repository are functions given as arguments (\<open>write\<close>, \<open>epoll_ctl\<close>, \<open>localtime\<close>, \<open>stb_image\<close>, TensorFlow, TensorRT,
  CUDA, the JSON library), or their use is recorded in a trace. What the code relies on in their answers is a named
  hypothesis of the theorem that needs it. Threads are step relations, or lists of events that stand for an interleaving; a
  critical section is one step. Console output is left out.

  Loops. Loops over input are structural recursions or \<open>function\<close>s with a measure. \<open>onMessage\<close> and \<open>FileUtil::append\<close> take fuel: the
  first needs two rounds more than there are bytes in the buffer (theorem \<open>onMessage_ends\<close>), the second as many as there are
  bytes to write when every write takes something (\<open>log_files_keep\<close>), and never ends when none does (\<open>append_spins\<close>).

  Not modelled: the tests; what \<open>filesystem.hpp\<close>, the copy of a file system library in \<open>end2end/\<close>, has beyond these
  theories (removing, renaming and listing files, Windows), none of which the detector uses;
  \<open>third_party/\<close>; \<open>lib/include\<close>, older copies of the headers; the web page in \<open>root/\<close> and the scripts in \<open>tools/\<close>.
\<close>

end
